(* ===== verification/Prelude.thy ===== *)
theory Prelude
  imports Main "HOL-Library.Char_ord" "HOL-Library.List_Lexorder" "HOL-Library.Code_Target_Nat"
begin

text \<open>
  Shared ground of the development.

  Texts are byte lists (\<^typ>\<open>string\<close>), ordered lexicographically by byte, which is
  the order of Rust's \<^verbatim>\<open>str\<close>.  Unsigned machine integers are \<^typ>\<open>nat\<close> with the
  saturation or wrap-around of the source written out (\<open>sat_add32\<close>, \<open>sat_add64\<close>,
  \<open>wrap_add64\<close>); signed ones are \<^typ>\<open>int\<close>.  \<open>saturating_sub\<close> on unsigned integers
  is subtraction on \<^typ>\<open>nat\<close>.  A \<^verbatim>\<open>Result\<close> is a sum with the error on the left.
  The heap is taken to be large enough: an allocation never fails, so the
  out-of-memory branch of a \<^verbatim>\<open>try_reserve\<close> is not taken.

  The theory also holds what the sources use of the standard library's slices:
  \<open>binary_search_by\<close> (the halving loop), \<open>insert_at\<close> and \<open>remove_at\<close>, with their
  specification on strictly sorted lists.
\<close>

section \<open>Collections of facts\<close>

named_theorems sat_defs \<open>definitions of the saturating and wrapping operations\<close>
named_theorems frame_simps \<open>what an operation leaves alone\<close>
named_theorems inv_intros \<open>operations keep the invariant of their component\<close>

section \<open>Machine integers\<close>

definition u32_max :: nat where
  "u32_max = 2 ^ 32 - 1"

definition u64_max :: nat where
  "u64_max = 2 ^ 64 - 1"

definition i64_max :: int where
  "i64_max = 2 ^ 63 - 1"

definition i64_min :: int where
  "i64_min = - (2 ^ 63)"

definition sat_add32 :: "nat \<Rightarrow> nat \<Rightarrow> nat" where
  "sat_add32 a b = min (a + b) u32_max"

definition sat_add64 :: "nat \<Rightarrow> nat \<Rightarrow> nat" where
  "sat_add64 a b = min (a + b) u64_max"

definition sat_mul64 :: "nat \<Rightarrow> nat \<Rightarrow> nat" where
  "sat_mul64 a b = min (a * b) u64_max"

definition wrap_add64 :: "nat \<Rightarrow> nat \<Rightarrow> nat" where
  "wrap_add64 a b = (a + b) mod 2 ^ 64"

definition sat_i64 :: "int \<Rightarrow> int" where
  "sat_i64 z = max i64_min (min z i64_max)"

definition sat_addi :: "int \<Rightarrow> int \<Rightarrow> int" where
  "sat_addi a b = sat_i64 (a + b)"

definition sat_muli :: "int \<Rightarrow> int \<Rightarrow> int" where
  "sat_muli a b = sat_i64 (a * b)"

text \<open>Division of signed integers truncates towards zero, as in Rust.\<close>

definition trunc_div :: "int \<Rightarrow> int \<Rightarrow> int" where
  "trunc_div a b = sgn a * sgn b * (\<bar>a\<bar> div \<bar>b\<bar>)"

section \<open>Slices of the standard library\<close>

datatype ordering = OLess | OEqual | OGreater

definition ord_cmp :: "'a::linorder \<Rightarrow> 'a \<Rightarrow> ordering" where
  "ord_cmp x y = (if x < y then OLess else if x = y then OEqual else OGreater)"

text \<open>
  The loop of \<^verbatim>\<open>slice::binary_search_by\<close>: while more than one candidate is left,
  compare the middle one and keep the half that can hold the key.
\<close>

function bs_loop :: "(nat \<Rightarrow> ordering) \<Rightarrow> nat \<Rightarrow> nat \<Rightarrow> nat" where
  "bs_loop f base n =
     (if n \<le> 1 then base
      else bs_loop f (if f (base + n div 2) = OGreater then base else base + n div 2)
             (n - n div 2))"
  by pat_completeness auto
termination
  by (relation "measure (\<lambda>(f, base, n). n)") auto

declare bs_loop.simps [simp del]

text \<open>\<open>Inr i\<close>: found at \<open>i\<close>.  \<open>Inl i\<close>: absent, \<open>i\<close> is the place to insert.\<close>

definition binary_search_by :: "('a \<Rightarrow> ordering) \<Rightarrow> 'a list \<Rightarrow> nat + nat" where
  "binary_search_by f xs =
     (if xs = [] then Inl 0
      else let i = bs_loop (\<lambda>j. f (xs ! j)) 0 (length xs)
           in case f (xs ! i) of
                OEqual \<Rightarrow> Inr i
              | OLess \<Rightarrow> Inl (Suc i)
              | OGreater \<Rightarrow> Inl i)"

definition insert_at :: "nat \<Rightarrow> 'a \<Rightarrow> 'a list \<Rightarrow> 'a list" where
  "insert_at i x xs = take i xs @ x # drop i xs"

definition remove_at :: "nat \<Rightarrow> 'a list \<Rightarrow> 'a list" where
  "remove_at i xs = take i xs @ drop (Suc i) xs"

abbreviation strictly_sorted :: "'a::linorder list \<Rightarrow> bool" where
  "strictly_sorted \<equiv> sorted_wrt (<)"

section \<open>Lemmas\<close>

lemmas [sat_defs] = sat_add32_def sat_add64_def sat_mul64_def sat_addi_def sat_muli_def
  sat_i64_def u32_max_def u64_max_def i64_max_def i64_min_def

lemma sat_add32_le [simp]: "sat_add32 a b \<le> u32_max"
  by (simp add: sat_add32_def)

lemma sat_add64_le [simp]: "sat_add64 a b \<le> u64_max"
  by (simp add: sat_add64_def)

lemma u32_max_pos [simp]: "0 < u32_max"
  by (simp add: u32_max_def)

lemma ord_cmp_simps [simp]:
  "ord_cmp x y = OLess \<longleftrightarrow> x < y"
  "ord_cmp x y = OEqual \<longleftrightarrow> x = y"
  "ord_cmp x y = OGreater \<longleftrightarrow> y < x"
  by (auto simp: ord_cmp_def)

lemma strictly_sorted_nth_less:
  "strictly_sorted xs \<Longrightarrow> i < j \<Longrightarrow> j < length xs \<Longrightarrow> xs ! i < xs ! j"
  by (rule sorted_wrt_nth_less)

lemma strictly_sorted_distinct: "strictly_sorted xs \<Longrightarrow> distinct xs"
  by (simp add: strict_sorted_iff)

lemma strictly_sorted_set_eq:
  assumes "strictly_sorted xs" "strictly_sorted ys" "set xs = set ys"
  shows "xs = ys"
  using assms by (simp add: strict_sorted_iff sorted_distinct_set_unique)

lemma strictly_sorted_filter: "strictly_sorted xs \<Longrightarrow> strictly_sorted (filter P xs)"
  by (rule sorted_wrt_filter)

lemma bs_loop_range:
  assumes "0 < n"
  shows "base \<le> bs_loop f base n \<and> bs_loop f base n < base + n"
  using assms
proof (induction f base n rule: bs_loop.induct)
  case (1 f base n)
  show ?case
  proof (cases "n \<le> 1")
    case True
    with "1.prems" show ?thesis by (simp add: bs_loop.simps [of f base n])
  next
    case False
    let ?b = "if f (base + n div 2) = OGreater then base else base + n div 2"
    have "0 < n - n div 2" using False by simp
    from "1.IH" [OF False this] have "?b \<le> bs_loop f ?b (n - n div 2)
        \<and> bs_loop f ?b (n - n div 2) < ?b + (n - n div 2)" .
    with False show ?thesis
      by (auto simp: bs_loop.simps [of f base n] split: if_splits)
  qed
qed

text \<open>
  The invariant of the loop: everything before \<open>base\<close> is below the key, everything from \<open>base + n\<close> on is above it.
\<close>

lemma bs_loop_position:
  assumes "strictly_sorted xs" "0 < n" "base + n \<le> length xs"
    and "\<forall>j < base. xs ! j < k"
    and "\<forall>j < length xs. base + n \<le> j \<longrightarrow> k < xs ! j"
  shows "(\<forall>j < bs_loop (\<lambda>j. ord_cmp (xs ! j) k) base n. xs ! j < k)
       \<and> (\<forall>j < length xs. bs_loop (\<lambda>j. ord_cmp (xs ! j) k) base n < j \<longrightarrow> k < xs ! j)"
  using assms(2-5)
proof (induction n arbitrary: base rule: less_induct)
  case (less n)
  let ?f = "\<lambda>j. ord_cmp (xs ! j) k"
  let ?m = "base + n div 2"
  show ?case
  proof (cases "n \<le> 1")
    case True
    with less.prems show ?thesis by (auto simp: bs_loop.simps [of ?f base n])
  next
    case False
    then have m: "?m < length xs" and dec: "n - n div 2 < n" "0 < n - n div 2"
      using less.prems(2) by auto
    show ?thesis
    proof (cases "k < xs ! ?m")
      case True
      have up: "\<forall>j < length xs. base + (n - n div 2) \<le> j \<longrightarrow> k < xs ! j"
      proof (intro allI impI)
        fix j assume j: "j < length xs" "base + (n - n div 2) \<le> j"
        then have "?m \<le> j" by linarith
        then have "xs ! ?m \<le> xs ! j"
          using strictly_sorted_nth_less [OF assms(1) _ j(1), of ?m] by (cases "?m = j") auto
        with True show "k < xs ! j" by simp
      qed
      have "base + (n - n div 2) \<le> length xs" using less.prems(2) by linarith
      note IH = less.IH [OF dec this less.prems(3) up]
      have "bs_loop ?f base n = bs_loop ?f base (n - n div 2)"
        using True False by (subst bs_loop.simps) simp
      with IH show ?thesis by (simp only: simp_thms)
    next
      case le: False
      then have lo: "\<forall>j < ?m. xs ! j < k"
        using strictly_sorted_nth_less [OF assms(1) _ m] by fastforce
      have eq: "?m + (n - n div 2) = base + n" by simp
      note IH = less.IH [OF dec, of ?m, unfolded eq, OF less.prems(2) lo less.prems(4)]
      have "bs_loop ?f base n = bs_loop ?f ?m (n - n div 2)"
        using le False by (subst bs_loop.simps) simp
      with IH show ?thesis by (simp only: simp_thms)
    qed
  qed
qed

lemma binary_search_by_cases:
  assumes "strictly_sorted (map g xs)"
  shows "case binary_search_by (\<lambda>x. ord_cmp (g x) k) xs of
           Inr i \<Rightarrow> i < length xs \<and> g (xs ! i) = k
         | Inl i \<Rightarrow> i \<le> length xs \<and> (\<forall>j < i. g (xs ! j) < k)
                  \<and> (\<forall>j < length xs. i \<le> j \<longrightarrow> k < g (xs ! j))"
proof (cases "xs = []")
  case True
  then show ?thesis by (simp add: binary_search_by_def)
next
  case False
  let ?f = "\<lambda>j. ord_cmp (g (xs ! j)) k"
  let ?i = "bs_loop ?f 0 (length xs)"
  have r: "?i < length xs" using bs_loop_range [of "length xs" 0 ?f] False by simp
  have cong: "bs_loop (\<lambda>j. ord_cmp (map g xs ! j) k) b n = bs_loop ?f b n"
    if "b + n \<le> length xs" for b n using that
  proof (induction ?f b n rule: bs_loop.induct)
    case (1 b n)
    show ?case
    proof (cases "n \<le> 1")
      case True
      then show ?thesis by (simp add: bs_loop.simps)
    next
      case False
      then have "b + n div 2 < length xs" using "1.prems" by linarith
      then show ?thesis
        using "1.hyps" [OF False] "1.prems" False
          bs_loop.simps [of ?f b n] bs_loop.simps [of "\<lambda>j. ord_cmp (map g xs ! j) k" b n]
        by (auto simp: less_diff_conv2)
    qed
  qed
  have pos: "\<forall>j < ?i. g (xs ! j) < k" "\<forall>j < length xs. ?i < j \<longrightarrow> k < g (xs ! j)"
    using bs_loop_position [OF assms, of "length xs" 0 k] False r cong [of 0 "length xs"]
    by auto
  show ?thesis
  proof (cases "?f ?i")
    case OLess
    with r pos False show ?thesis
      by (auto simp: binary_search_by_def Let_def less_Suc_eq ord_cmp_def split: if_splits)
  next
    case OEqual
    with r False show ?thesis by (auto simp: binary_search_by_def Let_def ord_cmp_def split: if_splits)
  next
    case OGreater
    with r pos False show ?thesis
      by (auto simp: binary_search_by_def Let_def ord_cmp_def le_eq_less_or_eq split: if_splits)
  qed
qed

lemma length_insert_at [simp]: "i \<le> length xs \<Longrightarrow> length (insert_at i x xs) = Suc (length xs)"
  by (simp add: insert_at_def)

lemma set_insert_at [simp]: "set (insert_at i x xs) = insert x (set xs)"
  by (metis append_take_drop_id insert_at_def list.simps(15) set_append Un_insert_right)

lemma map_insert_at: "map f (insert_at i x xs) = insert_at i (f x) (map f xs)"
  by (simp add: insert_at_def take_map drop_map)

lemma set_remove_at_subset: "set (remove_at i xs) \<subseteq> set xs"
  by (auto simp: remove_at_def dest: in_set_takeD in_set_dropD)

lemma map_remove_at: "map f (remove_at i xs) = remove_at i (map f xs)"
  by (simp add: remove_at_def take_map drop_map)

lemma strictly_sorted_insert_at:
  assumes "strictly_sorted xs" "i \<le> length xs" "\<forall>j < i. xs ! j < k"
    and "\<forall>j < length xs. i \<le> j \<longrightarrow> k < xs ! j"
  shows "strictly_sorted (insert_at i k xs)"
proof -
  have t: "\<forall>x \<in> set (take i xs). x < k"
    using assms(2,3) by (auto simp: in_set_conv_nth)
  have d: "\<forall>x \<in> set (drop i xs). k < x"
    using assms(4) by (auto simp: in_set_conv_nth)
  have "strictly_sorted (take i xs @ drop i xs)" using assms(1) by simp
  then show ?thesis using t d unfolding insert_at_def
    by (simp only: sorted_wrt_append sorted_wrt.simps) auto
qed

lemma strictly_sorted_remove_at:
  assumes "strictly_sorted xs"
  shows "strictly_sorted (remove_at i xs)"
proof -
  have "strictly_sorted (take i xs @ drop i xs)" using assms by simp
  moreover have "drop (Suc i) xs = drop 1 (drop i xs)" by simp
  ultimately show ?thesis unfolding remove_at_def
    by (metis sorted_wrt_append sorted_wrt_drop in_set_dropD)
qed

end
