(* ===== verification/Types_Map.thy ===== *)
theory Types_Map
  imports Prelude
begin

text \<open>
  \<^verbatim>\<open>types/src/map.rs\<close>: the map from texts to values that every other type uses, a
  vector of pairs kept strictly sorted on the key.  Each operation is written as the
  source has it, over the index that the binary search returns.  \<open>hmap_inv\<close> is the
  stated invariant; the lemmas show that every operation keeps it and that, under it,
  the operations are lookup, update and deletion of a partial function.  The locale
  \<open>key_map\<close> states that contract and what clients derive from it.
\<close>

section \<open>The operations\<close>

type_synonym 'v hmap = "(string \<times> 'v) list"

definition hmap_inv :: "'v hmap \<Rightarrow> bool" where
  "hmap_inv m \<longleftrightarrow> strictly_sorted (map fst m)"

definition hmap_new :: "'v hmap" where
  "hmap_new = []"

definition hmap_len :: "'v hmap \<Rightarrow> nat" where
  "hmap_len m = length m"

definition hmap_is_empty :: "'v hmap \<Rightarrow> bool" where
  "hmap_is_empty m \<longleftrightarrow> m = []"

definition hmap_find :: "'v hmap \<Rightarrow> string \<Rightarrow> nat + nat" where
  "hmap_find m k = binary_search_by (\<lambda>p. ord_cmp (fst p) k) m"

definition hmap_get :: "'v hmap \<Rightarrow> string \<Rightarrow> 'v option" where
  "hmap_get m k =
     (case hmap_find m k of
        Inl _ \<Rightarrow> None
      | Inr i \<Rightarrow> if i < length m then Some (snd (m ! i)) else None)"

text \<open>\<^verbatim>\<open>get_mut\<close> followed by a write through the reference: the value at the key
  becomes \<open>f\<close> of what it was; nothing happens when the key is absent.\<close>

definition hmap_get_mut :: "'v hmap \<Rightarrow> string \<Rightarrow> ('v \<Rightarrow> 'v) \<Rightarrow> 'v hmap" where
  "hmap_get_mut m k f =
     (case hmap_find m k of
        Inl _ \<Rightarrow> m
      | Inr i \<Rightarrow> if i < length m then m[i := (fst (m ! i), f (snd (m ! i)))] else m)"

definition hmap_contains_key :: "'v hmap \<Rightarrow> string \<Rightarrow> bool" where
  "hmap_contains_key m k = (case hmap_find m k of Inl _ \<Rightarrow> False | Inr _ \<Rightarrow> True)"

text \<open>Returns the previous value and the new map.\<close>

definition hmap_insert :: "'v hmap \<Rightarrow> string \<Rightarrow> 'v \<Rightarrow> 'v option \<times> 'v hmap" where
  "hmap_insert m k v =
     (case hmap_find m k of
        Inr i \<Rightarrow> if i < length m then (Some (snd (m ! i)), m[i := (fst (m ! i), v)])
                else (None, m)
      | Inl i \<Rightarrow> (None, insert_at i (k, v) m))"

definition hmap_remove :: "'v hmap \<Rightarrow> string \<Rightarrow> 'v option \<times> 'v hmap" where
  "hmap_remove m k =
     (case hmap_find m k of
        Inl _ \<Rightarrow> (None, m)
      | Inr i \<Rightarrow> (Some (snd (m ! i)), remove_at i m))"

text \<open>\<^verbatim>\<open>retain\<close>: the closure says whether the pair stays and may change its value.\<close>

definition hmap_retain :: "(string \<Rightarrow> 'v \<Rightarrow> bool \<times> 'v) \<Rightarrow> 'v hmap \<Rightarrow> 'v hmap" where
  "hmap_retain keep m =
     map (\<lambda>(k, v). (k, snd (keep k v))) (filter (\<lambda>(k, v). fst (keep k v)) m)"

definition hmap_iter :: "'v hmap \<Rightarrow> (string \<times> 'v) list" where
  "hmap_iter m = m"

text \<open>\<^verbatim>\<open>iter_mut\<close> with \<open>f\<close> applied to every value in key order.\<close>

definition hmap_iter_mut :: "('v \<Rightarrow> 'v) \<Rightarrow> 'v hmap \<Rightarrow> 'v hmap" where
  "hmap_iter_mut f m = map (\<lambda>(k, v). (k, f v)) m"

definition hmap_keys :: "'v hmap \<Rightarrow> string list" where
  "hmap_keys m = map fst m"

text \<open>The insertion of a run of pairs, in order (a loop of \<^verbatim>\<open>insert\<close> calls).\<close>

fun hmap_insert_all :: "'v hmap \<Rightarrow> (string \<times> 'v) list \<Rightarrow> 'v hmap" where
  "hmap_insert_all m [] = m"
| "hmap_insert_all m ((k, v) # ps) = hmap_insert_all (snd (hmap_insert m k v)) ps"

section \<open>The contract of a keyed map\<close>

locale key_map =
  fixes get :: "'m \<Rightarrow> string \<Rightarrow> 'v option"
    and ins :: "'m \<Rightarrow> string \<Rightarrow> 'v \<Rightarrow> 'v option \<times> 'm"
    and adj :: "'m \<Rightarrow> string \<Rightarrow> ('v \<Rightarrow> 'v) \<Rightarrow> 'm"
    and del :: "'m \<Rightarrow> string \<Rightarrow> 'v option \<times> 'm"
    and inv :: "'m \<Rightarrow> bool"
  assumes get_ins: "inv m \<Longrightarrow> get (snd (ins m k v)) k' = (if k' = k then Some v else get m k')"
    and old_ins: "inv m \<Longrightarrow> fst (ins m k v) = get m k"
    and get_adj: "inv m \<Longrightarrow> get (adj m k f) k' = (if k' = k then map_option f (get m k) else get m k')"
    and get_del: "inv m \<Longrightarrow> get (snd (del m k)) k' = (if k' = k then None else get m k')"
    and old_del: "inv m \<Longrightarrow> fst (del m k) = get m k"
    and inv_ins: "inv m \<Longrightarrow> inv (snd (ins m k v))"
    and inv_adj: "inv m \<Longrightarrow> inv (adj m k f)"
    and inv_del: "inv m \<Longrightarrow> inv (snd (del m k))"
begin

lemmas specs = get_ins old_ins get_adj get_del old_del inv_ins inv_adj inv_del

text \<open>The idiom of the sources: change the value where it is, insert it otherwise.\<close>

lemma get_upsert:
  assumes "inv m"
  shows "get (case get m k of Some _ \<Rightarrow> adj m k f | None \<Rightarrow> snd (ins m k v)) k' =
           (if k' = k then Some (case get m k of Some x \<Rightarrow> f x | None \<Rightarrow> v) else get m k')"
  using assms by (auto simp: specs split: option.splits)

lemma inv_upsert:
  "inv m \<Longrightarrow> inv (case get m k of Some _ \<Rightarrow> adj m k f | None \<Rightarrow> snd (ins m k v))"
  by (auto simp: specs split: option.splits)

lemma ins_twice: "inv m \<Longrightarrow> get (snd (ins (snd (ins m k v)) k v')) = get (snd (ins m k v'))"
  by (rule ext) (simp add: specs)

lemma del_ins: "inv m \<Longrightarrow> get m k = None \<Longrightarrow> get (snd (del (snd (ins m k v)) k)) = get m"
  by (rule ext) (simp add: specs)

end

section \<open>The operations meet the contract\<close>

lemma hmap_inv_distinct: "hmap_inv m \<Longrightarrow> distinct (map fst m)"
  by (simp add: hmap_inv_def strictly_sorted_distinct)

lemma hmap_find_Inr:
  assumes "hmap_inv m" "hmap_find m k = Inr i"
  shows "i < length m" "fst (m ! i) = k"
  using binary_search_by_cases [of fst m k] assms
  by (simp_all add: hmap_inv_def hmap_find_def)

lemma hmap_find_Inl:
  assumes "hmap_inv m" "hmap_find m k = Inl i"
  shows "i \<le> length m" "\<forall>j < i. fst (m ! j) < k" "\<forall>j < length m. i \<le> j \<longrightarrow> k < fst (m ! j)"
  using binary_search_by_cases [of fst m k] assms
  by (simp_all add: hmap_inv_def hmap_find_def)

lemma hmap_find_Inl_absent:
  assumes "hmap_inv m" "hmap_find m k = Inl i"
  shows "k \<notin> fst ` set m"
proof
  assume "k \<in> fst ` set m"
  then obtain j where j: "j < length m" "fst (m ! j) = k"
    by (auto simp: in_set_conv_nth)
  show False
  proof (cases "j < i")
    case True with hmap_find_Inl(2) [OF assms] j show False by auto
  next
    case False with hmap_find_Inl(3) [OF assms] j show False by auto
  qed
qed

lemma map_of_nth_key:
  assumes "distinct (map fst m)" "i < length m"
  shows "map_of m (fst (m ! i)) = Some (snd (m ! i))"
  using assms by (metis map_of_is_SomeI nth_mem prod.collapse)

lemma hmap_get_map_of: "hmap_inv m \<Longrightarrow> hmap_get m k = map_of m k"
proof (cases "hmap_find m k")
  case (Inl i)
  assume inv: "hmap_inv m"
  have "map_of m k = None"
    using hmap_find_Inl_absent [OF inv Inl] by (simp add: map_of_eq_None_iff)
  then show ?thesis by (simp add: hmap_get_def Inl)
next
  case (Inr i)
  assume inv: "hmap_inv m"
  from hmap_find_Inr [OF inv Inr] show ?thesis
    using map_of_nth_key [OF hmap_inv_distinct [OF inv], of i]
    by (simp add: hmap_get_def Inr)
qed

lemma hmap_contains_key_iff: "hmap_inv m \<Longrightarrow> hmap_contains_key m k \<longleftrightarrow> k \<in> fst ` set m"
proof (cases "hmap_find m k")
  case (Inl i)
  assume "hmap_inv m"
  then show ?thesis using hmap_find_Inl_absent [OF _ Inl] by (simp add: hmap_contains_key_def Inl)
next
  case (Inr i)
  assume "hmap_inv m"
  then show ?thesis using hmap_find_Inr [OF _ Inr]
    by (auto simp: hmap_contains_key_def Inr image_iff dest: nth_mem intro: bexI [of _ "m ! i"])
qed

lemma map_fst_update_same [simp]:
  "i < length m \<Longrightarrow> fst p = fst (m ! i) \<Longrightarrow> map fst (m[i := p]) = map fst m"
  by (metis list_update_id map_update nth_map length_map)

lemma hmap_inv_get_mut [inv_intros]: "hmap_inv m \<Longrightarrow> hmap_inv (hmap_get_mut m k f)"
  by (auto simp: hmap_get_mut_def hmap_inv_def simp del: map_update split: sum.splits)

lemma hmap_keys_get_mut [simp]: "map fst (hmap_get_mut m k f) = map fst m"
  by (auto simp: hmap_get_mut_def split: sum.splits)

lemma hmap_inv_insert [inv_intros]:
  assumes "hmap_inv m"
  shows "hmap_inv (snd (hmap_insert m k v))"
proof (cases "hmap_find m k")
  case (Inl i)
  note p = hmap_find_Inl [OF assms Inl]
  have "strictly_sorted (insert_at i k (map fst m))"
    by (rule strictly_sorted_insert_at) (use assms p in \<open>auto simp: hmap_inv_def\<close>)
  then show ?thesis by (simp add: hmap_insert_def Inl hmap_inv_def map_insert_at)
next
  case (Inr i)
  from assms hmap_find_Inr [OF assms Inr] show ?thesis
    by (simp add: hmap_insert_def Inr hmap_inv_def)
qed

lemma hmap_inv_remove [inv_intros]: "hmap_inv m \<Longrightarrow> hmap_inv (snd (hmap_remove m k))"
  by (auto simp: hmap_remove_def hmap_inv_def map_remove_at strictly_sorted_remove_at
      split: sum.splits)

lemma hmap_inv_retain [inv_intros]:
  assumes "hmap_inv m"
  shows "hmap_inv (hmap_retain keep m)"
proof -
  have "map fst (hmap_retain keep m) = map fst (filter (\<lambda>(k, v). fst (keep k v)) m)"
    by (simp add: hmap_retain_def case_prod_unfold)
  then show ?thesis using assms
    by (simp add: hmap_inv_def sorted_wrt_map sorted_wrt_filter)
qed

lemma map_fst_iter_mut [simp]: "map fst (hmap_iter_mut f m) = map fst m"
  by (simp add: hmap_iter_mut_def case_prod_unfold)

lemma hmap_inv_iter_mut [inv_intros]: "hmap_inv m \<Longrightarrow> hmap_inv (hmap_iter_mut f m)"
  by (simp add: hmap_inv_def)

lemma hmap_inv_Nil [simp]: "hmap_inv []"
  by (simp add: hmap_inv_def)

lemma hmap_inv_new [simp]: "hmap_inv hmap_new"
  by (simp add: hmap_new_def)

lemma map_of_update_nth:
  assumes "distinct (map fst m)" "i < length m"
  shows "map_of (m[i := (fst (m ! i), v)]) k = (if k = fst (m ! i) then Some v else map_of m k)"
  using assms
proof (induction m arbitrary: i)
  case Nil then show ?case by simp
next
  case (Cons p m)
  have "fst (m ! j) \<noteq> fst p" if "j < length m" for j
    using Cons.prems(1) imageI [OF nth_mem [OF that], of fst] by (simp only: list.map distinct.simps set_map) metis
  with Cons show ?case by (cases i) (auto intro: set_update_memI)
qed

lemma map_of_insert_at:
  assumes "k \<notin> fst ` set m"
  shows "map_of (insert_at i (k, v) m) k' = (if k' = k then Some v else map_of m k')"
  using assms
proof (induction m arbitrary: i)
  case Nil then show ?case by (simp add: insert_at_def)
next
  case (Cons p m)
  show ?case
  proof (cases i)
    case 0 then show ?thesis by (simp add: insert_at_def)
  next
    case (Suc j)
    then have "insert_at i (k, v) (p # m) = p # insert_at j (k, v) m"
      by (simp add: insert_at_def)
    with Cons show ?thesis by auto
  qed
qed

lemma map_of_remove_at:
  assumes "distinct (map fst m)" "i < length m"
  shows "map_of (remove_at i m) k = (if k = fst (m ! i) then None else map_of m k)"
  using assms
proof (induction m arbitrary: i)
  case Nil then show ?case by simp
next
  case (Cons p m)
  show ?case
  proof (cases i)
    case 0
    with Cons.prems show ?thesis
      by (auto simp: remove_at_def map_of_eq_None_iff)
  next
    case (Suc j)
    with Cons.prems have "map_of (remove_at j m) k = (if k = fst (m ! j) then None else map_of m k)"
      by (intro Cons.IH) auto
    moreover have "remove_at i (p # m) = p # remove_at j m" by (simp add: remove_at_def Suc)
    moreover have "fst p \<noteq> fst (m ! j)" using Cons.prems Suc by (auto dest: nth_mem)
    ultimately show ?thesis by (auto simp: Suc)
  qed
qed

lemma hmap_get_mut_get:
  assumes "hmap_inv m"
  shows "hmap_get (hmap_get_mut m k f) k' =
    (if k' = k then map_option f (hmap_get m k) else hmap_get m k')"
proof (cases "hmap_find m k")
  case (Inl i)
  then have "hmap_get m k = None" by (simp add: hmap_get_def)
  then show ?thesis by (simp add: hmap_get_mut_def Inl)
next
  case (Inr i)
  note p = hmap_find_Inr [OF assms Inr] and d = hmap_inv_distinct [OF assms]
  show ?thesis
    using p map_of_update_nth [OF d p(1)] map_of_nth_key [OF d p(1)]
      hmap_inv_get_mut [OF assms, of k f]
    by (simp add: hmap_get_map_of assms hmap_get_mut_def Inr)
qed

lemma hmap_get_insert:
  assumes "hmap_inv m"
  shows "hmap_get (snd (hmap_insert m k v)) k' = (if k' = k then Some v else hmap_get m k')"
proof (cases "hmap_find m k")
  case (Inl i)
  show ?thesis
    using map_of_insert_at [OF hmap_find_Inl_absent [OF assms Inl], of i v k']
      hmap_inv_insert [OF assms, of k v]
    by (simp add: hmap_get_map_of assms hmap_insert_def Inl)
next
  case (Inr i)
  note p = hmap_find_Inr [OF assms Inr] and d = hmap_inv_distinct [OF assms]
  show ?thesis
    using p map_of_update_nth [OF d p(1)] hmap_inv_insert [OF assms, of k v]
    by (simp add: hmap_get_map_of assms hmap_insert_def Inr)
qed

lemma hmap_insert_old: "hmap_inv m \<Longrightarrow> fst (hmap_insert m k v) = hmap_get m k"
  by (auto simp: hmap_insert_def hmap_get_def split: sum.splits)

lemma hmap_get_remove:
  assumes "hmap_inv m"
  shows "hmap_get (snd (hmap_remove m k)) k' = (if k' = k then None else hmap_get m k')"
proof (cases "hmap_find m k")
  case (Inl i)
  then have "hmap_get m k = None" by (simp add: hmap_get_def)
  then show ?thesis by (simp add: hmap_remove_def Inl)
next
  case (Inr i)
  note p = hmap_find_Inr [OF assms Inr] and d = hmap_inv_distinct [OF assms]
  show ?thesis
    using p map_of_remove_at [OF d p(1)] hmap_inv_remove [OF assms, of k]
    by (simp add: hmap_get_map_of assms hmap_remove_def Inr)
qed

lemma hmap_remove_old: "hmap_inv m \<Longrightarrow> fst (hmap_remove m k) = hmap_get m k"
  by (auto simp: hmap_remove_def hmap_get_def dest: hmap_find_Inr split: sum.splits)

interpretation hm: key_map hmap_get hmap_insert hmap_get_mut hmap_remove hmap_inv
  by unfold_locales
    (simp_all add: hmap_get_insert hmap_insert_old hmap_get_mut_get hmap_get_remove
      hmap_remove_old inv_intros)

section \<open>Extensionality, key sets and insertion of a run\<close>

lemma map_ext:
  assumes "hmap_inv m" "hmap_inv m'" "\<And>k. hmap_get m k = hmap_get m' k"
  shows "m = m'"
proof -
  have eq: "map_of m = map_of m'"
    using assms by (auto simp: hmap_get_map_of)
  have keys: "map fst m = map fst m'"
    using assms(1,2) eq by (intro strictly_sorted_set_eq) (auto simp: hmap_inv_def
        dom_map_of_conv_image_fst [symmetric])
  show ?thesis
  proof (rule nth_equalityI)
    show "length m = length m'" using keys by (metis length_map)
  next
    fix i assume i: "i < length m"
    then have i': "i < length m'" using keys by (metis length_map)
    have k: "fst (m ! i) = fst (m' ! i)" using keys i i' by (metis nth_map)
    have "Some (snd (m ! i)) = Some (snd (m' ! i))"
      using map_of_nth_key [OF hmap_inv_distinct [OF assms(1)] i]
        map_of_nth_key [OF hmap_inv_distinct [OF assms(2)] i'] eq k by simp
    then show "m ! i = m' ! i" using k by (simp add: prod_eq_iff)
  qed
qed

lemma hmap_get_None_iff: "hmap_inv m \<Longrightarrow> hmap_get m k = None \<longleftrightarrow> k \<notin> fst ` set m"
  by (simp add: hmap_get_map_of map_of_eq_None_iff)

lemma hmap_get_Some_iff: "hmap_inv m \<Longrightarrow> hmap_get m k = Some v \<longleftrightarrow> (k, v) \<in> set m"
  by (simp add: hmap_get_map_of hmap_inv_distinct)

lemma hmap_get_mem: "hmap_inv m \<Longrightarrow> (k, v) \<in> set m \<Longrightarrow> hmap_get m k = Some v"
  by (simp add: hmap_get_Some_iff)

lemma hmap_keys_dom: "hmap_inv m \<Longrightarrow> fst ` set m = {k. hmap_get m k \<noteq> None}"
  by (auto simp: hmap_get_None_iff)

lemma hmap_keys_insert:
  "hmap_inv m \<Longrightarrow> fst ` set (snd (hmap_insert m k v)) = insert k (fst ` set m)"
  by (simp only: hmap_keys_dom hmap_inv_insert hmap_get_insert) auto

lemma hmap_keys_remove:
  "hmap_inv m \<Longrightarrow> fst ` set (snd (hmap_remove m k)) = fst ` set m - {k}"
  by (simp only: hmap_keys_dom hmap_inv_remove hmap_get_remove) auto

lemma hmap_insert_snoc:
  assumes "hmap_inv (m @ [(k, v)])"
  shows "snd (hmap_insert m k v) = m @ [(k, v)]"
proof (rule map_ext)
  have m: "hmap_inv m" using assms by (simp add: hmap_inv_def sorted_wrt_append)
  then show "hmap_inv (snd (hmap_insert m k v))" by (rule hmap_inv_insert)
  show "hmap_inv (m @ [(k, v)])" by fact
  fix k'
  have "map_of m k = None"
    using assms by (auto simp: hmap_inv_def sorted_wrt_append map_of_eq_None_iff)
  then show "hmap_get (snd (hmap_insert m k v)) k' = hmap_get (m @ [(k, v)]) k'"
    using m assms by (auto simp: hmap_get_insert hmap_get_map_of map_add_def
        split: option.splits)
qed

text \<open>Inserting the pairs of a sorted run in order rebuilds it.\<close>

lemma hmap_insert_all_run: "hmap_inv (m @ ps) \<Longrightarrow> hmap_insert_all m ps = m @ ps"
proof (induction ps arbitrary: m)
  case Nil then show ?case by simp
next
  case (Cons p ps)
  obtain k v where p: "p = (k, v)" by (cases p)
  have "hmap_inv (m @ [(k, v)])" using Cons.prems by (simp add: hmap_inv_def sorted_wrt_append p)
  then have "snd (hmap_insert m k v) = m @ [(k, v)]" by (rule hmap_insert_snoc)
  with Cons.IH [of "m @ [(k, v)]"] Cons.prems show ?case by (simp add: p)
qed

lemma hmap_inv_insert_all [inv_intros]: "hmap_inv m \<Longrightarrow> hmap_inv (hmap_insert_all m ps)"
  by (induction m ps rule: hmap_insert_all.induct) (auto intro: hmap_inv_insert)

end
