(* ===== verification/Types_Job.thy ===== *)
theory Types_Job
  imports Types_Map
begin

text \<open>
  The vocabulary of Hop: \<^verbatim>\<open>types/src/time.rs\<close> (instants and the constants),
  \<^verbatim>\<open>types/src/error.rs\<close> (the errors, with the truncated name they carry),
  \<^verbatim>\<open>types/src/job.rs\<close> (the job specification and its rules) and the agent and task
  records of \<^verbatim>\<open>types/src/task.rs\<close>.  The JSON forms of these types are in
  \<open>Types_Json\<close>.

  A floating-point number is its bit pattern; nothing modelled here computes with one.
\<close>

section \<open>Time\<close>

type_synonym nanos = nat

type_synonym time = nat

definition MICROSECOND :: nanos where "MICROSECOND = 1000"
definition MILLISECOND :: nanos where "MILLISECOND = 1000000"
definition SECOND :: nanos where "SECOND = 1000000000"
definition MINUTE :: nanos where "MINUTE = 60 * SECOND"
definition HOUR :: nanos where "HOUR = 60 * MINUTE"

definition time_ZERO :: time where
  "time_ZERO = 0"

definition time_is_zero :: "time \<Rightarrow> bool" where
  "time_is_zero t \<longleftrightarrow> t = 0"

text \<open>How far \<open>t\<close> lies after \<open>earlier\<close>; 0 when it lies before it.\<close>

definition time_since :: "time \<Rightarrow> time \<Rightarrow> nanos" where
  "time_since t earlier = t - earlier"

section \<open>Errors\<close>

definition NAME_BYTES :: nat where
  "NAME_BYTES = 32"

text \<open>\<^verbatim>\<open>str::is_char_boundary\<close> on UTF-8 bytes: the ends of the text, and every byte that
  is not a continuation byte (\<open>0x80\<close> to \<open>0xBF\<close>).\<close>

definition is_char_boundary :: "string \<Rightarrow> nat \<Rightarrow> bool" where
  "is_char_boundary s i \<longleftrightarrow>
     i = 0 \<or> i = length s \<or>
     (i < length s \<and> \<not> (128 \<le> (of_char (s ! i) :: nat) \<and> (of_char (s ! i) :: nat) < 192))"

fun name_end :: "string \<Rightarrow> nat \<Rightarrow> nat" where
  "name_end s 0 = 0"
| "name_end s (Suc n) = (if is_char_boundary s (Suc n) then Suc n else name_end s n)"

definition name_new :: "string \<Rightarrow> string" where
  "name_new s = take (name_end s (min (length s) NAME_BYTES)) s"

datatype types_error =
    OutOfMemory
  | TooLarge nat nat
  | TooDeep nat nat
  | Syntax nat string
  | Trailing nat
  | DuplicateKey string
  | NotFinite
  | WrongType string string
  | UnknownField string
  | OutOfRange string
  | Invalid string string
  | TooMany string nat
  | FixedPortRolls string string nat

section \<open>The job specification\<close>

datatype driver = Exec | Docker | Hop

fun driver_as_str :: "driver \<Rightarrow> string" where
  "driver_as_str Exec = ''exec''"
| "driver_as_str Docker = ''docker''"
| "driver_as_str Hop = ''hop''"

definition driver_parse :: "string \<Rightarrow> driver option" where
  "driver_parse s =
     (if s = ''exec'' then Some Exec
      else if s = ''docker'' then Some Docker
      else if s = ''hop'' then Some Hop
      else None)"

definition driver_for_image :: "string \<Rightarrow> driver" where
  "driver_for_image img = (if img = [] then Exec else Docker)"

datatype update_policy = Rolling | Recreate | BlueGreen

fun policy_as_str :: "update_policy \<Rightarrow> string" where
  "policy_as_str Rolling = ''rolling''"
| "policy_as_str Recreate = ''recreate''"
| "policy_as_str BlueGreen = ''blue-green''"

definition policy_parse :: "string \<Rightarrow> update_policy option" where
  "policy_parse s =
     (if s = ''rolling'' then Some Rolling
      else if s = ''recreate'' then Some Recreate
      else if s = ''blue-green'' then Some BlueGreen
      else None)"

datatype check_type = Http | Tcp | File

fun check_as_str :: "check_type \<Rightarrow> string" where
  "check_as_str Http = ''http''"
| "check_as_str Tcp = ''tcp''"
| "check_as_str File = ''file''"

definition check_parse :: "string \<Rightarrow> check_type option" where
  "check_parse s =
     (if s = ''http'' then Some Http
      else if s = ''tcp'' then Some Tcp
      else if s = ''file'' then Some File
      else None)"

record artifact =
  art_url :: string
  art_matches :: "string hmap"
  art_headers :: "string hmap"
  art_auth :: "string hmap"
  art_extract :: string
  art_filename :: string

record health_check =
  hc_kind :: "check_type option"
  hc_path :: string
  hc_port :: string
  hc_interval :: nanos
  hc_timeout :: nanos
  hc_initial_timeout :: nanos
  hc_failure_threshold :: int

record job =
  j_name :: string
  j_affinity :: "string hmap"
  j_driver :: "driver option"
  j_image :: string
  j_artifacts :: "artifact list"
  j_user :: string
  j_command :: string
  j_count :: int
  j_ports :: "nat hmap"
  j_cpu_shares :: int
  j_memory_limit :: nat
  j_env :: "string hmap"
  j_tags :: "string hmap"
  j_volumes :: "string hmap"
  j_health_check :: "health_check option"
  j_max_restarts :: "int option"
  j_restart_window :: nanos
  j_update_policy :: "update_policy option"
  j_priority :: "int option"
  j_deploying :: bool

text \<open>The derived \<^verbatim>\<open>Default\<close> values.\<close>

definition artifact_default :: artifact where
  "artifact_default = \<lparr>art_url = [], art_matches = [], art_headers = [], art_auth = [],
     art_extract = [], art_filename = []\<rparr>"

definition health_check_default :: health_check where
  "health_check_default = \<lparr>hc_kind = None, hc_path = [], hc_port = [], hc_interval = 0,
     hc_timeout = 0, hc_initial_timeout = 0, hc_failure_threshold = 0\<rparr>"

definition job_default :: job where
  "job_default = \<lparr>j_name = [], j_affinity = [], j_driver = None, j_image = [],
     j_artifacts = [], j_user = [], j_command = [], j_count = 0, j_ports = [],
     j_cpu_shares = 0, j_memory_limit = 0, j_env = [], j_tags = [], j_volumes = [],
     j_health_check = None, j_max_restarts = None, j_restart_window = 0,
     j_update_policy = None, j_priority = None, j_deploying = False\<rparr>"

definition job_driver :: "job \<Rightarrow> driver" where
  "job_driver j = (case j_driver j of Some d \<Rightarrow> d | None \<Rightarrow> driver_for_image (j_image j))"

definition is_daemon :: "job \<Rightarrow> bool" where
  "is_daemon j \<longleftrightarrow> j_count j = -1"

definition desired :: "job \<Rightarrow> nat" where
  "desired j = max (if 0 \<le> j_count j then nat (j_count j) else 0) 1"

definition fixed_port :: "job \<Rightarrow> (string \<times> nat) option" where
  "fixed_port j = find (\<lambda>(_, p). p \<noteq> 0) (hmap_iter (j_ports j))"

definition job_policy :: "job \<Rightarrow> update_policy" where
  "job_policy j =
     (case j_update_policy j of
        Some p \<Rightarrow> p
      | None \<Rightarrow> if fixed_port j \<noteq> None then Recreate else Rolling)"

definition check_rollable :: "job \<Rightarrow> types_error + unit" where
  "check_rollable j =
     (if job_policy j = Recreate then Inr ()
      else case fixed_port j of
             Some (port, number) \<Rightarrow>
               Inl (FixedPortRolls (name_new (j_name j)) (name_new port) number)
           | None \<Rightarrow> Inr ())"

definition apply_hop_shorthand :: "job \<Rightarrow> job" where
  "apply_hop_shorthand j =
     (if j_driver j = None \<and> j_command j = [] \<and> j_image j = [] \<and> length (j_artifacts j) = 1
      then j\<lparr>j_driver := Some Hop\<rparr> else j)"

definition check_runnable :: "job \<Rightarrow> types_error + unit" where
  "check_runnable j =
     (let hop_image = (j_driver j = Some Hop \<and> j_artifacts j \<noteq> [])
      in if j_command j = [] \<and> j_image j = [] \<and> \<not> hop_image
         then Inl (Invalid (name_new (j_name j))
           ''command or image required (or driver \"hop\" with at least one artifact)'')
         else Inr ())"

section \<open>Tasks and agents\<close>

datatype f64 = F64 nat

datatype task_state = Queued | Downloading | Running | Stopping | Failed | System

fun task_state_as_str :: "task_state \<Rightarrow> string" where
  "task_state_as_str Queued = ''queued''"
| "task_state_as_str Downloading = ''downloading''"
| "task_state_as_str Running = ''running''"
| "task_state_as_str Stopping = ''stopping''"
| "task_state_as_str Failed = ''failed''"
| "task_state_as_str System = ''system''"

definition task_state_parse :: "string \<Rightarrow> task_state option" where
  "task_state_parse s =
     (if s = ''queued'' then Some Queued
      else if s = ''downloading'' then Some Downloading
      else if s = ''running'' then Some Running
      else if s = ''stopping'' then Some Stopping
      else if s = ''failed'' then Some Failed
      else if s = ''system'' then Some System
      else None)"

record task =
  t_id :: string
  t_job_name :: string
  t_driver :: string
  t_image :: string
  t_ports :: "nat hmap"
  t_pid :: int
  t_state :: task_state
  t_started_at :: time
  t_restart_count :: int
  t_last_failed_at :: time
  t_next_restart_at :: time
  t_cpu_shares :: int
  t_memory_limit :: nat
  t_cpu_percent :: f64
  t_cores :: nat
  t_core :: "nat option"
  t_mem_percent :: f64
  t_downloaded :: nat
  t_image_size :: nat

definition task_default :: task where
  "task_default = \<lparr>t_id = [], t_job_name = [], t_driver = [], t_image = [], t_ports = [],
     t_pid = 0, t_state = Running, t_started_at = 0, t_restart_count = 0,
     t_last_failed_at = 0, t_next_restart_at = 0, t_cpu_shares = 0, t_memory_limit = 0,
     t_cpu_percent = F64 0, t_cores = 0, t_core = None, t_mem_percent = F64 0,
     t_downloaded = 0, t_image_size = 0\<rparr>"

record sys_usage =
  su_cpu_percent :: "f64 option"
  su_mem_bytes :: nat
  su_ram_bytes :: nat
  su_core :: "nat option"

definition sys_usage_is_known :: "sys_usage \<Rightarrow> bool" where
  "sys_usage_is_known u \<longleftrightarrow> su_cpu_percent u \<noteq> None \<or> su_mem_bytes u \<noteq> 0"

record telemetry =
  tel_temp_milli_c :: int
  tel_kern :: sys_usage
  tel_hop :: sys_usage

definition sys_usage_default :: sys_usage where
  "sys_usage_default = \<lparr>su_cpu_percent = None, su_mem_bytes = 0, su_ram_bytes = 0, su_core = None\<rparr>"

definition telemetry_default :: telemetry where
  "telemetry_default = \<lparr>tel_temp_milli_c = 0, tel_kern = sys_usage_default,
     tel_hop = sys_usage_default\<rparr>"

record agent =
  a_id :: string
  a_endpoint :: string
  a_version :: string
  a_last_seen :: time
  a_telemetry :: telemetry

section \<open>Lemmas\<close>

lemma desired_pos [simp]: "1 \<le> desired j"
  by (simp add: desired_def)

lemma driver_parse_as_str [simp]: "driver_parse (driver_as_str d) = Some d"
  by (cases d) (simp_all add: driver_parse_def)

lemma policy_parse_as_str [simp]: "policy_parse (policy_as_str p) = Some p"
  by (cases p) (simp_all add: policy_parse_def)

lemma check_parse_as_str [simp]: "check_parse (check_as_str c) = Some c"
  by (cases c) (simp_all add: check_parse_def)

lemma task_state_parse_as_str [simp]: "task_state_parse (task_state_as_str t) = Some t"
  by (cases t) (simp_all add: task_state_parse_def)

lemma as_str_nonempty [simp]:
  "driver_as_str d \<noteq> []" "policy_as_str p \<noteq> []" "check_as_str c \<noteq> []"
  by (cases d, simp_all) (cases p, simp_all, cases c, simp_all)

lemma name_end_le: "name_end s n \<le> n"
  by (induction s n rule: name_end.induct) auto

lemma length_name_new: "length (name_new s) \<le> NAME_BYTES"
  using name_end_le [of s "min (length s) NAME_BYTES"] by (simp add: name_new_def)

text \<open>
  A job that passes the roll check and does not recreate has no fixed port: its
  successor can bind next to it.
\<close>

lemma check_rollable_no_fixed_port:
  assumes "check_rollable j = Inr ()" "job_policy j \<noteq> Recreate"
  shows "\<forall>(_, p) \<in> set (j_ports j). p = 0"
  using assms
  by (auto simp: check_rollable_def fixed_port_def hmap_iter_def find_None_iff
      split: option.splits)

lemma default_policy_rolls: "j_update_policy j = None \<Longrightarrow> check_rollable j = Inr ()"
  by (auto simp: check_rollable_def job_policy_def split: option.splits)

end
