(* ===== verification/Leader_Parts.thy ===== *)
theory Leader_Parts
  imports Types_Job
begin

text \<open>
  The parts the leader is made of: the errors and bounds of \<^verbatim>\<open>leader/src/lib.rs\<close>, the
  replies and the connection of \<^verbatim>\<open>leader/src/transport.rs\<close>, the event queue of
  \<^verbatim>\<open>leader/src/events.rs\<close> and the job store of \<^verbatim>\<open>leader/src/store.rs\<close>.

  The connection to the agents is a parameter of every leader operation: a record of
  functions over a state \<open>'w\<close> of the world, so each call may depend on every earlier
  one.  The locale \<open>job_store\<close> states what the leader relies on in a \<^verbatim>\<open>JobStore\<close>; the
  store in memory interprets it.
\<close>

section \<open>Bounds and errors\<close>

definition MAX_AGENTS :: nat where "MAX_AGENTS = 256"
definition MAX_JOBS :: nat where "MAX_JOBS = 1024"
definition DEFAULT_AGENT_TIMEOUT :: nanos where "DEFAULT_AGENT_TIMEOUT = 30 * SECOND"
definition ROLLING_UPDATE_DELAY :: nanos where "ROLLING_UPDATE_DELAY = 2 * SECOND"
definition RECONCILE_EVERY_TICKS :: nat where "RECONCILE_EVERY_TICKS = 3"

datatype refusal = NoAgents | Full nat | NoneAccepted nat

datatype leader_error =
    LOutOfMemory
  | LJson types_error
  | NameRequired
  | NotFound string
  | Dispatch string nat nat refusal
  | DaemonRejected string
  | RollingFailed string nat refusal
  | BlueGreenFailed string nat nat refusal
  | LTooMany string nat
  | InitJob nat types_error

fun leader_error_from :: "types_error \<Rightarrow> leader_error" where
  "leader_error_from OutOfMemory = LOutOfMemory"
| "leader_error_from e = LJson e"

section \<open>The connection to the agents\<close>

datatype run_reply = Accepted | AffinityMismatch | NoCapacity | Rejected nat | Unreachable

definition run_reply_from_status :: "nat \<Rightarrow> run_reply" where
  "run_reply_from_status status =
     (if 200 \<le> status \<and> status \<le> 202 then Accepted
      else if status = 406 then AffinityMismatch
      else if status = 503 then NoCapacity
      else Rejected status)"

record 'w transport =
  net_run :: "agent \<Rightarrow> job \<Rightarrow> bool \<Rightarrow> 'w \<Rightarrow> run_reply \<times> 'w"
  net_stop_job :: "agent \<Rightarrow> string \<Rightarrow> 'w \<Rightarrow> bool \<times> 'w"
  net_stop_task :: "agent \<Rightarrow> string \<Rightarrow> 'w \<Rightarrow> 'w"
  net_delete_job :: "agent \<Rightarrow> string \<Rightarrow> 'w \<Rightarrow> 'w"
  net_tasks :: "agent \<Rightarrow> 'w \<Rightarrow> task list option \<times> 'w"
  net_pause :: "nanos \<Rightarrow> 'w \<Rightarrow> 'w"

section \<open>The event queue\<close>

definition MAX_EVENTS :: nat where "MAX_EVENTS = 64"

datatype event = EvStatus | EvAgent string | EvJob string

fun topic_prefix :: "event \<Rightarrow> string \<times> string" where
  "topic_prefix EvStatus = (''status'', [])"
| "topic_prefix (EvAgent i) = (''agent:'', i)"
| "topic_prefix (EvJob n) = (''job:'', n)"

record events =
  ev_queue :: "event list"
  ev_overflowed :: bool

definition events_default :: events where
  "events_default = \<lparr>ev_queue = [], ev_overflowed = False\<rparr>"

definition events_push :: "event \<Rightarrow> events \<Rightarrow> events" where
  "events_push e ev =
     (if ev_overflowed ev \<or> e \<in> set (ev_queue ev) then ev
      else if MAX_EVENTS \<le> length (ev_queue ev) then ev\<lparr>ev_overflowed := True\<rparr>
      else ev\<lparr>ev_queue := ev_queue ev @ [e]\<rparr>)"

definition events_status :: "events \<Rightarrow> events" where
  "events_status ev = events_push EvStatus ev"

definition events_agent :: "string \<Rightarrow> events \<Rightarrow> events" where
  "events_agent i ev = events_push (EvAgent i) ev"

definition events_job :: "string \<Rightarrow> events \<Rightarrow> events" where
  "events_job n ev = events_push (EvJob n) ev"

definition events_drain :: "events \<Rightarrow> event list \<times> events" where
  "events_drain ev =
     ((if ev_overflowed ev then [EvStatus] else ev_queue ev),
      ev\<lparr>ev_queue := [], ev_overflowed := False\<rparr>)"

definition events_inv :: "events \<Rightarrow> bool" where
  "events_inv ev \<longleftrightarrow> distinct (ev_queue ev) \<and> length (ev_queue ev) \<le> MAX_EVENTS"

section \<open>The job store\<close>

record mem_store =
  ms_jobs :: "job list"
  ms_state_time :: time

definition store_new :: mem_store where
  "store_new = \<lparr>ms_jobs = [], ms_state_time = 0\<rparr>"

definition store_get :: "mem_store \<Rightarrow> string \<Rightarrow> job option" where
  "store_get s n = find (\<lambda>j. j_name j = n) (ms_jobs s)"

text \<open>\<^verbatim>\<open>get_mut\<close> with a write \<open>f\<close> through the reference to the first job of that name.\<close>

fun jobs_update :: "(job \<Rightarrow> job) \<Rightarrow> string \<Rightarrow> job list \<Rightarrow> job list" where
  "jobs_update f n [] = []"
| "jobs_update f n (j # js) = (if j_name j = n then f j # js else j # jobs_update f n js)"

definition store_get_mut :: "mem_store \<Rightarrow> string \<Rightarrow> (job \<Rightarrow> job) \<Rightarrow> mem_store" where
  "store_get_mut s n f = s\<lparr>ms_jobs := jobs_update f n (ms_jobs s)\<rparr>"

definition store_put :: "job \<Rightarrow> mem_store \<Rightarrow> (leader_error + unit) \<times> mem_store" where
  "store_put j s =
     (if store_get s (j_name j) \<noteq> None then (Inr (), store_get_mut s (j_name j) (\<lambda>_. j))
      else if MAX_JOBS \<le> length (ms_jobs s) then (Inl (LTooMany ''jobs'' MAX_JOBS), s)
      else (Inr (), s\<lparr>ms_jobs := ms_jobs s @ [j]\<rparr>))"

fun jobs_remove :: "string \<Rightarrow> job list \<Rightarrow> job list" where
  "jobs_remove n [] = []"
| "jobs_remove n (j # js) = (if j_name j = n then js else j # jobs_remove n js)"

definition store_remove :: "string \<Rightarrow> mem_store \<Rightarrow> job option \<times> mem_store" where
  "store_remove n s = (store_get s n, s\<lparr>ms_jobs := jobs_remove n (ms_jobs s)\<rparr>)"

definition store_state_time :: "mem_store \<Rightarrow> time" where
  "store_state_time s = ms_state_time s"

definition store_set_state_time :: "time \<Rightarrow> mem_store \<Rightarrow> mem_store" where
  "store_set_state_time t s = s\<lparr>ms_state_time := t\<rparr>"

definition store_set_priority :: "string \<Rightarrow> int \<Rightarrow> mem_store \<Rightarrow> bool \<times> mem_store" where
  "store_set_priority n p s =
     (case store_get s n of
        Some _ \<Rightarrow> (True, store_get_mut s n (\<lambda>j. j\<lparr>j_priority := Some p\<rparr>))
      | None \<Rightarrow> (False, s))"

definition store_set_deploying :: "string \<Rightarrow> bool \<Rightarrow> mem_store \<Rightarrow> bool \<times> mem_store" where
  "store_set_deploying n d s =
     (case store_get s n of
        Some _ \<Rightarrow> (True, store_get_mut s n (\<lambda>j. j\<lparr>j_deploying := d\<rparr>))
      | None \<Rightarrow> (False, s))"

definition store_inv :: "mem_store \<Rightarrow> bool" where
  "store_inv s \<longleftrightarrow> distinct (map j_name (ms_jobs s)) \<and> length (ms_jobs s) \<le> MAX_JOBS"

section \<open>The contract of a job store\<close>

locale job_store =
  fixes get :: "'s \<Rightarrow> string \<Rightarrow> job option"
    and upd :: "'s \<Rightarrow> string \<Rightarrow> (job \<Rightarrow> job) \<Rightarrow> 's"
    and put :: "job \<Rightarrow> 's \<Rightarrow> (leader_error + unit) \<times> 's"
    and del :: "string \<Rightarrow> 's \<Rightarrow> job option \<times> 's"
    and size :: "'s \<Rightarrow> nat"
    and inv :: "'s \<Rightarrow> bool"
  assumes get_name: "get s n = Some j \<Longrightarrow> j_name j = n"
    and get_upd: "inv s \<Longrightarrow> (\<And>j. j_name (f j) = j_name j) \<Longrightarrow>
        get (upd s n f) m = (if m = n then map_option f (get s n) else get s m)"
    and put_ok: "inv s \<Longrightarrow> get s (j_name j) \<noteq> None \<or> size s < MAX_JOBS \<Longrightarrow> fst (put j s) = Inr ()"
    and put_full: "inv s \<Longrightarrow> get s (j_name j) = None \<Longrightarrow> MAX_JOBS \<le> size s \<Longrightarrow>
        put j s = (Inl (LTooMany ''jobs'' MAX_JOBS), s)"
    and get_put: "inv s \<Longrightarrow> fst (put j s) = Inr () \<Longrightarrow>
        get (snd (put j s)) m = (if m = j_name j then Some j else get s m)"
    and old_del: "fst (del n s) = get s n"
    and get_del: "inv s \<Longrightarrow> get (snd (del n s)) m = (if m = n then None else get s m)"
    and inv_upd: "inv s \<Longrightarrow> (\<And>j. j_name (f j) = j_name j) \<Longrightarrow> inv (upd s n f)"
    and inv_put: "inv s \<Longrightarrow> inv (snd (put j s))"
    and inv_del: "inv s \<Longrightarrow> inv (snd (del n s))"
begin

lemma put_get_same:
  assumes "inv s" "get s (j_name j) \<noteq> None \<or> size s < MAX_JOBS"
  shows "get (snd (put j s)) (j_name j) = Some j"
  using assms put_ok get_put by simp

lemma put_keeps_others: "inv s \<Longrightarrow> m \<noteq> j_name j \<Longrightarrow> get (snd (put j s)) m = get s m"
  using put_full [of s j] put_ok [of s j] get_put [of s j m]
  by (cases "get s (j_name j) \<noteq> None \<or> size s < MAX_JOBS") auto

lemma del_put_absent:
  assumes "inv s" "get s (j_name j) = None" "size s < MAX_JOBS"
  shows "get (snd (del (j_name j) (snd (put j s)))) m = get s m"
  using assms put_ok [of s j] by (simp add: get_del get_put inv_put)

end

section \<open>The store in memory meets it\<close>

lemma find_name_Some: "find (\<lambda>j. j_name j = n) js = Some j \<Longrightarrow> j \<in> set js \<and> j_name j = n"
  by (auto simp: find_Some_iff)

lemma store_get_name: "store_get s n = Some j \<Longrightarrow> j_name j = n"
  by (auto simp: store_get_def dest: find_name_Some)

lemma store_get_mem: "store_get s n = Some j \<Longrightarrow> j \<in> set (ms_jobs s)"
  by (auto simp: store_get_def dest: find_name_Some)

lemma store_get_None_iff: "store_get s n = None \<longleftrightarrow> n \<notin> j_name ` set (ms_jobs s)"
  by (auto simp: store_get_def find_None_iff)

lemma find_unique_name:
  "distinct (map j_name js) \<Longrightarrow> j \<in> set js \<Longrightarrow> find (\<lambda>i. j_name i = j_name j) js = Some j"
  by (induction js) auto

lemma store_get_unique: "store_inv s \<Longrightarrow> j \<in> set (ms_jobs s) \<Longrightarrow> store_get s (j_name j) = Some j"
  by (simp add: store_inv_def store_get_def find_unique_name)

lemma find_jobs_update:
  assumes "\<And>j. j_name (f j) = j_name j"
  shows "find (\<lambda>j. j_name j = m) (jobs_update f n js) =
    (if m = n then map_option f (find (\<lambda>j. j_name j = n) js) else find (\<lambda>j. j_name j = m) js)"
  by (induction js) (auto simp: assms)

lemma map_name_jobs_update:
  "(\<And>j. j_name j = n \<Longrightarrow> j_name (f j) = n) \<Longrightarrow>
     map j_name (jobs_update f n js) = map j_name js"
  by (induction js) auto

lemma length_jobs_update [simp]: "length (jobs_update f n js) = length js"
  by (induction js) auto

lemma find_jobs_replace:
  "find (\<lambda>i. j_name i = m) (jobs_update (\<lambda>_. j) (j_name j) js) =
    (if m = j_name j then map_option (\<lambda>_. j) (find (\<lambda>i. j_name i = m) js)
     else find (\<lambda>i. j_name i = m) js)"
  by (induction js) auto

lemma find_jobs_remove:
  "distinct (map j_name js) \<Longrightarrow> find (\<lambda>j. j_name j = m) (jobs_remove n js) =
    (if m = n then None else find (\<lambda>j. j_name j = m) js)"
  by (induction js) (auto simp: find_None_iff image_iff)

lemma set_jobs_remove: "set (jobs_remove n js) \<subseteq> set js"
  by (induction js) auto

lemma distinct_jobs_remove:
  "distinct (map j_name js) \<Longrightarrow> distinct (map j_name (jobs_remove n js))"
  by (induction js) (use set_jobs_remove in \<open>auto simp: image_iff\<close>)

lemma length_jobs_remove: "length (jobs_remove n js) \<le> length js"
  by (induction js) auto

lemma find_append_name:
  "find P (xs @ ys) = (case find P xs of None \<Rightarrow> find P ys | Some x \<Rightarrow> Some x)"
  by (induction xs) auto

lemma store_get_mut_inv [inv_intros]:
  "store_inv s \<Longrightarrow> (\<And>j. j_name j = n \<Longrightarrow> j_name (f j) = n) \<Longrightarrow> store_inv (store_get_mut s n f)"
  by (simp add: store_inv_def store_get_mut_def map_name_jobs_update)

lemma store_put_inv [inv_intros]: "store_inv s \<Longrightarrow> store_inv (snd (store_put j s))"
  by (auto simp: store_put_def store_get_None_iff intro!: store_get_mut_inv)
    (auto simp: store_inv_def)

lemma store_remove_inv [inv_intros]: "store_inv s \<Longrightarrow> store_inv (snd (store_remove n s))"
  using length_jobs_remove [of n "ms_jobs s"]
  by (auto simp: store_inv_def store_remove_def distinct_jobs_remove)

interpretation ms: job_store store_get store_get_mut store_put store_remove
  "\<lambda>s. length (ms_jobs s)" store_inv
proof unfold_locales
  fix s n m and f :: "job \<Rightarrow> job"
  assume "store_inv s" "\<And>j. j_name (f j) = j_name j"
  then show "store_get (store_get_mut s n f) m =
      (if m = n then map_option f (store_get s n) else store_get s m)"
    by (simp add: store_get_def store_get_mut_def find_jobs_update)
next
  fix s j m
  assume "store_inv s" "fst (store_put j s) = Inr ()"
  then show "store_get (snd (store_put j s)) m =
      (if m = j_name j then Some j else store_get s m)"
    by (auto simp: store_put_def store_get_def store_get_mut_def find_jobs_replace
        find_append_name split: if_splits option.splits)
next
  fix s n m
  assume "store_inv s"
  then show "store_get (snd (store_remove n s)) m = (if m = n then None else store_get s m)"
    by (simp add: store_remove_def store_get_def find_jobs_remove store_inv_def)
next
  fix s j
  assume "store_inv s"
  then show "store_inv (snd (store_put j s))" by (rule store_put_inv)
next
  fix s n
  assume "store_inv s"
  then show "store_inv (snd (store_remove n s))" by (rule store_remove_inv)
next
  fix s n and f :: "job \<Rightarrow> job"
  assume "store_inv s" "\<And>j. j_name (f j) = j_name j"
  then show "store_inv (store_get_mut s n f)" by (simp add: store_get_mut_inv)
qed (auto simp: store_get_name store_put_def store_remove_def)

section \<open>The event queue keeps its bounds\<close>

lemma events_push_inv [inv_intros]: "events_inv ev \<Longrightarrow> events_inv (events_push e ev)"
  by (auto simp: events_inv_def events_push_def)

lemma events_inv_default [simp]: "events_inv events_default"
  by (simp add: events_inv_def events_default_def)

lemma events_status_inv [inv_intros]: "events_inv ev \<Longrightarrow> events_inv (events_status ev)"
  by (simp add: events_status_def events_push_inv)

lemma events_agent_inv [inv_intros]: "events_inv ev \<Longrightarrow> events_inv (events_agent i ev)"
  by (simp add: events_agent_def events_push_inv)

lemma events_job_inv [inv_intros]: "events_inv ev \<Longrightarrow> events_inv (events_job n ev)"
  by (simp add: events_job_def events_push_inv)

lemma events_drain_inv [inv_intros]: "events_inv (snd (events_drain ev))"
  by (simp add: events_inv_def events_drain_def)

end
