(* ===== verification/Leader_State.thy ===== *)
theory Leader_State
  imports Leader_Parts "HOL-Library.Product_Lexorder"
begin

text \<open>
  \<^verbatim>\<open>leader/src/state.rs\<close>: the state of the leader and its books, that is, how many
  instances of which job it believes each agent runs.  Registration, which also
  reconciles, is in \<open>Leader_Dispatch\<close>.  The locale \<open>placement_books\<close> states what placing,
  updating and reconciling rely on in the books; the leader's operations interpret it.
\<close>

section \<open>The state\<close>

record task_ref =
  tr_agent_id :: string
  tr_task_id :: string

record leader =
  l_local_agent_id :: string
  l_store :: mem_store
  l_agents :: "agent list"
  l_placed :: "nat hmap hmap"
  l_settled :: bool
  l_settle_at :: "time option"
  l_round_robin :: nat
  l_agent_timeout :: nanos
  l_ticks :: nat
  l_events :: events
  l_dirty :: bool
  l_dirty_seen :: "time option"

definition leader_new :: "string \<Rightarrow> mem_store \<Rightarrow> leader" where
  "leader_new local_agent_id store = \<lparr>l_local_agent_id = local_agent_id, l_store = store,
     l_agents = [], l_placed = hmap_new, l_settled = True, l_settle_at = None,
     l_round_robin = 0, l_agent_timeout = DEFAULT_AGENT_TIMEOUT, l_ticks = 0,
     l_events = events_default, l_dirty = False, l_dirty_seen = None\<rparr>"

definition set_agent_timeout :: "nanos \<Rightarrow> leader \<Rightarrow> leader" where
  "set_agent_timeout d l = l\<lparr>l_agent_timeout := d\<rparr>"

definition settle :: "nanos \<Rightarrow> time \<Rightarrow> leader \<Rightarrow> leader" where
  "settle delay now l =
     (if delay = 0 then l\<lparr>l_settled := True, l_settle_at := None\<rparr>
      else l\<lparr>l_settled := False, l_settle_at := Some (sat_add64 now delay)\<rparr>)"

definition enable_settle :: "time \<Rightarrow> leader \<Rightarrow> leader" where
  "enable_settle now l = settle (l_agent_timeout l) now l"

definition leader_jobs :: "leader \<Rightarrow> job list" where
  "leader_jobs l = ms_jobs (l_store l)"

definition leader_job :: "leader \<Rightarrow> string \<Rightarrow> job option" where
  "leader_job l n = store_get (l_store l) n"

text \<open>\<^verbatim>\<open>i64::try_from(n).unwrap_or(i64::MAX)\<close>.\<close>

definition i64_of_usize :: "nat \<Rightarrow> int" where
  "i64_of_usize n = (if int n \<le> i64_max then int n else i64_max)"

definition next_priority :: "leader \<Rightarrow> int" where
  "next_priority l = i64_of_usize (length (leader_jobs l))"

definition leader_agent :: "leader \<Rightarrow> string \<Rightarrow> agent option" where
  "leader_agent l i = find (\<lambda>a. a_id a = i) (l_agents l)"

definition drain_events :: "leader \<Rightarrow> event list \<times> leader" where
  "drain_events l = (let (es, ev) = events_drain (l_events l) in (es, l\<lparr>l_events := ev\<rparr>))"

text \<open>\<^verbatim>\<open>self.events.job(..)\<close> and its two siblings.\<close>

definition leader_event :: "event \<Rightarrow> leader \<Rightarrow> leader" where
  "leader_event e l = l\<lparr>l_events := events_push e (l_events l)\<rparr>"

section \<open>Notifications and heartbeats\<close>

text \<open>\<^verbatim>\<open>str::strip_prefix\<close>.\<close>

fun strip_prefix :: "string \<Rightarrow> string \<Rightarrow> string option" where
  "strip_prefix [] s = Some s"
| "strip_prefix (p # ps) [] = None"
| "strip_prefix (p # ps) (c # s) = (if p = c then strip_prefix ps s else None)"

text \<open>\<^verbatim>\<open>rest.split_once(':').map_or(rest, |(n, _)| n)\<close>: all of the text when there is no
  colon.\<close>

definition before_colon :: "string \<Rightarrow> string" where
  "before_colon s = takeWhile (\<lambda>c. c \<noteq> CHR '':'') s"

definition notify :: "string \<Rightarrow> leader \<Rightarrow> leader" where
  "notify topic l =
     (case strip_prefix ''job:'' topic of
        Some rest \<Rightarrow>
          (let name = before_colon rest
           in if name \<noteq> [] then leader_event (EvJob name) l else leader_event EvStatus l)
      | None \<Rightarrow>
          (case strip_prefix ''agent:'' topic of
             Some i \<Rightarrow> if i \<noteq> [] then leader_event (EvAgent i) l else leader_event EvStatus l
           | None \<Rightarrow> leader_event EvStatus l))"

fun agents_update :: "(agent \<Rightarrow> agent) \<Rightarrow> string \<Rightarrow> agent list \<Rightarrow> agent list" where
  "agents_update f i [] = []"
| "agents_update f i (a # as) = (if a_id a = i then f a # as else a # agents_update f i as)"

definition heartbeat :: "string \<Rightarrow> string \<Rightarrow> telemetry \<Rightarrow> time \<Rightarrow> leader \<Rightarrow> bool \<times> leader" where
  "heartbeat i version tel now l =
     (case leader_agent l i of
        None \<Rightarrow> (False, l)
      | Some _ \<Rightarrow>
          (True, l\<lparr>l_agents := agents_update
             (\<lambda>a. let a1 = a\<lparr>a_last_seen := now\<rparr>;
                      a2 = (if a_version a1 \<noteq> version then a1\<lparr>a_version := version\<rparr> else a1)
                  in a2\<lparr>a_telemetry := tel\<rparr>) i (l_agents l)\<rparr>))"

section \<open>The books\<close>

definition remove_agent :: "string \<Rightarrow> leader \<Rightarrow> leader" where
  "remove_agent i l = l\<lparr>l_agents := filter (\<lambda>a. a_id a \<noteq> i) (l_agents l),
                        l_placed := snd (hmap_remove (l_placed l) i)\<rparr>"

definition count_up :: "nat hmap \<Rightarrow> string \<Rightarrow> nat \<Rightarrow> nat hmap" where
  "count_up out name n =
     (case hmap_get out name of
        Some _ \<Rightarrow> hmap_get_mut out name (\<lambda>total. sat_add32 total n)
      | None \<Rightarrow> snd (hmap_insert out name n))"

definition placed_counts :: "leader \<Rightarrow> nat hmap" where
  "placed_counts l =
     foldl (\<lambda>out (_, jobs). foldl (\<lambda>out (name, n). count_up out name n) out (hmap_iter jobs))
       hmap_new (hmap_iter (l_placed l))"

definition leader_placed :: "leader \<Rightarrow> string \<Rightarrow> nat hmap" where
  "leader_placed l name =
     foldl (\<lambda>out (agent, jobs).
        (case hmap_get jobs name of
           Some n \<Rightarrow> if n > 0 then snd (hmap_insert out agent n) else out
         | None \<Rightarrow> out))
       hmap_new (hmap_iter (l_placed l))"

definition placed_on :: "leader \<Rightarrow> string \<Rightarrow> string \<Rightarrow> nat" where
  "placed_on l i name =
     (case hmap_get (l_placed l) i of
        None \<Rightarrow> 0
      | Some jobs \<Rightarrow> (case hmap_get jobs name of None \<Rightarrow> 0 | Some n \<Rightarrow> n))"

definition track_placement :: "string \<Rightarrow> string \<Rightarrow> leader \<Rightarrow> leader" where
  "track_placement i name l =
     (let p = (if hmap_get (l_placed l) i = None then snd (hmap_insert (l_placed l) i hmap_new)
               else l_placed l)
      in l\<lparr>l_placed := hmap_get_mut p i
           (\<lambda>jobs. case hmap_get jobs name of
                      Some _ \<Rightarrow> hmap_get_mut jobs name (\<lambda>n. sat_add32 n 1)
                    | None \<Rightarrow> snd (hmap_insert jobs name 1))\<rparr>)"

definition untrack_one :: "string \<Rightarrow> string \<Rightarrow> leader \<Rightarrow> leader" where
  "untrack_one i name l =
     l\<lparr>l_placed := hmap_get_mut (l_placed l) i (\<lambda>jobs. hmap_get_mut jobs name (\<lambda>n. n - 1))\<rparr>"

text \<open>\<^verbatim>\<open>self.placed.get_mut(agent)\<close> and, when present, \<^verbatim>\<open>jobs.remove(name)\<close>.\<close>

definition untrack_job :: "string \<Rightarrow> string \<Rightarrow> leader \<Rightarrow> leader" where
  "untrack_job i name l =
     l\<lparr>l_placed := hmap_get_mut (l_placed l) i (\<lambda>jobs. snd (hmap_remove jobs name))\<rparr>"

definition take_placement :: "string \<Rightarrow> leader \<Rightarrow> agent list \<times> leader" where
  "take_placement name l =
     (filter (\<lambda>a. placed_on l (a_id a) name > 0) (l_agents l),
      l\<lparr>l_placed := hmap_iter_mut (\<lambda>jobs. snd (hmap_remove jobs name)) (l_placed l)\<rparr>)"

definition agent_copy :: "leader \<Rightarrow> string \<Rightarrow> agent option" where
  "agent_copy l i = leader_agent l i"

section \<open>Every write to the store marks the state dirty\<close>

definition leader_store_put :: "job \<Rightarrow> leader \<Rightarrow> (leader_error + unit) \<times> leader" where
  "leader_store_put j l =
     (case store_put j (l_store l) of
        (Inl e, s) \<Rightarrow> (Inl e, l\<lparr>l_store := s\<rparr>)
      | (Inr u, s) \<Rightarrow> (Inr u, l\<lparr>l_store := s, l_dirty := True\<rparr>))"

definition leader_store_remove :: "string \<Rightarrow> leader \<Rightarrow> job option \<times> leader" where
  "leader_store_remove n l =
     (case store_remove n (l_store l) of
        (j, s) \<Rightarrow> (j, l\<lparr>l_store := s, l_dirty := (if j \<noteq> None then True else l_dirty l)\<rparr>))"

definition leader_store_set_priority :: "string \<Rightarrow> int \<Rightarrow> leader \<Rightarrow> bool \<times> leader" where
  "leader_store_set_priority n p l =
     (case store_set_priority n p (l_store l) of
        (ok, s) \<Rightarrow> (ok, l\<lparr>l_store := s, l_dirty := (l_dirty l \<or> ok)\<rparr>))"

definition leader_store_set_deploying :: "string \<Rightarrow> bool \<Rightarrow> leader \<Rightarrow> bool \<times> leader" where
  "leader_store_set_deploying n d l =
     (case store_set_deploying n d (l_store l) of
        (ok, s) \<Rightarrow> (ok, l\<lparr>l_store := s, l_dirty := (l_dirty l \<or> ok)\<rparr>))"

section \<open>The invariant\<close>

definition counts_inv :: "nat hmap \<Rightarrow> bool" where
  "counts_inv jobs \<longleftrightarrow> hmap_inv jobs \<and> (\<forall>c \<in> snd ` set jobs. c \<le> u32_max)"

definition books_inv :: "nat hmap hmap \<Rightarrow> bool" where
  "books_inv p \<longleftrightarrow> hmap_inv p \<and> (\<forall>jobs \<in> snd ` set p. counts_inv jobs)"

definition agents_inv :: "agent list \<Rightarrow> bool" where
  "agents_inv as \<longleftrightarrow> strictly_sorted (map a_id as) \<and> length as \<le> MAX_AGENTS"

text \<open>
  The agents are sorted strictly by id and at most \<^const>\<open>MAX_AGENTS\<close>, the store and the event
  queue keep their bounds, the books are kept for exactly the registered agents, the
  settle deadline is set exactly while settling, and the debounce clock only runs on a
  dirty state.
\<close>

definition leader_inv :: "leader \<Rightarrow> bool" where
  "leader_inv l \<longleftrightarrow>
     agents_inv (l_agents l) \<and> books_inv (l_placed l) \<and> store_inv (l_store l) \<and>
     events_inv (l_events l) \<and>
     map fst (l_placed l) = map a_id (l_agents l) \<and>
     (l_settled l \<longleftrightarrow> l_settle_at l = None) \<and>
     (l_dirty_seen l \<noteq> None \<longrightarrow> l_dirty l)"

section \<open>The contract of the books\<close>

locale placement_books =
  fixes on :: "'l \<Rightarrow> string \<Rightarrow> string \<Rightarrow> nat"
    and track :: "string \<Rightarrow> string \<Rightarrow> 'l \<Rightarrow> 'l"
    and untrack :: "string \<Rightarrow> string \<Rightarrow> 'l \<Rightarrow> 'l"
    and evict :: "string \<Rightarrow> string \<Rightarrow> 'l \<Rightarrow> 'l"
    and clear :: "string \<Rightarrow> 'l \<Rightarrow> 'l"
    and inv :: "'l \<Rightarrow> bool"
  assumes on_le: "inv l \<Longrightarrow> on l i n \<le> u32_max"
    and on_track: "inv l \<Longrightarrow> on (track i n l) i' n' =
        (if i' = i \<and> n' = n then sat_add32 (on l i n) 1 else on l i' n')"
    and on_untrack: "inv l \<Longrightarrow> on (untrack i n l) i' n' =
        (if i' = i \<and> n' = n then on l i n - 1 else on l i' n')"
    and on_evict: "inv l \<Longrightarrow> on (evict i n l) i' n' =
        (if i' = i \<and> n' = n then 0 else on l i' n')"
    and on_clear: "inv l \<Longrightarrow> on (clear n l) i' n' = (if n' = n then 0 else on l i' n')"
begin

lemmas specs = on_track on_untrack on_evict on_clear

lemma on_track_le: "inv l \<Longrightarrow> on (track i n l) i' n' \<le> Suc (on l i' n')"
  by (simp add: on_track sat_add32_def)

lemma on_track_ge: "inv l \<Longrightarrow> on l i' n' \<le> on (track i n l) i' n'"
  using on_le [of l i n] by (simp add: on_track sat_add32_def)

lemma untrack_track: "inv l \<Longrightarrow> inv (track i n l) \<Longrightarrow> on l i n < u32_max \<Longrightarrow>
    on (untrack i n (track i n l)) = on l"
  by (intro ext) (simp add: on_track on_untrack sat_add32_def)

text \<open>Totals over a list of agents.\<close>

lemma total_track_other:
  "inv l \<Longrightarrow> m \<noteq> n \<Longrightarrow> (\<Sum>x\<leftarrow>xs. on (track i n l) x m) = (\<Sum>x\<leftarrow>xs. on l x m)"
  by (simp add: on_track)

lemma total_track_notin:
  "inv l \<Longrightarrow> i \<notin> set xs \<Longrightarrow> (\<Sum>x\<leftarrow>xs. on (track i n l) x m) = (\<Sum>x\<leftarrow>xs. on l x m)"
  by (induction xs) (auto simp: on_track)

lemma total_track_le:
  assumes "inv l" "distinct xs"
  shows "(\<Sum>x\<leftarrow>xs. on (track i n l) x m) \<le> Suc (\<Sum>x\<leftarrow>xs. on l x m)"
  using assms(2)
proof (induction xs)
  case (Cons x xs)
  show ?case
  proof (cases "x = i")
    case True
    with Cons.prems have "i \<notin> set xs" by simp
    with assms(1) on_track_le [OF assms(1), of i n x m] show ?thesis
      by (simp add: total_track_notin)
  next
    case False
    with Cons assms(1) show ?thesis by (simp add: on_track)
  qed
qed simp

lemma total_track_exact:
  assumes "inv l" "distinct xs" "i \<in> set xs" "on l i n < u32_max"
  shows "(\<Sum>x\<leftarrow>xs. on (track i n l) x n) = Suc (\<Sum>x\<leftarrow>xs. on l x n)"
  using assms(2,3)
proof (induction xs)
  case (Cons x xs)
  show ?case
  proof (cases "x = i")
    case True
    with Cons.prems have "i \<notin> set xs" by simp
    then have "(\<Sum>y\<leftarrow>xs. on (track i n l) y n) = (\<Sum>y\<leftarrow>xs. on l y n)"
      by (rule total_track_notin [OF assms(1)])
    moreover have "on (track i n l) i n = Suc (on l i n)"
      using assms(1,4) by (simp add: on_track sat_add32_def)
    ultimately show ?thesis using True by simp
  next
    case False
    with Cons assms(1) show ?thesis by (simp add: on_track)
  qed
qed simp

end

section \<open>The books of the leader meet it\<close>

lemma books_inv_inner: "books_inv p \<Longrightarrow> hmap_get p i = Some jobs \<Longrightarrow> counts_inv jobs"
  by (force simp: books_inv_def hmap_get_Some_iff)

lemma counts_inv_bound: "counts_inv jobs \<Longrightarrow> hmap_get jobs n = Some c \<Longrightarrow> c \<le> u32_max"
  by (force simp: counts_inv_def hmap_get_Some_iff)

text \<open>Both invariants, read through lookups.\<close>

lemma counts_inv_iff:
  "counts_inv jobs \<longleftrightarrow> hmap_inv jobs \<and> (\<forall>n c. hmap_get jobs n = Some c \<longrightarrow> c \<le> u32_max)"
  by (force simp: counts_inv_def hmap_get_Some_iff)

lemma books_inv_iff:
  "books_inv p \<longleftrightarrow> hmap_inv p \<and> (\<forall>i jobs. hmap_get p i = Some jobs \<longrightarrow> counts_inv jobs)"
  by (force simp: books_inv_def hmap_get_Some_iff)

lemma counts_inv_new [simp]: "counts_inv hmap_new"
  by (simp add: counts_inv_def hmap_new_def)

lemma counts_inv_insert: "counts_inv jobs \<Longrightarrow> c \<le> u32_max \<Longrightarrow> counts_inv (snd (hmap_insert jobs n c))"
  by (auto simp: counts_inv_iff hm.specs)

lemma counts_inv_get_mut:
  "counts_inv jobs \<Longrightarrow> (\<And>c. c \<le> u32_max \<Longrightarrow> f c \<le> u32_max) \<Longrightarrow> counts_inv (hmap_get_mut jobs n f)"
  by (auto simp: counts_inv_iff hm.specs split: if_splits)

lemma counts_inv_remove: "counts_inv jobs \<Longrightarrow> counts_inv (snd (hmap_remove jobs n))"
  by (auto simp: counts_inv_iff hm.specs split: if_splits)

lemma books_inv_insert: "books_inv p \<Longrightarrow> counts_inv jobs \<Longrightarrow> books_inv (snd (hmap_insert p i jobs))"
  by (auto simp: books_inv_iff hm.specs)

lemma books_inv_get_mut:
  "books_inv p \<Longrightarrow> (\<And>jobs. counts_inv jobs \<Longrightarrow> counts_inv (f jobs)) \<Longrightarrow> books_inv (hmap_get_mut p i f)"
  by (auto simp: books_inv_iff hm.specs split: if_splits)

lemma books_inv_remove: "books_inv p \<Longrightarrow> books_inv (snd (hmap_remove p i))"
  by (auto simp: books_inv_iff hm.specs split: if_splits)

lemma map_of_iter_mut: "map_of (hmap_iter_mut f m) k = map_option f (map_of m k)"
  by (induction m) (auto simp: hmap_iter_mut_def)

lemma hmap_get_iter_mut: "hmap_inv m \<Longrightarrow> hmap_get (hmap_iter_mut f m) k = map_option f (hmap_get m k)"
  by (simp add: hmap_get_map_of hmap_inv_iter_mut map_of_iter_mut)

lemma books_inv_iter_mut:
  "books_inv p \<Longrightarrow> (\<And>jobs. counts_inv jobs \<Longrightarrow> counts_inv (f jobs)) \<Longrightarrow> books_inv (hmap_iter_mut f p)"
  by (auto simp: books_inv_iff hmap_inv_iter_mut hmap_get_iter_mut)

lemmas books_inv_ops = counts_inv_insert counts_inv_get_mut counts_inv_remove
  books_inv_insert books_inv_get_mut books_inv_remove books_inv_iter_mut

abbreviation l_books_inv :: "leader \<Rightarrow> bool" where
  "l_books_inv l \<equiv> books_inv (l_placed l)"

lemma books_hmap_inv: "books_inv p \<Longrightarrow> hmap_inv p"
  by (simp add: books_inv_def)

lemma counts_hmap_inv: "counts_inv jobs \<Longrightarrow> hmap_inv jobs"
  by (simp add: counts_inv_def)

lemma placed_on_le: "l_books_inv l \<Longrightarrow> placed_on l i n \<le> u32_max"
  by (auto simp: placed_on_def dest!: books_inv_inner dest: counts_inv_bound split: option.splits)

lemma get_new_row:
  "books_inv p \<Longrightarrow> hmap_get (if hmap_get p i = None then snd (hmap_insert p i hmap_new) else p) i' =
     (if i' = i then Some (case hmap_get p i of None \<Rightarrow> hmap_new | Some jobs \<Rightarrow> jobs) else hmap_get p i')"
  by (auto simp: hm.specs books_hmap_inv)

lemma inv_new_row:
  "books_inv p \<Longrightarrow> books_inv (if hmap_get p i = None then snd (hmap_insert p i hmap_new) else p)"
  by (simp add: books_inv_insert)

lemma hmap_get_new [simp]: "hmap_get hmap_new k = None"
  by (simp add: hmap_new_def hmap_get_None_iff)

lemma placed_on_track:
  assumes "l_books_inv l"
  shows "placed_on (track_placement i n l) i' n' =
     (if i' = i \<and> n' = n then sat_add32 (placed_on l i n) 1 else placed_on l i' n')"
proof -
  let ?row = "case hmap_get (l_placed l) i of None \<Rightarrow> hmap_new | Some jobs \<Rightarrow> jobs"
  let ?up = "\<lambda>jobs. case hmap_get jobs n of Some _ \<Rightarrow> hmap_get_mut jobs n (\<lambda>n. sat_add32 n 1)
    | None \<Rightarrow> snd (hmap_insert jobs n 1)"
  have "hmap_get (l_placed (track_placement i n l)) i' =
      (if i' = i then Some (?up ?row) else hmap_get (l_placed l) i')"
    using hm.get_adj [OF books_hmap_inv [OF inv_new_row [OF assms, of i]]] get_new_row [OF assms, of i]
    by (simp add: track_placement_def Let_def)
  moreover have "hmap_inv ?row"
    using books_inv_inner [OF assms] by (auto intro: counts_hmap_inv split: option.splits)
  note hm.get_upsert [OF this, where k = n and f = "\<lambda>n. sat_add32 n 1" and v = 1 and k' = n']
  moreover have "1 = sat_add32 0 1" by (simp add: sat_add32_def u32_max_def)
  ultimately show ?thesis
    by (auto simp: placed_on_def split: option.splits)
qed

lemma placed_on_untrack:
  "l_books_inv l \<Longrightarrow> placed_on (untrack_one i n l) i' n' =
     (if i' = i \<and> n' = n then placed_on l i n - 1 else placed_on l i' n')"
  by (auto simp: placed_on_def untrack_one_def hm.specs books_hmap_inv
      counts_hmap_inv [OF books_inv_inner] split: option.splits)

lemma placed_on_untrack_job:
  "l_books_inv l \<Longrightarrow> placed_on (untrack_job i n l) i' n' =
     (if i' = i \<and> n' = n then 0 else placed_on l i' n')"
  by (auto simp: placed_on_def untrack_job_def hm.specs books_hmap_inv
      counts_hmap_inv [OF books_inv_inner] split: option.splits)

lemma placed_on_take:
  "l_books_inv l \<Longrightarrow> placed_on (snd (take_placement n l)) i' n' =
     (if n' = n then 0 else placed_on l i' n')"
  by (auto simp: placed_on_def take_placement_def hm.specs books_hmap_inv hmap_get_iter_mut
      counts_hmap_inv [OF books_inv_inner] split: option.splits)

interpretation books: placement_books placed_on track_placement untrack_one untrack_job
  "\<lambda>n l. snd (take_placement n l)" l_books_inv
  by unfold_locales
    (simp_all add: placed_on_le placed_on_track placed_on_untrack placed_on_untrack_job placed_on_take)

section \<open>What the operations leave alone\<close>

lemma track_placement_frame [simp, frame_simps]:
  "l_store (track_placement i n l) = l_store l" "l_agents (track_placement i n l) = l_agents l"
  "l_events (track_placement i n l) = l_events l" "l_settled (track_placement i n l) = l_settled l"
  "l_settle_at (track_placement i n l) = l_settle_at l" "l_dirty (track_placement i n l) = l_dirty l"
  "l_dirty_seen (track_placement i n l) = l_dirty_seen l"
  "l_round_robin (track_placement i n l) = l_round_robin l"
  by (simp_all add: track_placement_def Let_def)

lemma untrack_one_frame [simp, frame_simps]:
  "l_store (untrack_one i n l) = l_store l" "l_agents (untrack_one i n l) = l_agents l"
  "l_events (untrack_one i n l) = l_events l" "l_settled (untrack_one i n l) = l_settled l"
  "l_settle_at (untrack_one i n l) = l_settle_at l" "l_dirty (untrack_one i n l) = l_dirty l"
  "l_dirty_seen (untrack_one i n l) = l_dirty_seen l"
  "l_round_robin (untrack_one i n l) = l_round_robin l"
  by (simp_all add: untrack_one_def)

lemma untrack_job_frame [simp, frame_simps]:
  "l_store (untrack_job i n l) = l_store l" "l_agents (untrack_job i n l) = l_agents l"
  "l_events (untrack_job i n l) = l_events l" "l_settled (untrack_job i n l) = l_settled l"
  "l_settle_at (untrack_job i n l) = l_settle_at l" "l_dirty (untrack_job i n l) = l_dirty l"
  "l_dirty_seen (untrack_job i n l) = l_dirty_seen l"
  "l_round_robin (untrack_job i n l) = l_round_robin l"
  by (simp_all add: untrack_job_def)

lemma take_placement_frame [simp, frame_simps]:
  "l_store (snd (take_placement n l)) = l_store l"
  "l_agents (snd (take_placement n l)) = l_agents l"
  "l_events (snd (take_placement n l)) = l_events l"
  "l_settled (snd (take_placement n l)) = l_settled l"
  "l_settle_at (snd (take_placement n l)) = l_settle_at l"
  "l_dirty (snd (take_placement n l)) = l_dirty l"
  "l_dirty_seen (snd (take_placement n l)) = l_dirty_seen l"
  "l_round_robin (snd (take_placement n l)) = l_round_robin l"
  by (simp_all add: take_placement_def)

lemma leader_event_frame [simp, frame_simps]:
  "l_store (leader_event e l) = l_store l" "l_agents (leader_event e l) = l_agents l"
  "l_placed (leader_event e l) = l_placed l" "l_settled (leader_event e l) = l_settled l"
  "l_settle_at (leader_event e l) = l_settle_at l" "l_dirty (leader_event e l) = l_dirty l"
  "l_dirty_seen (leader_event e l) = l_dirty_seen l"
  "l_round_robin (leader_event e l) = l_round_robin l"
  "l_agent_timeout (leader_event e l) = l_agent_timeout l" "l_ticks (leader_event e l) = l_ticks l"
  "l_local_agent_id (leader_event e l) = l_local_agent_id l"
  by (simp_all add: leader_event_def)

lemma placed_on_event [simp]: "placed_on (leader_event e l) = placed_on l"
  by (simp add: placed_on_def fun_eq_iff)

lemma placed_on_update [simp]:
  "placed_on (l_store_update f l) = placed_on l" "placed_on (l_events_update g l) = placed_on l"
  "placed_on (l_round_robin_update h l) = placed_on l" "placed_on (l_dirty_update b l) = placed_on l"
  "placed_on (l_ticks_update t l) = placed_on l" "placed_on (l_settled_update s l) = placed_on l"
  "placed_on (l_settle_at_update s' l) = placed_on l"
  "placed_on (l_dirty_seen_update d l) = placed_on l"
  "placed_on (l_agents_update a l) = placed_on l"
  by (simp_all add: placed_on_def fun_eq_iff)

lemma leader_agent_update [simp]:
  "leader_agent (l_store_update f l) = leader_agent l"
  "leader_agent (l_events_update g l) = leader_agent l"
  "leader_agent (l_placed_update p l) = leader_agent l"
  "leader_agent (l_round_robin_update h l) = leader_agent l"
  "leader_agent (l_dirty_update b l) = leader_agent l"
  by (simp_all add: leader_agent_def fun_eq_iff)

section \<open>The operations keep the invariant\<close>

lemma leader_inv_new [simp]: "store_inv s \<Longrightarrow> leader_inv (leader_new i s)"
  by (simp add: leader_inv_def leader_new_def agents_inv_def books_inv_def hmap_new_def)

lemma leader_inv_event [inv_intros]: "leader_inv l \<Longrightarrow> leader_inv (leader_event e l)"
  by (simp add: leader_inv_def leader_event_def events_push_inv)

lemma leader_inv_books: "leader_inv l \<Longrightarrow> l_books_inv l"
  by (simp add: leader_inv_def)

lemma leader_inv_store: "leader_inv l \<Longrightarrow> store_inv (l_store l)"
  by (simp add: leader_inv_def)

lemma leader_inv_ids: "leader_inv l \<Longrightarrow> distinct (map a_id (l_agents l))"
  by (simp add: leader_inv_def agents_inv_def strictly_sorted_distinct)

lemma map_fst_iter_row [simp]: "map fst (hmap_iter_mut f p) = map fst p"
  by (simp add: hmap_iter_mut_def case_prod_unfold)

lemma hmap_insert_present:
  "hmap_inv m \<Longrightarrow> hmap_get m k \<noteq> None \<Longrightarrow> map fst (snd (hmap_insert m k v)) = map fst m"
  by (rule strictly_sorted_set_eq)
    (auto simp: hmap_inv_def [symmetric] hmap_inv_insert hmap_keys_insert hmap_get_None_iff)

lemma track_placement_keys:
  "hmap_get (l_placed l) i \<noteq> None \<Longrightarrow> map fst (l_placed (track_placement i n l)) = map fst (l_placed l)"
  by (auto simp: track_placement_def Let_def)

lemma leader_inv_row:
  "leader_inv l \<Longrightarrow> hmap_get (l_placed l) i \<noteq> None \<longleftrightarrow> i \<in> a_id ` set (l_agents l)"
  by (simp add: leader_inv_def books_hmap_inv hmap_get_None_iff flip: set_map)

lemma track_placement_books: "l_books_inv l \<Longrightarrow> l_books_inv (track_placement i n l)"
  by (auto simp: track_placement_def Let_def u32_max_def
      intro!: books_inv_ops inv_new_row split: option.split)
    (simp_all add: sat_add32_def u32_max_def)

lemma leader_inv_track [inv_intros]:
  "leader_inv l \<Longrightarrow> i \<in> a_id ` set (l_agents l) \<Longrightarrow> leader_inv (track_placement i n l)"
  using leader_inv_row [of l i] track_placement_keys [of l i n] track_placement_books [of l i n]
  by (simp add: leader_inv_def)

lemma leader_inv_untrack [inv_intros]: "leader_inv l \<Longrightarrow> leader_inv (untrack_one i n l)"
  by (auto simp: leader_inv_def untrack_one_def intro!: books_inv_ops)

lemma leader_inv_untrack_job [inv_intros]: "leader_inv l \<Longrightarrow> leader_inv (untrack_job i n l)"
  by (auto simp: leader_inv_def untrack_job_def intro!: books_inv_ops)

lemma leader_inv_take [inv_intros]: "leader_inv l \<Longrightarrow> leader_inv (snd (take_placement n l))"
  by (auto simp: leader_inv_def take_placement_def intro!: books_inv_ops)

lemma hmap_remove_filter:
  assumes "hmap_inv m"
  shows "map fst (snd (hmap_remove m k)) = filter (\<lambda>x. x \<noteq> k) (map fst m)"
proof (rule strictly_sorted_set_eq)
  show "strictly_sorted (map fst (snd (hmap_remove m k)))"
    using hmap_inv_remove [OF assms] by (simp add: hmap_inv_def)
  show "strictly_sorted (filter (\<lambda>x. x \<noteq> k) (map fst m))"
    using assms unfolding hmap_inv_def by (rule strictly_sorted_filter)
  show "set (map fst (snd (hmap_remove m k))) = set (filter (\<lambda>x. x \<noteq> k) (map fst m))"
    using hmap_keys_remove [OF assms] by auto
qed

lemma filter_ids: "map a_id (filter (\<lambda>a. a_id a \<noteq> i) as) = filter (\<lambda>x. x \<noteq> i) (map a_id as)"
  by (induction as) auto

lemma leader_inv_remove [inv_intros]: "leader_inv l \<Longrightarrow> leader_inv (remove_agent i l)"
  by (auto simp: leader_inv_def remove_agent_def books_inv_ops agents_inv_def filter_ids
      strictly_sorted_filter hmap_remove_filter books_hmap_inv
      intro: le_trans [OF length_filter_le])

lemma placed_on_remove_agent:
  "l_books_inv l \<Longrightarrow> placed_on (remove_agent i l) i' n = (if i' = i then 0 else placed_on l i' n)"
  by (simp add: placed_on_def remove_agent_def hm.specs books_hmap_inv)

lemma remove_agent_frame [simp, frame_simps]:
  "l_store (remove_agent i l) = l_store l" "l_events (remove_agent i l) = l_events l"
  "l_settled (remove_agent i l) = l_settled l" "l_settle_at (remove_agent i l) = l_settle_at l"
  "l_dirty (remove_agent i l) = l_dirty l" "l_agent_timeout (remove_agent i l) = l_agent_timeout l"
  "l_agents (remove_agent i l) = filter (\<lambda>a. a_id a \<noteq> i) (l_agents l)"
  by (simp_all add: remove_agent_def)

lemma map_id_agents_update:
  "(\<And>a. a_id (f a) = a_id a) \<Longrightarrow> map a_id (agents_update f i as) = map a_id as"
  by (induction as) auto

lemma leader_inv_heartbeat [inv_intros]: "leader_inv l \<Longrightarrow> leader_inv (snd (heartbeat i v t now l))"
proof -
  have "map a_id (agents_update f i as) = map a_id as \<and>
      length (agents_update f i as) = length as" if "\<And>a. a_id (f a) = a_id a" for f as
    using map_id_agents_update [of f i as, OF that] by (metis length_map)
  then show "leader_inv l \<Longrightarrow> ?thesis"
    by (simp add: leader_inv_def heartbeat_def agents_inv_def Let_def split: option.split)
qed

lemma leader_inv_notify [inv_intros]: "leader_inv l \<Longrightarrow> leader_inv (notify topic l)"
  by (simp add: notify_def leader_inv_event Let_def split: option.split)

lemma leader_inv_settle [inv_intros]: "leader_inv l \<Longrightarrow> leader_inv (settle d now l)"
  by (simp add: leader_inv_def settle_def)

lemma leader_inv_drain [inv_intros]: "leader_inv l \<Longrightarrow> leader_inv (snd (drain_events l))"
  by (simp add: leader_inv_def drain_events_def events_drain_def events_inv_def)

lemma leader_inv_put [inv_intros]: "leader_inv l \<Longrightarrow> leader_inv (snd (leader_store_put j l))"
  using store_put_inv [of "l_store l" j]
  by (auto simp: leader_inv_def leader_store_put_def split: prod.split sum.split)

lemma leader_inv_store_remove [inv_intros]:
  "leader_inv l \<Longrightarrow> leader_inv (snd (leader_store_remove n l))"
  using store_remove_inv [of "l_store l" n]
  by (auto simp: leader_inv_def leader_store_remove_def split: prod.split)

lemma store_set_priority_inv [inv_intros]: "store_inv s \<Longrightarrow> store_inv (snd (store_set_priority n p s))"
  by (auto simp: store_set_priority_def intro!: store_get_mut_inv split: option.split)

lemma store_set_deploying_inv [inv_intros]: "store_inv s \<Longrightarrow> store_inv (snd (store_set_deploying n d s))"
  by (auto simp: store_set_deploying_def intro!: store_get_mut_inv split: option.split)

lemma leader_inv_set_priority [inv_intros]:
  "leader_inv l \<Longrightarrow> leader_inv (snd (leader_store_set_priority n p l))"
  using store_set_priority_inv [of "l_store l" n p]
  by (auto simp: leader_inv_def leader_store_set_priority_def split: prod.split)

lemma leader_inv_set_deploying [inv_intros]:
  "leader_inv l \<Longrightarrow> leader_inv (snd (leader_store_set_deploying n d l))"
  using store_set_deploying_inv [of "l_store l" n d]
  by (auto simp: leader_inv_def leader_store_set_deploying_def split: prod.split)

section \<open>The two views on the books\<close>

lemma count_up_get:
  "hmap_inv out \<Longrightarrow> hmap_get (count_up out name n) k =
    (if k = name then Some (case hmap_get out name of Some t \<Rightarrow> sat_add32 t n | None \<Rightarrow> n)
     else hmap_get out k)"
  unfolding count_up_def by (rule hm.get_upsert)

lemma count_up_inv: "hmap_inv out \<Longrightarrow> hmap_inv (count_up out name n)"
  unfolding count_up_def by (rule hm.inv_upsert)

text \<open>A saturating counter, added up over a list of rows.\<close>

definition opt_count :: "nat option \<Rightarrow> nat" where
  "opt_count x = (case x of None \<Rightarrow> 0 | Some n \<Rightarrow> n)"

lemma opt_count_simps [simp]: "opt_count None = 0" "opt_count (Some n) = n"
  by (simp_all add: opt_count_def)

lemma sat_add32_min:
  "sat_add32 (min a u32_max) b = min (a + b) u32_max" "b \<le> u32_max \<Longrightarrow> min b u32_max = b"
  by (auto simp: sat_add32_def)

lemma count_row:
  assumes "hmap_inv out" "counts_inv jobs" "\<forall>k. opt_count (hmap_get out k) = min (f k) u32_max"
  shows "hmap_inv (foldl (\<lambda>out (name, n). count_up out name n) out jobs) \<and>
    (\<forall>k. opt_count (hmap_get (foldl (\<lambda>out (name, n). count_up out name n) out jobs) k) =
       min (f k + opt_count (map_of jobs k)) u32_max)"
proof -
  have "distinct (map fst jobs)" "\<forall>c \<in> snd ` set jobs. c \<le> u32_max"
    using assms(2) by (simp_all add: counts_inv_def hmap_inv_distinct)
  then show ?thesis using assms(1,3)
  proof (induction jobs arbitrary: out f)
    case (Cons p jobs)
    obtain name n where p: "p = (name, n)" by (cases p)
    let ?f = "f(name := f name + n)"
    have n: "n \<le> u32_max" "map_of jobs name = None"
      using Cons.prems(1,2) by (auto simp: p map_of_eq_None_iff)
    have "opt_count (hmap_get (count_up out name n) k) = min (?f k) u32_max" for k
      using Cons.prems(4)[rule_format, of k] n(1) Cons.prems(3)
      by (auto simp: count_up_get sat_add32_def split: option.split)
    with Cons.IH [of "count_up out name n" ?f] Cons.prems count_up_inv n(2) show ?case
      by (fastforce simp: p)
  qed simp
qed

lemma count_rows:
  assumes "hmap_inv out" "\<forall>jobs \<in> snd ` set p. counts_inv jobs"
    "\<forall>k. opt_count (hmap_get out k) = min (f k) u32_max"
  shows "opt_count (hmap_get (foldl (\<lambda>out (_, jobs). foldl (\<lambda>out (name, n). count_up out name n) out
      (hmap_iter jobs)) out p) k) = min (f k + (\<Sum>(_, jobs)\<leftarrow>p. opt_count (map_of jobs k))) u32_max"
  using assms
proof (induction p arbitrary: out f)
  case (Cons r p)
  obtain i jobs where r: "r = (i, jobs)" by (cases r)
  let ?out = "foldl (\<lambda>out (name, n). count_up out name n) out jobs"
  let ?f = "\<lambda>k. f k + opt_count (map_of jobs k)"
  have "counts_inv jobs" using Cons.prems(2) by (simp add: r)
  from count_row [OF Cons.prems(1) this Cons.prems(3)]
  have "hmap_inv ?out" "\<forall>k. opt_count (hmap_get ?out k) = min (?f k) u32_max" by auto
  with Cons.IH [of ?out ?f] Cons.prems(2) show ?case by (simp add: r hmap_iter_def add.assoc)
qed simp

lemma placed_on_row:
  assumes "books_inv (l_placed l)" "(i, jobs) \<in> set (l_placed l)"
  shows "placed_on l i n = opt_count (map_of jobs n)"
proof -
  have "hmap_get (l_placed l) i = Some jobs"
    using assms by (simp add: books_hmap_inv hmap_get_mem)
  moreover from books_inv_inner [OF assms(1) this] have "hmap_inv jobs" by (rule counts_hmap_inv)
  ultimately show ?thesis by (auto simp: placed_on_def hmap_get_map_of split: option.split)
qed

lemma sum_rows_agents:
  assumes "leader_inv l"
  shows "(\<Sum>(_, jobs)\<leftarrow>l_placed l. opt_count (map_of jobs n)) = (\<Sum>a\<leftarrow>l_agents l. placed_on l (a_id a) n)"
proof -
  have "(\<Sum>(_, jobs)\<leftarrow>l_placed l. opt_count (map_of jobs n)) = (\<Sum>i\<leftarrow>map fst (l_placed l). placed_on l i n)"
    using placed_on_row [OF leader_inv_books [OF assms]]
    by (auto simp: o_def intro!: arg_cong [of _ _ sum_list] map_cong)
  also have "\<dots> = (\<Sum>i\<leftarrow>map a_id (l_agents l). placed_on l i n)"
    using assms by (simp add: leader_inv_def)
  finally show ?thesis by (simp add: o_def)
qed

lemma placed_counts_total:
  assumes "leader_inv l"
  shows "opt_count (hmap_get (placed_counts l) n) =
    min (\<Sum>a\<leftarrow>l_agents l. placed_on l (a_id a) n) u32_max"
  using count_rows [of hmap_new "l_placed l" "\<lambda>_. 0" n] leader_inv_books [OF assms] sum_rows_agents [OF assms]
  by (simp add: placed_counts_def hmap_iter_def books_inv_def)

lemma placed_rows:
  assumes "hmap_inv out" "distinct (map fst p)" "\<forall>jobs \<in> snd ` set p. hmap_inv jobs"
    "\<forall>i \<in> fst ` set p. hmap_get out i = None"
  shows "hmap_get (foldl (\<lambda>out (agent, jobs). (case hmap_get jobs name of
           Some n \<Rightarrow> if n > 0 then snd (hmap_insert out agent n) else out | None \<Rightarrow> out)) out p) i =
      (if i \<in> fst ` set p then (case map_of p i of None \<Rightarrow> None | Some jobs \<Rightarrow>
         (case hmap_get jobs name of Some n \<Rightarrow> if n > 0 then Some n else None | None \<Rightarrow> None))
       else hmap_get out i)"
  using assms
proof (induction p arbitrary: out)
  case (Cons r p)
  obtain j jobs where r: "r = (j, jobs)" by (cases r)
  let ?out = "case hmap_get jobs name of
           Some n \<Rightarrow> if n > 0 then snd (hmap_insert out j n) else out | None \<Rightarrow> out"
  have inv: "hmap_inv ?out" using Cons.prems(1) by (auto intro: hmap_inv_insert split: option.split)
  have get: "hmap_get ?out k = (if k = j then (case hmap_get jobs name of
      Some n \<Rightarrow> if n > 0 then Some n else None | None \<Rightarrow> None) else hmap_get out k)" for k
    using Cons.prems by (auto simp: r hm.specs split: option.split)
  have j: "j \<notin> fst ` set p" using Cons.prems(2) by (simp add: r)
  have "\<forall>i \<in> fst ` set p. hmap_get ?out i = None" using j Cons.prems(4) by (auto simp: get r)
  with Cons.IH [of ?out] inv Cons.prems j show ?case by (auto simp: r get)
qed simp

lemma leader_placed_get:
  assumes "l_books_inv l"
  shows "hmap_get (leader_placed l n) i = (if placed_on l i n > 0 then Some (placed_on l i n) else None)"
  using placed_rows [of hmap_new "l_placed l" n i] assms
  by (auto simp: leader_placed_def hmap_iter_def books_inv_def hmap_inv_distinct placed_on_def
      hmap_get_map_of [of "l_placed l"] map_of_eq_None_iff counts_inv_def split: option.split)
    force

end
