(* ===== verification/Leader_Priority.thy ===== *)
theory Leader_Priority
  imports Leader_State
begin

text \<open>
  The priorities of \<^verbatim>\<open>leader/src/dispatch.rs\<close>: the order of the jobs and the two loops that
  number them (\<open>normalize_priorities\<close>, and the renumbering of \<open>patch_job_priority\<close>).  Both
  write, for each job, its place in an order; \<open>renumber\<close> is that specification.
\<close>

section \<open>The operations\<close>

definition effective_priority :: "int option \<Rightarrow> int" where
  "effective_priority p = (case p of Some v \<Rightarrow> v | None \<Rightarrow> i64_max)"

definition priority_order :: "leader \<Rightarrow> string list" where
  "priority_order l =
     map snd (sort (map (\<lambda>j. (effective_priority (j_priority j), j_name j)) (leader_jobs l)))"

fun normalize_loop :: "nat \<Rightarrow> string list \<Rightarrow> leader \<Rightarrow> leader" where
  "normalize_loop i [] l = l"
| "normalize_loop i (name # ns) l =
     (let p = i64_of_usize i;
          l1 = (if Option.bind (store_get (l_store l) name) j_priority \<noteq> Some p
                then snd (leader_store_set_priority name p l) else l)
      in normalize_loop (Suc i) ns l1)"

definition normalize_priorities :: "leader \<Rightarrow> leader" where
  "normalize_priorities l = normalize_loop 0 (priority_order l) l"

text \<open>The loop of \<^verbatim>\<open>patch_job_priority\<close> over the new order.\<close>

fun set_priorities :: "nat \<Rightarrow> string list \<Rightarrow> leader \<Rightarrow> leader" where
  "set_priorities i [] l = l"
| "set_priorities i (n # ns) l =
     set_priorities (Suc i) ns (snd (leader_store_set_priority n (i64_of_usize i) l))"

section \<open>Numbering along an order\<close>

text \<open>The place of a name in a list without repetition; the length when it is absent.\<close>

definition place_in :: "string list \<Rightarrow> string \<Rightarrow> nat" where
  "place_in ns n = length (takeWhile (\<lambda>x. x \<noteq> n) ns)"

definition renumber :: "nat \<Rightarrow> string list \<Rightarrow> job list \<Rightarrow> job list" where
  "renumber i ns js =
     map (\<lambda>j. if j_name j \<in> set ns
              then j\<lparr>j_priority := Some (i64_of_usize (i + place_in ns (j_name j)))\<rparr> else j) js"

lemma jobs_update_map:
  "distinct (map j_name js) \<Longrightarrow> (\<And>j. j_name (f j) = j_name j) \<Longrightarrow>
    jobs_update f n js = map (\<lambda>j. if j_name j = n then f j else j) js"
proof (induction js)
  case (Cons j js)
  have "map (\<lambda>j. if j_name j = n then f j else j) js = js" if "n = j_name j"
    using Cons.prems(1) that by (intro map_idI) (auto simp: image_iff)
  with Cons show ?case by auto
qed simp

lemma set_priority_jobs:
  assumes "store_inv (l_store l)"
  shows "ms_jobs (l_store (snd (leader_store_set_priority n p l))) =
    map (\<lambda>j. if j_name j = n then j\<lparr>j_priority := Some p\<rparr> else j) (ms_jobs (l_store l))"
proof (cases "store_get (l_store l) n")
  case None
  then have "map (\<lambda>j. if j_name j = n then j\<lparr>j_priority := Some p\<rparr> else j) (ms_jobs (l_store l)) = ms_jobs (l_store l)"
    by (intro map_idI) (auto simp: store_get_None_iff)
  with None show ?thesis by (simp add: leader_store_set_priority_def store_set_priority_def)
next
  case (Some j)
  then show ?thesis using assms
    by (simp add: leader_store_set_priority_def store_set_priority_def store_get_mut_def
        jobs_update_map store_inv_def)
qed

lemma set_priority_frame [simp, frame_simps]:
  "l_agents (snd (leader_store_set_priority n p l)) = l_agents l"
  "l_placed (snd (leader_store_set_priority n p l)) = l_placed l"
  "l_events (snd (leader_store_set_priority n p l)) = l_events l"
  "l_settled (snd (leader_store_set_priority n p l)) = l_settled l"
  "l_settle_at (snd (leader_store_set_priority n p l)) = l_settle_at l"
  "l_agent_timeout (snd (leader_store_set_priority n p l)) = l_agent_timeout l"
  "ms_state_time (l_store (snd (leader_store_set_priority n p l))) = ms_state_time (l_store l)"
  by (simp_all add: leader_store_set_priority_def store_set_priority_def store_get_mut_def
      split: prod.split option.split)

lemma place_in_simps [simp]:
  "place_in (n # ns) n = 0" "m \<noteq> n \<Longrightarrow> place_in (n # ns) m = Suc (place_in ns m)"
  by (simp_all add: place_in_def)

lemma place_in_nth: "distinct ns \<Longrightarrow> k < length ns \<Longrightarrow> place_in ns (ns ! k) = k"
proof (induction ns arbitrary: k)
  case (Cons n ns)
  show ?case
  proof (cases k)
    case (Suc m)
    with Cons.prems have "ns ! m \<noteq> n" by auto
    with Suc Cons show ?thesis by simp
  qed simp
qed simp

lemma renumber_Cons:
  assumes "n \<notin> set ns"
  shows "renumber i (n # ns) js =
    renumber (Suc i) ns (map (\<lambda>j. if j_name j = n then j\<lparr>j_priority := Some (i64_of_usize i)\<rparr> else j) js)"
  using assms by (auto simp: renumber_def)

lemma set_priorities_jobs:
  assumes "leader_inv l" "distinct ns"
  shows "ms_jobs (l_store (set_priorities i ns l)) = renumber i ns (ms_jobs (l_store l))"
  using assms
proof (induction ns arbitrary: i l)
  case Nil then show ?case by (simp add: renumber_def)
next
  case (Cons n ns)
  then show ?case
    using set_priority_jobs [of l n "i64_of_usize i"] renumber_Cons [of n ns i]
    by (simp add: leader_inv_set_priority leader_inv_store)
qed

text \<open>Skipping a job that already has its number changes nothing in the store.\<close>

lemma set_priority_same:
  assumes "store_inv (l_store l)" "Option.bind (store_get (l_store l) n) j_priority = Some p"
  shows "l_store (snd (leader_store_set_priority n p l)) = l_store l"
proof -
  obtain j where j: "store_get (l_store l) n = Some j" "j_priority j = Some p"
    using assms(2) by (auto simp: bind_eq_Some_conv)
  have "i\<lparr>j_priority := Some p\<rparr> = i" if "i \<in> set (ms_jobs (l_store l))" "j_name i = n" for i
    using store_get_unique [OF assms(1) that(1)] j that(2) by (cases i) simp
  then have "map (\<lambda>j. if j_name j = n then j\<lparr>j_priority := Some p\<rparr> else j) (ms_jobs (l_store l)) =
      ms_jobs (l_store l)"
    by (intro map_idI) auto
  with set_priority_jobs [OF assms(1), of n p] set_priority_frame(7) [of n p l] show ?thesis by simp
qed

lemma set_priority_store_cong:
  "l_store l = l_store l' \<Longrightarrow>
    l_store (snd (leader_store_set_priority n p l)) = l_store (snd (leader_store_set_priority n p l'))"
  by (simp add: leader_store_set_priority_def split: prod.split)

lemma set_priorities_store_cong:
  "l_store l = l_store l' \<Longrightarrow> l_store (set_priorities i ns l) = l_store (set_priorities i ns l')"
proof (induction ns arbitrary: i l l')
  case (Cons n ns)
  from set_priority_store_cong [OF Cons.prems] show ?case by (auto intro: Cons.IH)
qed simp

lemma normalize_loop_store:
  assumes "leader_inv l"
  shows "l_store (normalize_loop i ns l) = l_store (set_priorities i ns l)"
  using assms
proof (induction ns arbitrary: i l)
  case (Cons n ns)
  let ?p = "i64_of_usize i"
  let ?l = "snd (leader_store_set_priority n ?p l)"
  show ?case
  proof (cases "Option.bind (store_get (l_store l) n) j_priority = Some ?p")
    case True
    then have "l_store ?l = l_store l"
      using leader_inv_store [OF Cons.prems] by (rule set_priority_same [rotated])
    then show ?thesis using True Cons set_priorities_store_cong [of ?l l]
      by (simp add: Let_def)
  next
    case False
    with Cons show ?thesis by (simp add: Let_def leader_inv_set_priority)
  qed
qed simp

section \<open>The order after a renumbering\<close>

lemma i64_of_usize_int: "n < 2 ^ 63 \<Longrightarrow> i64_of_usize n = int n"
  by (auto simp: i64_of_usize_def i64_max_def)

lemma place_in_less: "n \<in> set ns \<Longrightarrow> place_in ns n < length ns"
  by (induction ns) (auto simp: place_in_def)

lemma sorted_keys:
  assumes "distinct ns"
  shows "strictly_sorted (map (\<lambda>n. (int (place_in ns n), n)) ns)"
  using assms by (auto simp: sorted_wrt_iff_nth_less place_in_nth)

abbreviation priority_key :: "job \<Rightarrow> int \<times> string" where
  "priority_key j \<equiv> (effective_priority (j_priority j), j_name j)"

definition order_of :: "job list \<Rightarrow> string list" where
  "order_of js = map snd (sort (map priority_key js))"

lemma priority_order_of: "priority_order l = order_of (ms_jobs (l_store l))"
  by (simp add: priority_order_def order_of_def leader_jobs_def)

lemma set_order_of [simp]: "set (order_of js) = j_name ` set js"
  by (force simp: order_of_def)

lemma length_order_of [simp]: "length (order_of js) = length js"
  by (simp add: order_of_def)

lemma distinct_order_of: "distinct (map j_name js) \<Longrightarrow> distinct (order_of js)"
  by (metis card_distinct distinct_card length_map length_order_of set_map set_order_of)

lemma order_of_renumber:
  assumes js: "distinct (map j_name js)" "length js < 2 ^ 63"
    and ns: "distinct ns" "set ns = j_name ` set js"
  shows "order_of (renumber 0 ns js) = ns"
proof -
  let ?key = "\<lambda>n. (int (place_in ns n), n)"
  have len: "length ns = length js"
    using js(1) ns by (metis distinct_card length_map set_map)
  have keys: "map priority_key (renumber 0 ns js) = map (\<lambda>j. ?key (j_name j)) js"
  proof -
    have "priority_key (if j_name j \<in> set ns then j\<lparr>j_priority := Some (i64_of_usize (0 + place_in ns (j_name j)))\<rparr> else j)
        = ?key (j_name j)" if "j \<in> set js" for j
    proof -
      have "j_name j \<in> set ns" using that ns(2) by blast
      moreover from place_in_less [OF this] have "place_in ns (j_name j) < 2 ^ 63"
        using js(2) len by linarith
      ultimately show ?thesis by (simp add: effective_priority_def i64_of_usize_int)
    qed
    then show ?thesis unfolding renumber_def map_map o_def by (intro map_cong refl)
  qed
  have "sort (map (\<lambda>j. ?key (j_name j)) js) = map ?key ns"
  proof (rule sorted_distinct_set_unique)
    have "distinct (map ?key (map j_name js))"
      using js(1) by (simp only: distinct_map) (simp add: inj_on_def)
    then show "distinct (sort (map (\<lambda>j. ?key (j_name j)) js))" by (simp add: o_def)
    show "sorted (map ?key ns)" "distinct (map ?key ns)"
      using sorted_keys [OF ns(1)] by (simp_all add: strict_sorted_iff)
    show "set (sort (map (\<lambda>j. ?key (j_name j)) js)) = set (map ?key ns)"
      using ns(2) by auto
  qed simp
  then show ?thesis by (simp add: order_of_def keys o_def)
qed

lemma renumber_names [simp]: "map j_name (renumber i ns js) = map j_name js"
  by (simp add: renumber_def)

lemma renumber_renumber: "renumber i ns (renumber i ns js) = renumber i ns js"
  by (simp add: renumber_def)

section \<open>Normalising the priorities\<close>

lemma store_jobs_bound: "store_inv s \<Longrightarrow> length (ms_jobs s) < 2 ^ 63"
  by (simp add: store_inv_def MAX_JOBS_def)

lemma normalize_jobs:
  assumes "leader_inv l"
  shows "ms_jobs (l_store (normalize_priorities l)) =
    renumber 0 (priority_order l) (ms_jobs (l_store l))"
  using assms leader_inv_store [OF assms] unfolding normalize_priorities_def
  by (simp add: normalize_loop_store set_priorities_jobs priority_order_of distinct_order_of store_inv_def)

lemma priority_order_normalize:
  assumes "leader_inv l"
  shows "priority_order (normalize_priorities l) = priority_order l"
  using normalize_jobs [OF assms] leader_inv_store [OF assms] store_jobs_bound [OF leader_inv_store [OF assms]]
  by (simp add: priority_order_of order_of_renumber distinct_order_of store_inv_def)

lemma set_priorities_inv [inv_intros]: "leader_inv l \<Longrightarrow> leader_inv (set_priorities i ns l)"
  by (induction ns arbitrary: i l) (auto intro: inv_intros)

lemma normalize_loop_inv: "leader_inv l \<Longrightarrow> leader_inv (normalize_loop i ns l)"
  by (induction ns arbitrary: i l) (auto simp: Let_def intro: inv_intros)

lemma normalize_inv [inv_intros]: "leader_inv l \<Longrightarrow> leader_inv (normalize_priorities l)"
  by (simp add: normalize_priorities_def normalize_loop_inv)

lemma normalize_loop_frame:
  "l_agents (normalize_loop i ns l) = l_agents l \<and> l_placed (normalize_loop i ns l) = l_placed l \<and>
   l_events (normalize_loop i ns l) = l_events l \<and> l_settled (normalize_loop i ns l) = l_settled l \<and>
   l_settle_at (normalize_loop i ns l) = l_settle_at l \<and>
   ms_state_time (l_store (normalize_loop i ns l)) = ms_state_time (l_store l)"
  by (induction ns arbitrary: i l) (simp_all add: Let_def)

lemma normalize_frame [simp, frame_simps]:
  "l_agents (normalize_priorities l) = l_agents l" "l_placed (normalize_priorities l) = l_placed l"
  "l_events (normalize_priorities l) = l_events l" "l_settled (normalize_priorities l) = l_settled l"
  "l_settle_at (normalize_priorities l) = l_settle_at l"
  "ms_state_time (l_store (normalize_priorities l)) = ms_state_time (l_store l)"
  by (simp_all add: normalize_priorities_def normalize_loop_frame)

text \<open>Only the numbers change: names, counts and the rest of every job stay.\<close>

lemma normalize_get:
  assumes "leader_inv l"
  shows "store_get (l_store (normalize_priorities l)) n =
    map_option (\<lambda>j. j\<lparr>j_priority := Some (int (place_in (priority_order l) n))\<rparr>) (store_get (l_store l) n)"
proof (cases "store_get (l_store l) n")
  case None
  have "j_name ` set (ms_jobs (l_store (normalize_priorities l))) = j_name ` set (ms_jobs (l_store l))"
    using normalize_jobs [OF assms] by (simp flip: set_map)
  with None show ?thesis by (metis option.map_disc_iff store_get_None_iff)
next
  case (Some j)
  note s = leader_inv_store [OF assms]
  have j: "j \<in> set (ms_jobs (l_store l))" "j_name j = n"
    using store_get_mem [OF Some] store_get_name [OF Some] .
  then have n: "n \<in> set (priority_order l)" by (auto simp: priority_order_of)
  from place_in_less [OF this] have "place_in (priority_order l) n < 2 ^ 63"
    using store_jobs_bound [OF s] by (simp add: priority_order_of)
  with j n have "j\<lparr>j_priority := Some (int (place_in (priority_order l) n))\<rparr>
      \<in> set (ms_jobs (l_store (normalize_priorities l)))"
    by (auto simp: normalize_jobs [OF assms] renumber_def i64_of_usize_int
        intro!: rev_image_eqI [of j])
  from store_get_unique [OF leader_inv_store [OF normalize_inv [OF assms]] this] Some j(2)
  show ?thesis by simp
qed

lemma normalize_loop_id:
  "\<forall>k < length ns. Option.bind (store_get (l_store l) (ns ! k)) j_priority = Some (i64_of_usize (i + k)) \<Longrightarrow>
    normalize_loop i ns l = l"
proof (induction ns arbitrary: i)
  case (Cons n ns)
  from Cons.prems have "Option.bind (store_get (l_store l) n) j_priority = Some (i64_of_usize i)" by force
  moreover have "\<forall>k < length ns. Option.bind (store_get (l_store l) (ns ! k)) j_priority = Some (i64_of_usize (Suc i + k))"
    using Cons.prems by force
  ultimately show ?case using Cons.IH [of "Suc i"] by (simp add: Let_def)
qed simp

lemma priority_order_distinct: "leader_inv l \<Longrightarrow> distinct (priority_order l)"
  using leader_inv_store [of l] by (simp add: priority_order_of distinct_order_of store_inv_def)

lemma priority_order_stored:
  assumes "leader_inv l" "n \<in> set (priority_order l)"
  obtains j where "store_get (l_store l) n = Some j"
  using assms store_get_None_iff [of "l_store l" n] by (auto simp: priority_order_of)

lemma priority_order_index: "leader_inv l \<Longrightarrow> k < length (priority_order l) \<Longrightarrow> i64_of_usize k = int k"
  using store_jobs_bound [OF leader_inv_store, of l] by (simp add: priority_order_of i64_of_usize_int)

lemma normalize_get_nth:
  assumes "leader_inv l" "k < length (priority_order l)"
  shows "store_get (l_store (normalize_priorities l)) (priority_order l ! k) =
    map_option (\<lambda>j. j\<lparr>j_priority := Some (int k)\<rparr>) (store_get (l_store l) (priority_order l ! k))"
  using normalize_get [OF assms(1)] place_in_nth [OF priority_order_distinct [OF assms(1)] assms(2)] by simp

lemma normalize_idem:
  assumes "leader_inv l"
  shows "normalize_priorities (normalize_priorities l) = normalize_priorities l"
proof -
  have "Option.bind (store_get (l_store (normalize_priorities l)) (priority_order l ! k)) j_priority = Some (i64_of_usize (0 + k))"
    if k: "k < length (priority_order l)" for k
  proof -
    obtain j where "store_get (l_store l) (priority_order l ! k) = Some j"
      by (rule priority_order_stored [OF assms nth_mem [OF k]])
    then show ?thesis using normalize_get_nth [OF assms k] priority_order_index [OF assms k] by simp
  qed
  then show ?thesis
    using normalize_loop_id [of "priority_order l" "normalize_priorities l" 0]
      priority_order_normalize [OF assms]
    by (simp add: normalize_priorities_def [of "normalize_priorities l"])
qed

end
