(* ===== verification/Leader_Dispatch.thy ===== *)
theory Leader_Dispatch
  imports Leader_Priority
begin

text \<open>
  \<^verbatim>\<open>leader/src/dispatch.rs\<close> and \<^verbatim>\<open>leader/src/health.rs\<close>, with the registration of
  \<^verbatim>\<open>leader/src/state.rs\<close>: placing round-robin, preemption, reconcile, dead
  agents and the tick.  Every operation takes the connection \<open>net\<close> and returns its
  result, the leader and the world after it.  A loop over a list is a recursion over it;
  what it keeps between rounds are the arguments.
\<close>

section \<open>Placing\<close>

definition next_agent :: "leader \<Rightarrow> agent option \<times> leader" where
  "next_agent l =
     (let n = length (l_agents l)
      in if n = 0 then (None, l)
         else (Some (l_agents l ! (l_round_robin l mod n)),
               l\<lparr>l_round_robin := wrap_add64 (l_round_robin l) 1\<rparr>))"

text \<open>One round of the search: the worst priority so far and who has it.\<close>

fun victim_step :: "mem_store \<Rightarrow> int \<times> string option \<Rightarrow> string \<times> nat \<Rightarrow> int \<times> string option" where
  "victim_step s (worst, victim) (name, n) =
     (if n = 0 then (worst, victim)
      else (case store_get s name of
              None \<Rightarrow> (worst, victim)
            | Some j \<Rightarrow>
                (let ep = effective_priority (j_priority j)
                 in if ep > worst then (ep, Some name) else (worst, victim))))"

definition find_victim :: "leader \<Rightarrow> string \<Rightarrow> int option \<Rightarrow> string option" where
  "find_victim l i priority =
     (case hmap_get (l_placed l) i of
        None \<Rightarrow> None
      | Some jobs \<Rightarrow>
          snd (foldl (victim_step (l_store l)) (effective_priority priority, None) (hmap_iter jobs)))"

text \<open>
  The first round of \<^verbatim>\<open>place\<close>, \<open>k\<close> agents to go: \<open>None\<close> when one accepted (and \<^verbatim>\<open>place\<close>
  returns), otherwise the agents that had no room.
\<close>

fun place_round :: "'w transport \<Rightarrow> job \<Rightarrow> nat \<Rightarrow> agent list \<Rightarrow> leader \<Rightarrow> 'w \<Rightarrow> agent list option \<times> leader \<times> 'w" where
  "place_round net job 0 full l w = (Some full, l, w)"
| "place_round net job (Suc k) full l w =
     (case next_agent l of
        (None, l1) \<Rightarrow> (Some full, l1, w)
      | (Some a, l1) \<Rightarrow>
          (case net_run net a job False w of
             (Accepted, w1) \<Rightarrow> (None, track_placement (a_id a) (j_name job) l1, w1)
           | (NoCapacity, w1) \<Rightarrow> place_round net job k (full @ [a]) l1 w1
           | (_, w1) \<Rightarrow> place_round net job k full l1 w1))"

text \<open>The second round: make room on the agents that had none.  \<open>True\<close> when placed.\<close>

fun place_preempt :: "'w transport \<Rightarrow> job \<Rightarrow> agent list \<Rightarrow> leader \<Rightarrow> 'w \<Rightarrow> bool \<times> leader \<times> 'w" where
  "place_preempt net job [] l w = (False, l, w)"
| "place_preempt net job (a # rest) l w =
     (case find_victim l (a_id a) (j_priority job) of
        None \<Rightarrow> place_preempt net job rest l w
      | Some victim \<Rightarrow>
          (case net_stop_job net a victim w of
             (False, w1) \<Rightarrow> place_preempt net job rest l w1
           | (True, w1) \<Rightarrow>
               (let l1 = untrack_job (a_id a) victim l
                in case net_run net a job False w1 of
                     (reply, w2) \<Rightarrow>
                       if reply = Accepted
                       then (True, leader_event (EvJob victim)
                               (track_placement (a_id a) (j_name job) l1), w2)
                       else place_preempt net job rest l1 w2)))"

definition place :: "'w transport \<Rightarrow> job \<Rightarrow> bool \<Rightarrow> leader \<Rightarrow> 'w \<Rightarrow> (refusal + unit) \<times> leader \<times> 'w" where
  "place net job allow_preempt l w =
     (let n = length (l_agents l)
      in if n = 0 then (Inl NoAgents, l, w)
         else case place_round net job n [] l w of
                (None, l1, w1) \<Rightarrow> (Inr (), l1, w1)
              | (Some full, l1, w1) \<Rightarrow>
                  if full = [] then (Inl (NoneAccepted n), l1, w1)
                  else if \<not> allow_preempt then (Inl (Full (length full)), l1, w1)
                  else case place_preempt net job full l1 w1 of
                         (True, l2, w2) \<Rightarrow> (Inr (), l2, w2)
                       | (False, l2, w2) \<Rightarrow> (Inl (Full (length full)), l2, w2))"

text \<open>Instances \<open>i\<close> to \<open>i + k - 1\<close> of \<open>count\<close>.\<close>

fun dispatch_loop :: "'w transport \<Rightarrow> job \<Rightarrow> nat \<Rightarrow> nat \<Rightarrow> nat \<Rightarrow> leader \<Rightarrow> 'w \<Rightarrow> (leader_error + unit) \<times> leader \<times> 'w" where
  "dispatch_loop net job count i 0 l w = (Inr (), l, w)"
| "dispatch_loop net job count i (Suc k) l w =
     (case place net job True l w of
        (Inl why, l1, w1) \<Rightarrow> (Inl (Dispatch (name_new (j_name job)) (i + 1) count why), l1, w1)
      | (Inr _, l1, w1) \<Rightarrow> dispatch_loop net job count (Suc i) k l1 w1)"

definition dispatch_count :: "'w transport \<Rightarrow> job \<Rightarrow> nat \<Rightarrow> leader \<Rightarrow> 'w \<Rightarrow> (leader_error + unit) \<times> leader \<times> 'w" where
  "dispatch_count net job count l w =
     (let c = max count 1 in dispatch_loop net job c 0 c l w)"

section \<open>Reconcile\<close>

fun daemon_loop :: "'w transport \<Rightarrow> job \<Rightarrow> agent list \<Rightarrow> nat \<Rightarrow> leader \<Rightarrow> 'w \<Rightarrow> nat \<times> leader \<times> 'w" where
  "daemon_loop net job [] dispatched l w = (dispatched, l, w)"
| "daemon_loop net job (a # rest) dispatched l w =
     (case net_run net a job False w of
        (reply, w1) \<Rightarrow>
          if reply = Accepted
          then daemon_loop net job rest (Suc dispatched) (track_placement (a_id a) (j_name job) l) w1
          else daemon_loop net job rest dispatched l w1)"

definition reconcile_daemon :: "'w transport \<Rightarrow> job \<Rightarrow> leader \<Rightarrow> 'w \<Rightarrow> (leader_error + unit) \<times> leader \<times> 'w" where
  "reconcile_daemon net job l w =
     (let missing = filter (\<lambda>a. placed_on l (a_id a) (j_name job) = 0) (l_agents l)
      in case daemon_loop net job missing 0 l w of
           (dispatched, l1, w1) \<Rightarrow>
             (let l2 = (if dispatched > 0 then leader_event (EvJob (j_name job)) l1 else l1)
              in if dispatched = 0 \<and> missing \<noteq> []
                 then (Inl (DaemonRejected (name_new (j_name job))), l2, w1)
                 else (Inr (), l2, w1)))"

definition total_placed :: "leader \<Rightarrow> string \<Rightarrow> nat" where
  "total_placed l name = (\<Sum>a\<leftarrow>l_agents l. placed_on l (a_id a) name)"

definition reconcile_job :: "'w transport \<Rightarrow> job \<Rightarrow> leader \<Rightarrow> 'w \<Rightarrow> (leader_error + unit) \<times> leader \<times> 'w" where
  "reconcile_job net job l w =
     (if is_daemon job then reconcile_daemon net job l w
      else let total = total_placed l (j_name job)
           in if total \<ge> desired job then (Inr (), l, w)
              else case dispatch_count net job (desired job - total) l w of
                     (r, l1, w1) \<Rightarrow> (r, leader_event (EvJob (j_name job)) l1, w1))"

fun reconcile_loop :: "'w transport \<Rightarrow> string list \<Rightarrow> leader \<Rightarrow> 'w \<Rightarrow> (leader_error + unit) \<times> leader \<times> 'w" where
  "reconcile_loop net [] l w = (Inr (), l, w)"
| "reconcile_loop net (name # ns) l w =
     (case store_get (l_store l) name of
        None \<Rightarrow> reconcile_loop net ns l w
      | Some job \<Rightarrow>
          if j_name job = [] then reconcile_loop net ns l w
          else case reconcile_job net job l w of
                 (r, l1, w1) \<Rightarrow>
                   if r = Inl LOutOfMemory then (Inl LOutOfMemory, l1, w1)
                   else reconcile_loop net ns l1 w1)"

definition reconcile_jobs :: "'w transport \<Rightarrow> leader \<Rightarrow> 'w \<Rightarrow> (leader_error + unit) \<times> leader \<times> 'w" where
  "reconcile_jobs net l w =
     (if leader_jobs l = [] \<or> l_agents l = [] then (Inr (), l, w)
      else let l1 = (normalize_priorities l)\<lparr>l_round_robin := 0\<rparr>
           in reconcile_loop net (priority_order l1) l1 w)"

section \<open>Requests\<close>

definition dispatch_job :: "'w transport \<Rightarrow> job \<Rightarrow> leader \<Rightarrow> 'w \<Rightarrow> (leader_error + unit) \<times> leader \<times> 'w" where
  "dispatch_job net job l w =
     (if j_name job = [] then (Inl NameRequired, l, w)
      else case leader_store_put job l of
             (Inl e, l1) \<Rightarrow> (Inl e, l1, w)
           | (Inr _, l1) \<Rightarrow>
               if \<not> l_settled l1 then (Inr (), l1, w)
               else case (if is_daemon job then reconcile_job net job l1 w
                          else dispatch_count net job (desired job) l1 w) of
                      (Inl e, l2, w2) \<Rightarrow> (Inl e, l2, w2)
                    | (Inr _, l2, w2) \<Rightarrow> (Inr (), leader_event (EvJob (j_name job)) l2, w2))"

text \<open>The jobs of a returning agent that the cluster no longer needs there.\<close>

definition redundant_jobs :: "leader \<Rightarrow> string \<Rightarrow> string list" where
  "redundant_jobs l i =
     (case hmap_get (l_placed l) i of
        None \<Rightarrow> []
      | Some jobs \<Rightarrow>
          map fst (filter (\<lambda>(name, on_agent).
             if on_agent = 0 then False
             else case store_get (l_store l) name of
                    None \<Rightarrow> False
                  | Some job \<Rightarrow>
                      if is_daemon job then False
                      else let total = (\<Sum>(_, js)\<leftarrow>hmap_iter (l_placed l).
                                 (case hmap_get js name of None \<Rightarrow> 0 | Some n \<Rightarrow> n));
                               elsewhere = total - on_agent
                           in elsewhere \<ge> desired job) (hmap_iter jobs)))"

fun trim_stop :: "'w transport \<Rightarrow> agent option \<Rightarrow> string list \<Rightarrow> leader \<Rightarrow> 'w \<Rightarrow> leader \<times> 'w" where
  "trim_stop net agent [] l w = (l, w)"
| "trim_stop net agent (name # ns) l w =
     trim_stop net agent ns (leader_event (EvJob name) l)
       (case agent of Some a \<Rightarrow> snd (net_stop_job net a name w) | None \<Rightarrow> w)"

definition trim_returning_agent_surplus :: "'w transport \<Rightarrow> string \<Rightarrow> leader \<Rightarrow> 'w \<Rightarrow> leader \<times> 'w" where
  "trim_returning_agent_surplus net i l w =
     (let redundant = redundant_jobs l i
      in if redundant = [] then (l, w)
         else let l1 = foldl (\<lambda>l name. untrack_job i name l) l redundant
              in trim_stop net (agent_copy l1 i) redundant l1 w)"

definition register_agent :: "'w transport \<Rightarrow> agent \<Rightarrow> nat hmap \<Rightarrow> time \<Rightarrow> leader \<Rightarrow> 'w \<Rightarrow> (leader_error + bool) \<times> leader \<times> 'w" where
  "register_agent net agent placed now l w =
     (if (case leader_agent l (a_id agent) of
            Some existing \<Rightarrow> a_endpoint existing \<noteq> a_endpoint agent
              \<and> time_since now (a_last_seen existing) < l_agent_timeout l
          | None \<Rightarrow> False)
      then (Inr False, l, w)
      else
        let i = a_id agent; l1 = remove_agent i l
        in if length (l_agents l1) \<ge> MAX_AGENTS then (Inl (LTooMany ''agents'' MAX_AGENTS), l1, w)
           else
             let at = (case binary_search_by (\<lambda>a. ord_cmp (a_id a) i) (l_agents l1) of
                         Inr k \<Rightarrow> k | Inl k \<Rightarrow> k);
                 l2 = l1\<lparr>l_agents := insert_at at (agent\<lparr>a_last_seen := now\<rparr>) (l_agents l1),
                         l_placed := snd (hmap_insert (l_placed l1) i placed)\<rparr>
             in if l_settled l2
                then case trim_returning_agent_surplus net i l2 w of
                       (l3, w3) \<Rightarrow>
                         (case reconcile_jobs net l3 w3 of
                            (Inl e, l4, w4) \<Rightarrow> (Inl e, l4, w4)
                          | (Inr _, l4, w4) \<Rightarrow> (Inr True, leader_event (EvAgent i) l4, w4))
                else (Inr True, leader_event (EvAgent i) l2, w))"

definition unregister_agent :: "'w transport \<Rightarrow> string \<Rightarrow> leader \<Rightarrow> 'w \<Rightarrow> (leader_error + unit) \<times> leader \<times> 'w" where
  "unregister_agent net i l w = reconcile_jobs net (remove_agent i l) w"

definition mark_unplaced :: "'w transport \<Rightarrow> string \<Rightarrow> string \<Rightarrow> leader \<Rightarrow> 'w \<Rightarrow> (leader_error + unit) \<times> leader \<times> 'w" where
  "mark_unplaced net i name l w = reconcile_jobs net (untrack_one i name l) w"

definition delete_job :: "'w transport \<Rightarrow> string \<Rightarrow> leader \<Rightarrow> 'w \<Rightarrow> (leader_error + unit) \<times> leader \<times> 'w" where
  "delete_job net name l w =
     (case leader_store_remove name l of
        (None, l1) \<Rightarrow> (Inr (), l1, w)
      | (Some _, l1) \<Rightarrow>
          (case take_placement name l1 of
             (agents, l2) \<Rightarrow>
               reconcile_jobs net (leader_event (EvJob name) l2)
                 (foldl (\<lambda>w a. net_delete_job net a name w) w agents)))"

definition patch_job_priority :: "'w transport \<Rightarrow> string \<Rightarrow> int \<Rightarrow> leader \<Rightarrow> 'w \<Rightarrow> (leader_error + unit) \<times> leader \<times> 'w" where
  "patch_job_priority net name target l w =
     (if store_get (l_store l) name = None then (Inl (NotFound (name_new name)), l, w)
      else let order = filter (\<lambda>n. n \<noteq> name) (priority_order l);
               at = min (nat (max target 0)) (length order);
               l1 = set_priorities 0 (insert_at at name order) l
           in reconcile_jobs net (leader_event (EvJob name) l1) w)"

definition check_dead_agents :: "'w transport \<Rightarrow> time \<Rightarrow> leader \<Rightarrow> 'w \<Rightarrow> (leader_error + unit) \<times> leader \<times> 'w" where
  "check_dead_agents net now l w =
     (if \<not> l_settled l then (Inr (), l, w)
      else let dead = map a_id (filter (\<lambda>a. time_since now (a_last_seen a) > l_agent_timeout l) (l_agents l))
           in if dead = [] then (Inr (), l, w)
              else reconcile_jobs net
                     (foldl (\<lambda>l i. leader_event (EvAgent i) (remove_agent i l)) l dead) w)"

text \<open>The tick after the end of the settle period was handled.\<close>

definition tick_rest :: "'w transport \<Rightarrow> time \<Rightarrow> leader \<Rightarrow> 'w \<Rightarrow> (leader_error + unit) \<times> leader \<times> 'w" where
  "tick_rest net now l w =
     (case check_dead_agents net now l w of
        (Inl e, l1, w1) \<Rightarrow> (Inl e, l1, w1)
      | (Inr _, l1, w1) \<Rightarrow>
          (let l2 = l1\<lparr>l_ticks := wrap_add64 (l_ticks l1) 1\<rparr>
           in if l_settled l2 \<and> l_ticks l2 mod RECONCILE_EVERY_TICKS = 0
              then reconcile_jobs net l2 w1 else (Inr (), l2, w1)))"

definition tick :: "'w transport \<Rightarrow> time \<Rightarrow> leader \<Rightarrow> 'w \<Rightarrow> (leader_error + unit) \<times> leader \<times> 'w" where
  "tick net now l w =
     (if (case l_settle_at l of Some at \<Rightarrow> \<not> l_settled l \<and> now \<ge> at | None \<Rightarrow> False)
      then case reconcile_jobs net
                  (leader_event EvStatus (l\<lparr>l_settled := True, l_settle_at := None\<rparr>)) w of
             (Inl e, l1, w1) \<Rightarrow> (Inl e, l1, w1)
           | (Inr _, l1, w1) \<Rightarrow> tick_rest net now l1 w1
      else tick_rest net now l w)"

section \<open>Asking the agents\<close>

fun ask_tasks :: "'w transport \<Rightarrow> agent list \<Rightarrow> 'w \<Rightarrow> (string \<times> task list) list \<times> 'w" where
  "ask_tasks net [] w = ([], w)"
| "ask_tasks net (a # rest) w =
     (case net_tasks net a w of
        (ts, w1) \<Rightarrow>
          (case ask_tasks net rest w1 of
             (out, w2) \<Rightarrow> ((case ts of Some t \<Rightarrow> (a_id a, t) # out | None \<Rightarrow> out), w2)))"

definition cluster_status :: "'w transport \<Rightarrow> leader \<Rightarrow> 'w \<Rightarrow> (string \<times> task list) list \<times> 'w" where
  "cluster_status net l w = ask_tasks net (l_agents l) w"

definition job_status :: "'w transport \<Rightarrow> string \<Rightarrow> leader \<Rightarrow> 'w \<Rightarrow> (string \<times> task list) list \<times> 'w" where
  "job_status net name l w =
     (if store_get (l_store l) name = None then ([], w)
      else case ask_tasks net (filter (\<lambda>a. placed_on l (a_id a) name \<noteq> 0) (l_agents l)) w of
             (out, w1) \<Rightarrow> (map (\<lambda>(i, ts). (i, filter (\<lambda>t. t_job_name t = name) ts)) out, w1))"

section \<open>What placing touches\<close>

text \<open>Placing writes the books, the round-robin cursor and the events, nothing else.\<close>

definition books_step :: "leader \<Rightarrow> leader \<Rightarrow> bool" where
  "books_step l l' \<longleftrightarrow>
     l_store l' = l_store l \<and> l_agents l' = l_agents l \<and> l_settled l' = l_settled l \<and>
     l_settle_at l' = l_settle_at l \<and> l_dirty l' = l_dirty l \<and> l_dirty_seen l' = l_dirty_seen l \<and>
     l_agent_timeout l' = l_agent_timeout l \<and> l_ticks l' = l_ticks l \<and>
     l_local_agent_id l' = l_local_agent_id l"

lemma books_step_refl [simp]: "books_step l l"
  by (simp add: books_step_def)

lemma books_step_trans [trans]: "books_step l l1 \<Longrightarrow> books_step l1 l2 \<Longrightarrow> books_step l l2"
  by (simp add: books_step_def)

lemma books_step_ops [simp, intro]:
  "books_step l (track_placement i n l)" "books_step l (untrack_job i n l)"
  "books_step l (l\<lparr>l_round_robin := r\<rparr>)" "books_step l (leader_event e l)"
  "books_step l (untrack_one i n l)"
  by (simp_all add: books_step_def track_placement_def untrack_job_def untrack_one_def Let_def)

lemma books_step_frame:
  assumes "books_step l l'"
  shows "l_store l' = l_store l" "l_agents l' = l_agents l" "l_settled l' = l_settled l"
    "l_settle_at l' = l_settle_at l" "l_dirty l' = l_dirty l" "l_dirty_seen l' = l_dirty_seen l"
    "l_agent_timeout l' = l_agent_timeout l" "l_ticks l' = l_ticks l"
    "l_local_agent_id l' = l_local_agent_id l"
  using assms by (auto simp: books_step_def)

section \<open>The victim of a preemption\<close>

definition less_important :: "mem_store \<Rightarrow> int option \<Rightarrow> string \<Rightarrow> bool" where
  "less_important s p n =
     (case store_get s n of None \<Rightarrow> False
      | Some j \<Rightarrow> effective_priority p < effective_priority (j_priority j))"

text \<open>The priority of a placed job with at least one instance, as the search reads it.\<close>

definition rank_of :: "mem_store \<Rightarrow> string \<times> nat \<Rightarrow> int option" where
  "rank_of s r = (if snd r = 0 then None
     else map_option (\<lambda>j. effective_priority (j_priority j)) (store_get s (fst r)))"

lemma victim_fold:
  assumes "foldl (victim_step s) (worst, victim) rows = (worst', victim')"
  shows "worst \<le> worst' \<and> (\<forall>r \<in> set rows. \<forall>e. rank_of s r = Some e \<longrightarrow> e \<le> worst') \<and>
    (worst' = worst \<and> victim' = victim \<or>
     (\<exists>r \<in> set rows. rank_of s r = Some worst' \<and> victim' = Some (fst r) \<and> worst < worst'))"
  using assms
proof (induction rows arbitrary: worst victim)
  case (Cons r rows)
  obtain w v where wv: "victim_step s (worst, victim) r = (w, v)" by fastforce
  have head: "(rank_of s r = None \<longrightarrow> w = worst \<and> v = victim) \<and>
      (\<forall>e. rank_of s r = Some e \<longrightarrow> (if e > worst then w = e \<and> v = Some (fst r) else w = worst \<and> v = victim))"
    using wv by (cases r) (auto simp: rank_of_def Let_def split: if_splits option.splits)
  from Cons.prems wv have "foldl (victim_step s) (w, v) rows = (worst', victim')" by simp
  from Cons.IH [OF this] head show ?case
    by (cases "rank_of s r") (auto split: if_splits)
qed simp

lemma placed_on_pos_row:
  assumes "hmap_get (l_placed l) i = Some jobs" "hmap_inv jobs" "0 < placed_on l i n"
  shows "(n, placed_on l i n) \<in> set jobs"
  using assms by (cases "hmap_get jobs n") (simp_all add: placed_on_def flip: hmap_get_Some_iff)

lemma find_victim_fold:
  assumes "hmap_get (l_placed l) i = Some jobs"
  obtains w where "foldl (victim_step (l_store l)) (effective_priority p, None) jobs = (w, find_victim l i p)"
  using assms by (simp add: find_victim_def hmap_iter_def) (metis prod.collapse)

lemma find_victim_Some:
  assumes "l_books_inv l" "find_victim l i p = Some v"
  shows "0 < placed_on l i v \<and> less_important (l_store l) p v \<and>
    (\<forall>n j jv. 0 < placed_on l i n \<and> store_get (l_store l) n = Some j \<and> store_get (l_store l) v = Some jv
       \<longrightarrow> effective_priority (j_priority j) \<le> effective_priority (j_priority jv))"
proof -
  obtain jobs where jobs: "hmap_get (l_placed l) i = Some jobs"
    using assms(2) by (auto simp: find_victim_def split: option.splits)
  have inv: "hmap_inv jobs" using books_inv_inner [OF assms(1) jobs] by (rule counts_hmap_inv)
  obtain w where f: "foldl (victim_step (l_store l)) (effective_priority p, None) jobs = (w, Some v)"
    using find_victim_fold [OF jobs, of p] assms(2) by metis
  from victim_fold [OF f] obtain c where v: "(v, c) \<in> set jobs" "rank_of (l_store l) (v, c) = Some w"
    and w: "effective_priority p < w"
    and all: "\<forall>r \<in> set jobs. \<forall>e. rank_of (l_store l) r = Some e \<longrightarrow> e \<le> w" by force
  from v(2) obtain jv where jv: "store_get (l_store l) v = Some jv"
      "effective_priority (j_priority jv) = w" "c \<noteq> 0"
    by (auto simp: rank_of_def split: if_splits)
  have "placed_on l i v = c" using v(1) by (simp add: placed_on_def jobs hmap_get_mem [OF inv])
  moreover have "effective_priority (j_priority j) \<le> w"
    if "0 < placed_on l i n" "store_get (l_store l) n = Some j" for n j
    using all placed_on_pos_row [OF jobs inv that(1)] that by (force simp: rank_of_def)
  ultimately show ?thesis using jv w by (auto simp: less_important_def)
qed

lemma find_victim_None:
  assumes "l_books_inv l" "find_victim l i p = None" "0 < placed_on l i n"
  shows "\<not> less_important (l_store l) p n"
proof -
  obtain jobs where jobs: "hmap_get (l_placed l) i = Some jobs"
    using assms(3) by (auto simp: placed_on_def split: option.splits)
  have inv: "hmap_inv jobs" using books_inv_inner [OF assms(1) jobs] by (rule counts_hmap_inv)
  obtain w where f: "foldl (victim_step (l_store l)) (effective_priority p, None) jobs = (w, None)"
    using find_victim_fold [OF jobs, of p] assms(2) by metis
  from victim_fold [OF f] placed_on_pos_row [OF jobs inv assms(3)] assms(3) show ?thesis
    by (force simp: less_important_def rank_of_def split: option.splits)
qed

section \<open>What placing does to the books\<close>

text \<open>
  \<open>evicts l p l'\<close>: the books of \<open>l'\<close> are those of \<open>l\<close> less some jobs that are strictly less
  important than priority \<open>p\<close>.
\<close>

definition evicts :: "leader \<Rightarrow> int option \<Rightarrow> leader \<Rightarrow> bool" where
  "evicts l p l' \<longleftrightarrow> books_step l l' \<and>
     (\<forall>i n. placed_on l' i n = placed_on l i n \<or>
            (placed_on l' i n = 0 \<and> less_important (l_store l) p n))"

lemma evicts_refl [simp]: "evicts l p l"
  by (simp add: evicts_def)

lemma evicts_trans [trans]:
  assumes "evicts l p l1" "evicts l1 p l2"
  shows "evicts l p l2"
  using assms books_step_trans [of l l1 l2] unfolding evicts_def
  by (metis books_step_frame(1))

lemma evicts_victim:
  assumes "l_books_inv l" "find_victim l i p = Some v"
  shows "evicts l p (untrack_job i v l)"
  using find_victim_Some [OF assms] assms(1) by (simp add: evicts_def books.specs)

lemma evicts_cursor [simp]: "evicts l p (l\<lparr>l_round_robin := r\<rparr>)"
  by (simp add: evicts_def)

lemma next_agent_cases:
  "next_agent l = (None, l) \<and> l_agents l = [] \<or>
   (\<exists>a \<in> set (l_agents l). \<exists>r. next_agent l = (Some a, l\<lparr>l_round_robin := r\<rparr>))"
  by (auto simp: next_agent_def Let_def)

lemma place_round_spec:
  assumes "place_round net job k full l w = (res, l', w')"
  shows "\<exists>r. case res of
      None \<Rightarrow> \<exists>a \<in> set (l_agents l). l' = track_placement (a_id a) (j_name job) (l\<lparr>l_round_robin := r\<rparr>)
    | Some full' \<Rightarrow> l' = l\<lparr>l_round_robin := r\<rparr> \<and> set full' \<subseteq> set full \<union> set (l_agents l)"
  using assms
proof (induction k arbitrary: full l w)
  case 0
  then show ?case by (auto intro!: exI [of _ "l_round_robin l"])
next
  case (Suc k)
  from next_agent_cases [of l] show ?case
  proof (elim disjE bexE exE conjE)
    assume "next_agent l = (None, l)"
    with Suc.prems show ?thesis by (auto intro!: exI [of _ "l_round_robin l"])
  next
    fix a r assume a: "a \<in> set (l_agents l)" "next_agent l = (Some a, l\<lparr>l_round_robin := r\<rparr>)"
    obtain reply w1 where reply: "net_run net a job False w = (reply, w1)" by fastforce
    show ?thesis
    proof (cases "reply = Accepted")
      case True
      with Suc.prems a reply show ?thesis by auto
    next
      case False
      then obtain full1 where "full1 = full \<or> full1 = full @ [a]"
        and "place_round net job k full1 (l\<lparr>l_round_robin := r\<rparr>) w1 = (res, l', w')"
        using Suc.prems a reply by (cases reply) auto
      with Suc.IH [OF this(2)] a(1) show ?thesis by (force split: option.splits)
    qed
  qed
qed

text \<open>One instance of the job more on one registered agent, after evictions.\<close>

definition placed_one :: "leader \<Rightarrow> job \<Rightarrow> leader \<Rightarrow> bool" where
  "placed_one l job l' \<longleftrightarrow>
     (\<exists>l1. \<exists>a \<in> set (l_agents l). evicts l (j_priority job) l1 \<and> leader_inv l1 \<and>
        books_step l l' \<and> placed_on l' = placed_on (track_placement (a_id a) (j_name job) l1))"

lemma leader_inv_cursor [inv_intros]: "leader_inv l \<Longrightarrow> leader_inv (l\<lparr>l_round_robin := r\<rparr>)"
  by (simp add: leader_inv_def)

lemma placed_one_track:
  assumes "evicts l (j_priority job) l1" "leader_inv l1" "a \<in> set (l_agents l)"
  shows "placed_one l job (track_placement (a_id a) (j_name job) l1)"
  using assms books_step_trans [of l l1] unfolding placed_one_def evicts_def by blast

lemma placed_one_event [simp]: "placed_one l job (leader_event e l') \<longleftrightarrow> placed_one l job l'"
  by (simp add: placed_one_def books_step_def)

lemma evicts_placed_one: "evicts l (j_priority job) l1 \<Longrightarrow> placed_one l1 job l' \<Longrightarrow> placed_one l job l'"
  unfolding placed_one_def
  by (metis books_step_frame(2) books_step_trans evicts_def evicts_trans)

lemma place_preempt_spec:
  assumes "leader_inv l" "set full \<subseteq> set (l_agents l)"
    and "place_preempt net job full l w = (ok, l', w')"
  shows "leader_inv l' \<and> (if ok then placed_one l job l' else evicts l (j_priority job) l')"
  using assms
proof (induction full arbitrary: l w)
  case (Cons a full)
  note prems = Cons.prems
  obtain stop w1 where stop: "\<And>v. find_victim l (a_id a) (j_priority job) = Some v \<Longrightarrow>
      net_stop_job net a v w = (stop, w1)"
    by (cases "find_victim l (a_id a) (j_priority job)") fastforce+
  show ?case
  proof (cases "find_victim l (a_id a) (j_priority job)")
    case None
    with prems(3) have "place_preempt net job full l w = (ok, l', w')" by simp
    with Cons.IH [OF prems(1) _ this] prems(2) show ?thesis by simp
  next
    case (Some v)
    let ?l1 = "untrack_job (a_id a) v l"
    note ev = evicts_victim [OF leader_inv_books [OF prems(1)] Some]
    have inv1: "leader_inv ?l1" by (rule leader_inv_untrack_job [OF prems(1)])
    have a: "a \<in> set (l_agents l)" using prems(2) by simp
    obtain reply w2 where reply: "net_run net a job False w1 = (reply, w2)" by fastforce
    consider "\<not> stop" | "stop" "reply = Accepted" | "stop" "reply \<noteq> Accepted" by blast
    then show ?thesis
    proof cases
      case 1
      with prems(3) Some stop [OF Some] have "place_preempt net job full l w1 = (ok, l', w')" by simp
      with Cons.IH [OF prems(1) _ this] prems(2) show ?thesis by simp
    next
      case 2
      with prems(3) Some stop [OF Some] reply
      have l': "ok" "l' = leader_event (EvJob v) (track_placement (a_id a) (j_name job) ?l1)"
        by (simp_all add: Let_def)
      have "leader_inv l'" unfolding l'(2)
        by (rule leader_inv_event [OF leader_inv_track [OF inv1]]) (simp add: a)
      with l' placed_one_track [OF ev inv1 a] show ?thesis by simp
    next
      case 3
      with prems(3) Some stop [OF Some] reply
      have "place_preempt net job full ?l1 w2 = (ok, l', w')" by (simp add: Let_def)
      with Cons.IH [OF inv1 _ this] prems(2) evicts_trans [OF ev] evicts_placed_one [OF ev]
      show ?thesis by auto
    qed
  qed
qed simp

lemma place_spec:
  assumes "leader_inv l" "place net job pre l w = (res, l', w')"
  shows "leader_inv l' \<and> (if res = Inr () then placed_one l job l' else evicts l (j_priority job) l')"
proof (cases "l_agents l = []")
  case True
  with assms show ?thesis by (auto simp: place_def)
next
  case False
  obtain full l1 w1 where round: "place_round net job (length (l_agents l)) [] l w = (full, l1, w1)"
    by (metis prod_cases3)
  from place_round_spec [OF round, unfolded list.set Un_empty_left] obtain r where r: "case full of
      None \<Rightarrow> \<exists>a \<in> set (l_agents l). l1 = track_placement (a_id a) (j_name job) (l\<lparr>l_round_robin := r\<rparr>)
    | Some full' \<Rightarrow> l1 = l\<lparr>l_round_robin := r\<rparr> \<and> set full' \<subseteq> set (l_agents l)" by auto
  have inv: "leader_inv (l\<lparr>l_round_robin := r\<rparr>)" by (rule leader_inv_cursor [OF assms(1)])
  show ?thesis
  proof (cases full)
    case None
    with r obtain a where a: "a \<in> set (l_agents l)"
      "l1 = track_placement (a_id a) (j_name job) (l\<lparr>l_round_robin := r\<rparr>)" by auto
    have "leader_inv l1" using inv a by (auto intro!: leader_inv_track)
    moreover have "placed_one l job l1" using placed_one_track [OF evicts_cursor inv a(1)] a(2) by simp
    moreover have "res = Inr () \<and> l' = l1" using assms(2) False round None by (simp add: place_def)
    ultimately show ?thesis by simp
  next
    case (Some full')
    obtain ok l2 w2 where pre: "place_preempt net job full' l1 w1 = (ok, l2, w2)" by (metis prod_cases3)
    have l1: "leader_inv l1" "evicts l (j_priority job) l1" "set full' \<subseteq> set (l_agents l1)"
      using r Some inv by auto
    note spec = place_preempt_spec [OF l1(1,3) pre]
    show ?thesis
      using assms(2) False round Some pre spec l1 evicts_trans [OF l1(2)] evicts_placed_one [OF l1(2)]
      by (auto simp: place_def Let_def split: if_splits bool.splits)
  qed
qed

end
