(* ===== verification/Leader_Reconcile.thy ===== *)
theory Leader_Reconcile
  imports Leader_Dispatch
begin

text \<open>
  What dispatching and reconciling do to the books: the job at hand gains at most what it
  lacks, every other job keeps its instances or loses them to a strictly more important
  one.  \<open>placing\<close> is that contract for a run of placements of one job; it composes, and the
  loops are induction over it.
\<close>

section \<open>Runs of placements\<close>

definition others_kept :: "leader \<Rightarrow> job \<Rightarrow> leader \<Rightarrow> bool" where
  "others_kept l job l' \<longleftrightarrow>
     (\<forall>i n. n \<noteq> j_name job \<longrightarrow> placed_on l' i n = placed_on l i n \<or>
        (placed_on l' i n = 0 \<and> less_important (l_store l) (j_priority job) n))"

text \<open>No job is stored under this name with a worse priority, so it cannot evict itself.\<close>

abbreviation no_self_evict :: "leader \<Rightarrow> job \<Rightarrow> bool" where
  "no_self_evict l job \<equiv> \<not> less_important (l_store l) (j_priority job) (j_name job)"

definition placing :: "leader \<Rightarrow> job \<Rightarrow> nat \<Rightarrow> leader \<Rightarrow> bool" where
  "placing l job k l' \<longleftrightarrow> books_step l l' \<and> others_kept l job l' \<and>
     total_placed l' (j_name job) \<le> total_placed l (j_name job) + k \<and>
     (no_self_evict l job \<longrightarrow> (\<forall>i. placed_on l i (j_name job) \<le> placed_on l' i (j_name job)))"

lemma others_kept_refl [simp]: "others_kept l job l"
  by (simp add: others_kept_def)

lemma others_kept_trans:
  assumes "books_step l l1" "others_kept l job l1" "others_kept l1 job l2"
  shows "others_kept l job l2"
  using assms(2,3) books_step_frame(1) [OF assms(1)] unfolding others_kept_def by metis

lemma placing_refl [simp]: "placing l job k l"
  by (simp add: placing_def)

lemma total_mono:
  "l_agents l' = l_agents l \<Longrightarrow> (\<And>i. placed_on l' i n \<le> placed_on l i n) \<Longrightarrow> total_placed l' n \<le> total_placed l n"
  by (simp add: total_placed_def sum_list_mono)

lemma total_cong:
  "l_agents l' = l_agents l \<Longrightarrow> (\<And>i. placed_on l' i n = placed_on l i n) \<Longrightarrow> total_placed l' n = total_placed l n"
  by (simp add: total_placed_def)

lemma placing_trans:
  assumes "placing l job k l1" "placing l1 job k' l2"
  shows "placing l job (k + k') l2"
proof -
  have "books_step l l1" "books_step l1 l2" using assms by (auto simp: placing_def)
  moreover from this(1) have "l_store l1 = l_store l" by (rule books_step_frame)
  ultimately show ?thesis
    using assms others_kept_trans [of l l1 job l2] books_step_trans [of l l1 l2]
    unfolding placing_def by (auto intro: le_trans)
qed

lemma placing_event [simp]: "placing l job k (leader_event e l') \<longleftrightarrow> placing l job k l'"
  by (simp add: placing_def books_step_def total_placed_def others_kept_def)

lemma placing_evicts:
  assumes "evicts l (j_priority job) l'"
  shows "placing l job k l'"
proof -
  have "books_step l l'" "others_kept l job l'" using assms by (auto simp: evicts_def others_kept_def)
  moreover have "placed_on l' i n \<le> placed_on l i n" for i n
    using assms unfolding evicts_def by (metis le_refl zero_le)
  then have "total_placed l' (j_name job) \<le> total_placed l (j_name job)"
    using books_step_frame(2) [OF calculation(1)] by (rule total_mono [rotated])
  moreover have "placed_on l' i (j_name job) = placed_on l i (j_name job)"
    if "no_self_evict l job" for i using assms that by (auto simp: evicts_def)
  ultimately show ?thesis unfolding placing_def by simp
qed

lemma placing_track:
  assumes "leader_inv l"
  shows "placing l job 1 (track_placement i (j_name job) l)" (is "placing l job 1 ?l")
proof -
  note b = leader_inv_books [OF assms]
  have "total_placed ?l (j_name job) \<le> total_placed l (j_name job) + 1"
    using books.total_track_le [OF b leader_inv_ids [OF assms]] by (simp add: total_placed_def o_def)
  moreover have "others_kept l job ?l" by (simp add: others_kept_def books.specs [OF b])
  ultimately show ?thesis using books.on_track_ge [OF b] unfolding placing_def by blast
qed

lemma placing_placed_one:
  assumes "placed_one l job l'"
  shows "placing l job 1 l'"
proof -
  obtain l1 and a :: agent where l1: "evicts l (j_priority job) l1" "leader_inv l1" "books_step l l'"
    and eq: "placed_on l' = placed_on (track_placement (a_id a) (j_name job) l1)"
    using assms unfolding placed_one_def by metis
  have "placing l job 1 (track_placement (a_id a) (j_name job) l1)"
    using placing_trans [OF placing_evicts [OF l1(1), of 0] placing_track [OF l1(2)]] by simp
  moreover have "l_agents l1 = l_agents l" using l1(1) by (auto simp: evicts_def dest: books_step_frame)
  ultimately show ?thesis using l1(3) eq books_step_frame(2) [OF l1(3)]
    by (simp add: placing_def total_placed_def others_kept_def)
qed

lemma place_placing:
  assumes "leader_inv l" "place net job pre l w = (res, l', w')"
  shows "leader_inv l' \<and> placing l job 1 l'"
  using place_spec [OF assms] placing_placed_one placing_evicts [of l job l' 1]
  by (auto split: if_splits)

lemma dispatch_loop_placing:
  assumes "leader_inv l" "dispatch_loop net job c i k l w = (res, l', w')"
  shows "leader_inv l' \<and> placing l job k l' \<and> res \<noteq> Inl LOutOfMemory"
  using assms
proof (induction k arbitrary: i l w)
  case (Suc k)
  obtain r l1 w1 where p: "place net job True l w = (r, l1, w1)" by (metis prod_cases3)
  note one = place_placing [OF Suc.prems(1) p]
  show ?case
  proof (cases r)
    case (Inl why)
    with Suc.prems(2) p one placing_trans [of l job 1 l1 k l1] show ?thesis by auto
  next
    case (Inr u)
    with Suc.prems(2) p have "dispatch_loop net job c (Suc i) k l1 w1 = (res, l', w')" by simp
    with Suc.IH [OF _ this] one placing_trans [of l job 1 l1 k l'] show ?thesis by simp
  qed
qed auto

section \<open>Reconciling one job\<close>

lemma daemon_loop_spec:
  assumes "leader_inv l" "set as \<subseteq> set (l_agents l)" "distinct (map a_id as)"
    and "\<forall>a \<in> set as. placed_on l (a_id a) (j_name job) = 0"
    and "daemon_loop net job as d l w = (d', l', w')"
  shows "leader_inv l' \<and> books_step l l' \<and>
    (\<forall>i n. n \<noteq> j_name job \<longrightarrow> placed_on l' i n = placed_on l i n) \<and>
    (\<forall>i. placed_on l' i (j_name job) = placed_on l i (j_name job) \<or>
         placed_on l i (j_name job) = 0 \<and> placed_on l' i (j_name job) = 1 \<and> i \<in> a_id ` set as)"
  using assms
proof (induction "as" arbitrary: d l w)
  case (Cons a rest)
  obtain reply w1 where reply: "net_run net a job False w = (reply, w1)" by fastforce
  show ?case
  proof (cases "reply = Accepted")
    case True
    let ?l = "track_placement (a_id a) (j_name job) l"
    have rest: "daemon_loop net job rest (Suc d) ?l w1 = (d', l', w')"
      using Cons.prems(5) reply True by simp
    have inv: "leader_inv ?l" using Cons.prems(1,2) by (auto intro: leader_inv_track)
    note on = books.on_track [OF leader_inv_books [OF Cons.prems(1)]]
    have z: "\<forall>x \<in> set rest. placed_on ?l (a_id x) (j_name job) = 0"
    proof
      fix x assume x: "x \<in> set rest"
      with Cons.prems(3) have "a_id x \<noteq> a_id a" by (metis distinct.simps(2) image_eqI list.set_map list.simps(9))
      with x Cons.prems(4) show "placed_on ?l (a_id x) (j_name job) = 0" by (simp add: on)
    qed
    have one: "placed_on ?l (a_id a) (j_name job) = 1"
      using Cons.prems(4) by (simp add: on sat_add32_def u32_max_def)
    have kept: "placed_on ?l i n = placed_on l i n" if "n \<noteq> j_name job \<or> i \<noteq> a_id a" for i n
      using that by (auto simp: on)
    have IH: "leader_inv l'" "books_step ?l l'"
      "\<And>i n. n \<noteq> j_name job \<Longrightarrow> placed_on l' i n = placed_on ?l i n"
      "\<And>i. placed_on l' i (j_name job) = placed_on ?l i (j_name job) \<or>
         placed_on ?l i (j_name job) = 0 \<and> placed_on l' i (j_name job) = 1 \<and> i \<in> a_id ` set rest"
      using Cons.IH [OF inv _ _ z rest] Cons.prems(2,3) by auto
    have "placed_on l' i (j_name job) = placed_on l i (j_name job) \<or>
        placed_on l i (j_name job) = 0 \<and> placed_on l' i (j_name job) = 1 \<and> i \<in> a_id ` set (a # rest)" for i
    proof (cases "i = a_id a")
      case True
      with IH(4) [of i] one Cons.prems(4) show ?thesis by simp
    next
      case False
      with IH(4) [of i] kept [of "j_name job" i] show ?thesis by simp
    qed
    with IH(1-3) kept books_step_trans [OF _ IH(2), of l] show ?thesis by simp
  next
    case False
    then have "daemon_loop net job rest d l w1 = (d', l', w')" using Cons.prems(5) reply by simp
    from Cons.IH [OF Cons.prems(1) _ _ _ this] Cons.prems(2-4) show ?thesis by auto
  qed
qed simp

lemma reconcile_daemon_spec:
  assumes "leader_inv l" "reconcile_daemon net job l w = (res, l', w')"
  shows "leader_inv l' \<and> books_step l l' \<and> res \<noteq> Inl LOutOfMemory \<and>
    (\<forall>i n. n \<noteq> j_name job \<longrightarrow> placed_on l' i n = placed_on l i n) \<and>
    (\<forall>i. placed_on l' i (j_name job) = placed_on l i (j_name job) \<or>
         placed_on l i (j_name job) = 0 \<and> placed_on l' i (j_name job) = 1)"
proof -
  let ?as = "filter (\<lambda>a. placed_on l (a_id a) (j_name job) = 0) (l_agents l)"
  obtain d l1 w1 where loop: "daemon_loop net job ?as 0 l w = (d, l1, w1)" by (metis prod_cases3)
  have "distinct (map a_id ?as)" using leader_inv_ids [OF assms(1)] by (simp add: distinct_map_filter)
  moreover have "set ?as \<subseteq> set (l_agents l)" "\<forall>a \<in> set ?as. placed_on l (a_id a) (j_name job) = 0" by simp_all
  ultimately have spec: "leader_inv l1 \<and> books_step l l1 \<and>
    (\<forall>i n. n \<noteq> j_name job \<longrightarrow> placed_on l1 i n = placed_on l i n) \<and>
    (\<forall>i. placed_on l1 i (j_name job) = placed_on l i (j_name job) \<or>
         placed_on l i (j_name job) = 0 \<and> placed_on l1 i (j_name job) = 1 \<and> i \<in> a_id ` set ?as)"
    by (intro daemon_loop_spec [OF assms(1) _ _ _ loop])
  have l': "l' = l1 \<or> l' = leader_event (EvJob (j_name job)) l1" "res \<noteq> Inl LOutOfMemory"
    using assms(2) loop by (auto simp: reconcile_daemon_def Let_def split: if_splits)
  have s: "leader_inv l1" "books_step l l1"
      "\<forall>i n. n \<noteq> j_name job \<longrightarrow> placed_on l1 i n = placed_on l i n"
      "\<forall>i. placed_on l1 i (j_name job) = placed_on l i (j_name job) \<or>
         placed_on l i (j_name job) = 0 \<and> placed_on l1 i (j_name job) = 1"
    using spec by blast+
  from l'(1) have "leader_inv l'" "books_step l l'" "placed_on l' = placed_on l1"
    using leader_inv_event [OF s(1)] s(1) books_step_trans [OF s(2) books_step_ops(4)] s(2) by auto
  with s(3,4) l'(2) show ?thesis by simp
qed

text \<open>The bound a job's instances stay under, on one agent and in total.\<close>

definition not_over :: "job \<Rightarrow> leader \<Rightarrow> leader \<Rightarrow> bool" where
  "not_over j l l' \<longleftrightarrow>
     (if is_daemon j
      then \<forall>i. placed_on l' i (j_name j) \<le> max 1 (placed_on l i (j_name j))
      else total_placed l' (j_name j) \<le> max (desired j) (total_placed l (j_name j)))"

lemma not_over_refl [simp]: "not_over j l l"
  by (simp add: not_over_def)

lemma not_over_less:
  "not_over j l l1 \<Longrightarrow> l_agents l2 = l_agents l1 \<Longrightarrow> (\<And>i. placed_on l2 i (j_name j) \<le> placed_on l1 i (j_name j)) \<Longrightarrow>
    not_over j l l2"
  using total_mono [of l2 l1 "j_name j"] by (auto simp: not_over_def intro: le_trans split: if_splits)

lemma not_over_trans:
  assumes "not_over j l l1" "not_over j l1 l2"
  shows "not_over j l l2"
proof (cases "is_daemon j")
  case True
  have "placed_on l2 i (j_name j) \<le> max 1 (placed_on l i (j_name j))" for i
  proof -
    have "placed_on l2 i (j_name j) \<le> max 1 (placed_on l1 i (j_name j))"
      and "placed_on l1 i (j_name j) \<le> max 1 (placed_on l i (j_name j))"
      using assms True by (auto simp: not_over_def)
    then show ?thesis by linarith
  qed
  with True show ?thesis by (simp add: not_over_def)
qed (use assms in \<open>auto simp: not_over_def\<close>)

lemma reconcile_job_spec:
  assumes "leader_inv l" "reconcile_job net job l w = (res, l', w')"
  shows "leader_inv l' \<and> books_step l l' \<and> res \<noteq> Inl LOutOfMemory \<and> others_kept l job l' \<and>
    not_over job l l' \<and>
    (\<not> less_important (l_store l) (j_priority job) (j_name job) \<longrightarrow>
        (\<forall>i. placed_on l i (j_name job) \<le> placed_on l' i (j_name job)))"
proof (cases "is_daemon job")
  case True
  with assms(2) have "reconcile_daemon net job l w = (res, l', w')" by (simp add: reconcile_job_def)
  from reconcile_daemon_spec [OF assms(1) this] True show ?thesis
    by (auto simp: others_kept_def not_over_def) (metis le_refl max.coboundedI1 max.coboundedI2 le_refl zero_le)+
next
  case False
  show ?thesis
  proof (cases "desired job \<le> total_placed l (j_name job)")
    case True
    with assms False show ?thesis by (auto simp: reconcile_job_def)
  next
    case short: False
    let ?k = "desired job - total_placed l (j_name job)"
    have k: "max ?k 1 = ?k" using short by simp
    obtain l1 where loop: "dispatch_loop net job ?k 0 ?k l w = (res, l1, w')"
      and l': "l' = leader_event (EvJob (j_name job)) l1"
      using assms(2) False short
      by (auto simp: reconcile_job_def dispatch_count_def Let_def k split: prod.splits)
    from dispatch_loop_placing [OF assms(1) loop] have p: "leader_inv l1" "placing l job ?k l1"
      "res \<noteq> Inl LOutOfMemory" by auto
    then have "placing l job ?k l'" by (simp add: l')
    with p leader_inv_event [OF p(1)] short False show ?thesis
      by (auto simp: l' placing_def not_over_def others_kept_def)
  qed
qed

section \<open>Reconciling all jobs\<close>

text \<open>
  The contract of a reconcile round over the names \<open>ns\<close>: no job ends above its bound, an
  instance is only lost to a strictly more important job of the round, and only stored jobs gain.
\<close>

definition round_ok :: "string list \<Rightarrow> leader \<Rightarrow> leader \<Rightarrow> bool" where
  "round_ok ns l l' \<longleftrightarrow> books_step l l' \<and>
     (\<forall>j \<in> set (ms_jobs (l_store l)). not_over j l l') \<and>
     (\<forall>i n. placed_on l' i n < placed_on l i n \<longrightarrow>
        (\<exists>m j. m \<in> set ns \<and> store_get (l_store l) m = Some j \<and> less_important (l_store l) (j_priority j) n)) \<and>
     (\<forall>i n. placed_on l i n < placed_on l' i n \<longrightarrow> store_get (l_store l) n \<noteq> None)"

lemma round_ok_refl [simp]: "round_ok ns l l"
  by (simp add: round_ok_def)

lemma round_ok_trans:
  assumes "round_ok ms l l1" "round_ok ns l1 l2" "set ms \<union> set ns \<subseteq> set ks"
  shows "round_ok ks l l2"
proof -
  have st: "l_store l1 = l_store l" using assms(1) by (auto simp: round_ok_def dest: books_step_frame)
  have lost: "\<exists>m j. m \<in> set ks \<and> store_get (l_store l) m = Some j \<and> less_important (l_store l) (j_priority j) n"
    if "placed_on l2 i n < placed_on l i n" for i n
  proof -
    from that consider "placed_on l2 i n < placed_on l1 i n" | "placed_on l1 i n < placed_on l i n"
      by linarith
    then show ?thesis using assms st unfolding round_ok_def by cases (metis Un_iff subsetD)+
  qed
  have gained: "store_get (l_store l) n \<noteq> None" if "placed_on l i n < placed_on l2 i n" for i n
  proof -
    from that consider "placed_on l1 i n < placed_on l2 i n" | "placed_on l i n < placed_on l1 i n"
      by linarith
    then show ?thesis using assms st unfolding round_ok_def by cases metis+
  qed
  have "books_step l l2" using assms books_step_trans [of l l1 l2] by (simp add: round_ok_def)
  moreover have "not_over j l l2" if "j \<in> set (ms_jobs (l_store l))" for j
    using assms that st not_over_trans [of j l l1 l2] by (simp add: round_ok_def)
  ultimately show ?thesis using lost gained by (simp add: round_ok_def)
qed

lemma no_self_evict_stored: "store_get (l_store l) n = Some j \<Longrightarrow> no_self_evict l j"
  using store_get_name [of "l_store l" n j] by (simp add: less_important_def)

lemma reconcile_job_round:
  assumes "leader_inv l" "store_get (l_store l) n = Some job" "reconcile_job net job l w = (res, l', w')"
  shows "round_ok [n] l l'"
proof -
  note s = reconcile_job_spec [OF assms(1,3)]
  have name: "j_name job = n" by (rule store_get_name [OF assms(2)])
  have own: "placed_on l i n \<le> placed_on l' i n" for i
    using s no_self_evict_stored [OF assms(2)] name by simp
  have other: "placed_on l' i m = placed_on l i m \<or>
      (placed_on l' i m = 0 \<and> less_important (l_store l) (j_priority job) m)" if "m \<noteq> n" for i m
    using s that name by (auto simp: others_kept_def)
  have le: "placed_on l' i m \<le> placed_on l i m" if "m \<noteq> n" for i m
    using other [OF that, of i] by auto
  have "not_over j l l'" if j: "j \<in> set (ms_jobs (l_store l))" for j
  proof (cases "j_name j = n")
    case True
    then have "j = job" using store_get_unique [OF leader_inv_store [OF assms(1)] j] assms(2) by simp
    then show ?thesis using s by simp
  next
    case False
    with s le show ?thesis by (intro not_over_less [OF not_over_refl]) (auto dest: books_step_frame)
  qed
  moreover have "m \<noteq> n \<and> less_important (l_store l) (j_priority job) m" if "placed_on l' i m < placed_on l i m" for i m
  proof -
    from that own [of i] have "m \<noteq> n" by (metis leD)
    with other [of m i] that show ?thesis by auto
  qed
  moreover have "m = n" if "placed_on l i m < placed_on l' i m" for i m
    using that le [of m i] by (metis leD)
  ultimately show ?thesis using s assms(2) by (auto simp: round_ok_def)
qed

lemma reconcile_loop_spec:
  assumes "leader_inv l" "reconcile_loop net ns l w = (res, l', w')"
  shows "leader_inv l' \<and> res = Inr () \<and> round_ok ns l l'"
  using assms
proof (induction ns arbitrary: l w)
  case (Cons n ns)
  show ?case
  proof (cases "\<exists>job. store_get (l_store l) n = Some job \<and> j_name job \<noteq> []")
    case False
    then have "reconcile_loop net ns l w = (res, l', w')"
      using Cons.prems(2) by (auto split: option.splits)
    from Cons.IH [OF Cons.prems(1) this] round_ok_trans [of "[]" l l ns l' "n # ns"] show ?thesis by auto
  next
    case True
    then obtain job where job: "store_get (l_store l) n = Some job" "j_name job \<noteq> []" by blast
    obtain r l1 w1 where rj: "reconcile_job net job l w = (r, l1, w1)" by (metis prod_cases3)
    note s = reconcile_job_spec [OF Cons.prems(1) rj]
    then have "reconcile_loop net ns l1 w1 = (res, l', w')" using Cons.prems(2) job rj by simp
    from Cons.IH [OF _ this] s round_ok_trans [OF reconcile_job_round [OF Cons.prems(1) job(1) rj], of ns l' "n # ns"]
    show ?thesis by auto
  qed
qed auto

text \<open>The state the loop of a reconcile round starts from.\<close>

definition round_start :: "leader \<Rightarrow> leader" where
  "round_start l = (normalize_priorities l)\<lparr>l_round_robin := 0\<rparr>"

lemma round_start_inv [inv_intros]: "leader_inv l \<Longrightarrow> leader_inv (round_start l)"
  unfolding round_start_def by (intro leader_inv_cursor normalize_inv)

lemma round_start_frame [simp, frame_simps]:
  "l_agents (round_start l) = l_agents l" "l_placed (round_start l) = l_placed l"
  "l_events (round_start l) = l_events l" "l_settled (round_start l) = l_settled l"
  "l_settle_at (round_start l) = l_settle_at l"
  "l_store (round_start l) = l_store (normalize_priorities l)"
  by (simp_all add: round_start_def)

lemma placed_on_cong: "l_placed l = l_placed l' \<Longrightarrow> placed_on l = placed_on l'"
  by (simp add: placed_on_def fun_eq_iff)

lemma round_start_placed [simp]: "placed_on (round_start l) = placed_on l"
  by (rule placed_on_cong) simp

lemma round_start_total [simp]: "total_placed (round_start l) = total_placed l"
  by (simp add: total_placed_def fun_eq_iff)

lemma reconcile_jobs_loop:
  assumes "leader_inv l" "leader_jobs l \<noteq> []" "l_agents l \<noteq> []"
  shows "reconcile_jobs net l w = reconcile_loop net (priority_order l) (round_start l) w"
  using assms priority_order_normalize [OF assms(1)]
  by (simp add: reconcile_jobs_def Let_def round_start_def priority_order_of)

lemma reconcile_jobs_idle:
  "leader_jobs l = [] \<or> l_agents l = [] \<Longrightarrow> reconcile_jobs net l w = (Inr (), l, w)"
  by (simp add: reconcile_jobs_def)

lemma reconcile_jobs_inv_ok:
  assumes "leader_inv l" "reconcile_jobs net l w = (res, l', w')"
  shows "leader_inv l' \<and> res = Inr ()"
proof (cases "leader_jobs l = [] \<or> l_agents l = []")
  case True
  with assms show ?thesis by (auto simp: reconcile_jobs_idle)
next
  case False
  then have "reconcile_loop net (priority_order l) (round_start l) w = (res, l', w')"
    using assms reconcile_jobs_loop [OF assms(1), of net w] by simp
  from reconcile_loop_spec [OF round_start_inv [OF assms(1)] this] show ?thesis by simp
qed

lemma reconcile_jobs_inv [inv_intros]: "leader_inv l \<Longrightarrow> leader_inv (fst (snd (reconcile_jobs net l w)))"
  using reconcile_jobs_inv_ok [of l net w] by (metis prod.collapse)

lemma reconcile_jobs_ok: "leader_inv l \<Longrightarrow> fst (reconcile_jobs net l w) = Inr ()"
  using reconcile_jobs_inv_ok [of l net w] by (metis prod.collapse)

lemma not_over_priority: "not_over (j\<lparr>j_priority := p\<rparr>) l l' \<longleftrightarrow> not_over j l l'"
  by (simp add: not_over_def is_daemon_def desired_def)

lemma not_over_round_start: "not_over j (round_start l) l' \<longleftrightarrow> not_over j l l'"
  by (simp add: not_over_def)

lemma normalize_less_important:
  assumes "leader_inv l" "store_get (l_store (normalize_priorities l)) m = Some j"
    "less_important (l_store (normalize_priorities l)) (j_priority j) n"
  shows "m \<in> set (priority_order l) \<and> place_in (priority_order l) m < place_in (priority_order l) n"
proof -
  from assms(2) obtain j0 where j0: "store_get (l_store l) m = Some j0"
    and j: "j = j0\<lparr>j_priority := Some (int (place_in (priority_order l) m))\<rparr>"
    by (auto simp: normalize_get [OF assms(1)])
  from store_get_mem [OF j0] store_get_name [OF j0] have "m \<in> set (priority_order l)"
    by (auto simp: priority_order_of)
  with assms(3) show ?thesis
    by (auto simp: less_important_def normalize_get [OF assms(1)] j effective_priority_def split: option.splits)
qed

text \<open>A whole reconcile, read on the state before it.\<close>

lemma reconcile_jobs_spec:
  assumes "leader_inv l" "reconcile_jobs net l w = (res, l', w')"
  shows "l_agents l' = l_agents l \<and> l_settled l' = l_settled l \<and>
     (\<forall>j \<in> set (ms_jobs (l_store l)). not_over j l l') \<and>
     (\<forall>i n. placed_on l' i n < placed_on l i n \<longrightarrow>
        (\<exists>m \<in> set (priority_order l). place_in (priority_order l) m < place_in (priority_order l) n)) \<and>
     (\<forall>i n. placed_on l i n < placed_on l' i n \<longrightarrow> store_get (l_store l) n \<noteq> None) \<and>
     priority_order l' = priority_order l"
proof (cases "leader_jobs l = [] \<or> l_agents l = []")
  case True
  with assms show ?thesis by (auto simp: reconcile_jobs_idle)
next
  case False
  then have "reconcile_loop net (priority_order l) (round_start l) w = (res, l', w')"
    using assms reconcile_jobs_loop [OF assms(1), of net w] by simp
  from reconcile_loop_spec [OF round_start_inv [OF assms(1)] this]
  have ok: "round_ok (priority_order l) (round_start l) l'" by simp
  then have b: "books_step (round_start l) l'" by (simp add: round_ok_def)
  have get: "store_get (l_store (round_start l)) n = map_option
      (\<lambda>j. j\<lparr>j_priority := Some (int (place_in (priority_order l) n))\<rparr>) (store_get (l_store l) n)" for n
    using normalize_get [OF assms(1)] by simp
  have "not_over j l l'" if j: "j \<in> set (ms_jobs (l_store l))" for j
  proof -
    let ?j = "j\<lparr>j_priority := Some (int (place_in (priority_order l) (j_name j)))\<rparr>"
    have "store_get (l_store (round_start l)) (j_name j) = Some ?j"
      using store_get_unique [OF leader_inv_store [OF assms(1)] j] by (simp only: get option.map)
    from store_get_mem [OF this] ok have "not_over ?j (round_start l) l'"
      unfolding round_ok_def by blast
    then show ?thesis by (simp only: not_over_priority not_over_round_start)
  qed
  moreover have "\<exists>m \<in> set (priority_order l). place_in (priority_order l) m < place_in (priority_order l) n"
    if "placed_on l' i n < placed_on l i n" for i n
    using ok that normalize_less_important [OF assms(1), of _ _ n] unfolding round_ok_def
    by (simp only: round_start_placed round_start_frame) blast
  moreover have "store_get (l_store l) n \<noteq> None" if "placed_on l i n < placed_on l' i n" for i n
  proof -
    have "store_get (l_store (round_start l)) n \<noteq> None" using ok that unfolding round_ok_def
      by (simp only: round_start_placed) blast
    then show ?thesis by (simp add: normalize_get [OF assms(1)])
  qed
  moreover have "priority_order l' = priority_order l"
    using books_step_frame(1) [OF b] priority_order_normalize [OF assms(1)] by (simp add: priority_order_of)
  ultimately show ?thesis using books_step_frame(2,3) [OF b] by simp
qed

lemma reconcile_jobs_facts:
  assumes "leader_inv l" "reconcile_jobs net l w = (res, l', w')"
  shows "l_agents l' = l_agents l" "l_settled l' = l_settled l"
    "j \<in> set (ms_jobs (l_store l)) \<Longrightarrow> not_over j l l'"
    "placed_on l' i n < placed_on l i n \<Longrightarrow>
        \<exists>m \<in> set (priority_order l). place_in (priority_order l) m < place_in (priority_order l) n"
    "placed_on l i n < placed_on l' i n \<Longrightarrow> store_get (l_store l) n \<noteq> None"
    "priority_order l' = priority_order l"
  using reconcile_jobs_spec [OF assms] by blast+

section \<open>A satisfied cluster is left alone\<close>

definition satisfied :: "leader \<Rightarrow> job \<Rightarrow> bool" where
  "satisfied l j \<longleftrightarrow>
     (if is_daemon j then \<forall>a \<in> set (l_agents l). placed_on l (a_id a) (j_name j) \<noteq> 0
      else desired j \<le> total_placed l (j_name j))"

lemma reconcile_job_satisfied: "satisfied l j \<Longrightarrow> reconcile_job net j l w = (Inr (), l, w)"
  by (auto simp: satisfied_def reconcile_job_def reconcile_daemon_def Let_def filter_empty_conv
      split: if_splits)

lemma reconcile_loop_satisfied:
  assumes "\<And>n j. store_get (l_store l) n = Some j \<Longrightarrow> satisfied l j"
  shows "reconcile_loop net ns l w = (Inr (), l, w)"
  by (induction ns) (auto simp: reconcile_job_satisfied assms split: option.split)

lemma satisfied_round_start: "satisfied (round_start l) (j\<lparr>j_priority := p\<rparr>) \<longleftrightarrow> satisfied l j"
  by (simp add: satisfied_def is_daemon_def desired_def)

lemma satisfied_round_start_all:
  assumes "leader_inv l" "\<And>n j. store_get (l_store l) n = Some j \<Longrightarrow> satisfied l j"
    "store_get (l_store (round_start l)) n = Some j"
  shows "satisfied (round_start l) j"
  using assms(2,3) by (auto simp: normalize_get [OF assms(1)] satisfied_round_start)

lemma reconcile_jobs_satisfied:
  assumes "leader_inv l" "\<And>n j. store_get (l_store l) n = Some j \<Longrightarrow> satisfied l j"
    "reconcile_jobs net l w = (res, l', w')"
  shows "w' = w \<and> l_placed l' = l_placed l \<and> l_events l' = l_events l"
proof (cases "leader_jobs l = [] \<or> l_agents l = []")
  case True
  with assms(3) show ?thesis by (auto simp: reconcile_jobs_idle)
next
  case False
  with assms reconcile_jobs_loop [OF assms(1), of net w]
    reconcile_loop_satisfied [OF satisfied_round_start_all [OF assms(1,2)],
      where net = net and ns = "priority_order l" and w = w]
  show ?thesis by auto
qed

section \<open>A willing cluster converges\<close>

text \<open>Every agent accepts every job it is asked to run.\<close>

definition willing :: "'w transport \<Rightarrow> bool" where
  "willing net \<longleftrightarrow> (\<forall>a j w. fst (net_run net a j False w) = Accepted)"

lemma willing_run: "willing net \<Longrightarrow> \<exists>w1. net_run net a j False w = (Accepted, w1)"
  unfolding willing_def by (metis prod.collapse)

lemma place_willing:
  assumes "willing net" "l_agents l \<noteq> []"
  obtains a r w' where "a \<in> set (l_agents l)"
    "place net job pre l w = (Inr (), track_placement (a_id a) (j_name job) (l\<lparr>l_round_robin := r\<rparr>), w')"
proof -
  from next_agent_cases [of l] assms(2) obtain a r where
    a: "a \<in> set (l_agents l)" "next_agent l = (Some a, l\<lparr>l_round_robin := r\<rparr>)" by auto
  obtain w1 where w1: "net_run net a job False w = (Accepted, w1)" using willing_run [OF assms(1)] by blast
  have "place_round net job (length (l_agents l)) [] l w =
      (None, track_placement (a_id a) (j_name job) (l\<lparr>l_round_robin := r\<rparr>), w1)"
    using a w1 assms(2) by (cases "length (l_agents l)") simp_all
  with that [OF a(1)] assms(2) show ?thesis by (simp add: place_def Let_def)
qed

lemma placed_le_total: "i \<in> a_id ` set (l_agents l) \<Longrightarrow> placed_on l i n \<le> total_placed l n"
  by (auto simp: total_placed_def intro!: member_le_sum_list)

text \<open>\<open>k\<close> further instances of the job, and nothing else.\<close>

definition gains :: "leader \<Rightarrow> string \<Rightarrow> nat \<Rightarrow> leader \<Rightarrow> bool" where
  "gains l n k l' \<longleftrightarrow> leader_inv l' \<and> books_step l l' \<and> total_placed l' n = total_placed l n + k \<and>
     (\<forall>i m. m \<noteq> n \<longrightarrow> placed_on l' i m = placed_on l i m)"

lemma gains_trans: "gains l n k l1 \<Longrightarrow> gains l1 n k' l2 \<Longrightarrow> gains l n (k + k') l2"
  unfolding gains_def using books_step_trans by auto

lemma gains_track:
  assumes "leader_inv l" "a \<in> set (l_agents l)" "total_placed l n < u32_max"
  shows "gains l n 1 (track_placement (a_id a) n (l\<lparr>l_round_robin := r\<rparr>))"
proof -
  let ?l = "l\<lparr>l_round_robin := r\<rparr>"
  have inv: "leader_inv ?l" by (rule leader_inv_cursor [OF assms(1)])
  note b = leader_inv_books [OF inv]
  have "placed_on ?l (a_id a) n < u32_max"
    using placed_le_total [of "a_id a" l n] assms(2,3) by auto
  from books.total_track_exact [OF b leader_inv_ids [OF inv] _ this] assms(2)
  have "total_placed (track_placement (a_id a) n ?l) n = total_placed l n + 1"
    by (simp add: total_placed_def o_def)
  moreover have "leader_inv (track_placement (a_id a) n ?l)" using inv assms(2) by (auto intro: leader_inv_track)
  moreover have "books_step l (track_placement (a_id a) n ?l)"
    using books_step_trans [OF books_step_ops(3) books_step_ops(1)] .
  moreover have "placed_on (track_placement (a_id a) n ?l) i m = placed_on l i m" if "m \<noteq> n" for i m
    using that by (simp add: books.specs [OF b])
  ultimately show ?thesis by (simp add: gains_def)
qed

lemma dispatch_loop_willing:
  assumes "willing net" "leader_inv l" "l_agents l \<noteq> []" "total_placed l (j_name job) + k \<le> u32_max"
    "dispatch_loop net job c i k l w = (res, l', w')"
  shows "res = Inr () \<and> gains l (j_name job) k l'"
  using assms(2-)
proof (induction k arbitrary: i l w)
  case (Suc k)
  obtain a r w1 where a: "a \<in> set (l_agents l)" and p: "place net job True l w =
      (Inr (), track_placement (a_id a) (j_name job) (l\<lparr>l_round_robin := r\<rparr>), w1)"
    using place_willing [OF assms(1) Suc.prems(2)] by blast
  let ?l = "track_placement (a_id a) (j_name job) (l\<lparr>l_round_robin := r\<rparr>)"
  have g: "gains l (j_name job) 1 ?l" using gains_track [OF Suc.prems(1) a] Suc.prems(3) by simp
  have "dispatch_loop net job c (Suc i) k ?l w1 = (res, l', w')" using Suc.prems(4) p by simp
  from Suc.IH [OF _ _ _ this] g Suc.prems(2,3) gains_trans [OF g, of k l'] show ?case
    by (auto simp: gains_def)
qed (auto simp: gains_def)

lemma daemon_loop_willing:
  assumes "willing net" "leader_inv l" "set as \<subseteq> set (l_agents l)" "daemon_loop net job as d l w = (d', l', w')"
  shows "d' = d + length as \<and> (\<forall>i \<in> a_id ` set as. placed_on l' i (j_name job) \<noteq> 0) \<and>
    (\<forall>i. placed_on l i (j_name job) \<noteq> 0 \<longrightarrow> placed_on l' i (j_name job) \<noteq> 0)"
  using assms(2-)
proof (induction "as" arbitrary: d l w)
  case (Cons a rest)
  obtain w1 where "net_run net a job False w = (Accepted, w1)" using willing_run [OF assms(1)] by blast
  then have rest: "daemon_loop net job rest (Suc d) (track_placement (a_id a) (j_name job) l) w1 = (d', l', w')"
    using Cons.prems(3) by simp
  let ?l = "track_placement (a_id a) (j_name job) l"
  have inv: "leader_inv ?l" using Cons.prems(1,2) by (auto intro: leader_inv_track)
  have on: "placed_on l i (j_name job) \<noteq> 0 \<or> i = a_id a \<Longrightarrow> placed_on ?l i (j_name job) \<noteq> 0" for i
    using books.on_track [OF leader_inv_books [OF Cons.prems(1)], of "a_id a" "j_name job" i "j_name job"]
    by (auto simp: sat_add32_def u32_max_def)
  have IH: "d' = Suc d + length rest \<and> (\<forall>i \<in> a_id ` set rest. placed_on l' i (j_name job) \<noteq> 0) \<and>
      (\<forall>i. placed_on ?l i (j_name job) \<noteq> 0 \<longrightarrow> placed_on l' i (j_name job) \<noteq> 0)"
    using Cons.IH [OF inv _ rest] Cons.prems(2) by simp
  with on show ?case by simp
qed simp

lemma reconcile_job_willing:
  assumes "willing net" "leader_inv l" "l_agents l \<noteq> []" "desired job \<le> u32_max"
    "reconcile_job net job l w = (res, l', w')"
  shows "leader_inv l' \<and> books_step l l' \<and> res = Inr () \<and> satisfied l' job \<and>
    (\<forall>i m. m \<noteq> j_name job \<longrightarrow> placed_on l' i m = placed_on l i m)"
proof (cases "is_daemon job")
  case True
  let ?as = "filter (\<lambda>a. placed_on l (a_id a) (j_name job) = 0) (l_agents l)"
  have d: "reconcile_daemon net job l w = (res, l', w')" using assms(5) True by (simp add: reconcile_job_def)
  obtain d l1 w1 where loop: "daemon_loop net job ?as 0 l w = (d, l1, w1)" by (metis prod_cases3)
  note s = daemon_loop_willing [OF assms(1,2) _ loop]
  have l': "placed_on l' = placed_on l1 \<and> res = Inr ()"
    using d loop s by (auto simp: reconcile_daemon_def Let_def split: if_splits)
  have "placed_on l' (a_id a) (j_name job) \<noteq> 0" if "a \<in> set (l_agents l)" for a
    using s that l' by (cases "placed_on l (a_id a) (j_name job) = 0") auto
  with reconcile_daemon_spec [OF assms(2) d] l' True show ?thesis
    by (auto simp: satisfied_def dest: books_step_frame)
next
  case False
  show ?thesis
  proof (cases "desired job \<le> total_placed l (j_name job)")
    case True
    with assms(2,5) False show ?thesis by (auto simp: reconcile_job_def satisfied_def)
  next
    case short: False
    let ?k = "desired job - total_placed l (j_name job)"
    have k: "max ?k 1 = ?k" using short by simp
    obtain l1 where loop: "dispatch_loop net job ?k 0 ?k l w = (res, l1, w')"
      and l': "l' = leader_event (EvJob (j_name job)) l1"
      using assms(5) False short
      by (auto simp: reconcile_job_def dispatch_count_def Let_def k split: prod.splits)
    have "total_placed l (j_name job) + ?k \<le> u32_max" using short assms(4) by simp
    from dispatch_loop_willing [OF assms(1-3) this loop]
    have g: "res = Inr ()" "gains l (j_name job) ?k l1" by auto
    then have "satisfied l' job" using False short
      by (simp add: l' satisfied_def gains_def total_placed_def)
    with g leader_inv_event [of l1] books_step_trans [OF _ books_step_ops(4), of l l1] show ?thesis
      by (simp add: gains_def l')
  qed
qed

lemma satisfied_frame:
  assumes "satisfied l j" "l_agents l' = l_agents l" "\<And>i. placed_on l' i (j_name j) = placed_on l i (j_name j)"
  shows "satisfied l' j"
  using assms total_cong [of l' l "j_name j"] by (simp add: satisfied_def)

lemma reconcile_loop_willing:
  assumes "willing net" "leader_inv l" "l_agents l \<noteq> []"
    "\<forall>n j. store_get (l_store l) n = Some j \<longrightarrow> j_name j \<noteq> [] \<and> desired j \<le> u32_max"
    "reconcile_loop net ns l w = (res, l', w')"
  shows "l_store l' = l_store l \<and> l_agents l' = l_agents l \<and>
    (\<forall>n j. store_get (l_store l) n = Some j \<and> (n \<in> set ns \<or> satisfied l j) \<longrightarrow> satisfied l' j)"
  using assms(2-)
proof (induction ns arbitrary: l w)
  case (Cons n ns)
  show ?case
  proof (cases "store_get (l_store l) n")
    case None
    with Cons.prems(4) have loop: "reconcile_loop net ns l w = (res, l', w')" by simp
    from Cons.IH [OF Cons.prems(1-3) loop] None show ?thesis by auto
  next
    case (Some job)
    obtain r l1 w1 where rj: "reconcile_job net job l w = (r, l1, w1)" by (metis prod_cases3)
    have job: "j_name job = n" "j_name job \<noteq> []" "desired job \<le> u32_max"
      using store_get_name [OF Some] Cons.prems(3) Some by auto
    note s = reconcile_job_willing [OF assms(1) Cons.prems(1,2) job(3) rj]
    then have fr: "l_store l1 = l_store l" "l_agents l1 = l_agents l" by (auto dest: books_step_frame)
    have loop: "reconcile_loop net ns l1 w1 = (res, l', w')" using Cons.prems(4) Some rj job(2) s by simp
    have IH: "l_store l' = l_store l1 \<and> l_agents l' = l_agents l1 \<and>
      (\<forall>n j. store_get (l_store l1) n = Some j \<and> (n \<in> set ns \<or> satisfied l1 j) \<longrightarrow> satisfied l' j)"
      using Cons.IH [OF _ _ _ loop] s fr Cons.prems(2,3) by simp
    have "satisfied l1 j" if "store_get (l_store l) m = Some j" "m = n \<or> satisfied l j" for m j
    proof (cases "m = n")
      case True
      with that(1) Some s show ?thesis by simp
    next
      case False
      with that s job(1) store_get_name [OF that(1)] fr(2) show ?thesis by (auto intro: satisfied_frame)
    qed
    with IH fr show ?thesis by auto
  qed
qed simp

text \<open>After a reconcile against a willing cluster every stored job is satisfied.\<close>

lemma reconcile_jobs_willing:
  assumes "willing net" "leader_inv l" "l_agents l \<noteq> []"
    "\<And>n j. store_get (l_store l) n = Some j \<Longrightarrow> j_name j \<noteq> [] \<and> desired j \<le> u32_max"
    "reconcile_jobs net l w = (res, l', w')" "store_get (l_store l') n = Some j"
  shows "satisfied l' j"
proof (cases "leader_jobs l = []")
  case True
  with assms(5,6) show ?thesis by (simp add: reconcile_jobs_idle store_get_def leader_jobs_def)
next
  case False
  with assms have loop: "reconcile_loop net (priority_order l) (round_start l) w = (res, l', w')"
    using reconcile_jobs_loop [OF assms(2), of net w] by simp
  have names: "j_name j \<noteq> [] \<and> desired j \<le> u32_max"
    if "store_get (l_store (round_start l)) n = Some j" for n j
  proof -
    from that obtain j0 p where "store_get (l_store l) n = Some j0" "j = j0\<lparr>j_priority := p\<rparr>"
      by (auto simp: normalize_get [OF assms(2)])
    moreover from this(2) have "desired j = desired j0" "j_name j = j_name j0" by (simp_all add: desired_def)
    ultimately show ?thesis using assms(4) by simp
  qed
  from reconcile_loop_willing [OF assms(1) round_start_inv [OF assms(2)] _ _ loop] names assms(3)
  have w: "l_store l' = l_store (round_start l)"
    "store_get (l_store (round_start l)) n = Some j \<Longrightarrow> n \<in> set (priority_order l) \<Longrightarrow> satisfied l' j"
    by auto
  have st: "store_get (l_store (round_start l)) n = Some j" using assms(6) w(1) by simp
  then obtain j0 where j0: "store_get (l_store l) n = Some j0" by (auto simp: normalize_get [OF assms(2)])
  have "n \<in> set (priority_order l)"
    using store_get_mem [OF j0] store_get_name [OF j0] by (auto simp: priority_order_of)
  with w(2) st show ?thesis by simp
qed

end
