(* ===== verification/Leader_Requests.thy ===== *)
theory Leader_Requests
  imports Leader_Reconcile
begin

text \<open>
  The requests the leader serves (\<^verbatim>\<open>dispatch_job\<close>, registration, deletion, priorities, dead
  agents, the tick): each keeps the invariant, and what each does to agents, books and
  store.
\<close>

section \<open>Dispatch\<close>

lemma leader_store_put_get:
  assumes "leader_inv l" "leader_store_put j l = (Inr u, l')"
  shows "store_get (l_store l') n = (if n = j_name j then Some j else store_get (l_store l) n)"
  using assms ms.get_put [OF leader_inv_store [OF assms(1)], of j n]
  by (auto simp: leader_store_put_def split: prod.splits sum.splits)

lemma leader_store_put_frame:
  assumes "leader_store_put j l = (r, l')"
  shows "l_agents l' = l_agents l" "l_placed l' = l_placed l" "l_settled l' = l_settled l"
    "l_settle_at l' = l_settle_at l" "l_events l' = l_events l" "l_round_robin l' = l_round_robin l"
  using assms by (auto simp: leader_store_put_def split: prod.splits sum.splits)

lemma dispatch_count_inv [inv_intros]:
  "leader_inv l \<Longrightarrow> leader_inv (fst (snd (dispatch_count net job k l w)))"
  using dispatch_loop_placing [of l net job "max k 1" 0 "max k 1" w] unfolding dispatch_count_def Let_def
  by (metis prod.collapse)

lemma reconcile_job_inv [inv_intros]:
  "leader_inv l \<Longrightarrow> leader_inv (fst (snd (reconcile_job net job l w)))"
  using reconcile_job_spec [of l net job w] by (metis prod.collapse)

lemma dispatch_job_inv [inv_intros]:
  assumes "leader_inv l"
  shows "leader_inv (fst (snd (dispatch_job net job l w)))"
proof (cases "leader_store_put job l")
  case (Pair r l1)
  have inv: "leader_inv l1" using leader_inv_put [OF assms, of job] Pair by simp
  let ?d = "if is_daemon job then reconcile_job net job l1 w else dispatch_count net job (desired job) l1 w"
  have "leader_inv (fst (snd ?d))"
    by (simp add: dispatch_count_inv [OF inv] reconcile_job_inv [OF inv])
  then show ?thesis using assms inv Pair leader_inv_event
    by (auto simp: dispatch_job_def split: sum.split prod.split)
qed

section \<open>Registration\<close>

lemma trim_stop_inv: "leader_inv l \<Longrightarrow> leader_inv (fst (trim_stop net a ns l w))"
  by (induction net a ns l w rule: trim_stop.induct) (simp_all add: leader_inv_event)

lemma trim_stop_frame:
  "l_placed (fst (trim_stop net a ns l w)) = l_placed l \<and> l_agents (fst (trim_stop net a ns l w)) = l_agents l \<and>
   l_store (fst (trim_stop net a ns l w)) = l_store l \<and> l_settled (fst (trim_stop net a ns l w)) = l_settled l"
  by (induction net a ns l w rule: trim_stop.induct) simp_all

lemma untrack_jobs_inv: "leader_inv l \<Longrightarrow> leader_inv (foldl (\<lambda>l name. untrack_job i name l) l ns)"
  by (induction ns arbitrary: l) (simp_all add: leader_inv_untrack_job)

lemma untrack_jobs_frame [simp]:
  "l_agents (foldl (\<lambda>l name. untrack_job i name l) l ns) = l_agents l"
  "l_store (foldl (\<lambda>l name. untrack_job i name l) l ns) = l_store l"
  "l_settled (foldl (\<lambda>l name. untrack_job i name l) l ns) = l_settled l"
  by (induction ns arbitrary: l) simp_all

lemma untrack_jobs_placed:
  assumes "leader_inv l"
  shows "placed_on (foldl (\<lambda>l name. untrack_job i name l) l ns) i' n =
    (if i' = i \<and> n \<in> set ns then 0 else placed_on l i' n)"
  using assms
proof (induction ns arbitrary: l)
  case (Cons m ns)
  then show ?case using books.on_evict [OF leader_inv_books [OF Cons.prems]]
    by (auto simp: leader_inv_untrack_job)
qed simp

lemma trim_inv [inv_intros]:
  "leader_inv l \<Longrightarrow> leader_inv (fst (trim_returning_agent_surplus net i l w))"
  by (simp add: trim_returning_agent_surplus_def Let_def trim_stop_inv untrack_jobs_inv)

lemma trim_frame [simp, frame_simps]:
  "l_agents (fst (trim_returning_agent_surplus net i l w)) = l_agents l"
  "l_store (fst (trim_returning_agent_surplus net i l w)) = l_store l"
  "l_settled (fst (trim_returning_agent_surplus net i l w)) = l_settled l"
  by (simp_all add: trim_returning_agent_surplus_def Let_def trim_stop_frame)

lemma trim_placed:
  assumes "leader_inv l"
  shows "placed_on (fst (trim_returning_agent_surplus net i l w)) i' n =
    (if i' = i \<and> n \<in> set (redundant_jobs l i) then 0 else placed_on l i' n)"
proof -
  have "placed_on (fst (trim_stop net a ns l' w)) = placed_on l'" for a ns l'
    by (rule placed_on_cong) (simp add: trim_stop_frame)
  with untrack_jobs_placed [OF assms, of i "redundant_jobs l i" i' n] show ?thesis
    by (auto simp: trim_returning_agent_surplus_def Let_def)
qed

text \<open>Which jobs of the returning agent are redundant: those whose wanted number runs elsewhere.\<close>

lemma redundant_jobs_iff:
  assumes "leader_inv l"
  shows "n \<in> set (redundant_jobs l i) \<longleftrightarrow>
    0 < placed_on l i n \<and> (\<exists>j. store_get (l_store l) n = Some j \<and> \<not> is_daemon j \<and>
       desired j \<le> total_placed l n - placed_on l i n)"
proof -
  note b = leader_inv_books [OF assms]
  have tot: "(\<Sum>(_, js)\<leftarrow>l_placed l. (case hmap_get js m of None \<Rightarrow> 0 | Some c \<Rightarrow> c)) = total_placed l m" for m
  proof -
    have "(\<Sum>(_, js)\<leftarrow>l_placed l. (case hmap_get js m of None \<Rightarrow> 0 | Some c \<Rightarrow> c)) =
        (\<Sum>(_, js)\<leftarrow>l_placed l. opt_count (map_of js m))"
      using b by (intro arg_cong [of _ _ sum_list] map_cong)
        (auto simp: books_inv_def counts_inv_def hmap_get_map_of opt_count_def)
    then show ?thesis using sum_rows_agents [OF assms] by (simp add: total_placed_def)
  qed
  show ?thesis
  proof (cases "hmap_get (l_placed l) i")
    case None
    then show ?thesis by (simp add: redundant_jobs_def placed_on_def)
  next
    case (Some jobs)
    have inv: "hmap_inv jobs" using books_inv_inner [OF b Some] by (rule counts_hmap_inv)
    have row: "(n, c) \<in> set jobs \<longleftrightarrow> hmap_get jobs n = Some c" for c by (simp add: hmap_get_Some_iff [OF inv])
    show ?thesis
      by (auto simp: redundant_jobs_def Some hmap_iter_def tot row placed_on_def Let_def image_iff
          split: if_splits option.splits)
  qed
qed

text \<open>The state with the new agent in it, before trimming and reconciling.\<close>

definition enrolled :: "agent \<Rightarrow> nat hmap \<Rightarrow> time \<Rightarrow> leader \<Rightarrow> leader" where
  "enrolled agent placed now l =
     (let i = a_id agent; l1 = remove_agent i l;
          at = (case binary_search_by (\<lambda>a. ord_cmp (a_id a) i) (l_agents l1) of Inr k \<Rightarrow> k | Inl k \<Rightarrow> k)
      in l1\<lparr>l_agents := insert_at at (agent\<lparr>a_last_seen := now\<rparr>) (l_agents l1),
            l_placed := snd (hmap_insert (l_placed l1) i placed)\<rparr>)"

text \<open>The double: the same id, alive, at another address.\<close>

definition is_double :: "agent \<Rightarrow> time \<Rightarrow> leader \<Rightarrow> bool" where
  "is_double agent now l =
     (case leader_agent l (a_id agent) of
        Some existing \<Rightarrow> a_endpoint existing \<noteq> a_endpoint agent
          \<and> time_since now (a_last_seen existing) < l_agent_timeout l
      | None \<Rightarrow> False)"

lemma register_agent_eq:
  "register_agent net agent placed now l w =
     (if is_double agent now l then (Inr False, l, w)
      else if MAX_AGENTS \<le> length (l_agents (remove_agent (a_id agent) l))
        then (Inl (LTooMany ''agents'' MAX_AGENTS), remove_agent (a_id agent) l, w)
      else let l2 = enrolled agent placed now l
           in if l_settled l2
              then case trim_returning_agent_surplus net (a_id agent) l2 w of
                     (l3, w3) \<Rightarrow>
                       (case reconcile_jobs net l3 w3 of
                          (Inl e, l4, w4) \<Rightarrow> (Inl e, l4, w4)
                        | (Inr _, l4, w4) \<Rightarrow> (Inr True, leader_event (EvAgent (a_id agent)) l4, w4))
              else (Inr True, leader_event (EvAgent (a_id agent)) l2, w))"
  by (simp add: register_agent_def is_double_def enrolled_def Let_def)

lemma enrolled_ids:
  assumes "leader_inv l"
  shows "strictly_sorted (map a_id (l_agents (enrolled agent placed now l))) \<and>
    set (l_agents (enrolled agent placed now l)) =
      insert (agent\<lparr>a_last_seen := now\<rparr>) {a \<in> set (l_agents l). a_id a \<noteq> a_id agent} \<and>
    length (l_agents (enrolled agent placed now l)) = Suc (length (l_agents (remove_agent (a_id agent) l)))"
proof -
  let ?i = "a_id agent" and ?as = "l_agents (remove_agent (a_id agent) l)"
  have sorted: "strictly_sorted (map a_id ?as)"
    using leader_inv_remove [OF assms, of ?i] by (simp add: leader_inv_def agents_inv_def)
  have absent: "?i \<notin> a_id ` set ?as" by auto
  show ?thesis
  proof (cases "binary_search_by (\<lambda>a. ord_cmp (a_id a) ?i) ?as")
    case (Inr k)
    with binary_search_by_cases [OF sorted, of ?i] have k: "k < length ?as" "a_id (?as ! k) = ?i"
      by simp_all
    from k(2) imageI [OF nth_mem [OF k(1)], of a_id] absent have False by (simp only:)
    then show ?thesis ..
  next
    case (Inl k)
    with binary_search_by_cases [OF sorted, of ?i] have k: "k \<le> length ?as"
      "\<forall>j < k. a_id (?as ! j) < ?i" "\<forall>j < length ?as. k \<le> j \<longrightarrow> ?i < a_id (?as ! j)" by simp_all
    have "strictly_sorted (insert_at k ?i (map a_id ?as))"
      by (rule strictly_sorted_insert_at [OF sorted]) (use k in \<open>simp_all del: remove_agent_frame\<close>)
    moreover have "l_agents (enrolled agent placed now l) = insert_at k (agent\<lparr>a_last_seen := now\<rparr>) ?as"
      using Inl by (simp add: enrolled_def Let_def del: remove_agent_frame)
    moreover have "set ?as = {a \<in> set (l_agents l). a_id a \<noteq> ?i}" by simp
    ultimately show ?thesis using k(1) by (simp only: map_insert_at set_insert_at length_insert_at) simp
  qed
qed

lemma enrolled_frame [simp, frame_simps]:
  "l_store (enrolled agent placed now l) = l_store l" "l_events (enrolled agent placed now l) = l_events l"
  "l_settled (enrolled agent placed now l) = l_settled l"
  "l_settle_at (enrolled agent placed now l) = l_settle_at l"
  "l_dirty (enrolled agent placed now l) = l_dirty l"
  "l_dirty_seen (enrolled agent placed now l) = l_dirty_seen l"
  by (simp_all add: enrolled_def Let_def remove_agent_def)

lemma enrolled_placed:
  assumes "leader_inv l" "hmap_inv placed"
  shows "placed_on (enrolled agent placed now l) i n =
    (if i = a_id agent then (case hmap_get placed n of None \<Rightarrow> 0 | Some c \<Rightarrow> c) else placed_on l i n)"
  using leader_inv_books [OF assms(1)] books_inv_remove [of "l_placed l" "a_id agent"]
  by (simp add: placed_on_def enrolled_def Let_def remove_agent_def hm.specs books_hmap_inv)

lemma enrolled_inv [inv_intros]:
  assumes "leader_inv l" "counts_inv placed" "length (l_agents (remove_agent (a_id agent) l)) < MAX_AGENTS"
  shows "leader_inv (enrolled agent placed now l)"
proof -
  let ?e = "enrolled agent placed now l"
  let ?l1 = "remove_agent (a_id agent) l"
  note ids = enrolled_ids [OF assms(1), of agent placed now]
  have inv1: "leader_inv ?l1" by (rule leader_inv_remove [OF assms(1)])
  have b: "books_inv (l_placed ?e)"
    using books_inv_insert [OF leader_inv_books [OF inv1] assms(2)] by (simp add: enrolled_def Let_def)
  have "map fst (l_placed ?e) = map a_id (l_agents ?e)"
  proof (rule strictly_sorted_set_eq)
    show "strictly_sorted (map fst (l_placed ?e))" using b by (simp add: books_inv_def hmap_inv_def)
    show "strictly_sorted (map a_id (l_agents ?e))" using ids by simp
    have "map fst (l_placed ?l1) = map a_id (l_agents ?l1)" using inv1 by (simp add: leader_inv_def)
    then have "fst ` set (l_placed ?l1) = a_id ` set (l_agents ?l1)" by (metis set_map)
    then have "fst ` set (l_placed ?e) = insert (a_id agent) (a_id ` set (l_agents ?l1))"
      using hmap_keys_insert [OF books_hmap_inv [OF leader_inv_books [OF inv1]]]
      by (simp add: enrolled_def Let_def)
    then show "set (map fst (l_placed ?e)) = set (map a_id (l_agents ?e))" using ids by auto
  qed
  with ids b assms show ?thesis by (auto simp: leader_inv_def agents_inv_def)
qed

lemma register_agent_inv [inv_intros]:
  assumes "leader_inv l" "counts_inv placed"
  shows "leader_inv (fst (snd (register_agent net agent placed now l w)))"
proof -
  let ?e = "enrolled agent placed now l"
  show ?thesis
  proof (cases "is_double agent now l \<or> MAX_AGENTS \<le> length (l_agents (remove_agent (a_id agent) l))")
    case True
    then show ?thesis using assms leader_inv_remove by (auto simp: register_agent_eq)
  next
    case False
    then have e: "leader_inv ?e" using enrolled_inv [OF assms] by simp
    obtain l3 w3 where t: "trim_returning_agent_surplus net (a_id agent) ?e w = (l3, w3)" by fastforce
    have l3: "leader_inv l3" using trim_inv [OF e, of net "a_id agent" w] t by simp
    show ?thesis
      using False leader_inv_event reconcile_jobs_inv [OF l3, of net w3] t
        leader_inv_event [OF e, of "EvAgent (a_id agent)"]
      by (auto simp: register_agent_eq Let_def split: prod.split sum.split)
  qed
qed

section \<open>The other requests keep the invariant\<close>

lemma unregister_inv [inv_intros]: "leader_inv l \<Longrightarrow> leader_inv (fst (snd (unregister_agent net i l w)))"
  by (simp add: unregister_agent_def inv_intros)

lemma mark_unplaced_inv [inv_intros]: "leader_inv l \<Longrightarrow> leader_inv (fst (snd (mark_unplaced net i n l w)))"
  by (simp add: mark_unplaced_def inv_intros)

lemma delete_job_inv [inv_intros]:
  assumes "leader_inv l"
  shows "leader_inv (fst (snd (delete_job net name l w)))"
proof (cases "leader_store_remove name l")
  case (Pair j l1)
  have inv: "leader_inv l1" using leader_inv_store_remove [OF assms, of name] Pair by simp
  have "leader_inv (leader_event (EvJob name) (snd (take_placement name l1)))"
    by (rule leader_inv_event [OF leader_inv_take [OF inv]])
  then have "leader_inv (fst (snd (reconcile_jobs net (leader_event (EvJob name) (snd (take_placement name l1))) w')))" for w'
    by (rule reconcile_jobs_inv)
  then have "leader_inv (fst (snd (case take_placement name l1 of (agents, l2) \<Rightarrow>
      reconcile_jobs net (leader_event (EvJob name) l2) (foldl (\<lambda>w a. net_delete_job net a name w) w agents))))"
    by (simp add: case_prod_unfold)
  then show ?thesis using Pair inv by (simp add: delete_job_def split: option.split)
qed

lemma patch_inv [inv_intros]: "leader_inv l \<Longrightarrow> leader_inv (fst (snd (patch_job_priority net n t l w)))"
  by (auto simp: patch_job_priority_def Let_def intro!: reconcile_jobs_inv leader_inv_event set_priorities_inv)

lemma remove_dead_inv:
  "leader_inv l \<Longrightarrow> leader_inv (foldl (\<lambda>l i. leader_event (EvAgent i) (remove_agent i l)) l dead)"
proof (induction dead arbitrary: l)
  case (Cons i dead)
  from leader_inv_event [OF leader_inv_remove [OF Cons.prems, of i], of "EvAgent i"]
  show ?case unfolding foldl_Cons by (rule Cons.IH)
qed simp

lemma remove_dead_frame [simp]:
  "l_settled (foldl (\<lambda>l i. leader_event (EvAgent i) (remove_agent i l)) l dead) = l_settled l"
  "l_store (foldl (\<lambda>l i. leader_event (EvAgent i) (remove_agent i l)) l dead) = l_store l"
  "l_agents (foldl (\<lambda>l i. leader_event (EvAgent i) (remove_agent i l)) l dead) =
     filter (\<lambda>a. a_id a \<notin> set dead) (l_agents l)"
  by (induction dead arbitrary: l) (auto intro: filter_cong)

lemma check_dead_inv [inv_intros]: "leader_inv l \<Longrightarrow> leader_inv (fst (snd (check_dead_agents net now l w)))"
  by (auto simp: check_dead_agents_def Let_def intro!: reconcile_jobs_inv remove_dead_inv)

lemma leader_inv_ticks [inv_intros]: "leader_inv l \<Longrightarrow> leader_inv (l\<lparr>l_ticks := t\<rparr>)"
  by (simp add: leader_inv_def)

lemma tick_rest_inv: "leader_inv l \<Longrightarrow> leader_inv (fst (snd (tick_rest net now l w)))"
proof (cases "check_dead_agents net now l w")
  case (fields r l1 w1)
  assume "leader_inv l"
  then have inv: "leader_inv l1" using check_dead_inv [of l net now w] fields by simp
  then show ?thesis using fields reconcile_jobs_inv [OF leader_inv_ticks [OF inv]]
    by (auto simp: tick_rest_def Let_def leader_inv_ticks split: sum.split)
qed

lemma tick_inv [inv_intros]:
  assumes "leader_inv l"
  shows "leader_inv (fst (snd (tick net now l w)))"
proof -
  let ?l = "leader_event EvStatus (l\<lparr>l_settled := True, l_settle_at := None\<rparr>)"
  have "leader_inv (l\<lparr>l_settled := True, l_settle_at := None\<rparr>)" using assms by (simp add: leader_inv_def)
  then have "leader_inv ?l" by (rule leader_inv_event)
  then have "leader_inv (fst (snd (reconcile_jobs net ?l w)))" by (rule reconcile_jobs_inv)
  then show ?thesis
    using tick_rest_inv [OF assms] by (auto simp: tick_def tick_rest_inv split: sum.split prod.split)
qed

section \<open>Dead agents\<close>

lemma dead_filter:
  assumes "distinct (map a_id as)"
  shows "filter (\<lambda>a. a_id a \<notin> set (map a_id (filter P as))) as = filter (\<lambda>a. \<not> P a) as"
proof (rule filter_cong [OF refl])
  fix a assume a: "a \<in> set as"
  show "a_id a \<notin> set (map a_id (filter P as)) \<longleftrightarrow> \<not> P a"
    using inj_onD [OF conjunct2 [OF iffD1 [OF distinct_map assms]]] a by fastforce
qed

lemma check_dead_agents_agents:
  assumes "leader_inv l" "l_settled l"
  shows "l_agents (fst (snd (check_dead_agents net now l w))) =
    filter (\<lambda>a. time_since now (a_last_seen a) \<le> l_agent_timeout l) (l_agents l)"
proof -
  let ?dead = "map a_id (filter (\<lambda>a. time_since now (a_last_seen a) > l_agent_timeout l) (l_agents l))"
  let ?l = "foldl (\<lambda>l i. leader_event (EvAgent i) (remove_agent i l)) l ?dead"
  have ag: "l_agents ?l = filter (\<lambda>a. time_since now (a_last_seen a) \<le> l_agent_timeout l) (l_agents l)"
    unfolding remove_dead_frame(3) dead_filter [OF leader_inv_ids [OF assms(1)]] by (simp add: not_less)
  show ?thesis
  proof (cases "?dead = []")
    case True
    then show ?thesis using assms(2) by (simp add: check_dead_agents_def filter_empty_conv not_less filter_id_conv)
  next
    case False
    obtain res l' w' where r: "reconcile_jobs net ?l w = (res, l', w')" by (metis prod_cases3)
    have "l_agents l' = l_agents ?l" by (rule reconcile_jobs_facts [OF remove_dead_inv [OF assms(1)] r])
    moreover have "check_dead_agents net now l w = reconcile_jobs net ?l w"
      using False assms(2) by (simp only: check_dead_agents_def Let_def if_False simp_thms)
    ultimately show ?thesis using ag r by simp
  qed
qed

section \<open>Deletion\<close>

lemma store_remove_get:
  assumes "leader_inv l"
  shows "store_get (l_store (snd (leader_store_remove n l))) m = (if m = n then None else store_get (l_store l) m)"
  using ms.get_del [OF leader_inv_store [OF assms], of n m]
  by (auto simp: leader_store_remove_def split: prod.split)

lemma reconcile_jobs_get:
  assumes "leader_inv l" "reconcile_jobs net l w = (res, l', w')"
  shows "\<exists>f. store_get (l_store l') m = map_option (\<lambda>j. j\<lparr>j_priority := f j\<rparr>) (store_get (l_store l) m)"
proof (cases "leader_jobs l = [] \<or> l_agents l = []")
  case True
  with assms have "l' = l" by (simp add: reconcile_jobs_idle)
  then show ?thesis by (intro exI [of _ j_priority]) (simp add: option.map_id0 [unfolded id_def])
next
  case False
  then have "reconcile_loop net (priority_order l) (round_start l) w = (res, l', w')"
    using assms reconcile_jobs_loop [OF assms(1), of net w] by simp
  from reconcile_loop_spec [OF round_start_inv [OF assms(1)] this]
  have "l_store l' = l_store (normalize_priorities l)" by (auto simp: round_ok_def dest!: books_step_frame(1))
  with normalize_get [OF assms(1), of m] show ?thesis
    by (intro exI [of _ "\<lambda>_. Some (int (place_in (priority_order l) m))"]) simp
qed

lemma delete_job_spec:
  assumes "leader_inv l" "delete_job net name l w = (res, l', w')" "store_get (l_store l) name \<noteq> None"
  shows "res = Inr () \<and> store_get (l_store l') name = None \<and> (\<forall>i. placed_on l' i name = 0) \<and>
    (\<forall>m. m \<noteq> name \<longrightarrow> (store_get (l_store l') m = None \<longleftrightarrow> store_get (l_store l) m = None))"
proof -
  let ?l1 = "snd (leader_store_remove name l)"
  let ?l2 = "leader_event (EvJob name) (snd (take_placement name ?l1))"
  have inv1: "leader_inv ?l1" by (rule leader_inv_store_remove [OF assms(1)])
  have inv2: "leader_inv ?l2" by (rule leader_inv_event [OF leader_inv_take [OF inv1]])
  obtain j where "leader_store_remove name l = (Some j, ?l1)"
    using assms(3) by (auto simp: leader_store_remove_def store_remove_def split: prod.split)
  with assms(2) obtain w2 where r: "reconcile_jobs net ?l2 w2 = (res, l', w')"
    by (auto simp: delete_job_def split: prod.splits)
  have get: "store_get (l_store ?l2) m = (if m = name then None else store_get (l_store l) m)" for m
    using store_remove_get [OF assms(1), of name m] by simp
  have "placed_on ?l2 i name = 0" for i
    using books.on_clear [OF leader_inv_books [OF inv1], of name i name] by simp
  moreover have "\<not> placed_on ?l2 i name < placed_on l' i name" for i
    using reconcile_jobs_facts(5) [OF inv2 r] get [of name] by metis
  ultimately have "placed_on l' i name = 0" for i by (metis gr0I)
  moreover have "store_get (l_store l') m = None \<longleftrightarrow> store_get (l_store ?l2) m = None" for m
    using reconcile_jobs_get [OF inv2 r, of m] by (auto simp del: take_placement_frame)
  ultimately show ?thesis using reconcile_jobs_ok [OF inv2, of net w2] r get by (simp del: take_placement_frame)
qed

section \<open>Moving a job in the order\<close>

lemma set_priorities_order:
  assumes "leader_inv l" "distinct ns" "set ns = j_name ` set (ms_jobs (l_store l))"
  shows "priority_order (set_priorities 0 ns l) = ns"
  using set_priorities_jobs [OF assms(1,2), of 0] order_of_renumber [OF _ _ assms(2,3)]
    leader_inv_store [OF assms(1)] store_jobs_bound [OF leader_inv_store [OF assms(1)]]
  by (simp add: priority_order_of store_inv_def)

lemma distinct_insert_at: "distinct xs \<Longrightarrow> x \<notin> set xs \<Longrightarrow> distinct (insert_at k x xs)"
  by (auto simp: insert_at_def dest: in_set_takeD in_set_dropD set_take_disj_set_drop_if_distinct)

lemma patch_order:
  assumes "leader_inv l" "store_get (l_store l) name \<noteq> None"
    "patch_job_priority net name target l w = (res, l', w')"
  shows "res = Inr () \<and> priority_order l' =
    insert_at (min (nat (max target 0)) (length (priority_order l) - 1)) name
      (filter (\<lambda>n. n \<noteq> name) (priority_order l))"
proof -
  let ?rest = "filter (\<lambda>n. n \<noteq> name) (priority_order l)"
  let ?new = "insert_at (min (nat (max target 0)) (length ?rest)) name ?rest"
  let ?l1 = "leader_event (EvJob name) (set_priorities 0 ?new l)"
  have names: "set (priority_order l) = j_name ` set (ms_jobs (l_store l))" and d: "distinct (priority_order l)"
    using leader_inv_store [OF assms(1)] by (simp_all add: priority_order_of distinct_order_of store_inv_def)
  have mem: "name \<in> set (priority_order l)" using assms(2) names by (simp add: store_get_None_iff)
  have new: "distinct ?new" "set ?new = j_name ` set (ms_jobs (l_store l))"
    using d mem names by (auto intro: distinct_insert_at)
  have len: "length ?rest = length (priority_order l) - 1"
  proof -
    have "set ?rest = set (priority_order l) - {name}" by auto
    then have "card (set ?rest) = card (set (priority_order l)) - 1" using mem by simp
    then show ?thesis using distinct_card [OF d] distinct_card [OF distinct_filter [OF d]] by metis
  qed
  have inv: "leader_inv ?l1" by (rule leader_inv_event [OF set_priorities_inv [OF assms(1)]])
  have r: "reconcile_jobs net ?l1 w = (res, l', w')" using assms(2,3) by (auto simp: patch_job_priority_def Let_def)
  have "priority_order ?l1 = ?new"
    using set_priorities_order [OF assms(1) new] by (simp add: priority_order_of)
  then show ?thesis
    using reconcile_jobs_facts(6) [OF inv r] reconcile_jobs_ok [OF inv, of net w] r len by simp
qed

end
