(* ===== verification/Leader_Update.thy ===== *)
theory Leader_Update
  imports Leader_Requests
begin

text \<open>
  \<^verbatim>\<open>leader/src/update.rs\<close>: rolling, recreate and blue-green updates of a stored job, and
  the seeding of \<^verbatim>\<open>leader/src/init.rs\<close>.  The lemmas show that every policy keeps the
  leader's invariant, that an update never preempts (nothing it does before the final
  reconcile depends on how a stop request is answered), and what the \<open>deploying\<close> flag says.
\<close>

section \<open>The operations\<close>

fun task_refs :: "(string \<times> task list) list \<Rightarrow> task_ref list" where
  "task_refs [] = []"
| "task_refs ((i, ts) # rest) =
     map (\<lambda>t. \<lparr>tr_agent_id = i, tr_task_id = t_id t\<rparr>) ts @ task_refs rest"

definition snapshot_job_tasks :: "'w transport \<Rightarrow> string \<Rightarrow> leader \<Rightarrow> 'w \<Rightarrow> task_ref list \<times> 'w" where
  "snapshot_job_tasks net name l w =
     (case job_status net name l w of (st, w1) \<Rightarrow> (task_refs st, w1))"

definition stop_old_task :: "'w transport \<Rightarrow> string \<Rightarrow> task_ref \<Rightarrow> leader \<Rightarrow> 'w \<Rightarrow> leader \<times> 'w" where
  "stop_old_task net name old l w =
     (case agent_copy l (tr_agent_id old) of
        Some a \<Rightarrow> (untrack_one (tr_agent_id old) name l, net_stop_task net a (tr_task_id old) w)
      | None \<Rightarrow> (l, w))"

text \<open>
  The replacement of instance \<open>i\<close>: place it, or swap it in place on the agent of the old
  one when there is no room for both.  \<open>Inr replaced\<close> when it stands.
\<close>

definition roll_one :: "'w transport \<Rightarrow> job \<Rightarrow> task_ref \<Rightarrow> leader \<Rightarrow> 'w \<Rightarrow> (refusal + bool) \<times> leader \<times> 'w" where
  "roll_one net job old l w =
     (case place net job False l w of
        (Inr _, l1, w1) \<Rightarrow> (Inr False, l1, w1)
      | (Inl why, l1, w1) \<Rightarrow>
          (case why of
             Full _ \<Rightarrow>
               (case agent_copy l1 (tr_agent_id old) of
                  None \<Rightarrow> (Inl why, l1, w1)
                | Some a \<Rightarrow>
                    (case net_run net a job True w1 of
                       (reply, w2) \<Rightarrow> if reply = Accepted then (Inr True, l1, w2)
                                      else (Inl why, l1, w2)))
           | _ \<Rightarrow> (Inl why, l1, w1)))"

fun rolling_loop :: "'w transport \<Rightarrow> job \<Rightarrow> nat \<Rightarrow> nat \<Rightarrow> task_ref list \<Rightarrow> leader \<Rightarrow> 'w \<Rightarrow> (leader_error + unit) \<times> leader \<times> 'w" where
  "rolling_loop net job count i [] l w = (Inr (), l, w)"
| "rolling_loop net job count i (old # rest) l w =
     (case (if i < count then roll_one net job old l w else (Inr False, l, w)) of
        (Inl why, l1, w1) \<Rightarrow> (Inl (RollingFailed (name_new (j_name job)) (i + 1) why), l1, w1)
      | (Inr replaced, l1, w1) \<Rightarrow>
          (let (l2, w2) = (if replaced then (l1, w1) else stop_old_task net (j_name job) old l1 w1);
               l3 = leader_event (EvJob (j_name job)) l2;
               w3 = (if i + 1 < count then net_pause net ROLLING_UPDATE_DELAY w2 else w2)
           in rolling_loop net job count (Suc i) rest l3 w3))"

definition update_rolling :: "'w transport \<Rightarrow> job \<Rightarrow> leader \<Rightarrow> 'w \<Rightarrow> (leader_error + unit) \<times> leader \<times> 'w" where
  "update_rolling net job l w =
     (case snapshot_job_tasks net (j_name job) l w of
        (old_tasks, w1) \<Rightarrow>
          (case leader_store_put job l of
             (Inl e, l1) \<Rightarrow> (Inl e, l1, w1)
           | (Inr _, l1) \<Rightarrow>
               (case rolling_loop net job (desired job) 0 old_tasks l1 w1 of
                  (Inl e, l2, w2) \<Rightarrow> (Inl e, l2, w2)
                | (Inr _, l2, w2) \<Rightarrow> reconcile_jobs net l2 w2)))"

definition update_recreate :: "'w transport \<Rightarrow> job \<Rightarrow> leader \<Rightarrow> 'w \<Rightarrow> (leader_error + unit) \<times> leader \<times> 'w" where
  "update_recreate net job l w =
     (case take_placement (j_name job) l of
        (agents, l1) \<Rightarrow>
          dispatch_job net job l1 (foldl (\<lambda>w a. snd (net_stop_job net a (j_name job) w)) w agents))"

fun blue_green_place :: "'w transport \<Rightarrow> job \<Rightarrow> nat \<Rightarrow> nat \<Rightarrow> nat \<Rightarrow> leader \<Rightarrow> 'w \<Rightarrow> (leader_error + unit) \<times> leader \<times> 'w" where
  "blue_green_place net job count i 0 l w = (Inr (), l, w)"
| "blue_green_place net job count i (Suc k) l w =
     (case place net job False l w of
        (Inl why, l1, w1) \<Rightarrow> (Inl (BlueGreenFailed (name_new (j_name job)) (i + 1) count why), l1, w1)
      | (Inr _, l1, w1) \<Rightarrow> blue_green_place net job count (Suc i) k l1 w1)"

fun stop_old_tasks :: "'w transport \<Rightarrow> string \<Rightarrow> task_ref list \<Rightarrow> leader \<Rightarrow> 'w \<Rightarrow> leader \<times> 'w" where
  "stop_old_tasks net name [] l w = (l, w)"
| "stop_old_tasks net name (old # rest) l w =
     (case stop_old_task net name old l w of (l1, w1) \<Rightarrow> stop_old_tasks net name rest l1 w1)"

definition update_blue_green :: "'w transport \<Rightarrow> job \<Rightarrow> leader \<Rightarrow> 'w \<Rightarrow> (leader_error + unit) \<times> leader \<times> 'w" where
  "update_blue_green net job l w =
     (case snapshot_job_tasks net (j_name job) l w of
        (old_tasks, w1) \<Rightarrow>
          (case leader_store_put job l of
             (Inl e, l1) \<Rightarrow> (Inl e, l1, w1)
           | (Inr _, l1) \<Rightarrow>
               (case blue_green_place net job (desired job) 0 (desired job) l1 w1 of
                  (Inl e, l2, w2) \<Rightarrow> (Inl e, l2, w2)
                | (Inr _, l2, w2) \<Rightarrow>
                    (case stop_old_tasks net (j_name job) old_tasks l2 w2 of
                       (l3, w3) \<Rightarrow> (Inr (), leader_event (EvJob (j_name job)) l3, w3)))))"

definition update_job :: "'w transport \<Rightarrow> job \<Rightarrow> leader \<Rightarrow> 'w \<Rightarrow> (leader_error + unit) \<times> leader \<times> 'w" where
  "update_job net job l w =
     (case store_get (l_store l) (j_name job) of
        None \<Rightarrow> (Inl (NotFound (name_new (j_name job))), l, w)
      | Some old \<Rightarrow>
          (case check_rollable job of
             Inl e \<Rightarrow> (Inl (LJson e), l, w)
           | Inr _ \<Rightarrow>
               (let job1 = (if j_priority job = None then job\<lparr>j_priority := j_priority old\<rparr> else job);
                    job2 = job1\<lparr>j_deploying := True\<rparr>
                in case (case job_policy job2 of
                           Rolling \<Rightarrow> update_rolling net job2 l w
                         | Recreate \<Rightarrow> update_recreate net job2 l w
                         | BlueGreen \<Rightarrow> update_blue_green net job2 l w) of
                     (r, l1, w1) \<Rightarrow>
                       (let l2 = (if r = Inr () then snd (leader_store_set_deploying (j_name job2) False l1)
                                  else l1)
                        in (r, normalize_priorities l2, w1)))))"

section \<open>Seeding\<close>

fun seed_init_jobs :: "'w transport \<Rightarrow> job list \<Rightarrow> leader \<Rightarrow> 'w \<Rightarrow> (leader_error + unit) \<times> leader \<times> 'w" where
  "seed_init_jobs net [] l w = (Inr (), l, w)"
| "seed_init_jobs net (job # jobs) l w =
     (if store_get (l_store l) (j_name job) \<noteq> None then seed_init_jobs net jobs l w
      else let job1 = (if j_priority job = None then job\<lparr>j_priority := Some (next_priority l)\<rparr> else job)
           in case dispatch_job net job1 l w of
                (r, l1, w1) \<Rightarrow>
                  if r = Inl LOutOfMemory then (Inl LOutOfMemory, l1, w1)
                  else seed_init_jobs net jobs l1 w1)"

section \<open>The stored definition\<close>

text \<open>The store holds this definition of the job, up to its priority.\<close>

definition stored :: "job \<Rightarrow> leader \<Rightarrow> bool" where
  "stored job l \<longleftrightarrow> (\<exists>p. store_get (l_store l) (j_name job) = Some (job\<lparr>j_priority := p\<rparr>))"

lemma stored_step: "books_step l l' \<Longrightarrow> stored job l \<Longrightarrow> stored job l'"
  by (simp add: stored_def books_step_frame)

lemma stored_store_cong: "l_store l' = l_store l \<Longrightarrow> stored job l' \<longleftrightarrow> stored job l"
  by (simp add: stored_def)

lemma stored_put:
  assumes "leader_inv l" "leader_store_put job l = (Inr u, l')"
  shows "stored job l'"
  using leader_store_put_get [OF assms, of "j_name job"]
  by (auto simp: stored_def intro!: exI [of _ "j_priority job"])

lemma stored_reconcile:
  assumes "leader_inv l" "stored job l" "reconcile_jobs net l w = (r, l', w')"
  shows "stored job l'"
  using reconcile_jobs_get [OF assms(1,3), of "j_name job"] assms(2) by (auto simp: stored_def)

lemma stored_normalize: "leader_inv l \<Longrightarrow> stored job l \<Longrightarrow> stored job (normalize_priorities l)"
  using normalize_get [of l "j_name job"] by (auto simp: stored_def)

lemma stored_set_deploying:
  assumes "leader_inv l" "stored job l"
  shows "stored (job\<lparr>j_deploying := d\<rparr>) (snd (leader_store_set_deploying (j_name job) d l))"
proof -
  obtain p where p: "store_get (l_store l) (j_name job) = Some (job\<lparr>j_priority := p\<rparr>)"
    using assms(2) by (auto simp: stored_def)
  then have "store_get (snd (store_set_deploying (j_name job) d (l_store l))) (j_name job) =
      Some (job\<lparr>j_priority := p, j_deploying := d\<rparr>)"
    using ms.get_upd [OF leader_inv_store [OF assms(1)], of "\<lambda>j. j\<lparr>j_deploying := d\<rparr>"]
    by (simp add: store_set_deploying_def)
  then show ?thesis
    by (auto simp: stored_def leader_store_set_deploying_def intro!: exI [of _ p] split: prod.split)
qed

section \<open>The policies keep the invariant and store the new definition\<close>

lemma roll_one_spec:
  assumes "leader_inv l" "roll_one net job old l w = (r, l', w')"
  shows "leader_inv l' \<and> books_step l l'"
proof -
  obtain r1 l1 w1 where p: "place net job False l w = (r1, l1, w1)" by (metis prod_cases3)
  have "l' = l1" using assms(2) p
    by (auto simp: roll_one_def split: sum.splits refusal.splits option.splits prod.splits if_splits)
  with place_placing [OF assms(1) p] show ?thesis by (simp add: placing_def)
qed

lemma stop_old_task_spec:
  assumes "leader_inv l" "stop_old_task net n old l w = (l', w')"
  shows "leader_inv l' \<and> books_step l l'"
  using assms by (auto simp: stop_old_task_def leader_inv_untrack split: option.splits)

lemma rolling_loop_spec:
  assumes "leader_inv l" "rolling_loop net job c i olds l w = (r, l', w')"
  shows "leader_inv l' \<and> books_step l l'"
  using assms
proof (induction olds arbitrary: i l w)
  case (Cons old olds)
  obtain r1 l1 w1 where one: "(if i < c then roll_one net job old l w else (Inr False, l, w)) = (r1, l1, w1)"
    by (metis prod_cases3)
  have l1: "leader_inv l1 \<and> books_step l l1"
    using roll_one_spec [OF Cons.prems(1), of net job old w] Cons.prems(1) one by (auto split: if_splits)
  show ?case
  proof (cases r1)
    case (Inl why)
    with Cons.prems(2) one l1 show ?thesis by simp
  next
    case (Inr replaced)
    obtain l2 w2 where two: "(if replaced then (l1, w1) else stop_old_task net (j_name job) old l1 w1) = (l2, w2)"
      by fastforce
    have l2: "leader_inv l2 \<and> books_step l1 l2"
      using stop_old_task_spec [of l1 net "j_name job" old w1] l1 two by (auto split: if_splits)
    let ?l3 = "leader_event (EvJob (j_name job)) l2"
    have l3: "leader_inv ?l3" "books_step l ?l3"
      using l1 l2 leader_inv_event books_step_trans books_step_ops(4) by blast+
    obtain w3 where "rolling_loop net job c (Suc i) olds ?l3 w3 = (r, l', w')"
      using Cons.prems(2) one Inr two by (auto simp: Let_def)
    from Cons.IH [OF l3(1) this] l3(2) show ?thesis using books_step_trans by blast
  qed
qed simp

lemma blue_green_place_spec:
  assumes "leader_inv l" "blue_green_place net job c i k l w = (r, l', w')"
  shows "leader_inv l' \<and> books_step l l'"
  using assms
proof (induction k arbitrary: i l w)
  case (Suc k)
  obtain r1 l1 w1 where p: "place net job False l w = (r1, l1, w1)" by (metis prod_cases3)
  have l1: "leader_inv l1" "books_step l l1" using place_placing [OF Suc.prems(1) p] by (simp_all add: placing_def)
  show ?case
  proof (cases r1)
    case (Inl why)
    with Suc.prems(2) p l1 show ?thesis by simp
  next
    case (Inr u)
    with Suc.prems(2) p have "blue_green_place net job c (Suc i) k l1 w1 = (r, l', w')" by simp
    from Suc.IH [OF l1(1) this] l1(2) show ?thesis using books_step_trans by blast
  qed
qed simp

lemma stop_old_tasks_spec:
  assumes "leader_inv l" "stop_old_tasks net n olds l w = (l', w')"
  shows "leader_inv l' \<and> books_step l l'"
  using assms
proof (induction olds arbitrary: l w)
  case (Cons old olds)
  obtain l1 w1 where one: "stop_old_task net n old l w = (l1, w1)" by fastforce
  note l1 = stop_old_task_spec [OF Cons.prems(1) one]
  have "stop_old_tasks net n olds l1 w1 = (l', w')" using Cons.prems(2) one by simp
  from Cons.IH [OF _ this] l1 show ?case using books_step_trans by blast
qed simp

lemma put_existing:
  assumes "leader_inv l" "store_get (l_store l) (j_name job) \<noteq> None"
  obtains l1 where "leader_store_put job l = (Inr (), l1)" "leader_inv l1" "stored job l1"
proof -
  have "fst (store_put job (l_store l)) = Inr ()"
    using ms.put_ok [OF leader_inv_store [OF assms(1)]] assms(2) by blast
  then obtain l1 where l1: "leader_store_put job l = (Inr (), l1)"
    by (cases "store_put job (l_store l)") (simp add: leader_store_put_def)
  with that [OF l1] leader_inv_put [OF assms(1), of job] stored_put [OF assms(1) l1] show ?thesis by simp
qed

text \<open>What every policy establishes when the job exists.\<close>

definition policy_ok :: "job \<Rightarrow> leader \<Rightarrow> bool" where
  "policy_ok job l \<longleftrightarrow> leader_inv l \<and> stored job l"

lemma policy_ok_step: "books_step l l' \<Longrightarrow> leader_inv l' \<Longrightarrow> policy_ok job l \<Longrightarrow> policy_ok job l'"
  by (simp add: policy_ok_def stored_step)

lemma update_rolling_ok:
  assumes "leader_inv l" "store_get (l_store l) (j_name job) \<noteq> None"
  shows "policy_ok job (fst (snd (update_rolling net job l w)))"
proof -
  obtain l1 where l1: "leader_store_put job l = (Inr (), l1)" "leader_inv l1" "stored job l1"
    using put_existing [OF assms] by blast
  obtain olds w1 where s: "snapshot_job_tasks net (j_name job) l w = (olds, w1)" by fastforce
  obtain r l2 w2 where loop: "rolling_loop net job (desired job) 0 olds l1 w1 = (r, l2, w2)" by (metis prod_cases3)
  have l2: "policy_ok job l2"
    using rolling_loop_spec [OF l1(2) loop] l1 policy_ok_step [of l1 l2 job] by (simp add: policy_ok_def)
  obtain r3 l3 w3 where rec: "reconcile_jobs net l2 w2 = (r3, l3, w3)" by (metis prod_cases3)
  have "policy_ok job l3" using l2 stored_reconcile [OF _ _ rec] reconcile_jobs_inv [of l2 net w2] rec
    by (simp add: policy_ok_def)
  with l1 s loop rec l2 show ?thesis by (auto simp: update_rolling_def split: sum.split)
qed

lemma update_blue_green_ok:
  assumes "leader_inv l" "store_get (l_store l) (j_name job) \<noteq> None"
  shows "policy_ok job (fst (snd (update_blue_green net job l w)))"
proof -
  obtain l1 where l1: "leader_store_put job l = (Inr (), l1)" "leader_inv l1" "stored job l1"
    using put_existing [OF assms] by blast
  obtain olds w1 where s: "snapshot_job_tasks net (j_name job) l w = (olds, w1)" by fastforce
  obtain r l2 w2 where loop: "blue_green_place net job (desired job) 0 (desired job) l1 w1 = (r, l2, w2)"
    by (metis prod_cases3)
  have l2: "policy_ok job l2"
    using blue_green_place_spec [OF l1(2) loop] l1 policy_ok_step [of l1 l2 job] by (simp add: policy_ok_def)
  obtain l3 w3 where st: "stop_old_tasks net (j_name job) olds l2 w2 = (l3, w3)" by fastforce
  have "policy_ok job l3"
    using stop_old_tasks_spec [OF _ st] l2 policy_ok_step [of l2 l3 job] by (simp add: policy_ok_def)
  then have "policy_ok job (leader_event (EvJob (j_name job)) l3)"
    by (simp add: policy_ok_def leader_inv_event stored_def)
  with l1 s loop st l2 show ?thesis by (auto simp: update_blue_green_def split: sum.split)
qed

lemma dispatch_job_ok:
  assumes "leader_inv l" "store_get (l_store l) (j_name job) \<noteq> None" "j_name job \<noteq> []"
  shows "policy_ok job (fst (snd (dispatch_job net job l w)))"
proof -
  obtain l1 where l1: "leader_store_put job l = (Inr (), l1)" "leader_inv l1" "stored job l1"
    using put_existing [OF assms(1,2)] by blast
  let ?d = "if is_daemon job then reconcile_job net job l1 w else dispatch_count net job (desired job) l1 w"
  obtain r l2 w2 where d: "?d = (r, l2, w2)" by (metis prod_cases3)
  have "leader_inv l2 \<and> books_step l1 l2"
    using d reconcile_job_spec [OF l1(2), of net job w]
      dispatch_loop_placing [OF l1(2), of net job "max (desired job) 1" 0 "max (desired job) 1" w]
    by (auto simp: dispatch_count_def Let_def placing_def split: if_splits)
  then have l2: "policy_ok job l2" using l1 policy_ok_step [of l1 l2 job] by (simp add: policy_ok_def)
  then have "policy_ok job (leader_event (EvJob (j_name job)) l2)"
    by (simp add: policy_ok_def leader_inv_event stored_def)
  with l1 l2 d assms(3) show ?thesis
    by (auto simp: dispatch_job_def policy_ok_def split: sum.split)
qed

lemma update_recreate_ok:
  assumes "leader_inv l" "store_get (l_store l) (j_name job) \<noteq> None" "j_name job \<noteq> []"
  shows "policy_ok job (fst (snd (update_recreate net job l w)))"
  using dispatch_job_ok [OF leader_inv_take [OF assms(1), of "j_name job"], of job net] assms(2,3)
  by (simp add: update_recreate_def case_prod_unfold)

lemma update_rolling_inv: "leader_inv l \<Longrightarrow> store_get (l_store l) (j_name job) \<noteq> None \<Longrightarrow>
    leader_inv (fst (snd (update_rolling net job l w)))"
  using update_rolling_ok [of l job net w] by (simp add: policy_ok_def)

lemma update_blue_green_inv: "leader_inv l \<Longrightarrow> store_get (l_store l) (j_name job) \<noteq> None \<Longrightarrow>
    leader_inv (fst (snd (update_blue_green net job l w)))"
  using update_blue_green_ok [of l job net w] by (simp add: policy_ok_def)

lemma update_recreate_inv: "leader_inv l \<Longrightarrow> leader_inv (fst (snd (update_recreate net job l w)))"
  by (simp add: update_recreate_def case_prod_unfold dispatch_job_inv leader_inv_take)

text \<open>The definition that an update stores.\<close>

definition update_spec :: "job \<Rightarrow> job \<Rightarrow> job" where
  "update_spec job old =
     (if j_priority job = None then job\<lparr>j_priority := j_priority old\<rparr> else job)\<lparr>j_deploying := True\<rparr>"

definition run_policy :: "'w transport \<Rightarrow> job \<Rightarrow> leader \<Rightarrow> 'w \<Rightarrow> (leader_error + unit) \<times> leader \<times> 'w" where
  "run_policy net job l w =
     (case job_policy job of
        Rolling \<Rightarrow> update_rolling net job l w
      | Recreate \<Rightarrow> update_recreate net job l w
      | BlueGreen \<Rightarrow> update_blue_green net job l w)"

lemma update_spec_name [simp]: "j_name (update_spec job old) = j_name job"
  by (simp add: update_spec_def)

lemma update_job_eq:
  "update_job net job l w =
     (case store_get (l_store l) (j_name job) of
        None \<Rightarrow> (Inl (NotFound (name_new (j_name job))), l, w)
      | Some old \<Rightarrow>
          (case check_rollable job of
             Inl e \<Rightarrow> (Inl (LJson e), l, w)
           | Inr _ \<Rightarrow>
               (case run_policy net (update_spec job old) l w of
                  (r, l1, w1) \<Rightarrow>
                    (r, normalize_priorities (if r = Inr ()
                       then snd (leader_store_set_deploying (j_name job) False l1) else l1), w1))))"
  by (simp only: update_job_def Let_def update_spec_def [symmetric] run_policy_def [symmetric] update_spec_name)

lemma run_policy_inv:
  "leader_inv l \<Longrightarrow> store_get (l_store l) (j_name job) \<noteq> None \<Longrightarrow>
     leader_inv (fst (snd (run_policy net job l w)))"
  by (simp add: run_policy_def update_rolling_inv update_recreate_inv update_blue_green_inv
      split: update_policy.split)

lemma run_policy_ok:
  "leader_inv l \<Longrightarrow> store_get (l_store l) (j_name job) \<noteq> None \<Longrightarrow> j_name job \<noteq> [] \<Longrightarrow>
     policy_ok job (fst (snd (run_policy net job l w)))"
  by (simp add: run_policy_def update_rolling_ok update_recreate_ok update_blue_green_ok
      split: update_policy.split)

lemma update_job_inv [inv_intros]:
  assumes "leader_inv l"
  shows "leader_inv (fst (snd (update_job net job l w)))"
proof (cases "store_get (l_store l) (j_name job)")
  case None
  with assms show ?thesis by (simp add: update_job_eq)
next
  case (Some old)
  obtain r l1 w1 where p: "run_policy net (update_spec job old) l w = (r, l1, w1)" by (metis prod_cases3)
  have "leader_inv l1" using run_policy_inv [OF assms, of "update_spec job old" net w] p Some by simp
  with p Some assms show ?thesis
    by (auto simp: update_job_eq intro!: normalize_inv leader_inv_set_deploying split: sum.split)
qed

text \<open>
  The flag tells the truth: after an update that reports success the job is stored with
  \<open>deploying\<close> off, after one that fails half-way it is stored with \<open>deploying\<close> on.
\<close>

lemma update_job_deploying:
  assumes "leader_inv l" "store_get (l_store l) (j_name job) \<noteq> None" "check_rollable job = Inr ()"
    "j_name job \<noteq> []" "update_job net job l w = (r, l', w')"
  shows "stored (job\<lparr>j_deploying := (r \<noteq> Inr ())\<rparr>) l'"
proof -
  obtain old where old: "store_get (l_store l) (j_name job) = Some old" using assms(2) by blast
  let ?job = "update_spec job old"
  obtain l1 where p: "run_policy net ?job l w = (r, l1, w')"
    and l': "l' = normalize_priorities (if r = Inr () then snd (leader_store_set_deploying (j_name job) False l1) else l1)"
    using assms(5) old assms(3) by (auto simp: update_job_eq split: prod.splits)
  have ok: "leader_inv l1" "stored ?job l1"
    using run_policy_ok [OF assms(1), of ?job net w] assms(4) old p by (auto simp: policy_ok_def)
  have same: "stored (?job\<lparr>j_deploying := d\<rparr>) l \<longleftrightarrow> stored (job\<lparr>j_deploying := d\<rparr>) l" for d l
    by (simp add: stored_def update_spec_def)
  show ?thesis
  proof (cases "r = Inr ()")
    case True
    have "stored (?job\<lparr>j_deploying := False\<rparr>) (snd (leader_store_set_deploying (j_name job) False l1))"
      using stored_set_deploying [OF ok, of False] by simp
    with True l' ok(1) same show ?thesis by (simp add: stored_normalize leader_inv_set_deploying)
  next
    case False
    have "?job\<lparr>j_deploying := True\<rparr> = ?job" by (simp add: update_spec_def)
    with ok(2) same [of True l1] have "stored (job\<lparr>j_deploying := True\<rparr>) l1" by simp
    with False l' ok(1) show ?thesis by (simp add: stored_normalize)
  qed
qed

lemma seed_init_jobs_inv [inv_intros]:
  "leader_inv l \<Longrightarrow> leader_inv (fst (snd (seed_init_jobs net jobs l w)))"
proof (induction jobs arbitrary: l w)
  case (Cons job jobs)
  let ?job = "if j_priority job = None then job\<lparr>j_priority := Some (next_priority l)\<rparr> else job"
  obtain r l1 w1 where d: "dispatch_job net ?job l w = (r, l1, w1)" by (metis prod_cases3)
  have "leader_inv l1" using dispatch_job_inv [OF Cons.prems, of net ?job w] d by simp
  with Cons d show ?case by (simp add: Let_def)
qed simp

section \<open>Updates never preempt\<close>

lemma place_round_cong:
  "net_run net = net_run net' \<Longrightarrow> place_round net job k full l w = place_round net' job k full l w"
  by (induction k arbitrary: full l w) (simp_all split: prod.split option.split run_reply.split)

lemma place_nopreempt_cong:
  "net_run net = net_run net' \<Longrightarrow> place net job False l w = place net' job False l w"
  by (simp add: place_def Let_def place_round_cong [of net net'] split: prod.split option.split)

lemma place_nopreempt:
  assumes "leader_inv l" "place net job False l w = (r, l', w')"
  shows "(\<forall>i n. n \<noteq> j_name job \<longrightarrow> placed_on l' i n = placed_on l i n) \<and>
    (\<forall>i. placed_on l i (j_name job) \<le> placed_on l' i (j_name job))"
proof (cases "l_agents l = []")
  case True
  with assms show ?thesis by (auto simp: place_def)
next
  case False
  obtain full l1 w1 where round: "place_round net job (length (l_agents l)) [] l w = (full, l1, w1)"
    by (metis prod_cases3)
  have l': "l' = l1" using assms(2) False round by (auto simp: place_def Let_def split: option.splits if_splits)
  from place_round_spec [OF round] obtain r a where
    "l1 = l\<lparr>l_round_robin := r\<rparr> \<or> l1 = track_placement (a_id (a :: agent)) (j_name job) (l\<lparr>l_round_robin := r\<rparr>)"
    by (auto split: option.splits)
  moreover have b: "l_books_inv (l\<lparr>l_round_robin := r\<rparr>)" using leader_inv_books [OF assms(1)] by simp
  ultimately show ?thesis
  proof (elim disjE)
    assume "l1 = track_placement (a_id a) (j_name job) (l\<lparr>l_round_robin := r\<rparr>)"
    then show ?thesis using placed_on_le [OF leader_inv_books [OF assms(1)], of "a_id a" "j_name job"]
      by (simp add: l' books.on_track [OF b] sat_add32_def)
  qed (simp add: l')
qed

lemma blue_green_place_cong:
  "net_run net = net_run net' \<Longrightarrow> blue_green_place net job c i k l w = blue_green_place net' job c i k l w"
  by (induction k arbitrary: i l w)
    (simp_all add: place_nopreempt_cong [of net net'] split: prod.split sum.split)

lemma ask_tasks_cong: "net_tasks net = net_tasks net' \<Longrightarrow> ask_tasks net as w = ask_tasks net' as w"
  by (induction "as" arbitrary: w) (simp_all split: prod.split)

lemma snapshot_cong:
  "net_tasks net = net_tasks net' \<Longrightarrow> snapshot_job_tasks net n l w = snapshot_job_tasks net' n l w"
  by (simp add: snapshot_job_tasks_def job_status_def ask_tasks_cong [of net net'])

text \<open>A blue-green update that fails has asked no agent to stop anything.\<close>

lemma update_blue_green_failed:
  assumes "net_run net = net_run net'" "net_tasks net = net_tasks net'"
    "fst (update_blue_green net job l w) = Inl e"
  shows "update_blue_green net' job l w = update_blue_green net job l w"
  using assms(3) blue_green_place_cong [OF assms(1)] snapshot_cong [OF assms(2)]
  by (auto simp: update_blue_green_def split: prod.splits sum.splits)

lemma blue_green_place_kept:
  assumes "leader_inv l" "blue_green_place net job c i k l w = (r, l', w')"
  shows "\<forall>i n. placed_on l i n \<le> placed_on l' i n"
  using assms
proof (induction k arbitrary: i l w)
  case (Suc k)
  obtain r1 l1 w1 where p: "place net job False l w = (r1, l1, w1)" by (metis prod_cases3)
  have inv: "leader_inv l1" using place_placing [OF Suc.prems(1) p] by simp
  have one: "placed_on l i n \<le> placed_on l1 i n" for i n
    using place_nopreempt [OF Suc.prems(1) p] by (cases "n = j_name job") auto
  show ?case
  proof (cases r1)
    case (Inl why)
    with Suc.prems(2) p one show ?thesis by simp
  next
    case (Inr u)
    with Suc.prems(2) p have "blue_green_place net job c (Suc i) k l1 w1 = (r, l', w')" by simp
    from Suc.IH [OF inv this] one show ?thesis using le_trans by blast
  qed
qed simp

text \<open>Rolling over the old tasks touches no other job.\<close>

lemma roll_one_others:
  assumes "leader_inv l" "roll_one net job old l w = (r, l', w')" "n \<noteq> j_name job"
  shows "placed_on l' i n = placed_on l i n"
proof -
  obtain r1 l1 w1 where p: "place net job False l w = (r1, l1, w1)" by (metis prod_cases3)
  have "l' = l1" using assms(2) p
    by (auto simp: roll_one_def split: sum.splits refusal.splits option.splits prod.splits if_splits)
  with place_nopreempt [OF assms(1) p] assms(3) show ?thesis by simp
qed

lemma rolling_loop_others:
  assumes "leader_inv l" "rolling_loop net job c k olds l w = (r, l', w')" "n \<noteq> j_name job"
  shows "placed_on l' i n = placed_on l i n"
  using assms(1,2)
proof (induction olds arbitrary: k l w)
  case (Cons old olds)
  obtain r1 l1 w1 where one: "(if k < c then roll_one net job old l w else (Inr False, l, w)) = (r1, l1, w1)"
    by (metis prod_cases3)
  have l1: "leader_inv l1" "placed_on l1 i n = placed_on l i n"
    using roll_one_spec [OF Cons.prems(1), of net job old w] roll_one_others [OF Cons.prems(1) _ assms(3)]
      Cons.prems(1) one by (auto split: if_splits)
  show ?case
  proof (cases r1)
    case (Inl why)
    with Cons.prems(2) one l1 show ?thesis by simp
  next
    case (Inr replaced)
    obtain l2 w2 where two: "(if replaced then (l1, w1) else stop_old_task net (j_name job) old l1 w1) = (l2, w2)"
      by fastforce
    have l2: "leader_inv l2" "placed_on l2 i n = placed_on l1 i n"
      using stop_old_task_spec [OF l1(1), of net "j_name job" old w1] l1(1) two assms(3)
        books.on_untrack [OF leader_inv_books [OF l1(1)]]
      by (auto simp: stop_old_task_def split: if_splits option.splits)
    obtain w3 where "rolling_loop net job c (Suc k) olds (leader_event (EvJob (j_name job)) l2) w3 = (r, l', w')"
      using Cons.prems(2) one Inr two by (auto simp: Let_def)
    from Cons.IH [OF leader_inv_event [OF l2(1)] this] l1 l2 show ?thesis by simp
  qed
qed simp

end
