(* ===== verification/Outcome.thy ===== *)
theory Outcome
  imports Types_Job
begin

text \<open>
  Results of code that can fail with an error of \<^verbatim>\<open>types/src/error.rs\<close> and need not return.
  \<open>Some (Inr x)\<close> is \<^verbatim>\<open>Ok(x)\<close>, \<open>Some (Inl e)\<close> is \<^verbatim>\<open>Err(e)\<close>; \<open>None\<close> is a run that gives no
  result, because a loop goes on or because checked arithmetic overflows and stops the
  program.  \<open>run_bind\<close> is the question mark operator.
\<close>

type_synonym 'a run = "(types_error + 'a) option"

abbreviation ok :: "'a \<Rightarrow> 'a run" where
  "ok x \<equiv> Some (Inr x)"

abbreviation fails :: "types_error \<Rightarrow> 'a run" where
  "fails e \<equiv> Some (Inl e)"

definition run_bind :: "'a run \<Rightarrow> ('a \<Rightarrow> 'b run) \<Rightarrow> 'b run" where
  "run_bind m f = Option.bind m (case_sum fails f)"

lemma run_bind_simps [simp]:
  "run_bind None f = None" "run_bind (fails e) f = fails e" "run_bind (ok x) f = f x"
  by (simp_all add: run_bind_def)

lemma run_cases [case_names None fails ok]:
  obtains "m = None" | e where "m = fails e" | x where "m = ok x"
  by (cases m; cases "the m") auto

lemma run_bind_ok_iff: "run_bind m f = ok y \<longleftrightarrow> (\<exists>x. m = ok x \<and> f x = ok y)"
  by (cases m rule: run_cases) auto

lemma run_bind_assoc: "run_bind (run_bind m f) g = run_bind m (\<lambda>x. run_bind (f x) g)"
  by (cases m rule: run_cases) auto

lemma run_bind_None_iff: "run_bind m f = None \<longleftrightarrow> m = None \<or> (\<exists>x. m = ok x \<and> f x = None)"
  by (cases m) (auto simp: run_bind_def split: sum.splits)

lemma run_bind_cong [fundef_cong]:
  assumes "m = m'" "\<And>x. m' = ok x \<Longrightarrow> f x = f' x"
  shows "run_bind m f = run_bind m' f'"
  using assms by (cases m') (auto simp: run_bind_def split: sum.splits)

lemma run_bind_mono [partial_function_mono]:
  assumes "mono_option B" "\<And>y. mono_option (\<lambda>f. C y f)"
  shows "mono_option (\<lambda>f. run_bind (B f) (\<lambda>y. C y f))"
proof -
  have "mono_option (\<lambda>f. case_sum fails (\<lambda>y. C y f) z)" for z
    by (cases z) (simp_all add: assms(2) option.const_mono)
  then show ?thesis unfolding run_bind_def by (rule bind_mono [OF assms(1)])
qed

text \<open>A list mapped by a step that can fail, in order.\<close>

fun run_map :: "('a \<Rightarrow> 'b run) \<Rightarrow> 'a list \<Rightarrow> 'b list run" where
  "run_map f [] = ok []"
| "run_map f (x # xs) = run_bind (f x) (\<lambda>y. run_bind (run_map f xs) (\<lambda>ys. ok (y # ys)))"

text \<open>A loop over a list with a state.\<close>

fun run_fold :: "('a \<Rightarrow> 's \<Rightarrow> 's run) \<Rightarrow> 'a list \<Rightarrow> 's \<Rightarrow> 's run" where
  "run_fold f [] s = ok s"
| "run_fold f (x # xs) s = run_bind (f x s) (run_fold f xs)"

lemma run_map_ok: "(\<And>x. x \<in> set xs \<Longrightarrow> f x = ok (g x)) \<Longrightarrow> run_map f xs = ok (map g xs)"
  by (induction xs) auto

lemma run_map_returns: "(\<And>x. x \<in> set xs \<Longrightarrow> f x \<noteq> None) \<Longrightarrow> run_map f xs \<noteq> None"
  by (induction xs) (auto simp: run_bind_None_iff)

lemma run_map_length: "run_map f xs = ok ys \<Longrightarrow> length ys = length xs"
  by (induction xs arbitrary: ys) (auto simp: run_bind_ok_iff)

lemma run_map_all: "run_map f xs = ok ys \<Longrightarrow> y \<in> set ys \<Longrightarrow> \<exists>x\<in>set xs. f x = ok y"
  by (induction xs arbitrary: ys) (auto simp: run_bind_ok_iff)

lemma run_fold_append: "run_fold f (xs @ ys) s = run_bind (run_fold f xs s) (run_fold f ys)"
  by (induction xs arbitrary: s) (auto simp: run_bind_assoc intro: run_bind_cong)

lemma run_fold_inv:
  assumes "run_fold f xs s = ok s'" "P s" "\<And>x s s1. x \<in> set xs \<Longrightarrow> f x s = ok s1 \<Longrightarrow> P s \<Longrightarrow> P s1"
  shows "P s'"
  using assms by (induction xs arbitrary: s) (auto simp: run_bind_ok_iff)

text \<open>A run that returns, with a value that satisfies \<open>P\<close> or with an error.\<close>

definition returns :: "('a \<Rightarrow> bool) \<Rightarrow> 'a run \<Rightarrow> bool" where
  "returns P m \<longleftrightarrow> (case m of None \<Rightarrow> False | Some (Inl _) \<Rightarrow> True | Some (Inr x) \<Rightarrow> P x)"

lemma returns_simps [simp]: "\<not> returns P None" "returns P (fails e)" "returns P (ok x) = P x"
  by (simp_all add: returns_def)

lemma returns_bind:
  assumes "returns P m" "\<And>x. P x \<Longrightarrow> returns Q (f x)"
  shows "returns Q (run_bind m f)"
  using assms by (cases m rule: run_cases) auto

lemma returns_mono: "returns P m \<Longrightarrow> (\<And>x. P x \<Longrightarrow> Q x) \<Longrightarrow> returns Q m"
  by (cases m rule: run_cases) auto

lemma returnsD: "returns P m \<Longrightarrow> \<exists>r. m = Some r \<and> (\<forall>x. r = Inr x \<longrightarrow> P x)"
  by (cases m rule: run_cases) auto

lemma returns_ok: "returns P m \<Longrightarrow> m = ok x \<Longrightarrow> P x"
  by simp

lemma returns_map:
  "(\<And>x. x \<in> set xs \<Longrightarrow> returns P (f x)) \<Longrightarrow>
     returns (\<lambda>ys. length ys = length xs \<and> list_all P ys) (run_map f xs)"
proof (induction xs)
  case (Cons x xs)
  have "returns P (f x)" using Cons.prems by simp
  moreover have "returns (\<lambda>ys. length ys = length xs \<and> list_all P ys) (run_map f xs)" using Cons by simp
  ultimately show ?case by (cases "f x" rule: run_cases; cases "run_map f xs" rule: run_cases) auto
qed simp

lemma returns_fold:
  assumes "P s" "\<And>x s. x \<in> set xs \<Longrightarrow> P s \<Longrightarrow> returns P (f x s)"
  shows "returns P (run_fold f xs s)"
  using assms
proof (induction xs arbitrary: s)
  case (Cons x xs)
  then show ?case by (auto intro: returns_bind [of P])
qed simp

text \<open>A run whose value, when it gives one, satisfies \<open>P\<close>.\<close>

definition gives :: "('a \<Rightarrow> bool) \<Rightarrow> 'a run \<Rightarrow> bool" where
  "gives P m \<longleftrightarrow> (\<forall>x. m = ok x \<longrightarrow> P x)"

lemma gives_simps [simp]: "gives P None" "gives P (fails e)" "gives P (ok x) = P x"
  by (simp_all add: gives_def)

lemma gives_returns: "returns P m \<Longrightarrow> gives P m"
  by (cases m rule: run_cases) auto

lemma gives_bind: "gives P m \<Longrightarrow> (\<And>x. P x \<Longrightarrow> gives Q (f x)) \<Longrightarrow> gives Q (run_bind m f)"
  by (cases m rule: run_cases) auto

lemma gives_set: "gives P m \<Longrightarrow> (\<And>x. P x \<Longrightarrow> Q (f x)) \<Longrightarrow> gives Q (run_bind m (\<lambda>x. ok (f x)))"
  by (erule gives_bind) simp

lemma gives_fold:
  assumes "P s" "\<And>x s. x \<in> set xs \<Longrightarrow> P s \<Longrightarrow> gives P (f x s)"
  shows "gives P (run_fold f xs s)"
  using assms
proof (induction xs arbitrary: s)
  case (Cons x xs)
  then show ?case by (auto intro: gives_bind [of P])
qed simp

lemma gives_map:
  "(\<And>x. x \<in> set xs \<Longrightarrow> gives P (f x)) \<Longrightarrow>
     gives (\<lambda>ys. length ys = length xs \<and> list_all P ys) (run_map f xs)"
proof (induction xs)
  case (Cons x xs)
  have "gives P (f x)" using Cons.prems by simp
  moreover have "gives (\<lambda>ys. length ys = length xs \<and> list_all P ys) (run_map f xs)" using Cons by simp
  ultimately show ?case by (cases "f x" rule: run_cases; cases "run_map f xs" rule: run_cases) auto
qed simp

end
