(* ===== verification/Utf8.thy ===== *)
theory Utf8
  imports Types_Job
begin

text \<open>
  UTF-8 as the standard library has it: \<^verbatim>\<open>str::from_utf8\<close> with the offset of the first
  ill-formed sequence, \<^verbatim>\<open>char_indices\<close>, \<^verbatim>\<open>char::from_u32\<close> and \<^verbatim>\<open>String::push\<close>.  A well-formed text
  is the concatenation of its characters, and pushing a character keeps it well-formed.
\<close>

section \<open>Sequences\<close>

abbreviation byte :: "char \<Rightarrow> nat" where
  "byte c \<equiv> of_char c"

definition between :: "nat \<Rightarrow> nat \<Rightarrow> char \<Rightarrow> bool" where
  "between lo hi c \<longleftrightarrow> lo \<le> byte c \<and> byte c \<le> hi"

text \<open>The width by the first byte, and what the second byte may be.\<close>

definition utf8_width :: "nat \<Rightarrow> nat" where
  "utf8_width x =
     (if x < 0x80 then 1
      else if 0xC2 \<le> x \<and> x \<le> 0xDF then 2
      else if 0xE0 \<le> x \<and> x \<le> 0xEF then 3
      else if 0xF0 \<le> x \<and> x \<le> 0xF4 then 4
      else 0)"

definition utf8_second :: "nat \<Rightarrow> char \<Rightarrow> bool" where
  "utf8_second x =
     between (if x = 0xE0 then 0xA0 else if x = 0xF0 then 0x90 else 0x80)
             (if x = 0xED then 0x9F else if x = 0xF4 then 0x8F else 0xBF)"

text \<open>The number of bytes of the first character; 0 when no well-formed one starts here.\<close>

definition utf8_first :: "string \<Rightarrow> nat" where
  "utf8_first s =
     (case s of
        [] \<Rightarrow> 0
      | a # r \<Rightarrow>
          let n = utf8_width (byte a) in
          if n \<le> 1 then n
          else if n \<le> length s \<and> utf8_second (byte a) (hd r) \<and> list_all (between 0x80 0xBF) (take (n - 1) r)
          then n else 0)"

lemma utf8_first_le: "utf8_first s \<le> length s"
  by (auto simp: utf8_first_def Let_def split: list.splits)

text \<open>\<open>Some k\<close>: the first \<open>k\<close> bytes are well-formed and what follows is not.\<close>

function utf8_error :: "string \<Rightarrow> nat \<Rightarrow> nat option" where
  "utf8_error s k =
     (if s = [] then None
      else if utf8_first s = 0 then Some k
      else utf8_error (drop (utf8_first s) s) (k + utf8_first s))"
  by pat_completeness auto
termination
  by (relation "measure (\<lambda>(s, k). length s)") auto

declare utf8_error.simps [simp del]

definition utf8_valid :: "string \<Rightarrow> bool" where
  "utf8_valid s \<longleftrightarrow> utf8_error s 0 = None"

function utf8_chars :: "string \<Rightarrow> string list" where
  "utf8_chars s =
     (if s = [] \<or> utf8_first s = 0 then []
      else take (utf8_first s) s # utf8_chars (drop (utf8_first s) s))"
  by pat_completeness auto
termination
  by (relation "measure length") auto

declare utf8_chars.simps [simp del]

section \<open>Code points\<close>

definition scalar_value :: "nat \<Rightarrow> bool" where
  "scalar_value cp \<longleftrightarrow> cp < 0xD800 \<or> 0xDFFF < cp \<and> cp < 0x110000"

definition utf8_encode :: "nat \<Rightarrow> string" where
  "utf8_encode cp =
     (if cp < 0x80 then [char_of cp]
      else if cp < 0x800 then [char_of (0xC0 + cp div 64), char_of (0x80 + cp mod 64)]
      else if cp < 0x10000
        then [char_of (0xE0 + cp div 4096), char_of (0x80 + cp div 64 mod 64), char_of (0x80 + cp mod 64)]
      else [char_of (0xF0 + cp div 262144), char_of (0x80 + cp div 4096 mod 64),
            char_of (0x80 + cp div 64 mod 64), char_of (0x80 + cp mod 64)])"

text \<open>The code point of a character.\<close>

definition utf8_decode :: "string \<Rightarrow> nat" where
  "utf8_decode s =
     (case s of
        [a] \<Rightarrow> byte a
      | [a, b] \<Rightarrow> (byte a mod 32) * 64 + byte b mod 64
      | [a, b, c] \<Rightarrow> (byte a mod 16) * 4096 + (byte b mod 64) * 64 + byte c mod 64
      | [a, b, c, d] \<Rightarrow>
          (byte a mod 8) * 262144 + (byte b mod 64) * 4096 + (byte c mod 64) * 64 + byte d mod 64
      | _ \<Rightarrow> 0)"

section \<open>Lemmas\<close>

lemma utf8_error_Nil [simp]: "utf8_error [] k = None"
  by (simp add: utf8_error.simps)

lemma utf8_valid_Nil [simp]: "utf8_valid []"
  by (simp add: utf8_valid_def)

text \<open>A character: one well-formed sequence and nothing else.\<close>

definition utf8_char :: "string \<Rightarrow> bool" where
  "utf8_char c \<longleftrightarrow> c \<noteq> [] \<and> utf8_first c = length c"

lemma utf8_first_append: "utf8_first s \<noteq> 0 \<Longrightarrow> utf8_first (s @ t) = utf8_first s"
  by (cases s) (auto simp: utf8_first_def Let_def hd_append split: if_splits)

lemma utf8_first_take:
  assumes "utf8_first s \<noteq> 0"
  shows "utf8_char (take (utf8_first s) s)"
proof (cases s)
  case (Cons a r)
  define n where "n = utf8_width (byte a)"
  have n: "utf8_first s = n" using assms Cons by (auto simp: utf8_first_def n_def Let_def split: if_splits)
  then have "n \<le> length s" using utf8_first_le [of s] by simp
  obtain k where k: "n = Suc k" using assms n by (cases n) auto
  have "utf8_first (a # take k r) = n"
    using assms Cons k \<open>n \<le> length s\<close>
    by (cases r; cases k) (auto simp: utf8_first_def n_def [symmetric] Let_def split: if_splits)
  with n k Cons \<open>n \<le> length s\<close> show ?thesis by (simp add: utf8_char_def min_absorb2)
qed (use assms in \<open>simp add: utf8_first_def\<close>)

lemma utf8_error_char:
  assumes "utf8_char c"
  shows "utf8_error (c @ s) k = utf8_error s (k + length c)"
proof -
  have "utf8_first (c @ s) = length c" "c @ s \<noteq> []" "length c \<noteq> 0"
    using assms utf8_first_append [of c s] by (auto simp: utf8_char_def)
  then show ?thesis by (subst utf8_error.simps) simp
qed

lemma utf8_error_shift: "utf8_error s (k + n) = map_option (\<lambda>i. i + n) (utf8_error s k)"
proof (induction s k rule: utf8_error.induct)
  case (1 s k)
  then show ?case
    by (subst (1 2) utf8_error.simps) (auto simp: add.commute add.left_commute)
qed

lemma utf8_valid_char_append: "utf8_char c \<Longrightarrow> utf8_valid (c @ s) = utf8_valid s"
  using utf8_error_shift [of s 0 "length c"] by (simp add: utf8_valid_def utf8_error_char)

lemma utf8_valid_split:
  assumes "utf8_valid s"
  shows "concat (utf8_chars s) = s \<and> list_all utf8_char (utf8_chars s)"
  using assms
proof (induction s rule: utf8_chars.induct)
  case (1 s)
  show ?case
  proof (cases "s = []")
    case False
    with "1.prems" have n: "utf8_first s \<noteq> 0"
      unfolding utf8_valid_def by (subst (asm) utf8_error.simps) (simp split: if_splits)
    have "utf8_valid (drop (utf8_first s) s)"
      using "1.prems" utf8_valid_char_append [OF utf8_first_take [OF n], of "drop (utf8_first s) s"] by simp
    with 1(1) False n utf8_first_take [OF n] show ?thesis by (subst (1 2) utf8_chars.simps) simp
  qed (simp add: utf8_chars.simps)
qed

lemma utf8_valid_concat: "list_all utf8_char cs \<Longrightarrow> utf8_valid (concat cs)"
  by (induction cs) (auto simp: utf8_valid_char_append)

lemma utf8_valid_append: "utf8_valid s \<Longrightarrow> utf8_valid t \<Longrightarrow> utf8_valid (s @ t)"
  using utf8_valid_split [of s] utf8_valid_split [of t] utf8_valid_concat [of "utf8_chars s @ utf8_chars t"]
  by simp

lemma ascii_valid: "list_all (\<lambda>c. byte c < 128) s \<Longrightarrow> utf8_valid s"
proof (induction s)
  case (Cons c s)
  have "utf8_char [c]" using Cons.prems by (simp add: utf8_char_def utf8_first_def utf8_width_def)
  from utf8_valid_char_append [OF this, of s] Cons show ?case by simp
qed simp

lemma of_char_char_of_small [simp]: "n < 256 \<Longrightarrow> byte (char_of n) = n"
  by (simp add: of_char_of)

lemma base64_parts:
  "(n::nat) = n div 4096 * 4096 + n div 64 mod 64 * 64 + n mod 64"
  "(n::nat) = n div 262144 * 262144 + n div 4096 mod 64 * 4096 + n div 64 mod 64 * 64 + n mod 64"
proof -
  have d: "n div 4096 = n div 64 div 64" "n div 262144 = n div 4096 div 64" by (simp_all add: div_mult2_eq [symmetric])
  show eq: "n = n div 4096 * 4096 + n div 64 mod 64 * 64 + n mod 64"
    using div_mult_mod_eq [of n 64] div_mult_mod_eq [of "n div 64" 64] unfolding d(1) by linarith
  show "n = n div 262144 * 262144 + n div 4096 mod 64 * 4096 + n div 64 mod 64 * 64 + n mod 64"
    using eq div_mult_mod_eq [of "n div 4096" 64] unfolding d(2) by linarith
qed

lemma utf8_encode_char:
  assumes "scalar_value cp"
  shows "utf8_char (utf8_encode cp)"
proof -
  consider "cp < 0x80" | "0x80 \<le> cp" "cp < 0x800" | "0x800 \<le> cp" "cp < 0x10000" | "0x10000 \<le> cp" "cp < 0x110000"
    using assms unfolding scalar_value_def by linarith
  then show ?thesis
  proof cases
    case 1
    then show ?thesis by (simp add: utf8_encode_def utf8_char_def utf8_first_def utf8_width_def)
  next
    case 2
    have "2 \<le> cp div 64" "cp div 64 < 32" "cp mod 64 < 64" using 2 by (auto simp: less_eq_div_iff_mult_less_eq div_less_iff_less_mult)
    with 2 show ?thesis by (simp add: utf8_encode_def utf8_char_def utf8_first_def utf8_width_def utf8_second_def between_def)
  next
    case 3
    define a where "a = cp div 4096"
    define b where "b = cp div 64 mod 64"
    define c where "c = cp mod 64"
    have cp: "cp = a * 4096 + b * 64 + c"
      using base64_parts(1) [of cp] by (simp only: a_def b_def c_def)
    have "b < 64" "c < 64" by (simp_all add: b_def c_def)
    moreover have "a < 16" using 3 by (simp add: a_def div_less_iff_less_mult)
    moreover have "a = 0 \<Longrightarrow> 32 \<le> b" using cp 3 \<open>c < 64\<close> by simp
    moreover have "a = 13 \<Longrightarrow> b < 32" using cp assms \<open>b < 64\<close> \<open>c < 64\<close> unfolding scalar_value_def by linarith
    ultimately show ?thesis using 3
      by (auto simp: utf8_encode_def utf8_char_def utf8_first_def utf8_width_def utf8_second_def between_def
          a_def [symmetric] b_def [symmetric] c_def [symmetric])
  next
    case 4
    define a where "a = cp div 262144"
    define b where "b = cp div 4096 mod 64"
    define c where "c = cp div 64 mod 64"
    define d where "d = cp mod 64"
    have cp: "cp = a * 262144 + b * 4096 + c * 64 + d"
      using base64_parts(2) [of cp] by (simp only: a_def b_def c_def d_def)
    have bcd: "b < 64" "c < 64" "d < 64" by (simp_all add: b_def c_def d_def)
    moreover have "a < 5" using 4 by (simp add: a_def div_less_iff_less_mult)
    moreover have "a = 0 \<Longrightarrow> 16 \<le> b" using cp 4 bcd by simp
    moreover have "a = 4 \<Longrightarrow> b < 16" using cp 4 bcd by simp
    ultimately show ?thesis using 4
      by (auto simp: utf8_encode_def utf8_char_def utf8_first_def utf8_width_def utf8_second_def between_def
          a_def [symmetric] b_def [symmetric] c_def [symmetric] d_def [symmetric])
  qed
qed

end
