(* ===== verification/Decimal.thy ===== *)
theory Decimal
  imports Prelude
begin

text \<open>
  Decimal texts of numbers: what \<^verbatim>\<open>{}\<close> formatting and \<^verbatim>\<open>str::parse\<close> of the standard library do on
  unsigned integers.  \<open>nat_text\<close> writes the digits of a number without leading zeros,
  \<open>digits_val\<close> reads a run of digits; they are inverse, and a run of digits is bounded by
  its length.
\<close>

section \<open>Digits\<close>

definition digit_char :: "nat \<Rightarrow> char" where
  "digit_char d = char_of (48 + d)"

definition is_digit :: "char \<Rightarrow> bool" where
  "is_digit c \<longleftrightarrow> 48 \<le> (of_char c :: nat) \<and> (of_char c :: nat) \<le> 57"

definition digit_val :: "char \<Rightarrow> nat" where
  "digit_val c = of_char c - 48"

text \<open>The digits from the lowest up; at least one.\<close>

fun low_digits :: "nat \<Rightarrow> string" where
  "low_digits n = (if n < 10 then [digit_char n] else digit_char (n mod 10) # low_digits (n div 10))"

declare low_digits.simps [simp del]

definition nat_text :: "nat \<Rightarrow> string" where
  "nat_text n = rev (low_digits n)"

definition digits_val :: "string \<Rightarrow> nat" where
  "digits_val s = foldl (\<lambda>v c. v * 10 + digit_val c) 0 s"

text \<open>Zero-padded to a width, as \<^verbatim>\<open>{:0w$}\<close> does.\<close>

definition pad_text :: "nat \<Rightarrow> nat \<Rightarrow> string" where
  "pad_text w n = replicate (w - length (nat_text n)) (CHR ''0'') @ nat_text n"

section \<open>Lemmas\<close>

lemma digit_val_char [simp]: "d < 10 \<Longrightarrow> digit_val (digit_char d) = d"
  by (simp add: digit_val_def digit_char_def)

lemma is_digit_char [simp]: "d < 10 \<Longrightarrow> is_digit (digit_char d)"
  by (simp add: is_digit_def digit_char_def)

lemma digit_val_less: "is_digit c \<Longrightarrow> digit_val c < 10"
  by (auto simp: is_digit_def digit_val_def)

lemma digit_char_val: "is_digit c \<Longrightarrow> digit_char (digit_val c) = c"
  by (simp add: is_digit_def digit_val_def digit_char_def)

lemma is_digit_zero [simp]: "is_digit (CHR ''0'')"
  by (simp add: is_digit_def)

lemma digit_val_zero [simp]: "digit_val (CHR ''0'') = 0"
  by (simp add: digit_val_def)

lemma digit_char_zero_iff: "d < 10 \<Longrightarrow> digit_char d = CHR ''0'' \<longleftrightarrow> d = 0"
  by (metis digit_val_char digit_val_zero digit_char_val is_digit_zero)

lemma digits_val_append: "digits_val (xs @ ys) = digits_val xs * 10 ^ length ys + digits_val ys"
proof (induction ys rule: rev_induct)
  case (snoc y ys)
  have "digits_val (xs @ ys @ [y]) = digits_val (xs @ ys) * 10 + digit_val y"
    by (simp add: digits_val_def)
  moreover have "digits_val (ys @ [y]) = digits_val ys * 10 + digit_val y" by (simp add: digits_val_def)
  ultimately show ?case using snoc by (simp add: algebra_simps)
qed (simp add: digits_val_def)

lemma digits_val_Nil [simp]: "digits_val [] = 0"
  by (simp add: digits_val_def)

lemma digits_val_single [simp]: "digits_val [c] = digit_val c"
  by (simp add: digits_val_def)

lemma digits_val_snoc: "digits_val (xs @ [c]) = digits_val xs * 10 + digit_val c"
  by (simp add: digits_val_append)

lemma digits_val_Cons: "digits_val (c # xs) = digit_val c * 10 ^ length xs + digits_val xs"
  using digits_val_append [of "[c]" xs] by simp

lemma digits_val_less: "list_all is_digit s \<Longrightarrow> digits_val s < 10 ^ length s"
proof (induction s rule: rev_induct)
  case (snoc c s)
  have "digit_val c < 10" using snoc.prems by (simp add: digit_val_less)
  moreover have "digits_val s < 10 ^ length s" using snoc by simp
  then have "Suc (digits_val s) * 10 \<le> 10 ^ length s * 10" by (intro mult_le_mono1) simp
  ultimately show ?case by (simp add: digits_val_snoc)
qed simp

lemma nat_text_simps:
  "nat_text n = (if n < 10 then [digit_char n] else nat_text (n div 10) @ [digit_char (n mod 10)])"
  by (simp add: nat_text_def low_digits.simps [of n])

lemma digits_val_nat_text [simp]: "digits_val (nat_text n) = n"
proof (induction n rule: less_induct)
  case (less n)
  show ?case
  proof (cases "n < 10")
    case False
    then have "digits_val (nat_text (n div 10)) = n div 10" by (intro less) simp
    with False show ?thesis by (simp add: nat_text_simps [of n] digits_val_snoc)
  qed (simp add: nat_text_simps [of n])
qed

lemma nat_text_digits [simp]: "list_all is_digit (nat_text n)"
proof (induction n rule: less_induct)
  case (less n)
  then show ?case by (cases "n < 10") (simp_all add: nat_text_simps [of n])
qed

lemma nat_text_nonempty [simp]: "nat_text n \<noteq> []"
  by (subst nat_text_simps) simp

lemma nat_text_inj [simp]: "nat_text m = nat_text n \<longleftrightarrow> m = n"
  by (metis digits_val_nat_text)

text \<open>No leading zero except in the text of zero itself.\<close>

lemma nat_text_hd: "n \<noteq> 0 \<Longrightarrow> hd (nat_text n) \<noteq> CHR ''0''"
proof (induction n rule: less_induct)
  case (less n)
  show ?case
  proof (cases "n < 10")
    case True
    with less.prems show ?thesis by (simp add: nat_text_simps [of n] digit_char_zero_iff)
  next
    case False
    then have "hd (nat_text (n div 10)) \<noteq> CHR ''0''" by (intro less) (auto simp: div_eq_0_iff)
    with False show ?thesis by (simp add: nat_text_simps [of n])
  qed
qed

lemma nat_text_0 [simp]: "nat_text 0 = ''0''"
  by (subst nat_text_simps) (simp add: digit_char_zero_iff)

lemma length_nat_text_less: "n < 10 ^ k \<Longrightarrow> 0 < k \<Longrightarrow> length (nat_text n) \<le> k"
proof (induction k arbitrary: n)
  case (Suc k)
  show ?case
  proof (cases "n < 10")
    case False
    then have "n div 10 < 10 ^ k" "0 < k" using Suc.prems by (auto intro: Suc_lessI gr0I)
    then have "length (nat_text (n div 10)) \<le> k" by (rule Suc.IH)
    with False show ?thesis by (simp add: nat_text_simps [of n])
  qed (simp add: nat_text_simps [of n])
qed simp

lemma length_pad_text: "n < 10 ^ w \<Longrightarrow> 0 < w \<Longrightarrow> length (pad_text w n) = w"
  using length_nat_text_less [of n w] by (simp add: pad_text_def)

lemma digits_val_zeros [simp]: "digits_val (replicate k (CHR ''0'')) = 0"
  by (induction k) (simp_all add: digits_val_Cons)

lemma digits_val_pad_text [simp]: "digits_val (pad_text w n) = n"
  by (simp add: pad_text_def digits_val_append)

lemma pad_text_digits [simp]: "list_all is_digit (pad_text w n)"
proof -
  have "list_all is_digit (replicate k (CHR ''0''))" for k by (induction k) simp_all
  then show ?thesis by (simp add: pad_text_def)
qed

lemma dropWhile_digits: "list_all is_digit s \<Longrightarrow> dropWhile is_digit (s @ t) = dropWhile is_digit t"
  by (induction s) auto

lemma takeWhile_digits: "list_all is_digit s \<Longrightarrow> takeWhile is_digit (s @ t) = s @ takeWhile is_digit t"
  by (induction s) auto

end
