(* ===== verification/Json.thy ===== *)
theory Json
  imports Outcome Utf8 Decimal
begin

text \<open>
  \<^verbatim>\<open>types/src/json.rs\<close>: the tree of values, the bounded parser and the writer.  The parser's
  state is its position with the bytes that are left.  The depth argument of the source counts
  up to \<open>MAX_DEPTH\<close>; here the levels that are left count down, so that the descent is by recursion
  on them.  The loops over the members of an object or array are written as loops, with no bound
  of their own: \<open>None\<close> would be a loop that goes on.

  Reading and showing a floating-point number and rounding an integer to one is the standard
  library's; it is a parameter, a record of three functions.  Whether a number is finite is read from its exponent bits.
\<close>

section \<open>Values\<close>

datatype number = NInt int | NUint nat | NFloat f64

definition number_as_i64 :: "number \<Rightarrow> int option" where
  "number_as_i64 n =
     (case n of NInt v \<Rightarrow> Some v | NUint v \<Rightarrow> (if int v \<le> i64_max then Some (int v) else None) | NFloat _ \<Rightarrow> None)"

definition number_as_u64 :: "number \<Rightarrow> nat option" where
  "number_as_u64 n = (case n of NUint v \<Rightarrow> Some v | NInt _ \<Rightarrow> None | NFloat _ \<Rightarrow> None)"

datatype json =
    JNull
  | JBool bool
  | JNumber number
  | JString string
  | JArray "json list"
  | JObject "(string \<times> json) list"

definition obj_get :: "(string \<times> json) list \<Rightarrow> string \<Rightarrow> json option" where
  "obj_get o1 key = map_option snd (find (\<lambda>(k, _). k = key) o1)"

definition obj_push :: "(string \<times> json) list \<Rightarrow> string \<Rightarrow> json \<Rightarrow> (string \<times> json) list" where
  "obj_push o1 key v = o1 @ [(key, v)]"

definition as_str :: "json \<Rightarrow> string option" where
  "as_str v = (case v of JString s \<Rightarrow> Some s | _ \<Rightarrow> None)"

definition as_object :: "json \<Rightarrow> (string \<times> json) list option" where
  "as_object v = (case v of JObject o1 \<Rightarrow> Some o1 | _ \<Rightarrow> None)"

definition as_array :: "json \<Rightarrow> json list option" where
  "as_array v = (case v of JArray a \<Rightarrow> Some a | _ \<Rightarrow> None)"

definition as_bool :: "json \<Rightarrow> bool option" where
  "as_bool v = (case v of JBool b \<Rightarrow> Some b | _ \<Rightarrow> None)"

definition is_null :: "json \<Rightarrow> bool" where
  "is_null v \<longleftrightarrow> v = JNull"

definition json_int :: "int \<Rightarrow> json" where
  "json_int v = (if 0 \<le> v then JNumber (NUint (nat v)) else JNumber (NInt v))"

definition json_uint :: "nat \<Rightarrow> json" where
  "json_uint v = JNumber (NUint v)"

section \<open>Floating-point texts\<close>

record float_text =
  ft_parse :: "string \<Rightarrow> f64 option"
  ft_show :: "f64 \<Rightarrow> string"
  ft_of_int :: "int \<Rightarrow> f64"

fun f64_is_finite :: "f64 \<Rightarrow> bool" where
  "f64_is_finite (F64 bits) \<longleftrightarrow> bits div 2 ^ 52 mod 2 ^ 11 \<noteq> 2 ^ 11 - 1"

definition number_as_f64 :: "float_text \<Rightarrow> number \<Rightarrow> f64" where
  "number_as_f64 fl n = (case n of NInt v \<Rightarrow> ft_of_int fl v | NUint v \<Rightarrow> ft_of_int fl (int v) | NFloat f \<Rightarrow> f)"

section \<open>The parser\<close>

definition MAX_INPUT :: nat where
  "MAX_INPUT = 2 ^ 20"

definition MAX_DEPTH :: nat where
  "MAX_DEPTH = 32"

type_synonym cursor = "nat \<times> string"

definition peek :: "cursor \<Rightarrow> char option" where
  "peek st = (case snd st of [] \<Rightarrow> None | c # _ \<Rightarrow> Some c)"

definition advance :: "nat \<Rightarrow> cursor \<Rightarrow> cursor" where
  "advance n st = (fst st + n, drop n (snd st))"

definition syntax_error :: "cursor \<Rightarrow> string \<Rightarrow> 'a run" where
  "syntax_error st expected = fails (Syntax (fst st) expected)"

text \<open>A character between single quotes, as the messages have it.\<close>

definition quoted :: "char \<Rightarrow> string" where
  "quoted c = [CHR 0x27, c, CHR 0x27]"

definition is_ws :: "char \<Rightarrow> bool" where
  "is_ws c \<longleftrightarrow> c = CHR '' '' \<or> c = CHR 0x09 \<or> c = CHR 0x0A \<or> c = CHR 0x0D"

definition skip_ws :: "cursor \<Rightarrow> cursor" where
  "skip_ws st = advance (length (takeWhile is_ws (snd st))) st"

definition eat :: "char \<Rightarrow> string \<Rightarrow> cursor \<Rightarrow> cursor run" where
  "eat c expected st = (if peek st = Some c then ok (advance 1 st) else syntax_error st expected)"

definition literal :: "string \<Rightarrow> json \<Rightarrow> cursor \<Rightarrow> (json \<times> cursor) run" where
  "literal word v st =
     (if take (length word) (snd st) = word then ok (v, advance (length word) st)
      else syntax_error st ''a value'')"

definition hex_val :: "char \<Rightarrow> nat option" where
  "hex_val c =
     (if between 48 57 c then Some (byte c - 48)
      else if between 97 102 c then Some (byte c - 97 + 10)
      else if between 65 70 c then Some (byte c - 65 + 10)
      else None)"

fun hex_digits :: "nat \<Rightarrow> nat \<Rightarrow> cursor \<Rightarrow> (nat \<times> cursor) run" where
  "hex_digits 0 v st = ok (v, st)"
| "hex_digits (Suc k) v st =
     (case Option.bind (peek st) hex_val of
        None \<Rightarrow> syntax_error st ''four hex digits''
      | Some d \<Rightarrow> hex_digits k (v * 16 + d) (advance 1 st))"

definition hex4 :: "cursor \<Rightarrow> (nat \<times> cursor) run" where
  "hex4 st = hex_digits 4 0 st"

text \<open>\<^verbatim>\<open>char::from_u32\<close>, with the replacement character for a surrogate on its own.\<close>

definition push_code :: "nat \<Rightarrow> string \<Rightarrow> string" where
  "push_code cp out = out @ utf8_encode (if scalar_value cp then cp else 0xFFFD)"

definition unicode :: "string \<Rightarrow> cursor \<Rightarrow> (string \<times> cursor) run" where
  "unicode out st =
     run_bind (hex4 st) (\<lambda>(hi, st1).
       if 0xD800 \<le> hi \<and> hi < 0xDC00
       then if take 2 (snd st1) \<noteq> [CHR 0x5C, CHR ''u''] then syntax_error st1 ''a low surrogate''
         else run_bind (hex4 (advance 2 st1)) (\<lambda>(lo, st2).
           if \<not> (0xDC00 \<le> lo \<and> lo < 0xE000) then syntax_error st2 ''a low surrogate''
           else ok (push_code (0x10000 + (hi - 0xD800) * 1024 + (lo - 0xDC00)) out, st2))
       else ok (push_code hi out, st1))"

definition simple_escape :: "char \<Rightarrow> char option" where
  "simple_escape c =
     (if c = CHR 0x22 \<or> c = CHR 0x5C \<or> c = CHR ''/'' then Some c
      else if c = CHR ''b'' then Some (CHR 0x08)
      else if c = CHR ''f'' then Some (CHR 0x0C)
      else if c = CHR ''n'' then Some (CHR 0x0A)
      else if c = CHR ''r'' then Some (CHR 0x0D)
      else if c = CHR ''t'' then Some (CHR 0x09)
      else None)"

definition escape :: "string \<Rightarrow> cursor \<Rightarrow> (string \<times> cursor) run" where
  "escape out st =
     (case peek st of
        None \<Rightarrow> syntax_error st ''an escape''
      | Some c \<Rightarrow>
          if c = CHR ''u'' then unicode out (advance 1 st)
          else (case simple_escape c of
                  Some d \<Rightarrow> ok (out @ [d], advance 1 st)
                | None \<Rightarrow> syntax_error st ''an escape''))"

text \<open>A byte of a run: no quote, no backslash, no control byte.\<close>

definition plain :: "char \<Rightarrow> bool" where
  "plain c \<longleftrightarrow> c \<noteq> CHR 0x22 \<and> c \<noteq> CHR 0x5C \<and> 0x20 \<le> byte c"

partial_function (option) string_loop :: "string \<Rightarrow> cursor \<Rightarrow> (string \<times> cursor) run" where
  "string_loop out st =
     (let part = takeWhile plain (snd st); st1 = advance (length part) st in
      case utf8_error part 0 of
        Some k \<Rightarrow> fails (Syntax (fst st + k) ''UTF-8'')
      | None \<Rightarrow>
          if peek st1 = Some (CHR 0x22) then ok (out @ part, advance 1 st1)
          else if peek st1 = Some (CHR 0x5C)
          then run_bind (escape (out @ part) (advance 1 st1)) (\<lambda>p. string_loop (fst p) (snd p))
          else syntax_error st1 (''a closing '' @ quoted (CHR 0x22)))"

definition json_string :: "cursor \<Rightarrow> (string \<times> cursor) run" where
  "json_string st = string_loop [] (advance 1 st)"

definition skip_digits :: "cursor \<Rightarrow> nat \<times> cursor" where
  "skip_digits st = (let n = length (takeWhile is_digit (snd st)) in (n, advance n st))"

text \<open>\<^verbatim>\<open>str::parse\<close> for unsigned and signed 64-bit integers, on the texts the scanner accepts.\<close>

definition parse_u64 :: "string \<Rightarrow> nat option" where
  "parse_u64 s =
     (if s \<noteq> [] \<and> list_all is_digit s \<and> digits_val s \<le> u64_max then Some (digits_val s) else None)"

definition parse_i64 :: "string \<Rightarrow> int option" where
  "parse_i64 s =
     (case s of
        CHR ''-'' # ds \<Rightarrow>
          if ds \<noteq> [] \<and> list_all is_digit ds \<and> i64_min \<le> - int (digits_val ds)
          then Some (- int (digits_val ds)) else None
      | _ \<Rightarrow>
          if s \<noteq> [] \<and> list_all is_digit s \<and> int (digits_val s) \<le> i64_max
          then Some (int (digits_val s)) else None)"

definition number_int_part :: "cursor \<Rightarrow> cursor run" where
  "number_int_part st =
     (case peek st of
        None \<Rightarrow> syntax_error st ''a digit''
      | Some c \<Rightarrow>
          if c = CHR ''0'' then ok (advance 1 st)
          else if between 49 57 c then ok (snd (skip_digits st))
          else syntax_error st ''a digit'')"

definition number_frac :: "cursor \<Rightarrow> (bool \<times> cursor) run" where
  "number_frac st =
     (if peek st = Some (CHR ''.'')
      then case skip_digits (advance 1 st) of
             (n, st1) \<Rightarrow> if n = 0 then syntax_error st1 ''a digit'' else ok (True, st1)
      else ok (False, st))"

definition number_exp :: "cursor \<Rightarrow> (bool \<times> cursor) run" where
  "number_exp st =
     (if peek st = Some (CHR ''e'') \<or> peek st = Some (CHR ''E'')
      then let st1 = advance 1 st;
               st2 = (if peek st1 = Some (CHR ''+'') \<or> peek st1 = Some (CHR ''-'') then advance 1 st1 else st1)
           in case skip_digits st2 of
                (n, st3) \<Rightarrow> if n = 0 then syntax_error st3 ''a digit'' else ok (True, st3)
      else ok (False, st))"

definition number_value :: "float_text \<Rightarrow> nat \<Rightarrow> string \<Rightarrow> bool \<Rightarrow> number run" where
  "number_value fl start txt is_float =
     (case (if is_float then None else parse_u64 txt) of
        Some v \<Rightarrow> ok (NUint v)
      | None \<Rightarrow>
          (case (if is_float then None else parse_i64 txt) of
             Some v \<Rightarrow> ok (NInt v)
           | None \<Rightarrow>
               (case ft_parse fl txt of
                  Some f \<Rightarrow> ok (NFloat f)
                | None \<Rightarrow> fails (Syntax start ''a number''))))"

definition json_number :: "float_text \<Rightarrow> cursor \<Rightarrow> (number \<times> cursor) run" where
  "json_number fl st =
     (let st1 = (if peek st = Some (CHR ''-'') then advance 1 st else st) in
      run_bind (number_int_part st1) (\<lambda>st2.
      run_bind (number_frac st2) (\<lambda>(f1, st3).
      run_bind (number_exp st3) (\<lambda>(f2, st4).
      run_bind (number_value fl (fst st) (take (fst st4 - fst st) (snd st)) (f1 \<or> f2)) (\<lambda>n.
      ok (n, st4))))))"

text \<open>The loops over members, with the parser of a value one level down as argument.\<close>

partial_function (option) object_loop ::
  "(cursor \<Rightarrow> (json \<times> cursor) run) \<Rightarrow> (string \<times> json) list \<Rightarrow> cursor \<Rightarrow> (json \<times> cursor) run" where
  "object_loop pv obj st =
     (let st0 = skip_ws st in
      if peek st0 \<noteq> Some (CHR 0x22) then syntax_error st0 ''a string key''
      else
        run_bind (json_string st0) (\<lambda>p.
        if obj_get obj (fst p) \<noteq> None then fails (DuplicateKey (name_new (fst p)))
        else
          run_bind (eat (CHR '':'') (quoted (CHR '':'')) (skip_ws (snd p))) (\<lambda>st2.
          run_bind (pv (skip_ws st2)) (\<lambda>q.
          let obj1 = obj @ [(fst p, fst q)]; st4 = skip_ws (snd q) in
          if peek st4 = Some (CHR '','') then object_loop pv obj1 (advance 1 st4)
          else if peek st4 = Some (CHR ''}'') then ok (JObject obj1, advance 1 st4)
          else syntax_error st4 (quoted (CHR '','') @ '' or '' @ quoted (CHR ''}''))))))"

partial_function (option) array_loop ::
  "(cursor \<Rightarrow> (json \<times> cursor) run) \<Rightarrow> json list \<Rightarrow> cursor \<Rightarrow> (json \<times> cursor) run" where
  "array_loop pv arr st =
     run_bind (pv (skip_ws st)) (\<lambda>q.
     let arr1 = arr @ [fst q]; st2 = skip_ws (snd q) in
     if peek st2 = Some (CHR '','') then array_loop pv arr1 (advance 1 st2)
     else if peek st2 = Some (CHR '']'') then ok (JArray arr1, advance 1 st2)
     else syntax_error st2 (quoted (CHR '','') @ '' or '' @ quoted (CHR '']'')))"

declare string_loop.simps [code] object_loop.simps [code] array_loop.simps [code]

definition json_object :: "(cursor \<Rightarrow> (json \<times> cursor) run) \<Rightarrow> cursor \<Rightarrow> (json \<times> cursor) run" where
  "json_object pv st =
     (let st1 = skip_ws (advance 1 st) in
      if peek st1 = Some (CHR ''}'') then ok (JObject [], advance 1 st1) else object_loop pv [] st1)"

definition json_array :: "(cursor \<Rightarrow> (json \<times> cursor) run) \<Rightarrow> cursor \<Rightarrow> (json \<times> cursor) run" where
  "json_array pv st =
     (let st1 = skip_ws (advance 1 st) in
      if peek st1 = Some (CHR '']'') then ok (JArray [], advance 1 st1) else array_loop pv [] st1)"

primrec json_value :: "float_text \<Rightarrow> nat \<Rightarrow> cursor \<Rightarrow> (json \<times> cursor) run" where
  "json_value fl 0 st = fails (TooDeep (fst st) MAX_DEPTH)"
| "json_value fl (Suc n) st =
     (case peek st of
        None \<Rightarrow> syntax_error st ''a value''
      | Some c \<Rightarrow>
          if c = CHR ''{'' then json_object (json_value fl n) st
          else if c = CHR ''['' then json_array (json_value fl n) st
          else if c = CHR 0x22 then run_bind (json_string st) (\<lambda>(s, st1). ok (JString s, st1))
          else if c = CHR ''t'' then literal ''true'' (JBool True) st
          else if c = CHR ''f'' then literal ''false'' (JBool False) st
          else if c = CHR ''n'' then literal ''null'' JNull st
          else if c = CHR ''-'' \<or> is_digit c then run_bind (json_number fl st) (\<lambda>(n, st1). ok (JNumber n, st1))
          else syntax_error st ''a value'')"

definition parse_with_limit :: "float_text \<Rightarrow> string \<Rightarrow> nat \<Rightarrow> json run" where
  "parse_with_limit fl input limit =
     (if length input > limit then fails (TooLarge (length input) limit)
      else run_bind (json_value fl MAX_DEPTH (skip_ws (0, input))) (\<lambda>(v, st).
        let st1 = skip_ws st in
        if snd st1 \<noteq> [] then fails (Trailing (fst st1)) else ok v))"

definition json_parse :: "float_text \<Rightarrow> string \<Rightarrow> json run" where
  "json_parse fl input = parse_with_limit fl input MAX_INPUT"

section \<open>The writer\<close>

definition hex_char :: "nat \<Rightarrow> char" where
  "hex_char d = (if d < 10 then char_of (48 + d) else char_of (87 + d))"

text \<open>Four hexadecimal digits, which is enough for every character that is written this way.\<close>

definition hex4_text :: "nat \<Rightarrow> string" where
  "hex4_text n = [hex_char (n div 4096 mod 16), hex_char (n div 256 mod 16), hex_char (n div 16 mod 16), hex_char (n mod 16)]"

definition short_escape :: "string \<Rightarrow> string option" where
  "short_escape c =
     (if c = [CHR 0x22] then Some [CHR 0x5C, CHR 0x22]
      else if c = [CHR 0x5C] then Some [CHR 0x5C, CHR 0x5C]
      else if c = [CHR 0x0A] then Some [CHR 0x5C, CHR ''n'']
      else if c = [CHR 0x0D] then Some [CHR 0x5C, CHR ''r'']
      else if c = [CHR 0x09] then Some [CHR 0x5C, CHR ''t'']
      else None)"

definition needs_hex :: "string \<Rightarrow> bool" where
  "needs_hex c \<longleftrightarrow>
     (let cp = utf8_decode c in cp \<le> 0x1F \<or> cp = byte (CHR ''<'') \<or> cp = byte (CHR ''>'') \<or>
        cp = byte (CHR ''&'') \<or> cp = 0x2028 \<or> cp = 0x2029)"

definition char_text :: "string \<Rightarrow> string" where
  "char_text c =
     (case short_escape c of
        Some e \<Rightarrow> e
      | None \<Rightarrow> if needs_hex c then [CHR 0x5C, CHR ''u''] @ hex4_text (utf8_decode c) else c)"

definition write_string :: "string \<Rightarrow> string" where
  "write_string s = [CHR 0x22] @ concat (map char_text (utf8_chars s)) @ [CHR 0x22]"

definition int_text :: "int \<Rightarrow> string" where
  "int_text v = (if v < 0 then CHR ''-'' # nat_text (nat (- v)) else nat_text (nat v))"

definition write_number :: "float_text \<Rightarrow> number \<Rightarrow> types_error + string" where
  "write_number fl n =
     (case n of
        NInt v \<Rightarrow> Inr (int_text v)
      | NUint v \<Rightarrow> Inr (nat_text v)
      | NFloat f \<Rightarrow> if \<not> f64_is_finite f then Inl NotFinite else Inr (ft_show fl f))"

definition sum_append :: "types_error + string \<Rightarrow> types_error + string \<Rightarrow> types_error + string" where
  "sum_append a b = (case a of Inl e \<Rightarrow> Inl e | Inr s \<Rightarrow> (case b of Inl e \<Rightarrow> Inl e | Inr t \<Rightarrow> Inr (s @ t)))"

fun json_write :: "float_text \<Rightarrow> json \<Rightarrow> types_error + string"
  and write_items :: "float_text \<Rightarrow> bool \<Rightarrow> json list \<Rightarrow> types_error + string"
  and write_fields :: "float_text \<Rightarrow> bool \<Rightarrow> (string \<times> json) list \<Rightarrow> types_error + string" where
  "json_write fl JNull = Inr ''null''"
| "json_write fl (JBool b) = Inr (if b then ''true'' else ''false'')"
| "json_write fl (JNumber n) = write_number fl n"
| "json_write fl (JString s) = Inr (write_string s)"
| "json_write fl (JArray a) = sum_append (Inr ''['') (sum_append (write_items fl True a) (Inr '']''))"
| "json_write fl (JObject o1) = sum_append (Inr ''{'') (sum_append (write_fields fl True o1) (Inr ''}''))"
| "write_items fl first [] = Inr []"
| "write_items fl first (v # vs) =
     sum_append (Inr (if first then [] else '','')) (sum_append (json_write fl v) (write_items fl False vs))"
| "write_fields fl first [] = Inr []"
| "write_fields fl first ((k, v) # ps) =
     sum_append (Inr ((if first then [] else '','') @ write_string k @ '':''))
       (sum_append (json_write fl v) (write_fields fl False ps))"

definition json_to_string :: "float_text \<Rightarrow> json \<Rightarrow> types_error + string" where
  "json_to_string fl v = json_write fl v"

end
