(* ===== verification/Json_Typing.thy ===== *)
theory Json_Typing
  imports Json
begin

text \<open>
  The parser of \<open>Json\<close> always returns, and what it returns is well typed: texts are UTF-8, integers
  fit 64 bits, the keys of an object differ, and the nesting stays within the bound.  The locale
  \<open>value_parser\<close> is what the loops over members ask of the parser one level down.
\<close>

section \<open>Typing of values\<close>

fun number_ok :: "number \<Rightarrow> bool" where
  "number_ok (NInt v) \<longleftrightarrow> i64_min \<le> v \<and> v \<le> 0"
| "number_ok (NUint v) \<longleftrightarrow> v \<le> u64_max"
| "number_ok (NFloat _) \<longleftrightarrow> True"

text \<open>Well typed with at most \<open>n\<close> levels, the numbers as \<open>num\<close> says.\<close>

fun json_typed :: "(number \<Rightarrow> bool) \<Rightarrow> nat \<Rightarrow> json \<Rightarrow> bool" where
  "json_typed num 0 v \<longleftrightarrow> False"
| "json_typed num (Suc n) JNull \<longleftrightarrow> True"
| "json_typed num (Suc n) (JBool b) \<longleftrightarrow> True"
| "json_typed num (Suc n) (JNumber x) \<longleftrightarrow> num x"
| "json_typed num (Suc n) (JString s) \<longleftrightarrow> utf8_valid s"
| "json_typed num (Suc n) (JArray a) \<longleftrightarrow> list_all (json_typed num n) a"
| "json_typed num (Suc n) (JObject o1) \<longleftrightarrow>
     distinct (map fst o1) \<and> list_all (\<lambda>(k, v). utf8_valid k \<and> json_typed num n v) o1"

abbreviation json_ok :: "nat \<Rightarrow> json \<Rightarrow> bool" where
  "json_ok \<equiv> json_typed number_ok"

abbreviation left :: "cursor \<Rightarrow> nat" where
  "left st \<equiv> length (snd st)"

section \<open>The steps of the scanner\<close>

lemma left_advance [simp]: "left (advance n st) = left st - n"
  by (simp add: advance_def)

lemma left_skip_ws: "left (skip_ws st) \<le> left st"
  by (simp add: skip_ws_def)

lemma peek_left: "peek st = Some c \<Longrightarrow> 0 < left st"
  by (auto simp: peek_def split: list.splits)

lemma returns_syntax_error [simp]: "returns P (syntax_error st e)"
  by (simp add: syntax_error_def)

lemma returns_case_prod: "(\<And>a b. p = (a, b) \<Longrightarrow> returns P (f a b)) \<Longrightarrow> returns P (case p of (a, b) \<Rightarrow> f a b)"
  by (cases p) simp

lemma hex_digits_returns: "returns (\<lambda>(w, st'). left st' \<le> left st) (hex_digits k v st)"
proof (induction k arbitrary: v st)
  case (Suc k)
  have "returns (\<lambda>(w, st'). left st' \<le> left st) (hex_digits k w (advance 1 st))" for w
    by (rule returns_mono [OF Suc.IH]) auto
  then show ?case by (simp split: option.splits)
qed simp

lemma hex4_returns: "returns (\<lambda>(w, st'). left st' \<le> left st) (hex4 st)"
  by (simp add: hex4_def hex_digits_returns)

lemma push_code_valid: "utf8_valid out \<Longrightarrow> utf8_valid (push_code cp out)"
proof -
  have "scalar_value (if scalar_value cp then cp else 0xFFFD)" by (simp add: scalar_value_def)
  from utf8_encode_char [OF this] utf8_valid_concat [of "[utf8_encode (if scalar_value cp then cp else 0xFFFD)]"]
  show "utf8_valid out \<Longrightarrow> utf8_valid (push_code cp out)" by (simp add: push_code_def utf8_valid_append)
qed

lemma unicode_returns:
  assumes "utf8_valid out"
  shows "returns (\<lambda>(s, st'). left st' \<le> left st \<and> utf8_valid s) (unicode out st)"
  unfolding unicode_def
proof (rule returns_bind [OF hex4_returns], clarsimp, intro conjI impI)
  fix hi p and r :: string assume le: "length r \<le> left st"
  show "returns (\<lambda>(s, st'). left st' \<le> left st \<and> utf8_valid s) (run_bind (hex4 (advance 2 (p, r))) (\<lambda>(lo, st2).
      if 56320 \<le> lo \<longrightarrow> \<not> lo < 57344 then syntax_error st2 ''a low surrogate''
      else ok (push_code (65536 + (hi - 55296) * 1024 + (lo - 56320)) out, st2)))"
    by (rule returns_bind [OF hex4_returns]) (use le assms in \<open>auto simp: push_code_valid\<close>)
qed (use assms in \<open>auto simp: push_code_valid\<close>)

lemma simple_escape_small: "simple_escape c = Some d \<Longrightarrow> utf8_valid [d]"
  using utf8_valid_concat [of "[[d]]"]
  by (auto simp: simple_escape_def utf8_char_def utf8_first_def utf8_width_def split: if_splits)

lemma escape_returns:
  assumes "utf8_valid out"
  shows "returns (\<lambda>(s, st'). left st' < left st \<and> utf8_valid s) (escape out st)"
proof (cases "peek st")
  case (Some c)
  then obtain ds where "snd st = c # ds" by (auto simp: peek_def split: list.splits)
  then have "returns (\<lambda>(s, st'). left st' < left st \<and> utf8_valid s) (unicode out (advance 1 st))"
    by (intro returns_mono [OF unicode_returns [OF assms]]) auto
  with Some peek_left [OF Some] assms show ?thesis
    by (auto simp: escape_def utf8_valid_append simple_escape_small split: option.splits)
qed (simp add: escape_def)

lemma string_loop_returns:
  assumes "utf8_valid out"
  shows "returns (\<lambda>(s, st'). left st' < left st \<and> utf8_valid s) (string_loop out st)"
  using assms
proof (induction "left st" arbitrary: out st rule: less_induct)
  case less
  let ?part = "takeWhile plain (snd st)"
  let ?st1 = "advance (length ?part) st"
  show ?case
  proof (cases "utf8_error ?part 0")
    case (Some k)
    then show ?thesis by (subst string_loop.simps) (simp add: Let_def)
  next
    case None
    then have valid: "utf8_valid (out @ ?part)" using less.prems
      by (intro utf8_valid_append) (simp_all add: utf8_valid_def)
    have "returns (\<lambda>(s, st'). left st' < left st \<and> utf8_valid s)
        (run_bind (escape (out @ ?part) (advance 1 ?st1)) (\<lambda>p. string_loop (fst p) (snd p)))"
    proof (rule returns_bind [OF escape_returns [OF valid]], clarify)
      fix s p r assume "left (p, r) < left (advance 1 ?st1)" "utf8_valid s"
      then show "returns (\<lambda>(s, st'). left st' < left st \<and> utf8_valid s) (string_loop (fst (s, p, r)) (snd (s, p, r)))"
        by (intro returns_mono [OF less(1)]) auto
    qed
    moreover have "peek ?st1 = Some c \<Longrightarrow> left (advance 1 ?st1) < left st" for c using peek_left [of ?st1 c] by auto
    ultimately show ?thesis using None valid by (subst string_loop.simps) (simp add: Let_def case_prod_beta)
  qed
qed

lemma json_string_returns: "returns (\<lambda>(s, st'). left st' < left st \<and> utf8_valid s) (json_string st)"
  unfolding json_string_def by (rule returns_mono [OF string_loop_returns]) auto

lemma number_int_part_returns: "returns (\<lambda>st'. left st' \<le> left st) (number_int_part st)"
  by (auto simp: number_int_part_def skip_digits_def Let_def split: option.splits)

lemma number_frac_returns: "returns (\<lambda>(b, st'). left st' \<le> left st) (number_frac st)"
  by (auto simp: number_frac_def skip_digits_def Let_def split: prod.splits)

lemma number_exp_returns: "returns (\<lambda>(b, st'). left st' \<le> left st) (number_exp st)"
  by (auto simp: number_exp_def skip_digits_def Let_def split: prod.splits)

lemma parse_u64_ok: "parse_u64 s = Some v \<Longrightarrow> v \<le> u64_max"
  by (auto simp: parse_u64_def split: if_splits)

lemma parse_i64_ok: "parse_u64 s = None \<Longrightarrow> parse_i64 s = Some v \<Longrightarrow> i64_min \<le> v \<and> v \<le> 0"
proof (cases "\<exists>ds. s = CHR ''-'' # ds")
  case False
  assume v: "parse_u64 s = None" "parse_i64 s = Some v"
  have "parse_i64 s = (if s \<noteq> [] \<and> list_all is_digit s \<and> int (digits_val s) \<le> i64_max
      then Some (int (digits_val s)) else None)"
    using False unfolding parse_i64_def by (cases s) (auto split: char.splits bool.splits)
  with v show ?thesis by (auto simp: parse_u64_def i64_max_def u64_max_def split: if_splits)
qed (auto simp: parse_i64_def split: if_splits)

lemma number_value_returns: "returns number_ok (number_value fl start txt b)"
  using parse_i64_ok parse_u64_ok by (auto simp: number_value_def split: option.splits)

lemma json_number_returns: "returns (\<lambda>(n, st'). left st' \<le> left st \<and> number_ok n) (json_number fl st)"
proof -
  let ?st1 = "if peek st = Some (CHR ''-'') then advance 1 st else st"
  have st1: "left ?st1 \<le> left st" by simp
  show ?thesis unfolding json_number_def Let_def
    by (intro returns_bind [OF number_int_part_returns] returns_case_prod
        returns_bind [OF number_frac_returns] returns_bind [OF number_exp_returns]
        returns_bind [OF number_value_returns]) (use st1 in auto)
qed


section \<open>The descent\<close>

text \<open>What the loops over members ask of the parser one level down.\<close>

locale value_parser =
  fixes n :: nat and pv :: "cursor \<Rightarrow> (json \<times> cursor) run"
  assumes pv_returns: "returns (\<lambda>(v, st'). left st' \<le> left st \<and> json_ok n v) (pv st)"
begin

lemma array_loop_returns:
  assumes "list_all (json_ok n) arr"
  shows "returns (\<lambda>(v, st'). left st' \<le> left st \<and> json_ok (Suc n) v) (array_loop pv arr st)"
  using assms
proof (induction "left st" arbitrary: arr st rule: less_induct)
  case less
  show ?case unfolding array_loop.simps [of pv arr st]
  proof (rule returns_bind [OF pv_returns], clarify)
    fix v p and r :: string
    assume le: "left (p, r) \<le> left (skip_ws st)" and v: "json_ok n v"
    let ?st = "skip_ws (p, r)" and ?arr = "arr @ [v]"
    have ws: "left ?st \<le> left st" using le left_skip_ws [of st] left_skip_ws [of "(p, r)"] by linarith
    have rec: "returns (\<lambda>(v, st'). left st' \<le> left st \<and> json_ok (Suc n) v) (array_loop pv ?arr (advance 1 ?st))"
      if "peek ?st = Some c" for c
    proof -
      have lt: "left (advance 1 ?st) < left st" using ws peek_left [OF that] unfolding left_advance by linarith
      have "list_all (json_ok n) ?arr" using less.prems v by simp
      from less(1) [OF lt this] show ?thesis by (rule returns_mono) (use lt in auto)
    qed
    show "returns (\<lambda>(v, st'). left st' \<le> left st \<and> json_ok (Suc n) v)
        (let arr1 = arr @ [fst (v, p, r)]; st2 = skip_ws (snd (v, p, r)) in
         if peek st2 = Some (CHR '','') then array_loop pv arr1 (advance 1 st2)
         else if peek st2 = Some (CHR '']'') then ok (JArray arr1, advance 1 st2)
         else syntax_error st2 (quoted (CHR '','') @ '' or '' @ quoted (CHR '']'')))"
      using rec ws v less.prems by (auto simp: Let_def)
  qed
qed

lemma eat_returns: "returns (\<lambda>st'. left st' \<le> left st) (eat c e st)"
  by (simp add: eat_def)

lemma obj_get_None: "obj_get obj k = None \<longleftrightarrow> k \<notin> fst ` set obj"
  by (force simp: obj_get_def find_None_iff)

lemma object_loop_returns:
  assumes "json_ok (Suc n) (JObject obj)"
  shows "returns (\<lambda>(v, st'). left st' \<le> left st \<and> json_ok (Suc n) v) (object_loop pv obj st)"
  using assms
proof (induction "left st" arbitrary: obj st rule: less_induct)
  case less
  let ?Q = "\<lambda>(v, st'). left st' \<le> left st \<and> json_ok (Suc n) v"
  let ?st0 = "skip_ws st"
  have member: "returns ?Q
      (if obj_get obj k \<noteq> None then fails (DuplicateKey (name_new k))
       else run_bind (eat (CHR '':'') (quoted (CHR '':'')) (skip_ws st1)) (\<lambda>st2.
         run_bind (pv (skip_ws st2)) (\<lambda>q.
         let obj1 = obj @ [(k, fst q)]; st4 = skip_ws (snd q) in
         if peek st4 = Some (CHR '','') then object_loop pv obj1 (advance 1 st4)
         else if peek st4 = Some (CHR ''}'') then ok (JObject obj1, advance 1 st4)
         else syntax_error st4 (quoted (CHR '','') @ '' or '' @ quoted (CHR ''}'')))))"
    if st1: "left st1 < left ?st0" and k: "utf8_valid k" for k and st1 :: cursor
  proof (cases "obj_get obj k = None")
    case True
    have "returns ?Q (run_bind (eat (CHR '':'') (quoted (CHR '':'')) (skip_ws st1)) (\<lambda>st2.
         run_bind (pv (skip_ws st2)) (\<lambda>q.
         let obj1 = obj @ [(k, fst q)]; st4 = skip_ws (snd q) in
         if peek st4 = Some (CHR '','') then object_loop pv obj1 (advance 1 st4)
         else if peek st4 = Some (CHR ''}'') then ok (JObject obj1, advance 1 st4)
         else syntax_error st4 (quoted (CHR '','') @ '' or '' @ quoted (CHR ''}'')))))"
    proof (rule returns_bind [OF eat_returns], rule returns_bind [OF pv_returns], clarify)
      fix p2 p v and r2 r :: string
      assume "left (p2, r2) \<le> left (skip_ws st1)" "left (p, r) \<le> left (skip_ws (p2, r2))" and v: "json_ok n v"
      then have ws: "left (skip_ws (p, r)) < left st"
        using st1 left_skip_ws [of st] left_skip_ws [of st1] left_skip_ws [of "(p2, r2)"] left_skip_ws [of "(p, r)"] by linarith
      let ?obj = "obj @ [(k, v)]"
      have okobj: "json_ok (Suc n) (JObject ?obj)" using less.prems True v k by (auto simp: obj_get_None)
      have "returns ?Q (object_loop pv ?obj (advance 1 (skip_ws (p, r))))"
        using ws okobj by (intro returns_mono [OF less(1)]) auto
      then show "returns ?Q (let obj1 = obj @ [(k, fst (v, p, r))]; st4 = skip_ws (snd (v, p, r)) in
         if peek st4 = Some (CHR '','') then object_loop pv obj1 (advance 1 st4)
         else if peek st4 = Some (CHR ''}'') then ok (JObject obj1, advance 1 st4)
         else syntax_error st4 (quoted (CHR '','') @ '' or '' @ quoted (CHR ''}'')))"
        using ws okobj by (auto simp: Let_def case_prod_beta)
    qed
    with True show ?thesis by simp
  qed simp
  show ?case unfolding object_loop.simps [of pv obj st] Let_def [of "skip_ws st"]
  proof (cases "peek ?st0 = Some (CHR 0x22)")
    case True
    then have key: "\<not> peek ?st0 \<noteq> Some (CHR 0x22)" by simp
    show "returns ?Q (if peek ?st0 \<noteq> Some (CHR 0x22) then syntax_error ?st0 ''a string key''
      else run_bind (json_string ?st0) (\<lambda>p.
        if obj_get obj (fst p) \<noteq> None then fails (DuplicateKey (name_new (fst p)))
        else run_bind (eat (CHR '':'') (quoted (CHR '':'')) (skip_ws (snd p))) (\<lambda>st2.
          run_bind (pv (skip_ws st2)) (\<lambda>q.
          let obj1 = obj @ [(fst p, fst q)]; st4 = skip_ws (snd q) in
          if peek st4 = Some (CHR '','') then object_loop pv obj1 (advance 1 st4)
          else if peek st4 = Some (CHR ''}'') then ok (JObject obj1, advance 1 st4)
          else syntax_error st4 (quoted (CHR '','') @ '' or '' @ quoted (CHR ''}''))))))"
      unfolding if_not_P [OF key]
      by (rule returns_bind [OF json_string_returns], rule member) auto
  qed simp
qed

end


lemma json_value_parser: "value_parser n (json_value fl n)"
proof (induction n)
  case 0
  show ?case by unfold_locales simp
next
  case (Suc n)
  let ?Q = "\<lambda>st (v, st'). left st' \<le> left st \<and> json_ok (Suc n) v"
  have arr: "returns (?Q st) (json_array (json_value fl n) st)" for st
  proof -
    let ?st = "skip_ws (advance 1 st)"
    have le: "left ?st \<le> left st" using left_skip_ws [of "advance 1 st"] by simp
    have "returns (?Q st) (array_loop (json_value fl n) [] ?st)"
      by (rule returns_mono [OF value_parser.array_loop_returns [OF Suc]]) (use le in auto)
    then show ?thesis using le by (auto simp: json_array_def Let_def)
  qed
  have obj: "returns (?Q st) (json_object (json_value fl n) st)" for st
  proof -
    let ?st = "skip_ws (advance 1 st)"
    have le: "left ?st \<le> left st" using left_skip_ws [of "advance 1 st"] by simp
    have "returns (?Q st) (object_loop (json_value fl n) [] ?st)"
      by (rule returns_mono [OF value_parser.object_loop_returns [OF Suc]]) (use le in auto)
    then show ?thesis using le by (auto simp: json_object_def Let_def)
  qed
  have str: "returns (?Q st) (run_bind (json_string st) (\<lambda>(s, st1). ok (JString s, st1)))" for st
    by (rule returns_bind [OF json_string_returns]) auto
  have num: "returns (?Q st) (run_bind (json_number fl st) (\<lambda>(m, st1). ok (JNumber m, st1)))" for st
    by (rule returns_bind [OF json_number_returns]) auto
  have lit: "json_ok (Suc n) v \<Longrightarrow> returns (?Q st) (literal w v st)" for w v st
    by (simp add: literal_def)
  show ?case by unfold_locales (auto simp: arr obj str num lit split: option.splits)
qed

interpretation jv: value_parser n "json_value fl n" for n fl
  by (rule json_value_parser)

lemma json_parse_returns: "returns (json_ok MAX_DEPTH) (json_parse fl s)"
proof -
  have "returns (json_ok MAX_DEPTH) (run_bind (json_value fl MAX_DEPTH (skip_ws (0, s))) (\<lambda>(v, st).
      let st1 = skip_ws st in if snd st1 \<noteq> [] then fails (Trailing (fst st1)) else ok v))"
    by (rule returns_bind [OF jv.pv_returns]) (auto simp: Let_def)
  then show ?thesis by (simp add: json_parse_def parse_with_limit_def)
qed

text \<open>
  C25. The parser returns on every input, however it is formed: it gives a value or one of its
  errors, never a loop that goes on.
\<close>

theorem json_parse_terminates: "\<exists>r. json_parse fl s = Some r"
  using returnsD [OF json_parse_returns] by blast

text \<open>
  What the parser accepts is well typed: every text in it is UTF-8, an integer fits its 64
  bits, no object has a key twice, and nothing is nested deeper than 32 levels.
\<close>

theorem json_parse_typed:
  assumes "json_parse fl s = ok v"
  shows "json_ok MAX_DEPTH v"
  using returns_ok [OF json_parse_returns assms] .

definition plain_floats :: float_text where
  "plain_floats = \<lparr>ft_parse = (\<lambda>_. None), ft_show = (\<lambda>_. []), ft_of_int = (\<lambda>_. F64 0)\<rparr>"

theorem json_parse_typed_witness:
  "json_parse plain_floats ''[{\"a\":-7}]'' = ok (JArray [JObject [(''a'', JNumber (NInt (-7)))]]) \<and>
   json_ok MAX_DEPTH (JArray [JObject [(''a'', JNumber (NInt (-7)))]])"
proof -
  have p: "json_parse plain_floats ''[{\"a\":-7}]'' = ok (JArray [JObject [(''a'', JNumber (NInt (-7)))]])"
    by code_simp
  from p json_parse_typed [OF p] show ?thesis by simp
qed

end
