(* ===== verification/Json_Roundtrip.thy ===== *)
theory Json_Roundtrip
  imports Json_Typing
begin

text \<open>
  What the writer of \<open>Json\<close> writes, its parser reads back as the same value, for values without
  floating-point numbers (one without a fraction is written as an integer and comes back as one).
\<close>

section \<open>Characters\<close>

lemma utf8_char_cases:
  assumes "utf8_char c"
  obtains (one) a where "c = [a]" "byte a < 0x80"
  | (two) a b where "c = [a, b]" "0xC2 \<le> byte a" "byte a \<le> 0xDF" "between 0x80 0xBF b"
  | (three) a b d where "c = [a, b, d]" "0xE0 \<le> byte a" "byte a \<le> 0xEF" "utf8_second (byte a) b" "between 0x80 0xBF b" "between 0x80 0xBF d"
  | (four) a b d e where "c = [a, b, d, e]" "0xF0 \<le> byte a" "byte a \<le> 0xF4" "utf8_second (byte a) b" "between 0x80 0xBF b"
      "between 0x80 0xBF d" "between 0x80 0xBF e"
proof -
  obtain a r where c: "c = a # r" using assms by (cases c) (auto simp: utf8_char_def)
  define n where "n = utf8_width (byte a)"
  have w: "n = length c" "1 < n \<longrightarrow> utf8_second (byte a) (hd r) \<and> list_all (between 0x80 0xBF) (take (n - 1) r)"
    using assms c unfolding utf8_char_def utf8_first_def n_def by (auto simp: Let_def split: if_splits)
  then have r: "length r = n - 1" "take (n - 1) r = r" using c by auto
  have "n \<in> {1, 2, 3, 4}" using w c by (auto simp: n_def utf8_width_def split: if_splits)
  then consider "n = 1" | "n = 2" | "n = 3" | "n = 4" by blast
  then show thesis
  proof cases
    case 1
    then show thesis using one [of a] c r by (auto simp: n_def utf8_width_def split: if_splits)
  next
    case 2
    then obtain b where "r = [b]" using r by (auto simp: length_Suc_conv)
    then show thesis using two [of a b] c w 2 by (auto simp: n_def utf8_width_def split: if_splits)
  next
    case 3
    then obtain b d where "r = [b, d]" using r by (auto simp: length_Suc_conv eval_nat_numeral)
    then show thesis using three [of a b d] c w 3 by (auto simp: n_def utf8_width_def split: if_splits)
  next
    case 4
    then obtain b d e where "r = [b, d, e]" using r by (auto simp: length_Suc_conv eval_nat_numeral)
    then show thesis using four [of a b d e] c w 4 by (auto simp: n_def utf8_width_def split: if_splits)
  qed
qed

lemma byte_mod:
  "0xC0 \<le> x \<Longrightarrow> x \<le> 0xDF \<Longrightarrow> x mod 32 = x - 0xC0"
  "0xE0 \<le> x \<Longrightarrow> x \<le> 0xEF \<Longrightarrow> x mod 16 = x - 0xE0"
  "0xF0 \<le> x \<Longrightarrow> x \<le> 0xF7 \<Longrightarrow> x mod 8 = x - 0xF0"
  "0x80 \<le> x \<Longrightarrow> x \<le> 0xBF \<Longrightarrow> x mod 64 = x - (0x80::nat)"
  by (simp_all add: mod_if le_mod_geq)

lemma split64: "n = 64 * q + z \<Longrightarrow> z < 64 \<Longrightarrow> n div 64 = q \<and> n mod 64 = (z::nat)"
  by simp

lemma utf8_encode_decode:
  assumes "utf8_char c"
  shows "utf8_encode (utf8_decode c) = c \<and> scalar_value (utf8_decode c)"
  using assms
proof (cases rule: utf8_char_cases)
  case (one a)
  then show ?thesis by (simp add: utf8_decode_def utf8_encode_def scalar_value_def)
next
  case (two a b)
  define x where "x = byte a - 0xC0"
  define y where "y = byte b - 0x80"
  have xy: "byte a = 0xC0 + x" "byte b = 0x80 + y" "2 \<le> x" "x < 32" "y < 64"
    using two by (auto simp: x_def y_def between_def)
  then have d: "utf8_decode c = x * 64 + y" by (simp add: two(1) utf8_decode_def byte_mod)
  have "(x * 64 + y) div 64 = x" "(x * 64 + y) mod 64 = y" using xy by simp_all
  moreover have "0x80 \<le> x * 64 + y" "x * 64 + y < 0x800" using xy by simp_all
  ultimately have "utf8_encode (x * 64 + y) = [char_of (byte a), char_of (byte b)]" using xy by (simp add: utf8_encode_def)
  with d two(1) \<open>x * 64 + y < 0x800\<close> show ?thesis by (simp add: scalar_value_def)
next
  case (three a b e)
  define x where "x = byte a - 0xE0"
  define y where "y = byte b - 0x80"
  define z where "z = byte e - 0x80"
  have xyz: "byte a = 0xE0 + x" "byte b = 0x80 + y" "byte e = 0x80 + z" "x < 16" "y < 64" "z < 64"
    using three by (auto simp: x_def y_def z_def between_def)
  have sec: "x = 0 \<Longrightarrow> 32 \<le> y" "x = 13 \<Longrightarrow> y < 32" using three(4) xyz by (auto simp: utf8_second_def between_def)
  let ?cp = "x * 4096 + y * 64 + z"
  have d: "utf8_decode c = ?cp" using xyz by (simp add: three(1) utf8_decode_def byte_mod)
  have parts: "?cp div 4096 = x" "?cp div 64 mod 64 = y" "?cp mod 64 = z"
  proof -
    have q: "?cp div 64 = x * 64 + y" "?cp mod 64 = z" using split64 [of ?cp "x * 64 + y" z] xyz(6) by auto
    moreover have "?cp div 4096 = ?cp div 64 div 64" by (simp add: div_mult2_eq [symmetric])
    ultimately show "?cp div 4096 = x" "?cp div 64 mod 64 = y" "?cp mod 64 = z" using xyz(5) by simp_all
  qed
  have "0x800 \<le> ?cp" using sec(1) by (cases "x = 0") auto
  moreover have "?cp < 0x10000" using xyz by simp
  moreover have "scalar_value ?cp"
    using sec(2) xyz(4-6) by (cases "x \<le> 12"; cases "x = 13") (auto simp: scalar_value_def)
  ultimately have "utf8_encode ?cp = [char_of (byte a), char_of (byte b), char_of (byte e)]"
    using xyz parts by (simp add: utf8_encode_def)
  with d three(1) \<open>scalar_value ?cp\<close> show ?thesis by simp
next
  case (four a b e f)
  define x where "x = byte a - 0xF0"
  define y where "y = byte b - 0x80"
  define z where "z = byte e - 0x80"
  define u where "u = byte f - 0x80"
  have xyz: "byte a = 0xF0 + x" "byte b = 0x80 + y" "byte e = 0x80 + z" "byte f = 0x80 + u" "x < 5" "y < 64" "z < 64" "u < 64"
    using four by (auto simp: x_def y_def z_def u_def between_def)
  have sec: "x = 0 \<Longrightarrow> 16 \<le> y" "x = 4 \<Longrightarrow> y < 16" using four(4) xyz by (auto simp: utf8_second_def between_def)
  let ?cp = "x * 262144 + y * 4096 + z * 64 + u"
  have d: "utf8_decode c = ?cp" using xyz by (simp add: four(1) utf8_decode_def byte_mod)
  have parts: "?cp div 262144 = x" "?cp div 4096 mod 64 = y" "?cp div 64 mod 64 = z" "?cp mod 64 = u"
  proof -
    have q: "?cp div 64 = x * 4096 + y * 64 + z" "?cp mod 64 = u"
      using split64 [of ?cp "x * 4096 + y * 64 + z" u] xyz(8) by auto
    have q2: "(x * 4096 + y * 64 + z) div 64 = x * 64 + y" "(x * 4096 + y * 64 + z) mod 64 = z"
      using split64 [of "x * 4096 + y * 64 + z" "x * 64 + y" z] xyz(7) by auto
    have "?cp div 4096 = ?cp div 64 div 64" "?cp div 262144 = ?cp div 4096 div 64" by (simp_all add: div_mult2_eq [symmetric])
    with q q2 xyz(6) show "?cp div 262144 = x" "?cp div 4096 mod 64 = y" "?cp div 64 mod 64 = z" "?cp mod 64 = u" by simp_all
  qed
  have "0x10000 \<le> ?cp" using sec(1) by (cases "x = 0") auto
  moreover have "?cp < 0x110000" using sec(2) xyz by (cases "x = 4") auto
  ultimately have "utf8_encode ?cp = [char_of (byte a), char_of (byte b), char_of (byte e), char_of (byte f)]"
    using xyz parts by (simp add: utf8_encode_def)
  with d four(1) \<open>0x10000 \<le> ?cp\<close> \<open>?cp < 0x110000\<close> show ?thesis by (simp add: scalar_value_def)
qed

section \<open>Texts\<close>

lemma utf8_char_high:
  assumes "utf8_char c" "1 < length c" "b \<in> set c"
  shows "0x80 \<le> byte b"
  using assms(1) by (cases rule: utf8_char_cases) (use assms(2,3) in \<open>auto simp: between_def\<close>)

lemma string_loop_char:
  assumes "utf8_char c" "list_all plain c"
  shows "string_loop out (p, c @ r) = string_loop (out @ c) (p + length c, r)"
proof -
  have tw: "takeWhile plain (c @ r) = c @ takeWhile plain r" using assms(2) by (induction c) auto
  have err: "utf8_error (c @ takeWhile plain r) 0 = map_option (\<lambda>k. k + length c) (utf8_error (takeWhile plain r) 0)"
    using utf8_error_char [OF assms(1)] utf8_error_shift [of _ 0 "length c"] by simp
  have adv: "advance (length c + n) (p, c @ r) = advance n (p + length c, r)" for n by (simp add: advance_def)
  show ?thesis
    by (subst (1 2) string_loop.simps)
      (simp add: tw err adv Let_def algebra_simps split: option.splits del: string_loop.simps)
qed

lemma not_plain [simp]: "\<not> plain (CHR 0x5C)" "\<not> plain (CHR 0x22)"
  by (simp_all add: plain_def)

lemma string_loop_escape:
  "string_loop out (p, CHR 0x5C # r) =
     run_bind (escape out (p + 1, r)) (\<lambda>q. string_loop (fst q) (snd q))"
  by (subst string_loop.simps) (simp add: advance_def peek_def)

lemma string_loop_quote: "string_loop out (p, CHR 0x22 # r) = ok (out, p + 1, r)"
  by (subst string_loop.simps) (simp add: advance_def peek_def)

lemma hex_val_char: "d < 16 \<Longrightarrow> hex_val (hex_char d) = Some d"
  by (auto simp: hex_val_def hex_char_def between_def)

lemma hex_digits_char:
  "d < 16 \<Longrightarrow> hex_digits (Suc k) v (p, hex_char d # r) = hex_digits k (v * 16 + d) (p + 1, r)"
  by (simp add: peek_def advance_def hex_val_char)

lemma hex4_hex4_text:
  assumes "n < 65536"
  shows "hex4 (p, hex4_text n @ r) = ok (n, p + 4, r)"
proof -
  have m16: "k mod 16 < (16::nat)" for k by simp
  have h: "n div 4096 < 16" using assms by (simp add: div_less_iff_less_mult)
  then have h16: "n div 4096 mod 16 = n div 4096" by simp
  have "((n div 4096 * 16 + n div 256 mod 16) * 16 + n div 16 mod 16) * 16 + n mod 16 = n"
  proof -
    have d: "n div 4096 = n div 256 div 16" "n div 256 = n div 16 div 16" by (simp_all add: div_mult2_eq [symmetric])
    show ?thesis by (simp only: d(1) div_mult_mod_eq) (simp only: d(2) div_mult_mod_eq)
  qed
  moreover have four: "(4::nat) = Suc (Suc (Suc (Suc 0)))" by simp
  ultimately show ?thesis
    unfolding hex4_def hex4_text_def four h16 using h by (simp add: hex_digits_char m16 del: hex_digits.simps(2))
qed

lemma escape_simple:
  "simple_escape x = Some d \<Longrightarrow> x \<noteq> CHR ''u'' \<Longrightarrow> escape out (p, x # r) = ok (out @ [d], p + 1, r)"
  by (simp add: escape_def peek_def advance_def)

lemma simple_escapes:
  "simple_escape (CHR 0x22) = Some (CHR 0x22)" "simple_escape (CHR 0x5C) = Some (CHR 0x5C)"
  "simple_escape (CHR ''n'') = Some (CHR 0x0A)" "simple_escape (CHR ''r'') = Some (CHR 0x0D)"
  "simple_escape (CHR ''t'') = Some (CHR 0x09)"
  by code_simp+

lemma escape_short:
  assumes "short_escape c = Some e"
  shows "\<exists>x. e = [CHR 0x5C, x] \<and> escape out (p, x # r) = ok (out @ c, p + 1, r)"
proof -
  have esc: "escape out (p, x # r) = ok (out @ [d], p + 1, r)" if "simple_escape x = Some d" "x \<noteq> CHR ''u''" for x d
    using that by (rule escape_simple)
  consider "c = [CHR 0x22]" "e = [CHR 0x5C, CHR 0x22]" | "c = [CHR 0x5C]" "e = [CHR 0x5C, CHR 0x5C]"
    | "c = [CHR 0x0A]" "e = [CHR 0x5C, CHR ''n'']" | "c = [CHR 0x0D]" "e = [CHR 0x5C, CHR ''r'']"
    | "c = [CHR 0x09]" "e = [CHR 0x5C, CHR ''t'']"
    using assms unfolding short_escape_def by (metis option.inject option.distinct(1))
  then show ?thesis
    by cases (intro exI conjI, assumption, simp only:, rule esc, rule simple_escapes, simp)+
qed

lemma string_loop_char_text:
  assumes "utf8_char c"
  shows "string_loop out (p, char_text c @ r) = string_loop (out @ c) (p + length (char_text c), r)"
proof (cases "short_escape c")
  case (Some e)
  then obtain x where "e = [CHR 0x5C, x]" "escape out (p + 1, x # r) = ok (out @ c, p + 1 + 1, r)"
    using escape_short by metis
  with Some show ?thesis by (simp add: char_text_def string_loop_escape)
next
  case None
  show ?thesis
  proof (cases "needs_hex c")
    case True
    define cp where "cp = utf8_decode c"
    have cp: "cp < 0xD800" using True by (auto simp: needs_hex_def cp_def Let_def)
    have "push_code cp out = out @ c" using utf8_encode_decode [OF assms] by (simp add: push_code_def cp_def)
    then have "escape out (p + 1, CHR ''u'' # hex4_text cp @ r) = ok (out @ c, p + 6, r)"
      using cp hex4_hex4_text [of cp "p + 2" r]
      by (simp add: escape_def unicode_def peek_def advance_def)
    moreover have "length (hex4_text cp) = 4" by (simp add: hex4_text_def)
    ultimately show ?thesis using None True by (simp add: char_text_def string_loop_escape cp_def [symmetric])
  next
    case False
    have "list_all plain c"
    proof (cases "length c = 1")
      case True
      then obtain a where a: "c = [a]" by (auto simp: length_Suc_conv)
      then have "0x20 \<le> byte a" using False by (auto simp: needs_hex_def utf8_decode_def Let_def)
      with a None show ?thesis by (auto simp: plain_def short_escape_def split: if_splits)
    next
      case False
      have "1 < length c" using False assms by (cases c) (auto simp: utf8_char_def)
      have "plain b" if "b \<in> set c" for b
        using utf8_char_high [OF assms \<open>1 < length c\<close> that] by (auto simp: plain_def)
      then show ?thesis by (simp add: list_all_iff)
    qed
    with None False show ?thesis using string_loop_char [OF assms] by (simp add: char_text_def)
  qed
qed

lemma string_loop_chars:
  "list_all utf8_char cs \<Longrightarrow> string_loop out (p, concat (map char_text cs) @ CHR 0x22 # r) =
     ok (out @ concat cs, p + length (concat (map char_text cs)) + 1, r)"
proof (induction cs arbitrary: out p)
  case (Cons c cs)
  then show ?case by (simp add: string_loop_char_text algebra_simps)
qed (simp add: string_loop_quote)

lemma json_string_write:
  assumes "utf8_valid s"
  shows "json_string (p, write_string s @ r) = ok (s, p + length (write_string s), r)"
  using string_loop_chars [of "utf8_chars s" "[]" "p + 1" r] utf8_valid_split [OF assms]
  by (simp add: json_string_def write_string_def advance_def)

section \<open>Numbers\<close>

text \<open>What may follow a value in a document: the end, a comma or a closing bracket.\<close>

definition value_end :: "string \<Rightarrow> bool" where
  "value_end r \<longleftrightarrow> r = [] \<or> hd r \<in> {CHR '','', CHR '']'', CHR ''}''}"

lemma value_end_peek:
  assumes "value_end r"
  shows "peek (p, r) \<noteq> Some (CHR ''.'')" "peek (p, r) \<noteq> Some (CHR ''e'')" "peek (p, r) \<noteq> Some (CHR ''E'')"
    "takeWhile is_digit r = []" "takeWhile is_ws r = []"
  using assms by (cases r; auto simp: value_end_def peek_def is_digit_def is_ws_def)+

lemma skip_ws_id: "takeWhile is_ws r = [] \<Longrightarrow> skip_ws (p, r) = (p, r)"
  by (simp add: skip_ws_def advance_def)

lemma number_int_part_nat:
  assumes "value_end r"
  shows "number_int_part (p, nat_text n @ r) = ok (p + length (nat_text n), r)"
proof (cases "n = 0")
  case True
  then show ?thesis by (simp add: number_int_part_def peek_def advance_def)
next
  case False
  obtain c cs where c: "nat_text n = c # cs" by (cases "nat_text n") auto
  have "is_digit c" using nat_text_digits [of n] by (simp add: c)
  moreover have "c \<noteq> CHR ''0''" using nat_text_hd [OF False] by (simp add: c)
  moreover have "byte c \<noteq> 48"
  proof
    assume "byte c = 48"
    then have "byte c = byte (CHR ''0'')" by simp
    with \<open>c \<noteq> CHR ''0''\<close> show False by (simp only: of_char_eq_iff)
  qed
  ultimately have "between 49 57 c" by (auto simp: is_digit_def between_def)
  moreover have "takeWhile is_digit (nat_text n @ r) = nat_text n"
    using takeWhile_digits [OF nat_text_digits] value_end_peek(4) [OF assms] by simp
  ultimately show ?thesis using \<open>c \<noteq> CHR ''0''\<close>
    by (simp add: number_int_part_def peek_def skip_digits_def Let_def advance_def c)
qed

lemma number_tail:
  assumes "value_end r"
  shows "number_frac (p, r) = ok (False, p, r)" "number_exp (p, r) = ok (False, p, r)"
  using value_end_peek [OF assms] by (simp_all add: number_frac_def number_exp_def)

lemma json_number_uint:
  assumes "n \<le> u64_max" "value_end r"
  shows "json_number fl (p, nat_text n @ r) = ok (NUint n, p + length (nat_text n), r)"
proof -
  have "peek (p, nat_text n @ r) \<noteq> Some (CHR ''-'')"
    using nat_text_digits [of n] by (cases "nat_text n") (auto simp: peek_def is_digit_def)
  then show ?thesis using assms
    by (simp add: json_number_def number_int_part_nat number_tail number_value_def parse_u64_def)
qed

lemma json_number_int:
  assumes "i64_min \<le> v" "v < 0" "value_end r"
  shows "json_number fl (p, int_text v @ r) = ok (NInt v, p + length (int_text v), r)"
proof -
  let ?d = "nat_text (nat (- v))"
  have t: "int_text v = CHR ''-'' # ?d" using assms(2) by (simp add: int_text_def)
  have "parse_u64 (CHR ''-'' # ?d) = None" by (simp add: parse_u64_def is_digit_def)
  moreover have "parse_i64 (CHR ''-'' # ?d) = Some v" using assms by (simp add: parse_i64_def)
  ultimately show ?thesis using number_int_part_nat [OF assms(3), of "p + 1" "nat (- v)"]
    by (simp add: json_number_def t peek_def advance_def number_tail [OF assms(3)] number_value_def)
qed


section \<open>Values\<close>

text \<open>Integers in the form the writer keeps: a number that is not negative is unsigned.\<close>

fun number_wf :: "number \<Rightarrow> bool" where
  "number_wf (NInt v) \<longleftrightarrow> i64_min \<le> v \<and> v < 0"
| "number_wf (NUint v) \<longleftrightarrow> v \<le> u64_max"
| "number_wf (NFloat _) \<longleftrightarrow> False"

abbreviation json_wf :: "nat \<Rightarrow> json \<Rightarrow> bool" where
  "json_wf \<equiv> json_typed number_wf"

lemma sum_append_Inr [simp]: "sum_append (Inr s) (Inr t) = Inr (s @ t)"
  by (simp add: sum_append_def)

lemma sum_append_eq_Inr: "sum_append a b = Inr u \<longleftrightarrow> (\<exists>s t. a = Inr s \<and> b = Inr t \<and> u = s @ t)"
  by (auto simp: sum_append_def split: sum.splits)

text \<open>The first byte of a value is none of the bytes the loops look for.\<close>

lemma json_write_hd:
  assumes "json_wf n v" "json_write fl v = Inr s"
  shows "\<exists>c cs. s = c # cs \<and> \<not> is_ws c \<and> c \<noteq> CHR '']'' \<and> c \<noteq> CHR ''}''"
proof -
  have num: "\<exists>c cs. nat_text k = c # cs \<and> \<not> is_ws c \<and> c \<noteq> CHR '']'' \<and> c \<noteq> CHR ''}''" for k
    using nat_text_digits [of k] by (cases "nat_text k") (auto simp: is_digit_def is_ws_def)
  show ?thesis
  proof (cases v)
    case (JNumber x)
    with assms num show ?thesis by (cases n; cases x) (auto simp: write_number_def int_text_def is_ws_def)
  next
    case (JString t)
    with assms show ?thesis by (auto simp: write_string_def is_ws_def)
  qed (use assms in \<open>auto simp: sum_append_eq_Inr is_ws_def\<close>)
qed

lemma json_write_wf:
  "json_wf n v \<Longrightarrow> \<exists>s. json_write fl v = Inr s"
  "list_all (json_wf n) vs \<Longrightarrow> \<exists>s. write_items fl b vs = Inr s"
  "list_all (\<lambda>(k, v). utf8_valid k \<and> json_wf n v) ps \<Longrightarrow> \<exists>s. write_fields fl b ps = Inr s"
proof (induction fl v and fl b vs and fl b ps arbitrary: n and n and n rule: json_write_write_items_write_fields.induct)
  case (3 fl x)
  then show ?case by (cases n; cases x) (auto simp: write_number_def)
next
  case (5 fl a)
  then obtain m where "list_all (json_wf m) a" by (cases n) auto
  from "5.IH" [OF this] show ?case by auto
next
  case (6 fl o1)
  then obtain m where "list_all (\<lambda>(k, v). utf8_valid k \<and> json_wf m v) o1" by (cases n) auto
  from "6.IH" [OF this] show ?case by auto
next
  case (8 fl b v vs)
  then obtain s t where "json_write fl v = Inr s" "write_items fl False vs = Inr t" by fastforce
  then show ?case by simp
next
  case (10 fl b k v ps)
  then obtain s t where "json_write fl v = Inr s" "write_fields fl False ps = Inr t" by fastforce
  then show ?case by simp
qed auto

text \<open>What the loops over members ask of the parser one level down.\<close>

locale value_reader =
  fixes fl :: float_text and n :: nat and pv :: "cursor \<Rightarrow> (json \<times> cursor) run"
  assumes pv_reads: "json_wf n v \<Longrightarrow> json_write fl v = Inr s \<Longrightarrow> value_end r \<Longrightarrow>
    pv (p, s @ r) = ok (v, p + length s, r)"
begin

lemma pv_reads_ws:
  assumes "json_wf n v" "json_write fl v = Inr s" "value_end r"
  shows "pv (skip_ws (p, s @ r)) = ok (v, p + length s, r)"
proof -
  have "takeWhile is_ws (s @ r) = []" using json_write_hd [OF assms(1,2)] by auto
  then show ?thesis by (simp add: skip_ws_id pv_reads [OF assms])
qed

lemma array_loop_reads:
  assumes "list_all (json_wf n) vs" "vs \<noteq> []" "write_items fl True vs = Inr s"
  shows "array_loop pv arr (p, s @ CHR '']'' # r) = ok (JArray (arr @ vs), p + length s + 1, r)"
  using assms
proof (induction vs arbitrary: arr p s)
  case (Cons v vs)
  obtain t u where s: "s = t @ u" "json_write fl v = Inr t" "write_items fl False vs = Inr u"
    using Cons.prems(3) by (auto simp: sum_append_eq_Inr)
  have v: "json_wf n v" using Cons.prems(1) by simp
  show ?case
  proof (cases vs)
    case Nil
    then have "u = []" using s(3) by simp
    then show ?thesis using Nil s pv_reads_ws [OF v s(2), of "CHR '']'' # r" p]
      by (subst array_loop.simps) (simp add: value_end_def skip_ws_id is_ws_def peek_def advance_def)
  next
    case (Cons w ws)
    then obtain u' where u': "u = CHR '','' # u'" "write_items fl True vs = Inr u'"
      using s(3) by (auto simp: sum_append_eq_Inr)
    have "array_loop pv (arr @ [v]) (p + length t + 1, u' @ CHR '']'' # r) =
        ok (JArray ((arr @ [v]) @ vs), p + length t + 1 + length u' + 1, r)"
      using Cons.IH [of u'] Cons Cons.prems u' by auto
    then show ?thesis using s u' pv_reads_ws [OF v s(2), of "u @ CHR '']'' # r" p]
      by (subst array_loop.simps) (simp add: value_end_def skip_ws_id is_ws_def peek_def advance_def)
  qed
qed simp

lemma object_loop_reads:
  assumes "list_all (\<lambda>(k, v). utf8_valid k \<and> json_wf n v) ps" "distinct (map fst (obj @ ps))" "ps \<noteq> []"
    "write_fields fl True ps = Inr s"
  shows "object_loop pv obj (p, s @ CHR ''}'' # r) = ok (JObject (obj @ ps), p + length s + 1, r)"
  using assms
proof (induction ps arbitrary: obj p s)
  case (Cons kv ps)
  obtain k v where kv: "kv = (k, v)" by fastforce
  obtain t u where s: "s = write_string k @ CHR '':'' # t @ u" "json_write fl v = Inr t" "write_fields fl False ps = Inr u"
    using Cons.prems(4) by (auto simp: kv sum_append_eq_Inr)
  have k: "utf8_valid k" "obj_get obj k = None" and v: "json_wf n v"
    using Cons.prems(1,2) by (auto simp: kv obj_get_def find_None_iff) force
  have key: "skip_ws (p, s @ CHR ''}'' # r) = (p, s @ CHR ''}'' # r)" "peek (p, s @ CHR ''}'' # r) = Some (CHR 0x22)"
    by (auto simp: s(1) write_string_def is_ws_def peek_def intro!: skip_ws_id)
  have str: "json_string (p, s @ CHR ''}'' # r) = ok (k, p + length (write_string k), CHR '':'' # t @ u @ CHR ''}'' # r)"
    using json_string_write [OF k(1), of p "CHR '':'' # t @ u @ CHR ''}'' # r"] by (simp add: s(1))
  let ?q = "p + length (write_string k)"
  have colon: "eat (CHR '':'') (quoted (CHR '':'')) (skip_ws (?q, CHR '':'' # t @ u @ CHR ''}'' # r)) =
      ok (?q + 1, t @ u @ CHR ''}'' # r)"
    by (simp add: skip_ws_id is_ws_def eat_def peek_def advance_def)
  show ?case
  proof (cases ps)
    case Nil
    then have "u = []" using s(3) by simp
    then show ?thesis using Nil s kv k key str colon pv_reads_ws [OF v s(2), of "CHR ''}'' # r" "?q + 1"]
      by (subst object_loop.simps) (simp add: Let_def value_end_def skip_ws_id is_ws_def peek_def advance_def)
  next
    case (Cons w ws)
    then obtain u' where u': "u = CHR '','' # u'" "write_fields fl True ps = Inr u'"
      using s(3) by (cases w) (auto simp: sum_append_eq_Inr)
    have "object_loop pv (obj @ [(k, v)]) (?q + 1 + length t + 1, u' @ CHR ''}'' # r) =
        ok (JObject ((obj @ [(k, v)]) @ ps), ?q + 1 + length t + 1 + length u' + 1, r)"
      using Cons Cons.prems u' by (intro Cons.IH) (auto simp: kv)
    then show ?thesis using s kv k key str colon u' pv_reads_ws [OF v s(2), of "u @ CHR ''}'' # r" "?q + 1"]
      by (subst object_loop.simps) (simp add: Let_def value_end_def skip_ws_id is_ws_def peek_def advance_def)
  qed
qed simp

end

lemma skip_ws_close: "skip_ws (p, CHR '']'' # r) = (p, CHR '']'' # r)" "skip_ws (p, CHR ''}'' # r) = (p, CHR ''}'' # r)"
  by (simp_all add: skip_ws_id is_ws_def)

lemma write_fields_hd: "write_fields fl True (x # xs) = Inr s \<Longrightarrow> \<exists>cs. s = CHR 0x22 # cs"
  by (cases x) (auto simp: sum_append_eq_Inr write_string_def)

lemma json_value_reader: "value_reader fl n (json_value fl n)"
proof (induction n)
  case 0
  show ?case by unfold_locales simp
next
  case (Suc n)
  show ?case
  proof (unfold_locales, goal_cases)
    case (1 v s r p)
    then show ?case
    proof (cases v)
      case (JNumber x)
      obtain c cs where c: "s = c # cs" "c = CHR ''-'' \<or> is_digit c" and
        num: "json_number fl (p, s @ r) = ok (x, p + length s, r)"
      proof (cases x)
        case (NInt i)
        then have s: "s = int_text i" "i64_min \<le> i" "i < 0" using 1(1,2) JNumber by (simp_all add: write_number_def)
        from that [of "CHR ''-''"] s(1,3) json_number_int [OF s(2,3) 1(3)] NInt show ?thesis by (simp add: int_text_def)
      next
        case (NUint k)
        then have s: "s = nat_text k" "k \<le> u64_max" using 1(1,2) JNumber by (simp_all add: write_number_def)
        obtain c cs where "nat_text k = c # cs" "is_digit c" using nat_text_digits [of k] by (cases "nat_text k") auto
        from that [of c cs] s(1) this json_number_uint [OF s(2) 1(3)] NUint show ?thesis by simp
      qed (use 1 JNumber in simp)
      have "c \<noteq> CHR ''{'' \<and> c \<noteq> CHR ''['' \<and> c \<noteq> CHR 0x22 \<and> c \<noteq> CHR ''t'' \<and> c \<noteq> CHR ''f'' \<and> c \<noteq> CHR ''n''"
        using c(2) by (auto simp: is_digit_def)
      with c num JNumber show ?thesis by (auto simp: peek_def)
    next
      case (JString t)
      then have "s = write_string t" "utf8_valid t" using 1 by auto
      then show ?thesis using JString json_string_write [of t p r] by (simp add: peek_def write_string_def)
    next
      case (JArray a)
      then obtain t where t: "s = CHR ''['' # t @ '']''" "write_items fl True a = Inr t" using 1 by (auto simp: sum_append_eq_Inr)
      have wf: "list_all (json_wf n) a" using 1 JArray by simp
      show ?thesis
      proof (cases a)
        case Nil
        then show ?thesis using JArray t by (simp add: peek_def json_array_def advance_def skip_ws_close Let_def)
      next
        case (Cons w ws)
        then obtain tw u where "t = tw @ u" "json_write fl w = Inr tw" using t(2) by (auto simp: sum_append_eq_Inr)
        then obtain c cs where c: "t = c # cs" "\<not> is_ws c" "c \<noteq> CHR '']''" using json_write_hd [of n w fl tw] wf Cons by auto
        have "array_loop (json_value fl n) [] (p + 1, t @ CHR '']'' # r) = ok (JArray a, p + 1 + length t + 1, r)"
          using value_reader.array_loop_reads [OF Suc wf _ t(2), of "[]" "p + 1" r] Cons by simp
        then show ?thesis using JArray t(1) c by (simp add: peek_def json_array_def advance_def skip_ws_id Let_def)
      qed
    next
      case (JObject ps)
      then obtain t where t: "s = CHR ''{'' # t @ ''}''" "write_fields fl True ps = Inr t" using 1 by (auto simp: sum_append_eq_Inr)
      have wf: "list_all (\<lambda>(k, v). utf8_valid k \<and> json_wf n v) ps" "distinct (map fst ([] @ ps))" using 1 JObject by simp_all
      show ?thesis
      proof (cases ps)
        case Nil
        then show ?thesis using JObject t by (simp add: peek_def json_object_def advance_def skip_ws_close Let_def)
      next
        case (Cons w ws)
        then obtain cs where c: "t = CHR 0x22 # cs" using t(2) write_fields_hd by metis
        have "object_loop (json_value fl n) [] (p + 1, t @ CHR ''}'' # r) = ok (JObject ps, p + 1 + length t + 1, r)"
          using value_reader.object_loop_reads [OF Suc wf _ t(2), of "p + 1" r] Cons by simp
        then show ?thesis using JObject t(1) c by (simp add: peek_def json_object_def advance_def skip_ws_id is_ws_def Let_def)
      qed
    qed (use 1 in \<open>auto simp: peek_def literal_def advance_def\<close>)
  qed
qed

interpretation jr: value_reader fl n "json_value fl n" for fl n
  by (rule json_value_reader)

lemma json_parse_write:
  assumes "json_wf MAX_DEPTH v" "json_write fl v = Inr s" "length s \<le> MAX_INPUT"
  shows "json_parse fl s = ok v"
  using jr.pv_reads_ws [OF assms(1,2), of "[]" 0] assms(3)
  by (simp add: json_parse_def parse_with_limit_def value_end_def skip_ws_id)

text \<open>
  C20. Writing and reading are inverse: a well-typed value without floating-point numbers, at most
  32 levels deep, is written, and the text, when it is within the input bound, is read back as
  the same value, with every text escaped and unescaped, the order of the keys kept and the
  integers exact.
\<close>

theorem json_roundtrip:
  assumes "json_wf MAX_DEPTH v"
  shows "\<exists>s. json_to_string fl v = Inr s \<and>
    json_parse fl s = (if length s \<le> MAX_INPUT then ok v else fails (TooLarge (length s) MAX_INPUT))"
proof -
  obtain s where s: "json_write fl v = Inr s" using json_write_wf(1) [OF assms] by blast
  show ?thesis
  proof (cases "length s \<le> MAX_INPUT")
    case True
    then show ?thesis using s json_parse_write [OF assms s True] by (simp add: json_to_string_def)
  next
    case False
    then show ?thesis using s by (simp add: json_to_string_def json_parse_def parse_with_limit_def)
  qed
qed

theorem json_roundtrip_witness:
  "\<exists>s. json_to_string plain_floats (JObject [(''a<'', JArray [JNumber (NInt (-3)), JString [CHR 0x0A, CHR 0xC3, CHR 0xA9]])]) = Inr s \<and>
     json_parse plain_floats s = ok (JObject [(''a<'', JArray [JNumber (NInt (-3)), JString [CHR 0x0A, CHR 0xC3, CHR 0xA9]])])"
proof -
  let ?v = "JObject [(''a<'', JArray [JNumber (NInt (-3)), JString [CHR 0x0A, CHR 0xC3, CHR 0xA9]])]"
  have "utf8_valid ''a<''" "utf8_valid [CHR 0x0A, CHR 0xC3, CHR 0xA9]" by code_simp+
  then have wf: "json_wf MAX_DEPTH ?v" by (simp add: MAX_DEPTH_def numeral_eq_Suc i64_min_def)
  have len: "list_all (\<lambda>s. length s \<le> MAX_INPUT) (case json_to_string plain_floats ?v of Inr s \<Rightarrow> [s] | Inl _ \<Rightarrow> [])"
    by code_simp
  obtain s where "json_to_string plain_floats ?v = Inr s"
    "json_parse plain_floats s = (if length s \<le> MAX_INPUT then ok ?v else fails (TooLarge (length s) MAX_INPUT))"
    using json_roundtrip [OF wf, of plain_floats] by blast
  with len show ?thesis by auto
qed

end
