(* ===== verification/Types_Time.thy ===== *)
theory Types_Time
  imports Types_Job Decimal
begin

text \<open>
  The texts of \<^verbatim>\<open>types/src/time.rs\<close>: instants as RFC 3339 and durations as Go writes them.
  The writers use a buffer of 40 bytes on the stack; a write that does not fit is an error, a
  single byte that does not fit is dropped.  Release builds check arithmetic overflow, so an
  addition that does not fit 128 bits stops the program: the parser of durations returns
  \<open>None\<close> there.

  The lemmas: the calendar conversion is inverted by its counterpart for every day; what is
  written always fits the buffer and is read back as the same value.
\<close>

section \<open>The calendar\<close>

definition civil_from_days :: "nat \<Rightarrow> nat \<times> nat \<times> nat" where
  "civil_from_days days =
     (let z = days + 719468;
          era = z div 146097;
          doe = z - era * 146097;
          yoe = (doe - doe div 1460 + doe div 36524 - doe div 146096) div 365;
          doy = doe - (365 * yoe + yoe div 4 - yoe div 100);
          mp = (5 * doy + 2) div 153;
          d = doy - (153 * mp + 2) div 5 + 1;
          m = (if mp < 10 then mp + 3 else mp - 9);
          y = yoe + era * 400 + (if m \<le> 2 then 1 else 0)
      in (y, m, d))"

definition days_from_civil :: "nat \<Rightarrow> nat \<Rightarrow> nat \<Rightarrow> nat" where
  "days_from_civil y m d =
     (let y = (if m \<le> 2 then y - 1 else y);
          era = y div 400;
          yoe = y - era * 400;
          mp = (if m > 2 then m - 3 else m + 9);
          doy = (153 * mp + 2) div 5 + d - 1;
          doe = yoe * 365 + yoe div 4 - yoe div 100 + doy
      in era * 146097 + doe - 719468)"

section \<open>The buffer\<close>

definition FIXED_BUF :: nat where
  "FIXED_BUF = 40"

definition fb_push :: "char \<Rightarrow> string \<Rightarrow> string" where
  "fb_push c buf = (if length buf < FIXED_BUF then buf @ [c] else buf)"

definition fb_write :: "string \<Rightarrow> string \<Rightarrow> string option" where
  "fb_write s buf = (if length buf + length s > FIXED_BUF then None else Some (buf @ s))"

section \<open>Instants\<close>

text \<open>The nine digits of the fraction, filled from the right, and the trailing zeros cut.\<close>

fun frac_digits :: "nat \<Rightarrow> nat \<Rightarrow> string" where
  "frac_digits 0 f = []"
| "frac_digits (Suc k) f = frac_digits k (f div 10) @ [digit_char (f mod 10)]"

definition trim_zeros :: "string \<Rightarrow> string" where
  "trim_zeros ds = rev (dropWhile (\<lambda>c. c = CHR ''0'') (rev ds))"

definition write_rfc3339 :: "time \<Rightarrow> string \<Rightarrow> types_error + string" where
  "write_rfc3339 t out =
     (if time_is_zero t then Inr (out @ ''0001-01-01T00:00:00Z'')
      else
        let secs = t div SECOND; frac = t mod SECOND;
            days = secs div 86400; rem = secs mod 86400;
            (y, m, d) = civil_from_days days
        in case fb_write (pad_text 4 y @ ''-'' @ pad_text 2 m @ ''-'' @ pad_text 2 d @ ''T'' @
               pad_text 2 (rem div 3600) @ '':'' @ pad_text 2 ((rem div 60) mod 60) @ '':'' @
               pad_text 2 (rem mod 60)) [] of
             None \<Rightarrow> Inl OutOfMemory
           | Some buf \<Rightarrow>
               let buf1 = (if frac > 0
                           then fold fb_push (trim_zeros (frac_digits 9 frac)) (fb_push CHR ''.'' buf)
                           else buf)
               in Inr (out @ fb_push CHR ''Z'' buf1))"

definition bad_time :: types_error where
  "bad_time = Invalid ''time'' ''not an RFC 3339 timestamp''"

definition time_num :: "string \<Rightarrow> nat \<Rightarrow> nat \<Rightarrow> nat option" where
  "time_num b from len =
     (if from + len \<le> length b \<and> list_all is_digit (take len (drop from b))
      then Some (digits_val (take len (drop from b))) else None)"

definition byte_at :: "string \<Rightarrow> nat \<Rightarrow> char option" where
  "byte_at b i = (if i < length b then Some (b ! i) else None)"

text \<open>The digits after the point: nine count, the rest is passed over.\<close>

fun frac_loop :: "string \<Rightarrow> nat \<Rightarrow> nat \<Rightarrow> nat \<times> nat \<times> string" where
  "frac_loop [] n frac = (n, frac, [])"
| "frac_loop (c # cs) n frac =
     (if is_digit c
      then if n < 9 then frac_loop cs (n + 1) (frac * 10 + digit_val c) else frac_loop cs n frac
      else (n, frac, c # cs))"

definition time_frac :: "string \<Rightarrow> (nat \<times> string) option" where
  "time_frac rest =
     (case rest of
        CHR ''.'' # cs \<Rightarrow>
          (case frac_loop cs 0 0 of
             (n, frac, rest1) \<Rightarrow> if n = 0 then None else Some (frac * 10 ^ (9 - n), rest1))
      | _ \<Rightarrow> Some (0, rest))"

definition time_offset :: "string \<Rightarrow> int option" where
  "time_offset rest =
     (case rest of
        [] \<Rightarrow> None
      | c # cs \<Rightarrow>
          if (c = CHR ''Z'' \<or> c = CHR ''z'') \<and> length rest = 1 then Some 0
          else if (c = CHR ''+'' \<or> c = CHR ''-'') \<and> length rest = 6 \<and> byte_at rest 3 = Some (CHR '':'')
          then (case (time_num rest 1 2, time_num rest 4 2) of
                  (Some oh, Some om) \<Rightarrow>
                    let o1 = int (oh * 3600 + om * 60) in Some (if c = CHR ''+'' then o1 else - o1)
                | _ \<Rightarrow> None)
          else None)"

definition parse_rfc3339 :: "string \<Rightarrow> types_error + time" where
  "parse_rfc3339 b =
     (if length b < 20 \<or> byte_at b 4 \<noteq> Some (CHR ''-'') \<or> byte_at b 7 \<noteq> Some (CHR ''-'') then Inl bad_time
      else if byte_at b 10 \<notin> {Some (CHR ''T''), Some (CHR ''t'')} \<or> byte_at b 13 \<noteq> Some (CHR '':'') \<or>
              byte_at b 16 \<noteq> Some (CHR '':'') then Inl bad_time
      else case (time_num b 0 4, time_num b 5 2, time_num b 8 2, time_num b 11 2, time_num b 14 2,
                 time_num b 17 2) of
        (Some y, Some mo, Some d, Some h, Some mi, Some sec) \<Rightarrow>
          if mo < 1 \<or> mo > 12 \<or> d < 1 \<or> d > 31 \<or> h > 23 \<or> mi > 59 \<or> sec > 60 then Inl bad_time
          else (case time_frac (drop 19 b) of
            None \<Rightarrow> Inl bad_time
          | Some (frac, rest) \<Rightarrow>
              (case time_offset rest of
                 None \<Rightarrow> Inl bad_time
               | Some offset \<Rightarrow>
                   if y < 1970 then Inr time_ZERO
                   else
                     let days = days_from_civil y mo d;
                         secs = int (days * 86400 + h * 3600 + mi * 60 + sec) - offset
                     in if secs < 0 then Inl bad_time
                        else let ns = nat secs * SECOND + frac
                             in if ns > u64_max then Inl bad_time else Inr ns))
      | _ \<Rightarrow> Inl bad_time)"

section \<open>Durations\<close>

datatype duration_error = DurInvalid | DurNegative | DurOverflow

definition u128_max :: nat where
  "u128_max = 2 ^ 128 - 1"

text \<open>The names of the micro sign (U+00B5) and the Greek letter (U+03BC) in UTF-8.\<close>

definition unit_scale :: "string \<Rightarrow> nat option" where
  "unit_scale u =
     (if u = ''ns'' then Some 1
      else if u = ''us'' \<or> u = [CHR 0xC2, CHR 0xB5, CHR ''s''] \<or> u = [CHR 0xCE, CHR 0xBC, CHR ''s'']
        then Some MICROSECOND
      else if u = ''ms'' then Some MILLISECOND
      else if u = ''s'' then Some SECOND
      else if u = ''m'' then Some MINUTE
      else if u = ''h'' then Some HOUR
      else None)"

fun checked_digits :: "string \<Rightarrow> nat \<Rightarrow> nat option" where
  "checked_digits [] v = Some v"
| "checked_digits (c # cs) v =
     (if v * 10 + digit_val c > u128_max then None else checked_digits cs (v * 10 + digit_val c))"

text \<open>One number with its unit: the value in nanoseconds and what follows.\<close>

definition unit_char :: "char \<Rightarrow> bool" where
  "unit_char c \<longleftrightarrow> \<not> is_digit c \<and> c \<noteq> CHR ''.''"

definition split_number :: "string \<Rightarrow> string \<times> string \<times> string" where
  "split_number rest =
     (let int_part = takeWhile is_digit rest; after = dropWhile is_digit rest
      in case after of
           CHR ''.'' # a \<Rightarrow> (int_part, takeWhile is_digit a, dropWhile is_digit a)
         | _ \<Rightarrow> (int_part, [], after))"

definition duration_part :: "string \<Rightarrow> string \<Rightarrow> nat \<Rightarrow> (duration_error + nat) option" where
  "duration_part int_part frac_part scale =
     (case checked_digits int_part 0 of
        None \<Rightarrow> Some (Inl DurOverflow)
      | Some v \<Rightarrow>
          if v * scale > u128_max then Some (Inl DurOverflow)
          else
            let fs = take 18 frac_part;
                part = v * scale + digits_val fs * scale div 10 ^ length fs
            in if part > u128_max then None else Some (Inr part))"

lemma length_split_number:
  assumes "split_number rest = (ip, fp, after)" "ip \<noteq> [] \<or> fp \<noteq> []"
  shows "length after < length rest"
proof -
  let ?a = "dropWhile is_digit rest"
  have len: "length rest = length (takeWhile is_digit rest) + length ?a"
    by (metis length_append takeWhile_dropWhile_id)
  show ?thesis
  proof (cases "\<exists>a. ?a = CHR ''.'' # a")
    case True
    then obtain a where a: "?a = CHR ''.'' # a" by blast
    moreover have "length (dropWhile is_digit a) \<le> length a" by (rule length_dropWhile_le)
    ultimately show ?thesis using assms(1) len by (auto simp: split_number_def)
  next
    case False
    then have "split_number rest = (takeWhile is_digit rest, [], ?a)"
      by (auto simp: split_number_def Let_def split: list.splits char.splits bool.splits)
    with assms len show ?thesis by auto
  qed
qed

lemma duration_shrinks:
  assumes "(ip, fp, after) = split_number rest" "ip = [] \<longrightarrow> fp \<noteq> []"
  shows "length (dropWhile unit_char after) < length rest"
proof -
  have "length after < length rest" using assms by (intro length_split_number [of rest ip fp]) auto
  moreover have "length (dropWhile unit_char after) \<le> length after" by (rule length_dropWhile_le)
  ultimately show ?thesis by simp
qed

function duration_loop :: "string \<Rightarrow> nat \<Rightarrow> (duration_error + nat) option" where
  "duration_loop rest tot =
     (if rest = [] then Some (Inr tot)
      else case split_number rest of
        (int_part, frac_part, after) \<Rightarrow>
          if int_part = [] \<and> frac_part = [] then Some (Inl DurInvalid)
          else
            (case unit_scale (takeWhile unit_char after) of
               None \<Rightarrow> Some (Inl DurInvalid)
             | Some scale \<Rightarrow>
                 (case duration_part int_part frac_part scale of
                    None \<Rightarrow> None
                  | Some (Inl e) \<Rightarrow> Some (Inl e)
                  | Some (Inr part) \<Rightarrow>
                      if tot + part > u128_max then Some (Inl DurOverflow)
                      else duration_loop (dropWhile unit_char after) (tot + part))))"
  by pat_completeness auto
termination
  by (relation "measure (\<lambda>(rest, tot). length rest)") (auto intro: duration_shrinks)

declare duration_loop.simps [simp del]

definition parse_duration :: "string \<Rightarrow> (duration_error + nanos) option" where
  "parse_duration s =
     (let neg = (s \<noteq> [] \<and> hd s = CHR ''-'');
          rest = (if neg \<or> s \<noteq> [] \<and> hd s = CHR ''+'' then tl s else s)
      in if rest = ''0'' then Some (Inr 0)
         else if rest = [] then Some (Inl DurInvalid)
         else case duration_loop rest 0 of
                None \<Rightarrow> None
              | Some (Inl e) \<Rightarrow> Some (Inl e)
              | Some (Inr tot) \<Rightarrow>
                  if tot > nat i64_max then Some (Inl DurOverflow)
                  else if neg \<and> tot > 0 then Some (Inl DurNegative)
                  else Some (Inr tot))"

fun frac_width :: "nat \<Rightarrow> nat" where
  "frac_width u = (if u > 1 then Suc (frac_width (u div 10)) else 0)"

declare frac_width.simps [simp del]

fun drop_tens :: "nat \<Rightarrow> nat \<Rightarrow> nat \<times> nat" where
  "drop_tens frac width =
     (if 0 < frac \<and> 10 dvd frac then drop_tens (frac div 10) (width - 1) else (frac, width))"

declare drop_tens.simps [simp del]

definition write_frac :: "string \<Rightarrow> nanos \<Rightarrow> nanos \<Rightarrow> string \<Rightarrow> string option" where
  "write_frac buf v un suffix =
     Option.bind (fb_write (nat_text (v div un)) buf) (\<lambda>buf1.
     Option.bind
       (if v mod un > 0
        then case drop_tens (v mod un) (frac_width un) of
               (frac, width) \<Rightarrow> fb_write (CHR ''.'' # pad_text width frac) buf1
        else Some buf1)
       (fb_write suffix))"

definition write_duration :: "nanos \<Rightarrow> string \<Rightarrow> types_error + string" where
  "write_duration d out =
     (let r = (if d = 0 then fb_write ''0s'' []
               else if d < MICROSECOND then fb_write (nat_text d @ ''ns'') []
               else if d < MILLISECOND then write_frac [] d MICROSECOND [CHR 0xC2, CHR 0xB5, CHR ''s'']
               else if d < SECOND then write_frac [] d MILLISECOND ''ms''
               else
                 let h = d div HOUR; m = (d div MINUTE) mod 60; s_ns = d mod MINUTE
                 in Option.bind (if h > 0 then fb_write (nat_text h @ ''h'') [] else Some []) (\<lambda>buf1.
                    Option.bind (if h > 0 \<or> m > 0 then fb_write (nat_text m @ ''m'') buf1 else Some buf1) (\<lambda>buf2.
                    write_frac buf2 s_ns SECOND ''s'')))
      in case r of None \<Rightarrow> Inl OutOfMemory | Some buf \<Rightarrow> Inr (out @ buf))"

section \<open>The calendar is inverted\<close>

text \<open>
  Within an era of 400 years: the day is split into centuries, groups of four years and the rest;
  the quotient by 365 is then the year, and at most 365 days are left.
\<close>

lemma year_of_era:
  assumes "d < (146097::nat)" and q: "q = (d - d div 1460 + d div 36524 - d div 146096) div 365"
  shows "q < 400 \<and> 365 * q + q div 4 - q div 100 \<le> d \<and> d \<le> 365 * q + q div 4 - q div 100 + 365"
proof (cases "d = 146096")
  case False
  define c where "c = d div 36524"
  define t where "t = d mod 36524"
  define k where "k = t div 1461"
  define u where "u = t mod 1461"
  define e where "e = (if 24 * c + k + u \<ge> 1460 then 1 else 0 :: nat)"
  define j where "j = (u - e) div 365"
  have c: "c \<le> 3" using assms False by (simp add: c_def)
  have t: "t < 36524" by (simp add: t_def)
  have k: "k \<le> 24" using t by (simp add: k_def)
  have u: "u \<le> 1460" using mod_less_divisor [of 1461 t] by (simp add: u_def)
  have d: "d = 36524 * c + 1461 * k + u" by (simp add: c_def t_def k_def u_def)
  have eu: "u - e < 1460" "e \<le> u" using u c k by (auto simp: e_def)
  have a: "d div 1460 = 25 * c + k + e"
  proof -
    have "d = 1460 * (25 * c + k) + (24 * c + k + u)" using d by simp
    then have "d div 1460 = 25 * c + k + (24 * c + k + u) div 1460" by simp
    moreover have "(24 * c + k + u) div 1460 = e" using c k u by (auto simp: e_def)
    ultimately show ?thesis by simp
  qed
  have "d div 146096 = 0" using assms False by simp
  then have "d - d div 1460 + d div 36524 - d div 146096 = 365 * (100 * c + 4 * k) + (u - e)"
    unfolding a c_def [symmetric] using d eu by simp
  then have qj: "q = 100 * c + 4 * k + j" by (simp add: q j_def)
  have j: "j \<le> 3" "365 * j \<le> u - e" "u - e < 365 * j + 365" using eu by (auto simp: j_def)
  have "q div 4 = 25 * c + k"
  proof -
    have "q = 4 * (25 * c + k) + j" using qj by simp
    then show ?thesis using j(1) by simp
  qed
  moreover have "q div 100 = c"
  proof -
    have "q = 100 * c + (4 * k + j)" "4 * k + j < 100" using qj k j(1) by simp_all
    then show ?thesis by simp
  qed
  moreover have "q < 400" using qj c k j(1) by simp
  moreover have "e \<le> 1" by (simp add: e_def)
  moreover have "365 * j \<le> u" "u \<le> 365 * j + 365" using j(2,3) eu(2) \<open>e \<le> 1\<close> by linarith+
  ultimately show ?thesis using d qj by simp
qed (simp add: q)

lemma month_of_year:
  assumes "doy \<le> (365::nat)" and mp: "mp = (5 * doy + 2) div 153"
  shows "mp \<le> 11" "(153 * mp + 2) div 5 \<le> doy" "doy - (153 * mp + 2) div 5 < 31"
proof -
  have lo: "153 * mp \<le> 5 * doy + 2" and hi: "5 * doy + 2 < 153 * mp + 153"
    unfolding mp using mult_div_mod_eq [of 153 "5 * doy + 2"] mod_less_divisor [of 153 "5 * doy + 2"] by linarith+
  show "mp \<le> 11" using lo assms(1) by simp
  have q: "5 * ((153 * mp + 2) div 5) \<le> 153 * mp + 2" "153 * mp + 2 < 5 * ((153 * mp + 2) div 5) + 5"
    using mult_div_mod_eq [of 5 "153 * mp + 2"] mod_less_divisor [of 5 "153 * mp + 2"] by linarith+
  show "(153 * mp + 2) div 5 \<le> doy" using lo q(1) by linarith
  show "doy - (153 * mp + 2) div 5 < 31" using hi q by linarith
qed

lemma civil_round_trip:
  assumes "civil_from_days n = (y, m, d)"
  shows "days_from_civil y m d = n" "1 \<le> m" "m \<le> 12" "1 \<le> d" "d \<le> 31" "1970 \<le> y"
    "y \<le> 400 * ((n + 719468) div 146097 + 1)"
proof -
  define z where "z = n + 719468"
  define era where "era = z div 146097"
  define doe where "doe = z - era * 146097"
  define yoe where "yoe = (doe - doe div 1460 + doe div 36524 - doe div 146096) div 365"
  define doy where "doy = doe - (365 * yoe + yoe div 4 - yoe div 100)"
  define mp where "mp = (5 * doy + 2) div 153"
  have doe: "doe < 146097" "z = era * 146097 + doe"
    unfolding doe_def era_def using div_mult_mod_eq [of z 146097] mod_less_divisor [of 146097 z] by linarith+
  note yr = year_of_era [OF doe(1) yoe_def]
  have doy: "doy \<le> 365" "doe = 365 * yoe + yoe div 4 - yoe div 100 + doy" using yr by (auto simp: doy_def)
  note mo = month_of_year [OF doy(1) mp_def]
  have ymd: "d = doy - (153 * mp + 2) div 5 + 1" "m = (if mp < 10 then mp + 3 else mp - 9)"
    "y = yoe + era * 400 + (if m \<le> 2 then 1 else 0)"
    using assms unfolding civil_from_days_def Let_def z_def [symmetric] era_def [symmetric]
      doe_def [symmetric] yoe_def [symmetric] doy_def [symmetric] mp_def [symmetric] by auto
  show "1 \<le> m" "m \<le> 12" "1 \<le> d" "d \<le> 31" using ymd mo by auto
  have yy: "(if m \<le> 2 then y - 1 else y) = yoe + era * 400" using ymd(3) by simp
  have mp: "(if m > 2 then m - 3 else m + 9) = mp" using ymd(2) mo(1) by auto
  have era: "(yoe + era * 400) div 400 = era" "yoe + era * 400 - era * 400 = yoe" using yr by auto
  have day: "(153 * mp + 2) div 5 + d - 1 = doy" using ymd(1) mo(2) by simp
  have "yoe * 365 + yoe div 4 - yoe div 100 + doy = doe" using doy(2) by (simp add: mult.commute)
  then show "days_from_civil y m d = n"
    unfolding days_from_civil_def Let_def yy mp era day using doe(2) z_def by simp
  show "1970 \<le> y"
  proof (cases "5 \<le> era")
    case False
    have "4 \<le> era" using z_def by (simp add: era_def)
    with False have era4: "era = 4" by simp
    then have doe1: "135080 \<le> doe" using doe(2) z_def by simp
    have "369 \<le> yoe"
    proof (rule ccontr)
      assume "\<not> 369 \<le> yoe"
      then have "365 * yoe + yoe div 4 \<le> 365 * 368 + 368 div 4" by (intro add_mono mult_le_mono div_le_mono) auto
      then show False using doe1 doy by simp
    qed
    moreover have "m \<le> 2" if "yoe = 369"
    proof -
      have "306 \<le> doy" using doe1 doy(2) that by simp
      then have "(5 * 306 + 2) div 153 \<le> mp" unfolding mp_def by (intro div_le_mono) simp
      then show ?thesis using ymd(2) mo(1) by simp
    qed
    ultimately show ?thesis using ymd(3) era4 by (cases "yoe = 369") auto
  qed (use ymd(3) in simp)
  show "y \<le> 400 * ((n + 719468) div 146097 + 1)" using ymd(3) yr unfolding z_def [symmetric] era_def [symmetric] by auto
qed


section \<open>Instants: what is written fits and is read back\<close>

lemma length_frac_digits [simp]: "length (frac_digits k f) = k"
  by (induction k arbitrary: f) simp_all

lemma frac_digits_digits [simp]: "list_all is_digit (frac_digits k f)"
  by (induction k arbitrary: f) simp_all

lemma digits_val_frac_digits: "digits_val (frac_digits k f) = f mod 10 ^ k"
  by (induction k arbitrary: f) (simp_all add: digits_val_snoc mod_mult2_eq mult.commute)

lemma trim_zeros_append: "\<exists>k. ds = trim_zeros ds @ replicate k (CHR ''0'')"
proof (induction ds rule: rev_induct)
  case (snoc c ds)
  then obtain k where k: "ds = trim_zeros ds @ replicate k (CHR ''0'')" by blast
  show ?case
  proof (cases "c = CHR ''0''")
    case True
    then have "trim_zeros (ds @ [c]) = trim_zeros ds" by (simp add: trim_zeros_def)
    with k True have "ds @ [c] = trim_zeros (ds @ [c]) @ replicate (Suc k) (CHR ''0'')"
      by (metis append.assoc replicate_append_same replicate_Suc)
    then show ?thesis by blast
  next
    case False
    then have "ds @ [c] = trim_zeros (ds @ [c]) @ replicate 0 (CHR ''0'')" by (simp add: trim_zeros_def)
    then show ?thesis by blast
  qed
qed (simp add: trim_zeros_def)

text \<open>The fraction: its digits without trailing zeros, scaled back to nine.\<close>

lemma trimmed_frac:
  assumes "0 < f" "f < 10 ^ 9" "ds = trim_zeros (frac_digits 9 f)"
  shows "list_all is_digit ds" "ds \<noteq> []" "length ds \<le> 9" "digits_val ds * 10 ^ (9 - length ds) = f"
proof -
  obtain k where k: "frac_digits 9 f = ds @ replicate k (CHR ''0'')"
    using trim_zeros_append [of "frac_digits 9 f"] assms(3) by auto
  then have "length (ds @ replicate k (CHR ''0'')) = 9" by (metis length_frac_digits)
  then have len: "length ds + k = 9" by simp
  show "list_all is_digit ds" using frac_digits_digits [of 9 f] unfolding k by simp
  show "length ds \<le> 9" using len by simp
  have "digits_val ds * 10 ^ k = f"
    using digits_val_frac_digits [of 9 f] assms(2) unfolding k by (simp add: digits_val_append)
  then show "digits_val ds * 10 ^ (9 - length ds) = f" using len by (metis add_diff_cancel_left')
  with assms(1) show "ds \<noteq> []" by auto
qed

lemma frac_loop_digits:
  assumes "list_all is_digit ds" "n + length ds \<le> 9" "\<not> is_digit c"
  shows "frac_loop (ds @ c # cs) n v = (n + length ds, v * 10 ^ length ds + digits_val ds, c # cs)"
  using assms
proof (induction ds arbitrary: n v)
  case (Cons d ds)
  then show ?case by (simp add: digits_val_Cons algebra_simps)
qed simp

lemma time_frac_point:
  assumes "list_all is_digit ds" "ds \<noteq> []" "length ds \<le> 9" "\<not> is_digit c"
  shows "time_frac (CHR ''.'' # ds @ c # cs) = Some (digits_val ds * 10 ^ (9 - length ds), c # cs)"
  using assms by (simp add: time_frac_def frac_loop_digits)

lemma fold_fb_push: "length buf + length s \<le> FIXED_BUF \<Longrightarrow> fold fb_push s buf = buf @ s"
  by (induction s arbitrary: buf) (auto simp: fb_push_def)

definition stamp :: "nat \<Rightarrow> nat \<Rightarrow> nat \<Rightarrow> nat \<Rightarrow> nat \<Rightarrow> nat \<Rightarrow> string" where
  "stamp y m d h mi s = pad_text 4 y @ ''-'' @ pad_text 2 m @ ''-'' @ pad_text 2 d @ ''T'' @
     pad_text 2 h @ '':'' @ pad_text 2 mi @ '':'' @ pad_text 2 s"

lemma length_stamp:
  "y < 10000 \<Longrightarrow> m < 100 \<Longrightarrow> d < 100 \<Longrightarrow> h < 100 \<Longrightarrow> mi < 100 \<Longrightarrow> s < 100 \<Longrightarrow>
   length (stamp y m d h mi s) = 19"
  by (simp add: stamp_def length_pad_text)

text \<open>The fraction as it is written: empty for whole seconds.\<close>

definition frac_text :: "nat \<Rightarrow> string" where
  "frac_text f = (if f > 0 then CHR ''.'' # trim_zeros (frac_digits 9 f) else [])"

lemma length_frac_text: "f < 10 ^ 9 \<Longrightarrow> length (frac_text f) \<le> 10"
  using trimmed_frac(3) [of f] by (auto simp: frac_text_def)

lemma time_frac_text:
  assumes "f < 10 ^ 9"
  shows "time_frac (frac_text f @ ''Z'') = Some (f, ''Z'')"
proof (cases "f = 0")
  case True
  then show ?thesis by (simp add: frac_text_def time_frac_def)
next
  case False
  then have "0 < f" by simp
  note tf = trimmed_frac [OF this assms refl]
  have "\<not> is_digit CHR ''Z''" by (simp add: is_digit_def)
  from time_frac_point [OF tf(1,2,3) this, of "[]"] tf(4) False show ?thesis by (simp add: frac_text_def)
qed

lemma write_rfc3339_text:
  assumes "0 < t" "t \<le> u64_max" "civil_from_days (t div SECOND div 86400) = (y, m, d)"
  defines "r \<equiv> t div SECOND mod 86400"
  shows "write_rfc3339 t out = Inr (out @ stamp y m d (r div 3600) ((r div 60) mod 60) (r mod 60) @
    frac_text (t mod SECOND) @ ''Z'')"
    and "y < 10000" "1 \<le> m" "m \<le> 12" "1 \<le> d" "d \<le> 31" "1970 \<le> y" "r div 3600 \<le> 23"
proof -
  note c = civil_round_trip [OF assms(3)]
  have n: "t div SECOND div 86400 \<le> 18446744073709551615 div 1000000000 div 86400"
    using assms(2) by (intro div_le_mono) (simp_all add: SECOND_def u64_max_def div_le_mono)
  show "1 \<le> m" "m \<le> 12" "1 \<le> d" "d \<le> 31" "1970 \<le> y" by (fact c)+
  have "(t div SECOND div 86400 + 719468) div 146097 \<le> (18446744073709551615 div 1000000000 div 86400 + 719468) div 146097"
    by (rule div_le_mono [OF add_le_mono1 [OF n]])
  with c(7) show y: "y < 10000" by simp
  have r: "r < 86400" by (simp add: r_def)
  then have "r div 3600 \<le> 86399 div 3600" by (intro div_le_mono) simp
  then show h: "r div 3600 \<le> 23" by simp
  let ?s = "stamp y m d (r div 3600) ((r div 60) mod 60) (r mod 60)"
  have "(r div 60) mod 60 < 60" "r mod 60 < 60" by simp_all
  then have len: "length ?s = 19" using y c(3,5) h by (intro length_stamp) auto
  have fl: "length (frac_text (t mod SECOND)) \<le> 10" by (intro length_frac_text) (simp add: SECOND_def)
  have w: "fb_write ?s [] = Some ?s" using len by (simp add: fb_write_def FIXED_BUF_def)
  have z: "\<not> time_is_zero t" using assms(1) by (simp add: time_is_zero_def)
  show "write_rfc3339 t out = Inr (out @ ?s @ frac_text (t mod SECOND) @ ''Z'')"
  proof (cases "t mod SECOND > 0")
    case True
    let ?f = "trim_zeros (frac_digits 9 (t mod SECOND))"
    have fl: "length ?f \<le> 9" using fl True by (simp add: frac_text_def)
    have p1: "fb_push CHR ''.'' ?s = ?s @ ''.''" using len by (simp add: fb_push_def FIXED_BUF_def)
    have p2: "fold fb_push ?f (?s @ ''.'') = ?s @ ''.'' @ ?f"
      using len fl by (subst fold_fb_push) (simp_all add: FIXED_BUF_def)
    have p3: "fb_push CHR ''Z'' (?s @ ''.'' @ ?f) = ?s @ ''.'' @ ?f @ ''Z''"
      using len fl by (simp add: fb_push_def FIXED_BUF_def)
    show ?thesis
      unfolding write_rfc3339_def if_not_P [OF z] Let_def assms(3) prod.case r_def [symmetric]
        stamp_def [symmetric] w option.case if_P [OF True] p1 p2 p3 frac_text_def by simp
  next
    case False
    have p3: "fb_push CHR ''Z'' ?s = ?s @ ''Z''" using len by (simp add: fb_push_def FIXED_BUF_def)
    show ?thesis
      unfolding write_rfc3339_def if_not_P [OF z] Let_def assms(3) prod.case r_def [symmetric]
        stamp_def [symmetric] w option.case if_not_P [OF False] p3 frac_text_def by simp
  qed
qed


lemma pad_text_two:
  assumes "n < 100"
  obtains a b where "pad_text 2 n = [a, b]" "is_digit a" "is_digit b" "digits_val [a, b] = n"
proof -
  have "length (pad_text 2 n) = 2" using assms by (simp add: length_pad_text)
  then obtain a b where ab: "pad_text 2 n = [a, b]" by (auto simp: numeral_2_eq_2 length_Suc_conv)
  with pad_text_digits [of 2 n] digits_val_pad_text [of 2 n] show ?thesis using that [of a b] by simp
qed

lemma pad_text_four:
  assumes "n < 10000"
  obtains a b c d where "pad_text 4 n = [a, b, c, d]" "is_digit a" "is_digit b" "is_digit c" "is_digit d"
    "digits_val [a, b, c, d] = n"
proof -
  have "length (pad_text 4 n) = 4" using assms by (simp add: length_pad_text)
  then obtain a b c d where abcd: "pad_text 4 n = [a, b, c, d]"
    by (auto simp: eval_nat_numeral length_Suc_conv)
  with pad_text_digits [of 4 n] digits_val_pad_text [of 4 n] show ?thesis using that [of a b c d] by simp
qed

lemma parse_stamp:
  assumes "y < 10000" "m < 100" "d < 100" "h < 100" "mi < 100" "s < 100" "rest \<noteq> []"
  shows "parse_rfc3339 (stamp y m d h mi s @ rest) =
    (if m < 1 \<or> m > 12 \<or> d < 1 \<or> d > 31 \<or> h > 23 \<or> mi > 59 \<or> s > 60 then Inl bad_time
     else (case time_frac rest of
       None \<Rightarrow> Inl bad_time
     | Some (frac, rest) \<Rightarrow>
         (case time_offset rest of
            None \<Rightarrow> Inl bad_time
          | Some offset \<Rightarrow>
              if y < 1970 then Inr time_ZERO
              else
                let days = days_from_civil y m d; secs = int (days * 86400 + h * 3600 + mi * 60 + s) - offset
                in if secs < 0 then Inl bad_time
                   else let ns = nat secs * SECOND + frac
                        in if ns > u64_max then Inl bad_time else Inr ns)))"
proof -
  obtain y1 y2 y3 y4 where y: "pad_text 4 y = [y1, y2, y3, y4]" "is_digit y1" "is_digit y2" "is_digit y3" "is_digit y4"
    "digits_val [y1, y2, y3, y4] = y" using assms(1) by (rule pad_text_four)
  obtain m1 m2 where m: "pad_text 2 m = [m1, m2]" "is_digit m1" "is_digit m2" "digits_val [m1, m2] = m"
    using assms(2) by (rule pad_text_two)
  obtain d1 d2 where d: "pad_text 2 d = [d1, d2]" "is_digit d1" "is_digit d2" "digits_val [d1, d2] = d"
    using assms(3) by (rule pad_text_two)
  obtain h1 h2 where h: "pad_text 2 h = [h1, h2]" "is_digit h1" "is_digit h2" "digits_val [h1, h2] = h"
    using assms(4) by (rule pad_text_two)
  obtain i1 i2 where i: "pad_text 2 mi = [i1, i2]" "is_digit i1" "is_digit i2" "digits_val [i1, i2] = mi"
    using assms(5) by (rule pad_text_two)
  obtain s1 s2 where s: "pad_text 2 s = [s1, s2]" "is_digit s1" "is_digit s2" "digits_val [s1, s2] = s"
    using assms(6) by (rule pad_text_two)
  define b where "b = stamp y m d h mi s @ rest"
  have b: "b = [y1, y2, y3, y4, CHR ''-'', m1, m2, CHR ''-'', d1, d2, CHR ''T'', h1, h2, CHR '':'',
      i1, i2, CHR '':'', s1, s2] @ rest"
    by (simp add: b_def stamp_def y(1) m(1) d(1) h(1) i(1) s(1))
  have len: "\<not> length b < 20" using assms(7) by (cases rest) (simp_all add: b)
  have at: "byte_at b 4 = Some (CHR ''-'')" "byte_at b 7 = Some (CHR ''-'')" "byte_at b 10 = Some (CHR ''T'')"
    "byte_at b 13 = Some (CHR '':'')" "byte_at b 16 = Some (CHR '':'')" by (simp_all add: b byte_at_def)
  have num: "time_num b 0 4 = Some y" "time_num b 5 2 = Some m" "time_num b 8 2 = Some d"
    "time_num b 11 2 = Some h" "time_num b 14 2 = Some mi" "time_num b 17 2 = Some s"
    using y m d h i s by (simp_all add: b time_num_def)
  have rest: "drop 19 b = rest" by (simp add: b)
  show ?thesis unfolding b_def [symmetric] parse_rfc3339_def using len at num rest by simp
qed

text \<open>
  Every instant is written, within the 40 bytes of the buffer: at most 30 characters are
  added to the output, whatever the 64-bit value is.
\<close>

theorem write_rfc3339_fits:
  assumes "t \<le> u64_max"
  shows "\<exists>s. write_rfc3339 t out = Inr (out @ s) \<and> 20 \<le> length s \<and> length s \<le> 30"
proof (cases "t = 0")
  case True
  then show ?thesis by (simp add: write_rfc3339_def time_is_zero_def)
next
  case False
  obtain y m d where c: "civil_from_days (t div SECOND div 86400) = (y, m, d)" by (metis prod_cases3)
  from False have "0 < t" by simp
  note w = write_rfc3339_text [OF this assms c]
  have "length (frac_text (t mod SECOND)) \<le> 10" by (intro length_frac_text) (simp add: SECOND_def)
  moreover have "(t div SECOND mod 86400 div 60) mod 60 < 100" "t div SECOND mod 86400 mod 60 < 100"
    by (simp_all add: less_le_trans [OF mod_less_divisor])
  ultimately show ?thesis using w(2,4,6,8) by (simp add: w(1) length_stamp)
qed

lemma rfc3339_read_back:
  assumes "t \<le> u64_max"
  shows "\<exists>s. write_rfc3339 t [] = Inr s \<and> parse_rfc3339 s = Inr t"
proof (cases "t = 0")
  case True
  have "parse_rfc3339 ''0001-01-01T00:00:00Z'' = Inr 0" by code_simp
  with True show ?thesis by (simp add: write_rfc3339_def time_is_zero_def)
next
  case False
  obtain y m d where c: "civil_from_days (t div SECOND div 86400) = (y, m, d)" by (metis prod_cases3)
  from False have "0 < t" by simp
  note w = write_rfc3339_text [OF this assms c]
  define r where "r = t div SECOND mod 86400"
  define f where "f = t mod SECOND"
  have f: "f < 10 ^ 9" by (simp add: f_def SECOND_def)
  have "(r div 60) mod 60 < 60" "r mod 60 < 60" by simp_all
  then have ms: "\<not> 59 < (r div 60) mod 60" "\<not> 60 < r mod 60" by linarith+
  have hms: "r div 3600 * 3600 + (r div 60) mod 60 * 60 + r mod 60 = r"
  proof -
    have "r div 3600 = r div 60 div 60" by (simp add: div_mult2_eq [symmetric])
    then show ?thesis using div_mult_mod_eq [of r 60] div_mult_mod_eq [of "r div 60" 60] by linarith
  qed
  have secs: "days_from_civil y m d * 86400 + r div 3600 * 3600 + (r div 60) mod 60 * 60 + r mod 60 = t div SECOND"
    using civil_round_trip(1) [OF c] hms div_mult_mod_eq [of "t div SECOND" 86400] unfolding r_def by linarith
  have off: "time_offset ''Z'' = Some 0" by code_simp
  have t: "t div SECOND * SECOND + f = t" by (simp add: f_def)
  have "parse_rfc3339 (stamp y m d (r div 3600) ((r div 60) mod 60) (r mod 60) @ frac_text f @ ''Z'') = Inr t"
    using w(2-8) ms assms unfolding r_def [symmetric]
    by (subst parse_stamp) (simp_all add: time_frac_text [OF f] off secs [unfolded of_nat_add] Let_def t
        del: of_nat_add of_nat_mult)
  then show ?thesis using w(1) [of "[]"] by (simp add: r_def f_def)
qed

text \<open>
  C24. Instants survive the text: reading what was written gives the same 64-bit instant, for all
  of them, the instant that means "not set" included.
\<close>

theorem rfc3339_roundtrip:
  assumes "t \<le> u64_max"
  shows "\<exists>s. write_rfc3339 t [] = Inr s \<and> parse_rfc3339 s = Inr t"
  by (rule rfc3339_read_back [OF assms])

theorem write_rfc3339_fits_witness:
  "\<exists>s. write_rfc3339 u64_max ''t='' = Inr (''t='' @ s) \<and> 20 \<le> length s \<and> length s \<le> 30"
  using write_rfc3339_fits [of u64_max "''t=''"] by simp

theorem rfc3339_roundtrip_witness:
  "\<exists>s. write_rfc3339 1790676672500000000 [] = Inr s \<and> parse_rfc3339 s = Inr 1790676672500000000"
  using rfc3339_roundtrip [of 1790676672500000000] by (simp add: u64_max_def)

section \<open>Durations: what is written is read back\<close>

lemma checked_digits_ok:
  assumes "v * 10 ^ length ds + digits_val ds \<le> u128_max"
  shows "checked_digits ds v = Some (v * 10 ^ length ds + digits_val ds)"
  using assms
proof (induction ds arbitrary: v)
  case (Cons c ds)
  have eq: "(v * 10 + digit_val c) * 10 ^ length ds + digits_val ds = v * 10 ^ length (c # ds) + digits_val (c # ds)"
    by (simp add: digits_val_Cons algebra_simps)
  have "v * 10 + digit_val c \<le> (v * 10 + digit_val c) * 10 ^ length ds + digits_val ds"
    by (simp add: trans_le_add1)
  then have "\<not> v * 10 + digit_val c > u128_max" using Cons.prems eq by linarith
  then show ?case using Cons.IH [of "v * 10 + digit_val c"] Cons.prems eq by simp
qed simp

lemma unit_scale_chars: "unit_scale u = Some sc \<Longrightarrow> list_all unit_char u \<and> u \<noteq> [] \<and> sc \<le> HOUR"
  by (auto simp: unit_scale_def unit_char_def is_digit_def SECOND_def MINUTE_def HOUR_def MICROSECOND_def
      MILLISECOND_def split: if_splits)

definition number_text :: "string \<Rightarrow> string \<Rightarrow> string" where
  "number_text ip fp = ip @ (if fp = [] then [] else CHR ''.'' # fp)"

text \<open>A text that goes on with a unit, and one that goes on with a digit or ends.\<close>

lemma split_number_text:
  assumes "list_all is_digit ip" "list_all is_digit fp" "list_all unit_char u" "u \<noteq> []"
  shows "split_number (number_text ip fp @ u @ rest) = (ip, fp, u @ rest)"
proof -
  obtain c cs where u: "u = c # cs" "\<not> is_digit c" "c \<noteq> CHR ''.''"
    using assms(3,4) by (cases u) (auto simp: unit_char_def)
  show ?thesis
  proof (cases "fp = []")
    case True
    have "split_number (ip @ c # cs @ rest) = (ip, [], c # cs @ rest)"
      using u assms(1) by (auto simp: split_number_def Let_def takeWhile_digits dropWhile_digits
        split: list.splits char.splits bool.splits)
    with True u show ?thesis by (simp add: number_text_def)
  next
    case False
    have "\<not> is_digit CHR ''.''" by (simp add: is_digit_def)
    with False u assms show ?thesis
      by (simp add: number_text_def split_number_def takeWhile_digits dropWhile_digits)
  qed
qed

lemma takeWhile_unit:
  assumes "list_all unit_char u" "rest = [] \<or> is_digit (hd rest)"
  shows "takeWhile unit_char (u @ rest) = u" "dropWhile unit_char (u @ rest) = rest"
proof -
  have "takeWhile unit_char rest = []" "dropWhile unit_char rest = rest"
    using assms(2) by (cases rest; simp add: unit_char_def)+
  moreover have "list_all unit_char u \<Longrightarrow> takeWhile unit_char (u @ rest) = u @ takeWhile unit_char rest"
    "list_all unit_char u \<Longrightarrow> dropWhile unit_char (u @ rest) = dropWhile unit_char rest"
    by (induction u) simp_all
  ultimately show "takeWhile unit_char (u @ rest) = u" "dropWhile unit_char (u @ rest) = rest"
    using assms(1) by simp_all
qed

lemma duration_loop_number:
  assumes "list_all is_digit ip" "ip \<noteq> []" "list_all is_digit fp" "length fp \<le> 18" "unit_scale u = Some sc"
    and "rest = [] \<or> is_digit (hd rest)"
    and v: "v = digits_val ip * sc + digits_val fp * sc div 10 ^ length fp" and "tot + v \<le> u128_max"
  shows "duration_loop (number_text ip fp @ u @ rest) tot = duration_loop rest (tot + v)"
proof -
  note u = unit_scale_chars [OF assms(5)]
  have pos: "0 < sc" using assms(5)
    by (auto simp: unit_scale_def SECOND_def MINUTE_def HOUR_def MICROSECOND_def MILLISECOND_def split: if_splits)
  have "digits_val ip \<le> digits_val ip * sc" using pos by simp
  also have "\<dots> \<le> u128_max" using v assms(8) by linarith
  finally have "checked_digits ip 0 = Some (digits_val ip)" by (subst checked_digits_ok) simp_all
  then have part: "duration_part ip fp sc = Some (Inr v)" using assms(4,8) v by (simp add: duration_part_def)
  have ne: "number_text ip fp @ u @ rest \<noteq> []" using u by simp
  show ?thesis
    unfolding duration_loop.simps [of "number_text ip fp @ u @ rest"] if_not_P [OF ne]
    using assms(2,5,8) part u
    by (simp add: split_number_text [OF assms(1,3)] takeWhile_unit [OF _ assms(6)])
qed

lemma duration_loop_Nil [simp]: "duration_loop [] tot = Some (Inr tot)"
  by (simp add: duration_loop.simps)

lemma frac_width_pow: "frac_width (10 ^ k) = k"
proof (induction k)
  case 0
  show ?case by (subst frac_width.simps) simp
next
  case (Suc k)
  have "(1::nat) < 10 ^ Suc k" by (rule one_less_power) simp_all
  with Suc show ?case by (subst frac_width.simps) simp
qed

lemma drop_tens_spec:
  assumes "0 < f" "f < 10 ^ w" "drop_tens f w = (g, x)"
  shows "0 < g \<and> g < 10 ^ x \<and> x \<le> w \<and> f = g * 10 ^ (w - x)"
  using assms
proof (induction f w arbitrary: g x rule: drop_tens.induct)
  case (1 f w)
  show ?case
  proof (cases "10 dvd f")
    case True
    have w: "w \<noteq> 0" using 1(2,3) by (cases w) auto
    then have "f div 10 < 10 ^ (w - 1)" using 1(3) by (cases w) (auto simp: mult.commute intro: less_mult_imp_div_less)
    moreover have "0 < f div 10" using True 1(2) by (auto elim: dvdE)
    moreover have "drop_tens (f div 10) (w - 1) = (g, x)" using 1(2,4) True by (simp add: drop_tens.simps [of f])
    ultimately have ih: "0 < g \<and> g < 10 ^ x \<and> x \<le> w - 1 \<and> f div 10 = g * 10 ^ (w - 1 - x)"
      using 1(1) 1(2) True by blast
    have "f = f div 10 * 10" using True by simp
    also have "\<dots> = g * 10 ^ Suc (w - 1 - x)" using ih by simp
    also have "Suc (w - 1 - x) = w - x" using ih w by linarith
    finally show ?thesis using ih by auto
  next
    case False
    then show ?thesis using 1 by (simp add: drop_tens.simps [of f])
  qed
qed

text \<open>The digits after the point of a number of units.\<close>

definition frac_part_text :: "nat \<Rightarrow> nat \<Rightarrow> string" where
  "frac_part_text v k =
     (if v mod 10 ^ k > 0 then case drop_tens (v mod 10 ^ k) k of (g, x) \<Rightarrow> pad_text x g else [])"

lemma frac_part_text_ok:
  assumes "fp = frac_part_text v k"
  shows "list_all is_digit fp" "length fp \<le> k" "digits_val fp * 10 ^ k div 10 ^ length fp = v mod 10 ^ k"
    "fp = [] \<longleftrightarrow> v mod 10 ^ k = 0"
proof -
  have "list_all is_digit fp \<and> length fp \<le> k \<and> digits_val fp * 10 ^ k div 10 ^ length fp = v mod 10 ^ k \<and>
      (fp = [] \<longleftrightarrow> v mod 10 ^ k = 0)"
  proof (cases "v mod 10 ^ k > 0")
    case True
    obtain g x where gx: "drop_tens (v mod 10 ^ k) k = (g, x)" by fastforce
    have d: "0 < g" "g < 10 ^ x" "x \<le> k" "v mod 10 ^ k = g * 10 ^ (k - x)"
      using drop_tens_spec [OF True _ gx] by auto
    have "0 < x" using d(1,2) by (cases x) auto
    then have len: "length (pad_text x g) = x" using d(2) by (simp add: length_pad_text)
    have "g * 10 ^ k = g * 10 ^ (k - x) * 10 ^ x" using d(3) by (simp add: power_add [symmetric])
    then have "g * 10 ^ k div 10 ^ x = g * 10 ^ (k - x)" by (metis div_mult_self_is_m zero_less_power zero_less_numeral)
    with d True gx len \<open>0 < x\<close> assms show ?thesis by (auto simp: frac_part_text_def)
  qed (simp add: assms frac_part_text_def)
  then show "list_all is_digit fp" "length fp \<le> k" "digits_val fp * 10 ^ k div 10 ^ length fp = v mod 10 ^ k"
    "fp = [] \<longleftrightarrow> v mod 10 ^ k = 0" by auto
qed

lemma write_frac_text:
  assumes "length buf + length (number_text (nat_text (v div 10 ^ k)) (frac_part_text v k)) + length suffix \<le> FIXED_BUF"
  shows "write_frac buf v (10 ^ k) suffix =
    Some (buf @ number_text (nat_text (v div 10 ^ k)) (frac_part_text v k) @ suffix)"
proof (cases "v mod 10 ^ k > 0")
  case True
  obtain g x where gx: "drop_tens (v mod 10 ^ k) k = (g, x)" by fastforce
  have "frac_part_text v k = pad_text x g" using True gx by (simp add: frac_part_text_def)
  moreover have "frac_part_text v k \<noteq> []" using True frac_part_text_ok(4) [OF refl, of v k] by simp
  ultimately show ?thesis using assms True gx
    by (simp add: write_frac_def frac_width_pow fb_write_def number_text_def)
next
  case False
  then show ?thesis using assms
    by (simp add: write_frac_def fb_write_def number_text_def frac_part_text_def)
qed


definition unit_text :: "nat \<Rightarrow> nat \<Rightarrow> string \<Rightarrow> string" where
  "unit_text v k u = number_text (nat_text (v div 10 ^ k)) (frac_part_text v k) @ u"

definition duration_text :: "nanos \<Rightarrow> string" where
  "duration_text d =
     (if d = 0 then ''0s''
      else if d < MICROSECOND then unit_text d 0 ''ns''
      else if d < MILLISECOND then unit_text d 3 [CHR 0xC2, CHR 0xB5, CHR ''s'']
      else if d < SECOND then unit_text d 6 ''ms''
      else (if d div HOUR > 0 then unit_text (d div HOUR) 0 ''h'' else []) @
        (if d div HOUR > 0 \<or> (d div MINUTE) mod 60 > 0 then unit_text ((d div MINUTE) mod 60) 0 ''m'' else []) @
        unit_text (d mod MINUTE) 9 ''s'')"

lemma frac_part_text_0 [simp]: "frac_part_text v 0 = []"
  by (simp add: frac_part_text_def)

lemma unit_text_0: "unit_text v 0 u = nat_text v @ u"
  by (simp add: unit_text_def number_text_def)

lemma length_unit_text:
  assumes "v < 10 ^ (k + n)" "0 < n"
  shows "length (unit_text v k u) \<le> n + Suc k + length u"
proof -
  have "v div 10 ^ k < 10 ^ n" using assms(1) by (simp add: power_add mult.commute less_mult_imp_div_less)
  then have "length (nat_text (v div 10 ^ k)) \<le> n" using assms(2) by (rule length_nat_text_less)
  then show ?thesis using frac_part_text_ok(2) [OF refl, of v k] by (auto simp: unit_text_def number_text_def)
qed

lemma write_frac_unit:
  assumes "un = 10 ^ k" "length buf + length (unit_text v k u) \<le> FIXED_BUF"
  shows "write_frac buf v un u = Some (buf @ unit_text v k u)"
  using write_frac_text [of buf v k u] assms by (simp add: unit_text_def)

lemma unit_text_hd: "unit_text v k u @ rest \<noteq> [] \<and> is_digit (hd (unit_text v k u @ rest))"
  using nat_text_digits [of "v div 10 ^ k"] by (cases "nat_text (v div 10 ^ k)") (auto simp: unit_text_def number_text_def)

lemma duration_loop_unit:
  assumes "unit_scale u = Some (10 ^ k * n)" "k \<le> 18" "k \<noteq> 0 \<longrightarrow> n = 1" "rest = [] \<or> is_digit (hd rest)"
    "tot + v * n \<le> u128_max"
  shows "duration_loop (unit_text v k u @ rest) tot = duration_loop rest (tot + v * n)"
proof -
  note f = frac_part_text_ok [OF refl, of v k]
  have "(v div 10 ^ k) * (10 ^ k * n) + digits_val (frac_part_text v k) * (10 ^ k * n) div 10 ^ length (frac_part_text v k) = v * n"
  proof (cases "k = 0")
    case False
    with assms(3) f(3) show ?thesis using div_mult_mod_eq [of v "10 ^ k"] by simp
  qed simp
  then show ?thesis unfolding unit_text_def append.assoc using assms f(1,2)
    by (intro duration_loop_number) auto
qed

lemma write_duration_text:
  assumes "d \<le> u64_max"
  shows "write_duration d out = Inr (out @ duration_text d)" "length (duration_text d) \<le> FIXED_BUF"
proof -
  let ?h = "d div HOUR" and ?m = "(d div MINUTE) mod 60" and ?s = "d mod MINUTE"
  have units: "MICROSECOND = 10 ^ 3" "MILLISECOND = 10 ^ 6" "SECOND = 10 ^ 9"
    by (simp_all add: MICROSECOND_def MILLISECOND_def SECOND_def)
  have "?h \<le> u64_max div HOUR" by (rule div_le_mono [OF assms])
  then have "?h < 10 ^ (0 + 7)" by (simp add: u64_max_def HOUR_def MINUTE_def SECOND_def)
  then have h: "length (unit_text ?h 0 ''h'') \<le> 9" using length_unit_text [of ?h 0 7 "''h''"] by simp
  have "?m < 10 ^ (0 + 2)" by (simp add: less_le_trans [OF mod_less_divisor])
  then have m: "length (unit_text ?m 0 ''m'') \<le> 4" using length_unit_text [of ?m 0 2 "''m''"] by simp
  have "?s < 10 ^ (9 + 2)" by (simp add: MINUTE_def SECOND_def less_le_trans [OF mod_less_divisor])
  then have s: "length (unit_text ?s 9 ''s'') \<le> 13" using length_unit_text [of ?s 9 2 "''s''"] by simp
  have ns: "d < MICROSECOND \<Longrightarrow> length (unit_text d 0 ''ns'') \<le> 6"
    using length_unit_text [of d 0 3 "''ns''"] by (simp add: MICROSECOND_def)
  have us: "d < MILLISECOND \<Longrightarrow> length (unit_text d 3 [CHR 0xC2, CHR 0xB5, CHR ''s'']) \<le> 10"
    using length_unit_text [of d 3 3 "[CHR 0xC2, CHR 0xB5, CHR ''s'']"] by (simp add: MILLISECOND_def)
  have ms: "d < SECOND \<Longrightarrow> length (unit_text d 6 ''ms'') \<le> 12"
    using length_unit_text [of d 6 3 "''ms''"] by (simp add: SECOND_def)
  show "length (duration_text d) \<le> FIXED_BUF"
    using h m s ns us ms by (auto simp: duration_text_def FIXED_BUF_def)
  show "write_duration d out = Inr (out @ duration_text d)"
    using h m s ns us ms unfolding write_duration_def duration_text_def
    by (auto simp: write_frac_unit [OF units(1)] write_frac_unit [OF units(2)] write_frac_unit [OF units(3)]
        unit_text_0 fb_write_def FIXED_BUF_def Let_def)
qed


lemma unit_scales:
  "unit_scale ''ns'' = Some (10 ^ 0 * 1)" "unit_scale [CHR 0xC2, CHR 0xB5, CHR ''s''] = Some (10 ^ 3 * 1)"
  "unit_scale ''ms'' = Some (10 ^ 6 * 1)" "unit_scale ''s'' = Some (10 ^ 9 * 1)"
  "unit_scale ''m'' = Some (10 ^ 0 * MINUTE)" "unit_scale ''h'' = Some (10 ^ 0 * HOUR)"
  by (simp_all add: unit_scale_def MICROSECOND_def MILLISECOND_def SECOND_def)

lemmas duration_loop_units = unit_scales [THEN duration_loop_unit]

lemma duration_loop_text:
  assumes "d \<le> u64_max"
  shows "duration_loop (duration_text d) 0 = Some (Inr d)"
proof (cases "d < SECOND")
  case True
  have "d \<le> u128_max" using assms by (simp add: u64_max_def u128_max_def)
  moreover have "duration_loop ''0s'' 0 = Some (Inr 0)" by code_simp
  ultimately show ?thesis using True duration_loop_units(1,2,3) [of "[]" 0 d]
    by (auto simp: duration_text_def)
next
  case False
  define h where "h = d div HOUR"
  define m where "m = (d div MINUTE) mod 60"
  define s where "s = d mod MINUTE"
  have "d div HOUR = d div MINUTE div 60" by (simp add: HOUR_def div_mult2_eq mult.commute)
  then have d: "h * HOUR + m * MINUTE + s = d"
  proof -
    have "(h * 60 + m) * MINUTE + s = d"
      unfolding h_def m_def s_def \<open>d div HOUR = d div MINUTE div 60\<close> by (simp only: div_mult_mod_eq)
    then show ?thesis by (simp add: HOUR_def algebra_simps)
  qed
  have max: "d \<le> u128_max" using assms by (simp add: u64_max_def u128_max_def)
  have dt: "duration_text d = (if h > 0 then unit_text h 0 ''h'' else []) @
      (if h > 0 \<or> m > 0 then unit_text m 0 ''m'' else []) @ unit_text s 9 ''s''"
    using False by (simp add: duration_text_def h_def m_def s_def SECOND_def MICROSECOND_def MILLISECOND_def)
  have sec: "duration_loop (unit_text s 9 ''s'') tot = Some (Inr (tot + s))" if "tot + s \<le> u128_max" for tot
    using duration_loop_units(4) [of "[]" tot s] that by simp
  have min: "duration_loop (unit_text m 0 ''m'' @ unit_text s 9 ''s'') tot = Some (Inr (tot + m * MINUTE + s))"
    if "tot + m * MINUTE + s \<le> u128_max" for tot
    using duration_loop_units(5) [of "unit_text s 9 ''s''" tot m] that unit_text_hd [of s 9 "''s''" "[]"] sec by simp
  have hr: "duration_loop (unit_text h 0 ''h'' @ unit_text m 0 ''m'' @ unit_text s 9 ''s'') 0 = Some (Inr d)"
    using duration_loop_units(6) [of "unit_text m 0 ''m'' @ unit_text s 9 ''s''" 0 h] max d
      unit_text_hd [of m 0 "''m''" "unit_text s 9 ''s''"] min by simp
  show ?thesis using hr min [of 0] sec [of 0] max d by (auto simp: dt)
qed

lemma duration_text_shape:
  "is_digit (hd (duration_text d))" "1 < length (duration_text d)"
proof -
  have hd: "is_digit (hd (unit_text v k u @ rest))" for v k u rest using unit_text_hd by blast
  have len: "1 < length (unit_text v k u)" if "u \<noteq> []" for v k u
    using that nat_text_nonempty [of "v div 10 ^ k"]
    by (cases "nat_text (v div 10 ^ k)"; cases u) (auto simp: unit_text_def number_text_def)
  show "is_digit (hd (duration_text d))" using hd [of _ _ _ "[]"] hd by (simp add: duration_text_def is_digit_def)
  show "1 < length (duration_text d)" using len by (auto simp: duration_text_def intro: trans_less_add1 trans_less_add2)
qed

text \<open>
  C31. Durations survive the text: what is written fits the buffer and is read back as the same
  duration, up to the 292 years (\<^verbatim>\<open>i64::MAX\<close> nanoseconds) that reading accepts; a longer one is
  written but refused with \<open>Overflow\<close> when read.
\<close>

theorem duration_roundtrip:
  assumes "d \<le> u64_max"
  shows "\<exists>s. write_duration d [] = Inr s \<and>
    parse_duration s = Some (if d \<le> nat i64_max then Inr d else Inl DurOverflow)"
  using assms duration_loop_text [OF assms] duration_text_shape [of d]
  by (auto simp: write_duration_text parse_duration_def Let_def is_digit_def)


theorem duration_roundtrip_witness:
  "\<exists>s. write_duration 5400000000001 [] = Inr s \<and> parse_duration s = Some (Inr 5400000000001)"
  using duration_roundtrip [of 5400000000001] by (simp add: u64_max_def i64_max_def)

section \<open>Durations: the parser returns on short texts\<close>

lemma duration_part_panics:
  assumes "duration_part ip fp sc = None" "sc \<le> HOUR" "list_all is_digit ip" "list_all is_digit fp"
  shows "26 \<le> length ip \<and> fp \<noteq> []"
proof -
  define fs where "fs = take 18 fp"
  obtain v where v: "checked_digits ip 0 = Some v" "v * sc \<le> u128_max"
    and big: "u128_max < v * sc + digits_val fs * sc div 10 ^ length fs"
    using assms(1) by (auto simp: duration_part_def fs_def Let_def split: option.splits if_splits)
  have "list_all is_digit fs" using assms(4) unfolding fs_def list_all_iff by (meson in_set_takeD)
  then have "digits_val fs < 10 ^ length fs" by (rule digits_val_less)
  then have "digits_val fs * sc \<le> 10 ^ length fs * sc" by simp
  then have "digits_val fs * sc div 10 ^ length fs \<le> sc"
    by (metis div_le_mono nonzero_mult_div_cancel_left power_not_zero zero_neq_numeral)
  with big have "u128_max < (v + 1) * sc" by simp
  also have "\<dots> \<le> (v + 1) * HOUR" using assms(2) by (rule mult_le_mono2)
  finally have "10 ^ 25 \<le> v" by (simp add: u128_max_def HOUR_def MINUTE_def SECOND_def)
  moreover have "checked_digits ds w = Some u \<Longrightarrow> u = w * 10 ^ length ds + digits_val ds" for ds w u
  proof (induction ds arbitrary: w)
    case (Cons c ds)
    then have "u = (w * 10 + digit_val c) * 10 ^ length ds + digits_val ds" by (simp split: if_splits)
    then show ?case by (simp add: digits_val_Cons algebra_simps)
  qed simp
  then have "v = digits_val ip" using v(1) by fastforce
  moreover have "digits_val ip < 10 ^ length ip" by (rule digits_val_less [OF assms(3)])
  ultimately have "(10::nat) ^ 25 < 10 ^ length ip" by simp
  then have "25 < length ip" by (rule power_less_imp_less_exp [rotated]) simp
  moreover have "fp \<noteq> []" using big v(2) by (auto simp: fs_def)
  ultimately show ?thesis by simp
qed

lemma split_number_parts:
  assumes "split_number rest = (ip, fp, after)"
  shows "list_all is_digit ip" "list_all is_digit fp" "fp \<noteq> [] \<Longrightarrow> length rest = length ip + 1 + length fp + length after"
proof -
  let ?a = "dropWhile is_digit rest"
  have len: "length rest = length (takeWhile is_digit rest) + length ?a"
    by (metis length_append takeWhile_dropWhile_id)
  have dig: "list_all is_digit (takeWhile is_digit xs)" for xs by (auto simp: list_all_iff dest: set_takeWhileD)
  have "list_all is_digit ip \<and> list_all is_digit fp \<and> (fp \<noteq> [] \<longrightarrow> length rest = length ip + 1 + length fp + length after)"
  proof (cases "\<exists>a. ?a = CHR ''.'' # a")
    case True
    then obtain a where a: "?a = CHR ''.'' # a" by blast
    moreover have "length a = length (takeWhile is_digit a) + length (dropWhile is_digit a)"
      by (metis length_append takeWhile_dropWhile_id)
    ultimately show ?thesis using assms len dig by (auto simp: split_number_def)
  next
    case False
    then have "split_number rest = (takeWhile is_digit rest, [], ?a)"
      by (auto simp: split_number_def Let_def split: list.splits char.splits bool.splits)
    with assms dig show ?thesis by auto
  qed
  then show "list_all is_digit ip" "list_all is_digit fp"
    "fp \<noteq> [] \<Longrightarrow> length rest = length ip + 1 + length fp + length after" by auto
qed

lemma duration_loop_returns:
  assumes "length rest \<le> 28"
  shows "duration_loop rest tot \<noteq> None"
  using assms
proof (induction rest tot rule: duration_loop.induct)
  case (1 rest tot)
  obtain ip fp after where sp: "split_number rest = (ip, fp, after)" by (metis prod_cases3)
  have part: "duration_part ip fp sc \<noteq> None" if u: "unit_scale (takeWhile unit_char after) = Some sc" for sc
  proof
    assume "duration_part ip fp sc = None"
    from duration_part_panics [OF this _ split_number_parts(1,2) [OF sp]] unit_scale_chars [OF u]
    have "26 \<le> length ip" "fp \<noteq> []" by auto
    moreover have "0 < length after" using unit_scale_chars [OF u] by auto
    moreover have "0 < length fp" using \<open>fp \<noteq> []\<close> by simp
    ultimately show False using split_number_parts(3) [OF sp] "1.prems" by linarith
  qed
  have shrink: "length (dropWhile unit_char after) \<le> 28" if "\<not> (ip = [] \<and> fp = [])"
    using duration_shrinks [OF sp [symmetric]] that "1.prems" by auto
  show ?case
    using "1.IH" [OF _ sp [symmetric] refl] part shrink
    by (subst duration_loop.simps) (auto simp: sp split: option.splits sum.splits)
qed

text \<open>
  C26. Reading a duration returns a value or an error on every text of at most 28 bytes, and that
  bound is sharp: on a text of 29 bytes the addition of the fraction overflows 128 bits, which
  stops the program instead of giving \<open>Overflow\<close>.
\<close>

theorem parse_duration_returns:
  "(length s \<le> 28 \<longrightarrow> parse_duration s \<noteq> None) \<and>
   length ''94522879700260684295381835.9h'' = 29 \<and>
   parse_duration ''94522879700260684295381835.9h'' = None"
proof -
  have "parse_duration ''94522879700260684295381835.9h'' = None" by code_simp
  moreover have "parse_duration s \<noteq> None" if "length s \<le> 28"
  proof -
    define rest where "rest = (if s \<noteq> [] \<and> hd s = CHR ''-'' \<or> s \<noteq> [] \<and> hd s = CHR ''+'' then tl s else s)"
    have "length rest \<le> 28" using that by (auto simp: rest_def)
    from duration_loop_returns [OF this, of 0] show ?thesis
      unfolding parse_duration_def Let_def rest_def [symmetric] by (auto split: sum.splits)
  qed
  ultimately show ?thesis by simp
qed

theorem parse_duration_returns_witness:
  "length ''1m30s'' \<le> 28 \<and> parse_duration ''1m30s'' \<noteq> None"
  using parse_duration_returns [of "''1m30s''"] by simp

end
