(* ===== verification/Types_De.thy ===== *)
theory Types_De
  imports Json_Roundtrip Types_Time
begin

text \<open>
  \<^verbatim>\<open>types/src/de.rs\<close>: the readers of typed fields, each with the name of the field in its
  error, and the builder of an object for the writing side.  A builder is the list of pairs it
  holds so far; each of its methods adds at the end.
\<close>

section \<open>Readers\<close>

definition wrong_type :: "string \<Rightarrow> string \<Rightarrow> 'a run" where
  "wrong_type field want = fails (WrongType (name_new field) want)"

definition de_object :: "json \<Rightarrow> string \<Rightarrow> (string \<times> json) list run" where
  "de_object v field = (case as_object v of Some o1 \<Rightarrow> ok o1 | None \<Rightarrow> wrong_type field ''an object'')"

definition de_array :: "json \<Rightarrow> string \<Rightarrow> json list run" where
  "de_array v field = (case as_array v of Some a \<Rightarrow> ok a | None \<Rightarrow> wrong_type field ''an array'')"

definition de_string :: "json \<Rightarrow> string \<Rightarrow> string run" where
  "de_string v field = (case as_str v of Some s \<Rightarrow> ok s | None \<Rightarrow> wrong_type field ''a string'')"

definition de_boolean :: "json \<Rightarrow> string \<Rightarrow> bool run" where
  "de_boolean v field = (case as_bool v of Some b \<Rightarrow> ok b | None \<Rightarrow> wrong_type field ''a bool'')"

definition de_int :: "json \<Rightarrow> string \<Rightarrow> int run" where
  "de_int v field =
     (case v of
        JNumber n \<Rightarrow> (case number_as_i64 n of Some i \<Rightarrow> ok i | None \<Rightarrow> fails (OutOfRange (name_new field)))
      | _ \<Rightarrow> wrong_type field ''an integer'')"

definition de_uint :: "json \<Rightarrow> string \<Rightarrow> nat run" where
  "de_uint v field =
     (case v of
        JNumber n \<Rightarrow> (case number_as_u64 n of Some i \<Rightarrow> ok i | None \<Rightarrow> fails (OutOfRange (name_new field)))
      | _ \<Rightarrow> wrong_type field ''a non-negative integer'')"

definition de_float :: "float_text \<Rightarrow> json \<Rightarrow> string \<Rightarrow> f64 run" where
  "de_float fl v field =
     (case v of JNumber n \<Rightarrow> ok (number_as_f64 fl n) | _ \<Rightarrow> wrong_type field ''a number'')"

fun duration_why :: "duration_error \<Rightarrow> string" where
  "duration_why DurInvalid = ''not a duration (try '' @ [CHR 0x22] @ ''30s'' @ [CHR 0x22] @ '')''"
| "duration_why DurNegative = ''negative duration''"
| "duration_why DurOverflow = ''duration too large''"

definition de_duration_str :: "string \<Rightarrow> string \<Rightarrow> nanos run" where
  "de_duration_str s field =
     (case parse_duration s of
        None \<Rightarrow> None
      | Some (Inr d) \<Rightarrow> ok d
      | Some (Inl e) \<Rightarrow> fails (Invalid (name_new field) (duration_why e)))"

definition de_duration :: "json \<Rightarrow> string \<Rightarrow> nanos run" where
  "de_duration v field = (case v of JString s \<Rightarrow> de_duration_str s field | _ \<Rightarrow> de_uint v field)"

definition str_map_step :: "string \<Rightarrow> string \<times> json \<Rightarrow> string hmap \<Rightarrow> string hmap run" where
  "str_map_step field kv m = run_bind (de_string (snd kv) field) (\<lambda>s. ok (snd (hmap_insert m (fst kv) s)))"

definition de_str_map :: "json \<Rightarrow> string \<Rightarrow> nat \<Rightarrow> string hmap run" where
  "de_str_map v field maxn =
     run_bind (de_object v field) (\<lambda>obj.
       if length obj > maxn then fails (TooMany (name_new field) maxn)
       else run_fold (str_map_step field) obj hmap_new)"

definition de_list :: "json \<Rightarrow> string \<Rightarrow> nat \<Rightarrow> (json \<Rightarrow> 'a run) \<Rightarrow> 'a list run" where
  "de_list v field maxn each =
     run_bind (de_array v field) (\<lambda>arr.
       if length arr > maxn then fails (TooMany (name_new field) maxn) else run_map each arr)"

definition de_unknown :: "string \<Rightarrow> bool \<Rightarrow> unit run" where
  "de_unknown key strict = (if strict then fails (UnknownField (name_new key)) else ok ())"

section \<open>The builder\<close>

type_synonym builder = "(string \<times> json) list"

definition ob_field :: "string \<Rightarrow> json \<Rightarrow> builder \<Rightarrow> builder" where
  "ob_field key v o1 = obj_push o1 key v"

definition ob_str :: "string \<Rightarrow> string \<Rightarrow> builder \<Rightarrow> builder" where
  "ob_str key s o1 = ob_field key (JString s) o1"

definition ob_str_opt :: "string \<Rightarrow> string \<Rightarrow> builder \<Rightarrow> builder" where
  "ob_str_opt key s o1 = (if s = [] then o1 else ob_str key s o1)"

definition ob_int_opt :: "string \<Rightarrow> int \<Rightarrow> builder \<Rightarrow> builder" where
  "ob_int_opt key n o1 = (if n = 0 then o1 else ob_field key (json_int n) o1)"

definition ob_uint_opt :: "string \<Rightarrow> nat \<Rightarrow> builder \<Rightarrow> builder" where
  "ob_uint_opt key n o1 = (if n = 0 then o1 else ob_field key (json_uint n) o1)"

definition str_map_value :: "string hmap \<Rightarrow> json" where
  "str_map_value m = JObject (fold (\<lambda>(k, v) o1. obj_push o1 k (JString v)) (hmap_iter m) [])"

definition ob_map_opt :: "string \<Rightarrow> string hmap \<Rightarrow> builder \<Rightarrow> builder" where
  "ob_map_opt key m o1 = (if hmap_is_empty m then o1 else ob_field key (str_map_value m) o1)"

section \<open>Lemmas\<close>

lemma fold_obj_push: "fold (\<lambda>(k, v) o1. obj_push o1 k (f v)) ps o1 = o1 @ map (\<lambda>(k, v). (k, f v)) ps"
  by (induction ps arbitrary: o1) (auto simp: obj_push_def)

lemma str_map_value_eq: "str_map_value m = JObject (map (\<lambda>(k, v). (k, JString v)) m)"
  by (simp add: str_map_value_def hmap_iter_def fold_obj_push [of JString])

text \<open>Reading a value back from the form it is written in.\<close>

definition i64_range :: "int \<Rightarrow> bool" where
  "i64_range v \<longleftrightarrow> i64_min \<le> v \<and> v \<le> i64_max"

lemma de_string_JString [simp]: "de_string (JString s) f = ok s"
  by (simp add: de_string_def as_str_def)

lemma de_boolean_JBool [simp]: "de_boolean (JBool b) f = ok b"
  by (simp add: de_boolean_def as_bool_def)

lemma de_int_json_int [simp]: "i64_range v \<Longrightarrow> de_int (json_int v) f = ok v"
  by (auto simp: i64_range_def de_int_def json_int_def number_as_i64_def)

lemma de_uint_json_uint [simp]: "de_uint (json_uint v) f = ok v"
  by (simp add: de_uint_def json_uint_def number_as_u64_def)

lemma de_duration_json_uint [simp]: "de_duration (json_uint v) f = ok v"
  by (simp add: de_duration_def json_uint_def de_uint_def number_as_u64_def)

lemma json_num_not_null [simp]: "json_int v \<noteq> JNull" "json_uint n \<noteq> JNull"
  by (simp_all add: json_int_def json_uint_def)

lemma str_map_value_not_null [simp]: "str_map_value m \<noteq> JNull"
  by (simp add: str_map_value_def)

lemma str_map_steps:
  "run_fold (str_map_step f) (map (\<lambda>(k, v). (k, JString v)) ps) m = ok (hmap_insert_all m ps)"
proof (induction ps arbitrary: m)
  case (Cons p ps)
  then show ?case by (cases p) (simp add: str_map_step_def)
qed simp

lemma de_str_map_value:
  assumes "hmap_inv m" "length m \<le> n"
  shows "de_str_map (str_map_value m) f n = ok m"
  using assms hmap_insert_all_run [of "[]" m]
  by (simp add: de_str_map_def str_map_value_eq de_object_def as_object_def str_map_steps hmap_new_def)

lemma de_list_map:
  assumes "length xs \<le> n" "\<And>x. x \<in> set xs \<Longrightarrow> each (f x) = ok x"
  shows "de_list (JArray (map f xs)) field n each = ok xs"
proof -
  have "run_map each (map f xs) = ok (map id xs)" using assms(2) by (induction xs) auto
  with assms(1) show ?thesis by (simp add: de_list_def de_array_def as_array_def)
qed

text \<open>What the readers return of a well-typed value.\<close>

lemma returns_wrong_type [simp]: "returns P (wrong_type f w)"
  by (simp add: wrong_type_def)

lemma de_string_returns: "json_ok n v \<Longrightarrow> returns utf8_valid (de_string v f)"
  by (cases n; cases v) (auto simp: de_string_def as_str_def)

lemma de_int_returns: "json_ok n v \<Longrightarrow> returns i64_range (de_int v f)"
  by (cases n; cases v) (auto simp: de_int_def number_as_i64_def i64_range_def i64_min_def i64_max_def
      split: number.splits option.splits if_splits)

lemma de_uint_returns: "json_ok n v \<Longrightarrow> returns (\<lambda>x. x \<le> u64_max) (de_uint v f)"
  by (cases n; cases v) (auto simp: de_uint_def number_as_u64_def split: number.splits option.splits)

end
