(* ===== verification/Types_Json.thy ===== *)
theory Types_Json
  imports Types_De
begin

text \<open>
  The JSON form of a job: \<^verbatim>\<open>from_value\<close>, \<^verbatim>\<open>to_value\<close>, \<^verbatim>\<open>from_json\<close> and \<^verbatim>\<open>to_json\<close> of \<^verbatim>\<open>types/src/job.rs\<close>
  for a job, its artifacts and its health check.  Reading goes over the pairs of the object in
  the order of the document and changes one field at a time; a null counts as absent.

  \<open>job_ok\<close> is what the Rust types say of a job (texts are UTF-8, numbers fit their width, maps are
  sorted) with the bounds the reader enforces.  What is read satisfies it, and a job that
  satisfies it is read back from what is written.
\<close>

section \<open>Reading\<close>

definition MAX_MAP_ENTRIES :: nat where
  "MAX_MAP_ENTRIES = 256"

definition MAX_ARTIFACTS :: nat where
  "MAX_ARTIFACTS = 16"

definition MAX_PORTS :: nat where
  "MAX_PORTS = 64"

definition u16_max :: nat where
  "u16_max = 65535"

definition parse_opt :: "json \<Rightarrow> string \<Rightarrow> (string \<Rightarrow> 'a option) \<Rightarrow> 'a option run" where
  "parse_opt v field parse =
     (case as_str v of
        None \<Rightarrow> wrong_type field ''a string''
      | Some s \<Rightarrow>
          if s = [] then ok None
          else case parse s of
                 Some x \<Rightarrow> ok (Some x)
               | None \<Rightarrow> fails (Invalid (name_new field) ''unknown value''))"

definition port_step :: "string \<Rightarrow> string \<times> json \<Rightarrow> nat hmap \<Rightarrow> nat hmap run" where
  "port_step field kv m =
     run_bind (de_uint (snd kv) field) (\<lambda>n.
       if n > u16_max then fails (OutOfRange (name_new field))
       else ok (snd (hmap_insert m (fst kv) n)))"

definition de_ports :: "json \<Rightarrow> string \<Rightarrow> nat hmap run" where
  "de_ports v field =
     run_bind (de_object v field) (\<lambda>obj.
       if length obj > MAX_PORTS then fails (TooMany (name_new field) MAX_PORTS)
       else run_fold (port_step field) obj hmap_new)"

definition artifact_field :: "bool \<Rightarrow> string \<times> json \<Rightarrow> artifact \<Rightarrow> artifact run" where
  "artifact_field strict kv a =
     (case kv of (k, v) \<Rightarrow>
        if is_null v then ok a
        else if k = ''url'' then run_bind (de_string v k) (\<lambda>x. ok (a\<lparr>art_url := x\<rparr>))
        else if k = ''match'' then run_bind (de_str_map v k MAX_MAP_ENTRIES) (\<lambda>x. ok (a\<lparr>art_matches := x\<rparr>))
        else if k = ''headers'' then run_bind (de_str_map v k MAX_MAP_ENTRIES) (\<lambda>x. ok (a\<lparr>art_headers := x\<rparr>))
        else if k = ''auth'' then run_bind (de_str_map v k MAX_MAP_ENTRIES) (\<lambda>x. ok (a\<lparr>art_auth := x\<rparr>))
        else if k = ''extract'' then run_bind (de_string v k) (\<lambda>x. ok (a\<lparr>art_extract := x\<rparr>))
        else if k = ''filename'' then run_bind (de_string v k) (\<lambda>x. ok (a\<lparr>art_filename := x\<rparr>))
        else run_bind (de_unknown k strict) (\<lambda>_. ok a))"

definition artifact_from_value :: "bool \<Rightarrow> json \<Rightarrow> artifact run" where
  "artifact_from_value strict v =
     run_bind (de_object v ''artifacts'') (\<lambda>obj. run_fold (artifact_field strict) obj artifact_default)"

definition health_field :: "bool \<Rightarrow> string \<times> json \<Rightarrow> health_check \<Rightarrow> health_check run" where
  "health_field strict kv h =
     (case kv of (k, v) \<Rightarrow>
        if is_null v then ok h
        else if k = ''type'' then run_bind (parse_opt v k check_parse) (\<lambda>x. ok (h\<lparr>hc_kind := x\<rparr>))
        else if k = ''path'' then run_bind (de_string v k) (\<lambda>x. ok (h\<lparr>hc_path := x\<rparr>))
        else if k = ''port'' then run_bind (de_string v k) (\<lambda>x. ok (h\<lparr>hc_port := x\<rparr>))
        else if k = ''interval'' then run_bind (de_duration v k) (\<lambda>x. ok (h\<lparr>hc_interval := x\<rparr>))
        else if k = ''timeout'' then run_bind (de_duration v k) (\<lambda>x. ok (h\<lparr>hc_timeout := x\<rparr>))
        else if k = ''initial_timeout'' then run_bind (de_duration v k) (\<lambda>x. ok (h\<lparr>hc_initial_timeout := x\<rparr>))
        else if k = ''failure_threshold'' then run_bind (de_int v k) (\<lambda>x. ok (h\<lparr>hc_failure_threshold := x\<rparr>))
        else run_bind (de_unknown k strict) (\<lambda>_. ok h))"

definition health_from_value :: "bool \<Rightarrow> json \<Rightarrow> health_check run" where
  "health_from_value strict v =
     run_bind (de_object v ''health_check'') (\<lambda>obj. run_fold (health_field strict) obj health_check_default)"

definition job_field :: "bool \<Rightarrow> string \<times> json \<Rightarrow> job \<Rightarrow> job run" where
  "job_field strict kv j =
     (case kv of (k, v) \<Rightarrow>
        if is_null v then ok j
        else if k = ''name'' then run_bind (de_string v k) (\<lambda>x. ok (j\<lparr>j_name := x\<rparr>))
        else if k = ''affinity'' then run_bind (de_str_map v k MAX_MAP_ENTRIES) (\<lambda>x. ok (j\<lparr>j_affinity := x\<rparr>))
        else if k = ''driver'' then run_bind (parse_opt v k driver_parse) (\<lambda>x. ok (j\<lparr>j_driver := x\<rparr>))
        else if k = ''image'' then run_bind (de_string v k) (\<lambda>x. ok (j\<lparr>j_image := x\<rparr>))
        else if k = ''artifacts''
          then run_bind (de_list v k MAX_ARTIFACTS (artifact_from_value strict)) (\<lambda>x. ok (j\<lparr>j_artifacts := x\<rparr>))
        else if k = ''user'' then run_bind (de_string v k) (\<lambda>x. ok (j\<lparr>j_user := x\<rparr>))
        else if k = ''command'' then run_bind (de_string v k) (\<lambda>x. ok (j\<lparr>j_command := x\<rparr>))
        else if k = ''count'' then run_bind (de_int v k) (\<lambda>x. ok (j\<lparr>j_count := x\<rparr>))
        else if k = ''ports'' then run_bind (de_ports v k) (\<lambda>x. ok (j\<lparr>j_ports := x\<rparr>))
        else if k = ''cpu_shares'' then run_bind (de_int v k) (\<lambda>x. ok (j\<lparr>j_cpu_shares := x\<rparr>))
        else if k = ''memory_limit'' then run_bind (de_uint v k) (\<lambda>x. ok (j\<lparr>j_memory_limit := x\<rparr>))
        else if k = ''env'' then run_bind (de_str_map v k MAX_MAP_ENTRIES) (\<lambda>x. ok (j\<lparr>j_env := x\<rparr>))
        else if k = ''tags'' then run_bind (de_str_map v k MAX_MAP_ENTRIES) (\<lambda>x. ok (j\<lparr>j_tags := x\<rparr>))
        else if k = ''volumes'' then run_bind (de_str_map v k MAX_MAP_ENTRIES) (\<lambda>x. ok (j\<lparr>j_volumes := x\<rparr>))
        else if k = ''health_check'' then run_bind (health_from_value strict v) (\<lambda>x. ok (j\<lparr>j_health_check := Some x\<rparr>))
        else if k = ''max_restarts'' then run_bind (de_int v k) (\<lambda>x. ok (j\<lparr>j_max_restarts := Some x\<rparr>))
        else if k = ''restart_window'' then run_bind (de_duration v k) (\<lambda>x. ok (j\<lparr>j_restart_window := x\<rparr>))
        else if k = ''update_policy'' then run_bind (parse_opt v k policy_parse) (\<lambda>x. ok (j\<lparr>j_update_policy := x\<rparr>))
        else if k = ''priority'' then run_bind (de_int v k) (\<lambda>x. ok (j\<lparr>j_priority := Some x\<rparr>))
        else if k = ''deploying'' then run_bind (de_boolean v k) (\<lambda>x. ok (j\<lparr>j_deploying := x\<rparr>))
        else run_bind (de_unknown k strict) (\<lambda>_. ok j))"

definition job_from_value :: "bool \<Rightarrow> json \<Rightarrow> job run" where
  "job_from_value strict v =
     run_bind (de_object v ''job'') (\<lambda>obj. run_fold (job_field strict) obj job_default)"

definition job_from_json :: "float_text \<Rightarrow> string \<Rightarrow> job run" where
  "job_from_json fl input = run_bind (json_parse fl input) (job_from_value False)"

section \<open>Writing\<close>

definition artifact_to_value :: "artifact \<Rightarrow> json" where
  "artifact_to_value a =
     (let o1 = ob_str ''url'' (art_url a) [];
          o1 = ob_map_opt ''match'' (art_matches a) o1;
          o1 = ob_map_opt ''headers'' (art_headers a) o1;
          o1 = ob_map_opt ''auth'' (art_auth a) o1;
          o1 = ob_str_opt ''extract'' (art_extract a) o1;
          o1 = ob_str_opt ''filename'' (art_filename a) o1
      in JObject o1)"

definition health_to_value :: "health_check \<Rightarrow> json" where
  "health_to_value h =
     (let o1 = (case hc_kind h of Some t \<Rightarrow> ob_str ''type'' (check_as_str t) [] | None \<Rightarrow> []);
          o1 = ob_str ''path'' (hc_path h) o1;
          o1 = ob_str_opt ''port'' (hc_port h) o1;
          o1 = ob_uint_opt ''interval'' (hc_interval h) o1;
          o1 = ob_uint_opt ''timeout'' (hc_timeout h) o1;
          o1 = ob_uint_opt ''initial_timeout'' (hc_initial_timeout h) o1;
          o1 = ob_int_opt ''failure_threshold'' (hc_failure_threshold h) o1
      in JObject o1)"

definition ports_value :: "nat hmap \<Rightarrow> json" where
  "ports_value m = JObject (fold (\<lambda>(k, v) o1. ob_field k (json_uint v) o1) (hmap_iter m) [])"

definition job_to_value :: "job \<Rightarrow> json" where
  "job_to_value j =
     (let o1 = ob_str ''name'' (j_name j) [];
          o1 = ob_map_opt ''affinity'' (j_affinity j) o1;
          o1 = (case j_driver j of Some d \<Rightarrow> ob_str ''driver'' (driver_as_str d) o1 | None \<Rightarrow> o1);
          o1 = ob_str_opt ''image'' (j_image j) o1;
          o1 = (if j_artifacts j \<noteq> [] then ob_field ''artifacts'' (JArray (map artifact_to_value (j_artifacts j))) o1 else o1);
          o1 = ob_str_opt ''user'' (j_user j) o1;
          o1 = ob_str_opt ''command'' (j_command j) o1;
          o1 = ob_int_opt ''count'' (j_count j) o1;
          o1 = (if \<not> hmap_is_empty (j_ports j) then ob_field ''ports'' (ports_value (j_ports j)) o1 else o1);
          o1 = ob_int_opt ''cpu_shares'' (j_cpu_shares j) o1;
          o1 = ob_uint_opt ''memory_limit'' (j_memory_limit j) o1;
          o1 = ob_map_opt ''env'' (j_env j) o1;
          o1 = ob_map_opt ''tags'' (j_tags j) o1;
          o1 = ob_map_opt ''volumes'' (j_volumes j) o1;
          o1 = (case j_health_check j of Some h \<Rightarrow> ob_field ''health_check'' (health_to_value h) o1 | None \<Rightarrow> o1);
          o1 = (case j_max_restarts j of Some n \<Rightarrow> ob_field ''max_restarts'' (json_int n) o1 | None \<Rightarrow> o1);
          o1 = ob_uint_opt ''restart_window'' (j_restart_window j) o1;
          o1 = (case j_update_policy j of Some p \<Rightarrow> ob_str ''update_policy'' (policy_as_str p) o1 | None \<Rightarrow> o1);
          o1 = (case j_priority j of Some p \<Rightarrow> ob_field ''priority'' (json_int p) o1 | None \<Rightarrow> o1);
          o1 = (if j_deploying j then ob_field ''deploying'' (JBool True) o1 else o1)
      in JObject o1)"

definition job_to_json :: "float_text \<Rightarrow> job \<Rightarrow> types_error + string" where
  "job_to_json fl j = json_to_string fl (job_to_value j)"

section \<open>Well-formed jobs\<close>

definition str_map_ok :: "string hmap \<Rightarrow> bool" where
  "str_map_ok m \<longleftrightarrow> hmap_inv m \<and> length m \<le> MAX_MAP_ENTRIES \<and> list_all (\<lambda>(k, v). utf8_valid k \<and> utf8_valid v) m"

definition ports_ok :: "nat hmap \<Rightarrow> bool" where
  "ports_ok m \<longleftrightarrow> hmap_inv m \<and> length m \<le> MAX_PORTS \<and> list_all (\<lambda>(k, v). utf8_valid k \<and> v \<le> u16_max) m"

definition artifact_ok :: "artifact \<Rightarrow> bool" where
  "artifact_ok a \<longleftrightarrow> utf8_valid (art_url a) \<and> str_map_ok (art_matches a) \<and> str_map_ok (art_headers a) \<and>
     str_map_ok (art_auth a) \<and> utf8_valid (art_extract a) \<and> utf8_valid (art_filename a)"

definition health_ok :: "health_check \<Rightarrow> bool" where
  "health_ok h \<longleftrightarrow> utf8_valid (hc_path h) \<and> utf8_valid (hc_port h) \<and> hc_interval h \<le> u64_max \<and>
     hc_timeout h \<le> u64_max \<and> hc_initial_timeout h \<le> u64_max \<and> i64_range (hc_failure_threshold h)"

definition job_ok :: "job \<Rightarrow> bool" where
  "job_ok j \<longleftrightarrow> utf8_valid (j_name j) \<and> str_map_ok (j_affinity j) \<and> utf8_valid (j_image j) \<and>
     length (j_artifacts j) \<le> MAX_ARTIFACTS \<and> list_all artifact_ok (j_artifacts j) \<and>
     utf8_valid (j_user j) \<and> utf8_valid (j_command j) \<and> i64_range (j_count j) \<and> ports_ok (j_ports j) \<and>
     i64_range (j_cpu_shares j) \<and> j_memory_limit j \<le> u64_max \<and> str_map_ok (j_env j) \<and>
     str_map_ok (j_tags j) \<and> str_map_ok (j_volumes j) \<and> pred_option health_ok (j_health_check j) \<and>
     pred_option i64_range (j_max_restarts j) \<and> j_restart_window j \<le> u64_max \<and>
     pred_option i64_range (j_priority j)"

section \<open>Optional fields\<close>

text \<open>An object as a list of fields, each with whether it is written.\<close>

type_synonym fields = "(bool \<times> string \<times> json) list"

definition written :: "fields \<Rightarrow> builder" where
  "written fs = map snd (filter fst fs)"

lemma written_snoc: "written fs @ (if c then [(k, v)] else []) = written (fs @ [(c, k, v)])"
  by (simp add: written_def)

lemma ob_written:
  "ob_field k v (written fs) = written (fs @ [(True, k, v)])"
  "ob_str k s (written fs) = written (fs @ [(True, k, JString s)])"
  "ob_str_opt k s (written fs) = written (fs @ [(s \<noteq> [], k, JString s)])"
  "ob_int_opt k n (written fs) = written (fs @ [(n \<noteq> 0, k, json_int n)])"
  "ob_uint_opt k u (written fs) = written (fs @ [(0 < u, k, json_uint u)])"
  "ob_map_opt k m (written fs) = written (fs @ [(m \<noteq> [], k, str_map_value m)])"
  by (simp_all add: ob_field_def ob_str_def ob_str_opt_def ob_int_opt_def ob_uint_opt_def ob_map_opt_def
      obj_push_def hmap_is_empty_def written_def)

lemma written_if: "(if c then written (fs @ [(True, k, v)]) else written fs) = written (fs @ [(c, k, v)])"
  by (simp add: written_def)

lemma written_option:
  "(case x of Some d \<Rightarrow> written (fs @ [(True, k, f d)]) | None \<Rightarrow> written fs) = written (fs @ [(x \<noteq> None, k, f (the x))])"
  by (simp add: written_def split: option.splits)

lemma written_if_field: "(if c then ob_field k v (written fs) else written fs) = written (fs @ [(c, k, v)])"
  by (simp add: written_def ob_field_def obj_push_def)

lemma let_written: "(let o1 = written fs in F o1) = F (written fs)"
  by simp

lemma written_Nil: "[] = written []"
  by (simp add: written_def)

lemmas written_simps = ob_written written_if written_if_field written_option let_written

lemma keys_written: "distinct (map (fst \<circ> snd) fs) \<Longrightarrow> distinct (map fst (written fs))"
  by (simp add: written_def distinct_map_filter del: distinct_map)

text \<open>Reading the fields that are written: the others keep what they have.\<close>

definition opt_field :: "('a \<Rightarrow> 's \<Rightarrow> 's run) \<Rightarrow> bool \<times> 'a \<Rightarrow> 's \<Rightarrow> 's run" where
  "opt_field f p s = (if fst p then f (snd p) s else ok s)"

lemma run_fold_written: "run_fold f (written fs) s = run_fold (opt_field f) fs s"
  by (induction fs arbitrary: s) (auto simp: written_def opt_field_def intro: run_bind_cong)

section \<open>A job is read back\<close>

definition artifact_fields :: "artifact \<Rightarrow> fields" where
  "artifact_fields a =
     [(True, ''url'', JString (art_url a)), (art_matches a \<noteq> [], ''match'', str_map_value (art_matches a)),
      (art_headers a \<noteq> [], ''headers'', str_map_value (art_headers a)),
      (art_auth a \<noteq> [], ''auth'', str_map_value (art_auth a)),
      (art_extract a \<noteq> [], ''extract'', JString (art_extract a)),
      (art_filename a \<noteq> [], ''filename'', JString (art_filename a))]"

lemma artifact_to_value_fields: "artifact_to_value a = JObject (written (artifact_fields a))"
  unfolding artifact_to_value_def artifact_fields_def by (subst written_Nil) (simp only: written_simps, simp only: append.simps)

lemma opt_field_True: "opt_field f (True, kv) s = f kv s"
  by (simp add: opt_field_def)

lemma artifact_opt_fields:
  "art_matches a = [] \<Longrightarrow> str_map_ok m \<Longrightarrow> opt_field (artifact_field b) (m \<noteq> [], ''match'', str_map_value m) a = ok (a\<lparr>art_matches := m\<rparr>)"
  "art_headers a = [] \<Longrightarrow> str_map_ok m \<Longrightarrow> opt_field (artifact_field b) (m \<noteq> [], ''headers'', str_map_value m) a = ok (a\<lparr>art_headers := m\<rparr>)"
  "art_auth a = [] \<Longrightarrow> str_map_ok m \<Longrightarrow> opt_field (artifact_field b) (m \<noteq> [], ''auth'', str_map_value m) a = ok (a\<lparr>art_auth := m\<rparr>)"
  "art_extract a = [] \<Longrightarrow> opt_field (artifact_field b) (s \<noteq> [], ''extract'', JString s) a = ok (a\<lparr>art_extract := s\<rparr>)"
  "art_filename a = [] \<Longrightarrow> opt_field (artifact_field b) (s \<noteq> [], ''filename'', JString s) a = ok (a\<lparr>art_filename := s\<rparr>)"
  "artifact_field b (''url'', JString s) a = ok (a\<lparr>art_url := s\<rparr>)"
  by (simp_all add: opt_field_def artifact_field_def is_null_def de_str_map_value str_map_ok_def)

lemma artifact_read_back:
  assumes "artifact_ok a"
  shows "artifact_from_value b (artifact_to_value a) = ok a"
  using assms unfolding artifact_to_value_fields artifact_from_value_def
  by (simp add: de_object_def as_object_def run_fold_written artifact_fields_def opt_field_True
      artifact_opt_fields artifact_ok_def artifact_default_def)


definition health_fields :: "health_check \<Rightarrow> fields" where
  "health_fields h =
     [(hc_kind h \<noteq> None, ''type'', JString (check_as_str (the (hc_kind h)))), (True, ''path'', JString (hc_path h)),
      (hc_port h \<noteq> [], ''port'', JString (hc_port h)), (0 < hc_interval h, ''interval'', json_uint (hc_interval h)),
      (0 < hc_timeout h, ''timeout'', json_uint (hc_timeout h)),
      (0 < hc_initial_timeout h, ''initial_timeout'', json_uint (hc_initial_timeout h)),
      (hc_failure_threshold h \<noteq> 0, ''failure_threshold'', json_int (hc_failure_threshold h))]"

lemma health_to_value_fields: "health_to_value h = JObject (written (health_fields h))"
  unfolding health_to_value_def health_fields_def
  by (subst (1 2) written_Nil) (simp only: written_simps, simp only: append.simps)

lemma parse_opt_as_str:
  "parse_opt (JString (check_as_str c)) f check_parse = ok (Some c)"
  "parse_opt (JString (driver_as_str d)) f driver_parse = ok (Some d)"
  "parse_opt (JString (policy_as_str p)) f policy_parse = ok (Some p)"
  by (simp_all add: parse_opt_def as_str_def)

lemma health_opt_fields:
  "hc_kind h = None \<Longrightarrow> opt_field (health_field b) (k \<noteq> None, ''type'', JString (check_as_str (the k))) h = ok (h\<lparr>hc_kind := k\<rparr>)"
  "health_field b (''path'', JString s) h = ok (h\<lparr>hc_path := s\<rparr>)"
  "hc_port h = [] \<Longrightarrow> opt_field (health_field b) (s \<noteq> [], ''port'', JString s) h = ok (h\<lparr>hc_port := s\<rparr>)"
  "hc_interval h = 0 \<Longrightarrow> opt_field (health_field b) (0 < u, ''interval'', json_uint u) h = ok (h\<lparr>hc_interval := u\<rparr>)"
  "hc_timeout h = 0 \<Longrightarrow> opt_field (health_field b) (0 < u, ''timeout'', json_uint u) h = ok (h\<lparr>hc_timeout := u\<rparr>)"
  "hc_initial_timeout h = 0 \<Longrightarrow> opt_field (health_field b) (0 < u, ''initial_timeout'', json_uint u) h = ok (h\<lparr>hc_initial_timeout := u\<rparr>)"
  "hc_failure_threshold h = 0 \<Longrightarrow> i64_range i \<Longrightarrow>
     opt_field (health_field b) (i \<noteq> 0, ''failure_threshold'', json_int i) h = ok (h\<lparr>hc_failure_threshold := i\<rparr>)"
  by (cases k; simp add: opt_field_def health_field_def is_null_def parse_opt_as_str)+

lemma health_read_back:
  assumes "health_ok h"
  shows "health_from_value b (health_to_value h) = ok h"
  using assms unfolding health_to_value_fields health_from_value_def
  by (simp add: de_object_def as_object_def run_fold_written health_fields_def opt_field_True
      health_opt_fields health_ok_def health_check_default_def del: not_None_eq)

lemma ports_value_eq: "ports_value m = JObject (map (\<lambda>(k, v). (k, json_uint v)) m)"
  by (simp add: ports_value_def hmap_iter_def ob_field_def fold_obj_push [of json_uint])

lemma ports_value_not_null [simp]: "ports_value m \<noteq> JNull"
  by (simp add: ports_value_def)

lemma port_steps:
  "list_all (\<lambda>(k, v). v \<le> u16_max) ps \<Longrightarrow>
   run_fold (port_step f) (map (\<lambda>(k, v). (k, json_uint v)) ps) m = ok (hmap_insert_all m ps)"
proof (induction ps arbitrary: m)
  case (Cons p ps)
  then show ?case by (cases p) (simp add: port_step_def)
qed simp

lemma de_ports_value:
  assumes "ports_ok m"
  shows "de_ports (ports_value m) f = ok m"
proof -
  have "list_all (\<lambda>(k, v). v \<le> u16_max) m" using assms by (auto simp: ports_ok_def list_all_iff)
  then show ?thesis using assms hmap_insert_all_run [of "[]" m]
    by (simp add: ports_ok_def de_ports_def ports_value_eq de_object_def as_object_def port_steps hmap_new_def)
qed

definition job_fields :: "job \<Rightarrow> fields" where
  "job_fields j =
     [(True, ''name'', JString (j_name j)), (j_affinity j \<noteq> [], ''affinity'', str_map_value (j_affinity j)),
      (j_driver j \<noteq> None, ''driver'', JString (driver_as_str (the (j_driver j)))),
      (j_image j \<noteq> [], ''image'', JString (j_image j)),
      (j_artifacts j \<noteq> [], ''artifacts'', JArray (map artifact_to_value (j_artifacts j))),
      (j_user j \<noteq> [], ''user'', JString (j_user j)), (j_command j \<noteq> [], ''command'', JString (j_command j)),
      (j_count j \<noteq> 0, ''count'', json_int (j_count j)), (j_ports j \<noteq> [], ''ports'', ports_value (j_ports j)),
      (j_cpu_shares j \<noteq> 0, ''cpu_shares'', json_int (j_cpu_shares j)),
      (0 < j_memory_limit j, ''memory_limit'', json_uint (j_memory_limit j)),
      (j_env j \<noteq> [], ''env'', str_map_value (j_env j)), (j_tags j \<noteq> [], ''tags'', str_map_value (j_tags j)),
      (j_volumes j \<noteq> [], ''volumes'', str_map_value (j_volumes j)),
      (j_health_check j \<noteq> None, ''health_check'', health_to_value (the (j_health_check j))),
      (j_max_restarts j \<noteq> None, ''max_restarts'', json_int (the (j_max_restarts j))),
      (0 < j_restart_window j, ''restart_window'', json_uint (j_restart_window j)),
      (j_update_policy j \<noteq> None, ''update_policy'', JString (policy_as_str (the (j_update_policy j)))),
      (j_priority j \<noteq> None, ''priority'', json_int (the (j_priority j))),
      (j_deploying j, ''deploying'', JBool True)]"

lemma job_to_value_fields: "job_to_value j = JObject (written (job_fields j))"
  unfolding job_to_value_def job_fields_def hmap_is_empty_def
  by (subst written_Nil) (simp only: written_simps, simp only: append.simps)

lemma job_opt_fields:
  "job_field b (''name'', JString s) j = ok (j\<lparr>j_name := s\<rparr>)"
  "j_affinity j = [] \<Longrightarrow> str_map_ok m \<Longrightarrow> opt_field (job_field b) (m \<noteq> [], ''affinity'', str_map_value m) j = ok (j\<lparr>j_affinity := m\<rparr>)"
  "j_image j = [] \<Longrightarrow> opt_field (job_field b) (s \<noteq> [], ''image'', JString s) j = ok (j\<lparr>j_image := s\<rparr>)"
  "j_user j = [] \<Longrightarrow> opt_field (job_field b) (s \<noteq> [], ''user'', JString s) j = ok (j\<lparr>j_user := s\<rparr>)"
  "j_command j = [] \<Longrightarrow> opt_field (job_field b) (s \<noteq> [], ''command'', JString s) j = ok (j\<lparr>j_command := s\<rparr>)"
  "j_count j = 0 \<Longrightarrow> i64_range i \<Longrightarrow> opt_field (job_field b) (i \<noteq> 0, ''count'', json_int i) j = ok (j\<lparr>j_count := i\<rparr>)"
  "j_ports j = [] \<Longrightarrow> ports_ok pm \<Longrightarrow> opt_field (job_field b) (pm \<noteq> [], ''ports'', ports_value pm) j = ok (j\<lparr>j_ports := pm\<rparr>)"
  "j_cpu_shares j = 0 \<Longrightarrow> i64_range i \<Longrightarrow> opt_field (job_field b) (i \<noteq> 0, ''cpu_shares'', json_int i) j = ok (j\<lparr>j_cpu_shares := i\<rparr>)"
  "j_memory_limit j = 0 \<Longrightarrow> opt_field (job_field b) (0 < u, ''memory_limit'', json_uint u) j = ok (j\<lparr>j_memory_limit := u\<rparr>)"
  "j_env j = [] \<Longrightarrow> str_map_ok m \<Longrightarrow> opt_field (job_field b) (m \<noteq> [], ''env'', str_map_value m) j = ok (j\<lparr>j_env := m\<rparr>)"
  "j_tags j = [] \<Longrightarrow> str_map_ok m \<Longrightarrow> opt_field (job_field b) (m \<noteq> [], ''tags'', str_map_value m) j = ok (j\<lparr>j_tags := m\<rparr>)"
  "j_volumes j = [] \<Longrightarrow> str_map_ok m \<Longrightarrow> opt_field (job_field b) (m \<noteq> [], ''volumes'', str_map_value m) j = ok (j\<lparr>j_volumes := m\<rparr>)"
  "j_restart_window j = 0 \<Longrightarrow> opt_field (job_field b) (0 < u, ''restart_window'', json_uint u) j = ok (j\<lparr>j_restart_window := u\<rparr>)"
  by (simp_all add: opt_field_def job_field_def is_null_def de_str_map_value str_map_ok_def de_ports_value)

lemma job_opt_enums:
  "j_driver j = None \<Longrightarrow> opt_field (job_field b) (d \<noteq> None, ''driver'', JString (driver_as_str (the d))) j = ok (j\<lparr>j_driver := d\<rparr>)"
  "j_update_policy j = None \<Longrightarrow> opt_field (job_field b) (p \<noteq> None, ''update_policy'', JString (policy_as_str (the p))) j = ok (j\<lparr>j_update_policy := p\<rparr>)"
  "\<not> j_deploying j \<Longrightarrow> opt_field (job_field b) (c, ''deploying'', JBool True) j = ok (j\<lparr>j_deploying := c\<rparr>)"
  by (cases d; cases p; simp add: opt_field_def job_field_def is_null_def parse_opt_as_str)+

lemma job_opt_parts:
  "j_artifacts j = [] \<Longrightarrow> length as \<le> MAX_ARTIFACTS \<Longrightarrow> list_all artifact_ok as \<Longrightarrow>
     opt_field (job_field b) (as \<noteq> [], ''artifacts'', JArray (map artifact_to_value as)) j = ok (j\<lparr>j_artifacts := as\<rparr>)"
  "j_health_check j = None \<Longrightarrow> pred_option health_ok h \<Longrightarrow>
     opt_field (job_field b) (h \<noteq> None, ''health_check'', health_to_value (the h)) j = ok (j\<lparr>j_health_check := h\<rparr>)"
  "j_max_restarts j = None \<Longrightarrow> pred_option i64_range i \<Longrightarrow>
     opt_field (job_field b) (i \<noteq> None, ''max_restarts'', json_int (the i)) j = ok (j\<lparr>j_max_restarts := i\<rparr>)"
  "j_priority j = None \<Longrightarrow> pred_option i64_range i \<Longrightarrow>
     opt_field (job_field b) (i \<noteq> None, ''priority'', json_int (the i)) j = ok (j\<lparr>j_priority := i\<rparr>)"
  by (cases h; cases i; simp add: opt_field_def job_field_def is_null_def health_to_value_fields
      de_list_map artifact_read_back health_read_back [unfolded health_to_value_fields] list_all_iff)+

lemma job_read_back:
  assumes "job_ok j"
  shows "job_from_value b (job_to_value j) = ok j"
  using assms unfolding job_to_value_fields job_from_value_def
  by (simp add: de_object_def as_object_def run_fold_written job_fields_def opt_field_True
      job_opt_fields job_opt_enums job_opt_parts job_ok_def job_default_def del: not_None_eq)

section \<open>What is written is well typed\<close>

lemma json_typed_mono: "json_typed num n v \<Longrightarrow> n \<le> m \<Longrightarrow> json_typed num m v"
proof (induction num n v arbitrary: m rule: json_typed.induct)
  case (6 num n a)
  then obtain k where "m = Suc k" "n \<le> k" by (cases m) auto
  with 6 show ?case by (auto simp: list_all_iff)
next
  case (7 num n o1)
  then obtain k where "m = Suc k" "n \<le> k" by (cases m) auto
  with 7 show ?case by (fastforce simp: list_all_iff)
qed (auto simp: Suc_le_eq gr0_conv_Suc elim!: less_natE)

lemma stamp_ascii: "list_all (\<lambda>c. byte c < 128) (stamp y m d h mi s)" "list_all (\<lambda>c. byte c < 128) (frac_text f)"
proof -
  have dig: "list_all is_digit ds \<Longrightarrow> list_all (\<lambda>c. byte c < 128) ds" for ds by (auto simp: list_all_iff is_digit_def)
  show "list_all (\<lambda>c. byte c < 128) (stamp y m d h mi s)" by (simp add: stamp_def dig)
  obtain k where "frac_digits 9 f = trim_zeros (frac_digits 9 f) @ replicate k (CHR ''0'')"
    using trim_zeros_append by blast
  then have "list_all is_digit (trim_zeros (frac_digits 9 f))" by (metis frac_digits_digits list_all_append)
  then show "list_all (\<lambda>c. byte c < 128) (frac_text f)" by (simp add: frac_text_def dig)
qed

lemma write_rfc3339_valid:
  assumes "t \<le> u64_max" "write_rfc3339 t [] = Inr u"
  shows "utf8_valid u"
proof (cases "t = 0")
  case True
  then show ?thesis using assms(2) ascii_valid by (auto simp: write_rfc3339_def time_is_zero_def)
next
  case False
  obtain y m d where c: "civil_from_days (t div SECOND div 86400) = (y, m, d)" by (metis prod_cases3)
  from write_rfc3339_text(1) [OF _ assms(1) c, of "[]"] False assms(2) stamp_ascii show ?thesis
    by (auto intro!: ascii_valid)
qed

definition fields_wf :: "nat \<Rightarrow> fields \<Rightarrow> bool" where
  "fields_wf n fs \<longleftrightarrow> distinct (map (fst \<circ> snd) fs) \<and>
     list_all (\<lambda>(c, k, v). c \<longrightarrow> list_all (\<lambda>b. byte b < 128) k \<and> json_wf n v) fs"

lemma written_wf: "fields_wf n fs \<Longrightarrow> json_wf (Suc n) (JObject (written fs))"
  using keys_written [of fs] by (auto simp: fields_wf_def written_def list_all_iff ascii_valid)

lemma json_num_wf:
  "i64_range v \<Longrightarrow> json_wf (Suc n) (json_int v)" "u \<le> u64_max \<Longrightarrow> json_wf (Suc n) (json_uint u)"
  by (auto simp: i64_range_def json_int_def json_uint_def i64_max_def u64_max_def)

lemma str_map_value_wf: "str_map_ok m \<Longrightarrow> json_wf (Suc (Suc n)) (str_map_value m)"
  using hmap_inv_distinct [of m] by (auto simp: str_map_ok_def str_map_value_eq list_all_iff comp_def case_prod_beta)

lemma ports_value_wf:
  assumes "ports_ok m"
  shows "json_wf (Suc (Suc n)) (ports_value m)"
proof -
  have "u16_max \<le> u64_max" by (simp add: u16_max_def u64_max_def)
  with assms hmap_inv_distinct [of m] show ?thesis
    by (auto simp: ports_ok_def ports_value_eq list_all_iff comp_def case_prod_beta intro!: json_num_wf)
qed

lemma as_str_ascii [simp]:
  "utf8_valid (driver_as_str d)" "utf8_valid (policy_as_str p)" "utf8_valid (check_as_str c)"
  by (cases d; cases p; cases c; simp add: ascii_valid)+

lemma artifact_value_wf: "artifact_ok a \<Longrightarrow> json_wf (Suc (Suc (Suc n))) (artifact_to_value a)"
  unfolding artifact_to_value_fields
  by (rule written_wf) (simp add: fields_wf_def artifact_fields_def artifact_ok_def str_map_value_wf)

lemma health_value_wf: "health_ok h \<Longrightarrow> json_wf (Suc (Suc (Suc n))) (health_to_value h)"
  unfolding health_to_value_fields
  by (rule written_wf) (simp add: fields_wf_def health_fields_def health_ok_def json_num_wf)

lemma job_value_wf:
  assumes "job_ok j"
  shows "json_wf 5 (job_to_value j)"
proof -
  have "pred_option P x \<Longrightarrow> x \<noteq> None \<longrightarrow> P (the x)" for P and x :: "'z option" by (cases x) auto
  then have opt: "j_health_check j \<noteq> None \<longrightarrow> health_ok (the (j_health_check j))"
    "j_max_restarts j \<noteq> None \<longrightarrow> i64_range (the (j_max_restarts j))"
    "j_priority j \<noteq> None \<longrightarrow> i64_range (the (j_priority j))"
    using assms unfolding job_ok_def by (cases "j_health_check j"; cases "j_max_restarts j"; cases "j_priority j"; simp)+
  have five: "(5::nat) = Suc (Suc (Suc (Suc (Suc 0))))" by simp
  show ?thesis unfolding job_to_value_fields five
    using assms opt artifact_value_wf [of _ 0] health_value_wf [of _ "Suc 0"]
    by (intro written_wf) (auto simp: fields_wf_def job_fields_def job_ok_def str_map_value_wf
        ports_value_wf json_num_wf list_all_iff)
qed

lemma job_text_read_back:
  assumes "job_ok j"
  shows "\<exists>s. job_to_json fl j = Inr s \<and> (length s \<le> MAX_INPUT \<longrightarrow> job_from_json fl s = ok j)"
proof -
  have "json_wf MAX_DEPTH (job_to_value j)"
    using job_value_wf [OF assms] by (rule json_typed_mono) (simp add: MAX_DEPTH_def)
  from json_write_wf(1) [OF this] obtain s where "json_write fl (job_to_value j) = Inr s" by blast
  with json_parse_write [OF \<open>json_wf MAX_DEPTH (job_to_value j)\<close> this] job_read_back [OF assms] show ?thesis
    by (auto simp: job_to_json_def job_from_json_def json_to_string_def)
qed


section \<open>What is read is well formed\<close>

lemma json_ok_object: "json_ok n (JObject o1) \<Longrightarrow> kv \<in> set o1 \<Longrightarrow> \<exists>m. utf8_valid (fst kv) \<and> json_ok m (snd kv)"
  by (cases n) (fastforce simp: list_all_iff)+

lemma json_ok_array: "json_ok n (JArray a) \<Longrightarrow> v \<in> set a \<Longrightarrow> \<exists>m. json_ok m v"
  by (cases n) (auto simp: list_all_iff)

lemma de_object_gives:
  "json_ok n v \<Longrightarrow> gives (\<lambda>o1. \<forall>kv\<in>set o1. \<exists>m. utf8_valid (fst kv) \<and> json_ok m (snd kv)) (de_object v f)"
  using json_ok_object by (cases v) (auto simp: de_object_def as_object_def wrong_type_def)

lemma hmap_insert_length: "length (snd (hmap_insert m k v)) \<le> Suc (length m)"
  by (auto simp: hmap_insert_def insert_at_def split: sum.splits)

lemma hmap_insert_set: "hmap_inv m \<Longrightarrow> set (snd (hmap_insert m k v)) \<subseteq> insert (k, v) (set m)"
  by (auto simp: hmap_get_Some_iff [symmetric] hmap_inv_insert hmap_get_insert split: if_splits)

lemma de_map_gives:
  assumes "json_ok n v"
    and step: "\<And>kv m. \<exists>i. utf8_valid (fst kv) \<and> json_ok i (snd kv) \<Longrightarrow>
      gives (\<lambda>m'. \<exists>x. P (fst kv) x \<and> m' = snd (hmap_insert m (fst kv) x)) (f kv m)"
  shows "gives (\<lambda>m. hmap_inv m \<and> length m \<le> lim \<and> list_all (\<lambda>(k, x). P k x) m)
    (run_bind (de_object v field) (\<lambda>obj. if length obj > lim then fails e else run_fold f obj hmap_new))"
proof (rule gives_bind [OF de_object_gives [OF assms(1)]])
  fix obj :: "(string \<times> json) list"
  assume obj: "\<forall>kv\<in>set obj. \<exists>m. utf8_valid (fst kv) \<and> json_ok m (snd kv)"
  have "gives (\<lambda>m'. hmap_inv m' \<and> length m' \<le> length m + length ps \<and> list_all (\<lambda>(k, x). P k x) m') (run_fold f ps m)"
    if "set ps \<subseteq> set obj" "hmap_inv m" "list_all (\<lambda>(k, x). P k x) m" for ps m
    using that
  proof (induction ps arbitrary: m)
    case (Cons p ps)
    have "gives (\<lambda>m'. \<exists>x. P (fst p) x \<and> m' = snd (hmap_insert m (fst p) x)) (f p m)"
      using obj Cons.prems(1) by (intro step) auto
    then show ?case unfolding run_fold.simps
    proof (rule gives_bind)
      fix m' assume "\<exists>x. P (fst p) x \<and> m' = snd (hmap_insert m (fst p) x)"
      then obtain x where x: "P (fst p) x" "m' = snd (hmap_insert m (fst p) x)" by blast
      have "hmap_inv m'" "list_all (\<lambda>(k, x). P k x) m'" "length m' \<le> Suc (length m)"
        using Cons.prems x hmap_insert_set [of m "fst p" x] hmap_insert_length [of m "fst p" x]
        by (auto simp: list_all_iff hmap_inv_insert)
      from Cons.IH [OF _ this(1,2)] this(3) Cons.prems(1)
      show "gives (\<lambda>m'. hmap_inv m' \<and> length m' \<le> length m + length (p # ps) \<and> list_all (\<lambda>(k, x). P k x) m') (run_fold f ps m')"
        by (auto simp: gives_def)
    qed
  qed simp
  from this [of obj hmap_new]
  show "gives (\<lambda>m. hmap_inv m \<and> length m \<le> lim \<and> list_all (\<lambda>(k, x). P k x) m)
      (if length obj > lim then fails e else run_fold f obj hmap_new)"
    by (auto simp: gives_def hmap_new_def)
qed

lemma de_str_map_gives:
  assumes "json_ok n v"
  shows "gives str_map_ok (de_str_map v f MAX_MAP_ENTRIES)"
proof -
  have "gives (\<lambda>m'. \<exists>x. (utf8_valid (fst kv) \<and> utf8_valid x) \<and> m' = snd (hmap_insert m (fst kv) x)) (str_map_step f kv m)"
    if "\<exists>i. utf8_valid (fst kv) \<and> json_ok i (snd kv)" for kv m
  proof -
    obtain i where k: "utf8_valid (fst kv)" and i: "json_ok i (snd kv)" using \<open>\<exists>i. _ i\<close> by blast
    show ?thesis unfolding str_map_step_def
      by (rule gives_set [OF gives_returns [OF de_string_returns [OF i]]]) (use k in blast)
  qed
  from de_map_gives [of n v "\<lambda>k x. utf8_valid k \<and> utf8_valid x", OF assms this]
  show ?thesis unfolding de_str_map_def str_map_ok_def .
qed

lemma de_ports_gives:
  assumes "json_ok n v"
  shows "gives ports_ok (de_ports v f)"
proof -
  have "gives (\<lambda>m'. \<exists>x. (utf8_valid (fst kv) \<and> x \<le> u16_max) \<and> m' = snd (hmap_insert m (fst kv) x)) (port_step f kv m)"
    if "\<exists>i. utf8_valid (fst kv) \<and> json_ok i (snd kv)" for kv m
  proof -
    have k: "utf8_valid (fst kv)" using \<open>\<exists>i. _ i\<close> by blast
    show ?thesis unfolding port_step_def
    proof (rule gives_bind [of "\<lambda>_. True"])
      fix x
      show "gives (\<lambda>m'. \<exists>x. (utf8_valid (fst kv) \<and> x \<le> u16_max) \<and> m' = snd (hmap_insert m (fst kv) x))
          (if x > u16_max then fails (OutOfRange (name_new f)) else ok (snd (hmap_insert m (fst kv) x)))"
      proof (cases "x > u16_max")
        case False
        with k have "(utf8_valid (fst kv) \<and> x \<le> u16_max) \<and> snd (hmap_insert m (fst kv) x) = snd (hmap_insert m (fst kv) x)" by simp
        then show ?thesis unfolding if_not_P [OF False] gives_simps(3) by (rule exI)
      qed simp
    qed (simp add: gives_def)
  qed
  from de_map_gives [of n v "\<lambda>k x. utf8_valid k \<and> x \<le> u16_max", OF assms this]
  show ?thesis unfolding de_ports_def ports_ok_def .
qed

lemma parse_duration_max: "parse_duration s = Some (Inr d) \<Longrightarrow> d \<le> u64_max"
  by (auto simp: parse_duration_def Let_def i64_max_def u64_max_def split: if_splits option.splits sum.splits)

lemma de_duration_gives: "json_ok n v \<Longrightarrow> gives (\<lambda>d. d \<le> u64_max) (de_duration v f)"
  using gives_returns [OF de_uint_returns, of n v f] parse_duration_max
  by (cases v) (auto simp: de_duration_def de_duration_str_def gives_def split: option.splits sum.splits)

lemmas de_gives =
  gives_returns [OF de_string_returns] gives_returns [OF de_int_returns] gives_returns [OF de_uint_returns]
  de_duration_gives de_str_map_gives de_ports_gives

lemma gives_any:
  "gives (\<lambda>_. True) (parse_opt v f p)" "gives (\<lambda>_. True) (de_boolean v f)" "gives (\<lambda>_. True) (de_unknown f b)"
  by (simp_all add: gives_def)

lemma gives_if: "gives P x \<Longrightarrow> gives P y \<Longrightarrow> gives P (if c then x else y)"
  by simp

lemma gives_ok: "P x \<Longrightarrow> gives P (ok x)"
  by simp

lemmas gives_rules = gives_if gives_ok gives_any [THEN gives_set]

lemma artifact_field_gives:
  assumes "json_ok n (snd kv)" "artifact_ok a"
  shows "gives artifact_ok (artifact_field b kv a)"
proof -
  obtain k v where kv: "kv = (k, v)" by fastforce
  have v: "json_ok n v" using assms(1) kv by simp
  show ?thesis unfolding artifact_field_def kv prod.case
    by (intro gives_rules de_gives [OF v, THEN gives_set]) (use assms(2) in \<open>simp_all add: artifact_ok_def\<close>)
qed

lemma health_field_gives:
  assumes "json_ok n (snd kv)" "health_ok h"
  shows "gives health_ok (health_field b kv h)"
proof -
  obtain k v where kv: "kv = (k, v)" by fastforce
  have v: "json_ok n v" using assms(1) kv by simp
  show ?thesis unfolding health_field_def kv prod.case
    by (intro gives_rules de_gives [OF v, THEN gives_set]) (use assms(2) in \<open>simp_all add: health_ok_def\<close>)
qed

lemma from_value_gives:
  assumes "json_ok n v" "P s" "\<And>m kv s. json_ok m (snd kv) \<Longrightarrow> P s \<Longrightarrow> gives P (f kv s)"
  shows "gives P (run_bind (de_object v name) (\<lambda>obj. run_fold f obj s))"
  by (rule gives_bind [OF de_object_gives [OF assms(1)]], rule gives_fold) (use assms(2,3) in blast)+

lemma str_map_ok_Nil [simp]: "str_map_ok []"
  by (simp add: str_map_ok_def)

lemma artifact_from_value_gives: "json_ok n v \<Longrightarrow> gives artifact_ok (artifact_from_value b v)"
  unfolding artifact_from_value_def
  by (rule from_value_gives) (auto simp: artifact_ok_def artifact_default_def intro: artifact_field_gives)

lemma health_from_value_gives: "json_ok n v \<Longrightarrow> gives health_ok (health_from_value b v)"
  unfolding health_from_value_def
  by (rule from_value_gives) (auto simp: health_ok_def health_check_default_def i64_range_def i64_min_def i64_max_def
      intro: health_field_gives)

lemma de_artifacts_gives:
  assumes "json_ok n v"
  shows "gives (\<lambda>as. length as \<le> MAX_ARTIFACTS \<and> list_all artifact_ok as) (de_list v f MAX_ARTIFACTS (artifact_from_value b))"
proof (cases v)
  case (JArray a)
  have "gives (\<lambda>ys. length ys = length a \<and> list_all artifact_ok ys) (run_map (artifact_from_value b) a)"
    using json_ok_array [of n a] assms JArray artifact_from_value_gives by (intro gives_map) blast
  then show ?thesis using JArray by (auto simp: de_list_def de_array_def as_array_def gives_def)
qed (simp_all add: de_list_def de_array_def as_array_def wrong_type_def)

lemma job_field_gives:
  assumes "json_ok n (snd kv)" "job_ok j"
  shows "gives job_ok (job_field b kv j)"
proof -
  obtain k v where kv: "kv = (k, v)" by fastforce
  have v: "json_ok n v" using assms(1) kv by simp
  note rules = de_gives [OF v, THEN gives_set] de_artifacts_gives [OF v, THEN gives_set]
    health_from_value_gives [OF v, THEN gives_set]
  show ?thesis unfolding job_field_def kv prod.case
    by (intro gives_rules rules) (use assms(2) in \<open>simp_all add: job_ok_def\<close>)
qed

lemma job_from_value_gives: "json_ok n v \<Longrightarrow> gives job_ok (job_from_value b v)"
  unfolding job_from_value_def
  by (rule from_value_gives) (auto simp: job_ok_def job_default_def i64_range_def i64_min_def i64_max_def ports_ok_def
      intro: job_field_gives)


section \<open>Properties\<close>

lemma job_from_json_ok: "job_from_json fl s = ok j \<Longrightarrow> job_ok j"
proof -
  assume "job_from_json fl s = ok j"
  then obtain v where v: "json_parse fl s = ok v" "job_from_value False v = ok j"
    by (auto simp: job_from_json_def run_bind_ok_iff)
  from job_from_value_gives [OF returns_ok [OF json_parse_returns v(1)]] v(2) show "job_ok j"
    unfolding gives_def by blast
qed

text \<open>
  C27. What the API accepts as a job is a well-formed job: whatever document it was read from, its
  texts are UTF-8, its numbers fit 64 bits and its ports 16, its maps are sorted without double
  keys, and none of its lists and maps is longer than its bound.
\<close>

theorem job_from_json_typed:
  assumes "job_from_json fl s = ok j"
  shows "job_ok j"
  using assms by (rule job_from_json_ok)

theorem job_from_json_typed_witness:
  "job_from_json plain_floats ''{\"name\":\"web\",\"ports\":{\"http\":80}}'' = ok (job_default\<lparr>j_name := ''web'', j_ports := [(''http'', 80)]\<rparr>) \<and>
   job_ok (job_default\<lparr>j_name := ''web'', j_ports := [(''http'', 80)]\<rparr>)"
proof -
  have r: "job_from_json plain_floats ''{\"name\":\"web\",\"ports\":{\"http\":80}}'' =
      ok (job_default\<lparr>j_name := ''web'', j_ports := [(''http'', 80)]\<rparr>)" by code_simp
  from r job_from_json_typed [OF r] show ?thesis by simp
qed

text \<open>
  C21. A job survives its JSON text: a job read from any document is written again, and reading
  that text, when it is within the input bound, gives the same job, every field included.
\<close>

theorem job_json_roundtrip:
  assumes "job_from_json fl s = ok j"
  shows "\<exists>t. job_to_json fl j = Inr t \<and> (length t \<le> MAX_INPUT \<longrightarrow> job_from_json fl t = ok j)"
  by (rule job_text_read_back [OF job_from_json_ok [OF assms]])

theorem job_json_roundtrip_witness:
  "\<exists>t. job_to_json plain_floats (job_default\<lparr>j_name := ''web'', j_restart_window := 30000000000\<rparr>) = Inr t \<and>
     job_from_json plain_floats t = ok (job_default\<lparr>j_name := ''web'', j_restart_window := 30000000000\<rparr>)"
proof -
  let ?j = "job_default\<lparr>j_name := ''web'', j_restart_window := 30000000000\<rparr>"
  have r: "job_from_json plain_floats ''{\"name\":\"web\",\"restart_window\":\"30s\"}'' = ok ?j" by code_simp
  have "case job_to_json plain_floats ?j of Inr t \<Rightarrow> length t \<le> MAX_INPUT | Inl _ \<Rightarrow> False" by code_simp
  with job_json_roundtrip [OF r] show ?thesis by auto
qed

end
