(* ===== verification/Leader_Persist.thy ===== *)
theory Leader_Persist
  imports Leader_State Types_Json
begin

text \<open>
  \<^verbatim>\<open>leader/src/persist.rs\<close>: the snapshot of the committed jobs, when it is due and how it is loaded,
  and \<^verbatim>\<open>decode_init_jobs\<close> of \<^verbatim>\<open>leader/src/init.rs\<close>.  Loading gives \<open>None\<close> where reading a duration in
  the snapshot overflows and stops the program.
\<close>

section \<open>Operations\<close>

definition PERSIST_DEBOUNCE :: nanos where
  "PERSIST_DEBOUNCE = SECOND"

definition snapshot_value :: "time \<Rightarrow> leader \<Rightarrow> types_error + json" where
  "snapshot_value now l =
     (case write_rfc3339 now [] of
        Inl e \<Rightarrow> Inl e
      | Inr updated \<Rightarrow>
          let o1 = ob_field ''updated'' (JString updated) [];
              o1 = ob_field ''jobs'' (JArray (map job_to_value (leader_jobs l))) o1
          in Inr (JObject o1))"

definition snapshot :: "float_text \<Rightarrow> time \<Rightarrow> leader \<Rightarrow> leader_error + string" where
  "snapshot fl now l =
     (case snapshot_value now l of
        Inl e \<Rightarrow> Inl (leader_error_from e)
      | Inr v \<Rightarrow> (case json_to_string fl v of Inl e \<Rightarrow> Inl (leader_error_from e) | Inr s \<Rightarrow> Inr s))"

definition poll_snapshot :: "float_text \<Rightarrow> time \<Rightarrow> leader \<Rightarrow> (leader_error + string option) \<times> leader" where
  "poll_snapshot fl now l =
     (if \<not> l_dirty l then (Inr None, l)
      else
        let seen = (case l_dirty_seen l of Some t \<Rightarrow> t | None \<Rightarrow> now);
            l1 = l\<lparr>l_dirty_seen := Some seen\<rparr>
        in if time_since now seen < PERSIST_DEBOUNCE then (Inr None, l1)
           else case snapshot fl now l1 of
                  Inl e \<Rightarrow> (Inl e, l1)
                | Inr s \<Rightarrow> (Inr (Some s), l1\<lparr>l_dirty := False, l_dirty_seen := None\<rparr>))"

definition snapshot_failed :: "leader \<Rightarrow> leader" where
  "snapshot_failed l = l\<lparr>l_dirty := True\<rparr>"

definition state_field :: "string \<times> json \<Rightarrow> time \<times> job list \<Rightarrow> (time \<times> job list) run" where
  "state_field kv st =
     (case (kv, st) of ((k, item), (updated, jobs)) \<Rightarrow>
        if k = ''updated''
        then run_bind (de_string item k) (\<lambda>s. run_bind (Some (parse_rfc3339 s)) (\<lambda>t. ok (t, jobs)))
        else if k = ''jobs'' \<and> \<not> is_null item
        then run_bind (de_list item k MAX_JOBS (job_from_value False)) (\<lambda>js. ok (updated, js))
        else ok (updated, jobs))"

definition read_state :: "float_text \<Rightarrow> string \<Rightarrow> (time \<times> job list) run" where
  "read_state fl data =
     run_bind (json_parse fl data) (\<lambda>v.
     run_bind (de_object v ''state'') (\<lambda>obj. run_fold state_field obj (time_ZERO, [])))"

definition stale_jobs :: "job list \<Rightarrow> leader \<Rightarrow> string list" where
  "stale_jobs jobs l =
     map j_name (filter (\<lambda>j. \<not> list_ex (\<lambda>s. j_name s = j_name j) jobs) (leader_jobs l))"

fun remove_all :: "string list \<Rightarrow> leader \<Rightarrow> leader" where
  "remove_all [] l = l"
| "remove_all (n # ns) l = remove_all ns (snd (leader_store_remove n l))"

fun put_all :: "job list \<Rightarrow> leader \<Rightarrow> (leader_error + unit) \<times> leader" where
  "put_all [] l = (Inr (), l)"
| "put_all (j # js) l =
     (case store_put j (l_store l) of
        (Inl e, s) \<Rightarrow> (Inl e, l\<lparr>l_store := s\<rparr>)
      | (Inr _, s) \<Rightarrow> put_all js (l\<lparr>l_store := s\<rparr>))"

definition load_committed_state ::
  "float_text \<Rightarrow> string option \<Rightarrow> leader \<Rightarrow> ((leader_error + bool) \<times> leader) option" where
  "load_committed_state fl snap l =
     (case snap of
        None \<Rightarrow> Some (Inr False, l)
      | Some data \<Rightarrow>
          (case read_state fl data of
             None \<Rightarrow> None
           | Some (Inl e) \<Rightarrow> Some (Inl (leader_error_from e), l)
           | Some (Inr (updated, jobs)) \<Rightarrow>
               (case put_all jobs (remove_all (stale_jobs jobs l) l) of
                  (Inl e, l1) \<Rightarrow> Some (Inl e, l1)
                | (Inr _, l1) \<Rightarrow>
                    Some (Inr True, l1\<lparr>l_store := store_set_state_time updated (l_store l1)\<rparr>))))"

text \<open>The init jobs of the configuration, read strictly; the error carries the index.\<close>

definition decode_init_job :: "json \<Rightarrow> job run" where
  "decode_init_job spec =
     run_bind (job_from_value True spec) (\<lambda>job.
       if j_name job = [] then fails (Invalid (name_new ''name'') ''name required'')
       else let job = apply_hop_shorthand job
            in run_bind (Some (check_runnable job)) (\<lambda>_. ok job))"

fun decode_init_from :: "nat \<Rightarrow> json list \<Rightarrow> (leader_error + job list) option" where
  "decode_init_from i [] = Some (Inr [])"
| "decode_init_from i (spec # specs) =
     (case decode_init_job spec of
        None \<Rightarrow> None
      | Some (Inl e) \<Rightarrow> Some (Inl (InitJob i e))
      | Some (Inr j) \<Rightarrow>
          (case decode_init_from (Suc i) specs of
             Some (Inr js) \<Rightarrow> Some (Inr (j # js))
           | r \<Rightarrow> r))"

definition decode_init_jobs :: "json list \<Rightarrow> (leader_error + job list) option" where
  "decode_init_jobs specs = decode_init_from 0 specs"

section \<open>Loading\<close>

lemma remove_all_frame [simp]:
  "l_agents (remove_all ns l) = l_agents l" "l_placed (remove_all ns l) = l_placed l"
  "l_events (remove_all ns l) = l_events l" "l_settled (remove_all ns l) = l_settled l"
  by (induction ns l rule: remove_all.induct) (simp_all add: leader_store_remove_def split: prod.split)

lemma remove_all_inv [inv_intros]: "leader_inv l \<Longrightarrow> leader_inv (remove_all ns l)"
  by (induction ns l rule: remove_all.induct) (auto intro: inv_intros)

lemma leader_inv_set_store: "leader_inv l \<Longrightarrow> store_inv s \<Longrightarrow> leader_inv (l\<lparr>l_store := s\<rparr>)"
  by (simp add: leader_inv_def)

lemma put_all_inv [inv_intros]: "leader_inv l \<Longrightarrow> leader_inv (snd (put_all js l))"
proof (induction js l rule: put_all.induct)
  case (2 j js l)
  obtain r s where p: "store_put j (l_store l) = (r, s)" by fastforce
  have "store_inv s" using store_put_inv [of "l_store l" j] 2(2) p by (simp add: leader_inv_def)
  then have "leader_inv (l\<lparr>l_store := s\<rparr>)" using 2(2) by (simp add: leader_inv_set_store)
  with 2(1) p show ?case by (cases r) auto
qed simp

lemma remove_all_get:
  assumes "store_inv (l_store l)"
  shows "store_get (l_store (remove_all ns l)) n = (if n \<in> set ns then None else store_get (l_store l) n)"
  using assms
proof (induction ns l rule: remove_all.induct)
  case (2 m ns l)
  have st: "l_store (snd (leader_store_remove m l)) = snd (store_remove m (l_store l))"
    by (simp add: leader_store_remove_def split: prod.split)
  have "store_inv (snd (store_remove m (l_store l)))" using 2(2) by (rule store_remove_inv)
  with 2(1) have "store_get (l_store (remove_all ns (snd (leader_store_remove m l)))) n =
      (if n \<in> set ns then None else store_get (snd (store_remove m (l_store l))) n)" by (simp add: st)
  then show ?case using ms.get_del [OF 2(2), of m n] by (auto split: if_splits)
qed simp

text \<open>The names that are left after the stale ones are gone all come from the list.\<close>

lemma stale_removed:
  assumes "store_inv (l_store l)"
  shows "j_name ` set (leader_jobs (remove_all (stale_jobs js l) l)) \<subseteq> j_name ` set js"
proof
  fix n assume "n \<in> j_name ` set (leader_jobs (remove_all (stale_jobs js l) l))"
  then have "store_get (l_store (remove_all (stale_jobs js l) l)) n \<noteq> None"
    by (simp add: store_get_None_iff leader_jobs_def)
  then have n: "n \<notin> set (stale_jobs js l)" "store_get (l_store l) n \<noteq> None"
    using remove_all_get [OF assms, of "stale_jobs js l" n] by (auto split: if_splits)
  then obtain j where "j \<in> set (leader_jobs l)" "j_name j = n" by (auto simp: store_get_None_iff leader_jobs_def)
  with n(1) have "\<exists>s\<in>set js. j_name s = j_name j" by (auto simp: stale_jobs_def list_ex_iff image_iff)
  with \<open>j_name j = n\<close> show "n \<in> j_name ` set js" by (metis image_eqI)
qed

lemma find_append_case: "find P (xs @ ys) = (case find P xs of Some x \<Rightarrow> Some x | None \<Rightarrow> find P ys)"
  by (induction xs) auto

lemma put_all_ok:
  assumes "store_inv (l_store l)" "j_name ` set (leader_jobs l) \<subseteq> N" "finite N" "card N \<le> MAX_JOBS" "j_name ` set js \<subseteq> N"
  shows "\<exists>l1. put_all js l = (Inr (), l1) \<and> store_inv (l_store l1) \<and>
    (\<forall>n. store_get (l_store l1) n = (case find (\<lambda>j. j_name j = n) (rev js) of Some j \<Rightarrow> Some j | None \<Rightarrow> store_get (l_store l) n))"
  using assms(1,2,5)
proof (induction js arbitrary: l)
  case (Cons j js)
  have room: "store_get (l_store l) (j_name j) = None \<Longrightarrow> length (ms_jobs (l_store l)) < MAX_JOBS"
  proof -
    assume "store_get (l_store l) (j_name j) = None"
    then have "j_name ` set (leader_jobs l) \<subseteq> N - {j_name j}" using Cons.prems(2) unfolding store_get_None_iff leader_jobs_def by blast
    then have "card (j_name ` set (leader_jobs l)) \<le> card (N - {j_name j})" using assms(3) by (intro card_mono) auto
    moreover have "card (j_name ` set (leader_jobs l)) = length (ms_jobs (l_store l))"
      using Cons.prems(1) by (metis distinct_card leader_jobs_def length_map list.set_map store_inv_def)
    moreover have "card (N - {j_name j}) < card N" using Cons.prems(3) assms(3) by (intro psubset_card_mono) auto
    ultimately show ?thesis using assms(4) by simp
  qed
  obtain s where p: "store_put j (l_store l) = (Inr (), s)"
    using room by (cases "store_get (l_store l) (j_name j)") (auto simp: store_put_def not_le)
  have s: "store_inv s" using store_put_inv [OF Cons.prems(1), of j] p by simp
  have get: "store_get s n = (if n = j_name j then Some j else store_get (l_store l) n)" for n
    using ms.get_put [OF Cons.prems(1), of j n] p by simp
  have "j_name ` set (leader_jobs (l\<lparr>l_store := s\<rparr>)) \<subseteq> N"
  proof
    fix n assume "n \<in> j_name ` set (leader_jobs (l\<lparr>l_store := s\<rparr>))"
    then have "store_get s n \<noteq> None" by (simp add: store_get_None_iff leader_jobs_def)
    then have "n = j_name j \<or> store_get (l_store l) n \<noteq> None" by (auto simp: get split: if_splits)
    then show "n \<in> N" using Cons.prems(2,3) unfolding store_get_None_iff leader_jobs_def by auto
  qed
  moreover have "l_store (l\<lparr>l_store := s\<rparr>) = s" by simp
  note Cons.IH [of "l\<lparr>l_store := s\<rparr>", unfolded this]
  ultimately
  obtain l1 where l1: "put_all js (l\<lparr>l_store := s\<rparr>) = (Inr (), l1)" "store_inv (l_store l1)"
    "\<And>n. store_get (l_store l1) n = (case find (\<lambda>j. j_name j = n) (rev js) of Some j \<Rightarrow> Some j | None \<Rightarrow> store_get s n)"
    using s Cons.prems(3) by auto
  with p show ?case by (auto simp: get find_append_case split: option.splits)
qed simp


lemma find_rev_distinct:
  "distinct (map f js) \<Longrightarrow> find (\<lambda>j. f j = n) (rev js) = find (\<lambda>j. f j = n) js"
proof (induction js)
  case (Cons j js)
  have "f j = n \<Longrightarrow> find (\<lambda>j. f j = n) js = None"
    using Cons.prems unfolding find_None_iff by (metis distinct.simps(2) image_eqI list.set_map list.simps(9))
  with Cons show ?case by (auto simp: find_append_case split: option.splits)
qed simp

text \<open>
  Loading never stops half-way: once the snapshot is read, every job of it fits, and the store
  then holds, by name, the last job of the snapshot with that name and nothing else.
\<close>

lemma load_read:
  assumes "leader_inv l" "read_state fl data = ok (updated, js)" "length js \<le> MAX_JOBS"
  shows "\<exists>l1. load_committed_state fl (Some data) l = Some (Inr True, l1) \<and> leader_inv l1 \<and>
    ms_state_time (l_store l1) = updated \<and> (\<forall>n. leader_job l1 n = find (\<lambda>j. j_name j = n) (rev js))"
proof -
  let ?l = "remove_all (stale_jobs js l) l" and ?N = "j_name ` set js"
  have inv: "leader_inv ?l" "store_inv (l_store l)" using assms(1) remove_all_inv by (blast, simp add: leader_inv_def)
  then have st: "store_inv (l_store ?l)" by (simp add: leader_inv_def)
  have "card ?N \<le> MAX_JOBS" using assms(3) by (meson card_image_le card_length finite_set le_trans)
  then obtain l1 where l1: "put_all js ?l = (Inr (), l1)" "store_inv (l_store l1)"
    "\<And>n. store_get (l_store l1) n = (case find (\<lambda>j. j_name j = n) (rev js) of Some j \<Rightarrow> Some j | None \<Rightarrow> store_get (l_store ?l) n)"
    using put_all_ok [OF st stale_removed [OF inv(2)]] by auto
  have "leader_inv l1" using put_all_inv [OF inv(1), of js] l1(1) by simp
  then have "leader_inv (l1\<lparr>l_store := store_set_state_time updated (l_store l1)\<rparr>)"
    using l1(2) by (simp add: leader_inv_set_store store_inv_def store_set_state_time_def)
  moreover have "store_get (store_set_state_time updated (l_store l1)) n = find (\<lambda>j. j_name j = n) (rev js)" for n
  proof (cases "find (\<lambda>j. j_name j = n) (rev js)")
    case None
    then have "n \<notin> ?N" by (auto simp: find_None_iff)
    then have "store_get (l_store ?l) n = None" using stale_removed [OF inv(2), of js] by (auto simp: store_get_None_iff leader_jobs_def)
    then show ?thesis using l1(3) [of n] None by (simp add: store_get_def store_set_state_time_def)
  qed (use l1(3) in \<open>simp add: store_get_def store_set_state_time_def\<close>)
  ultimately show ?thesis using l1(1) assms(2)
    by (simp add: load_committed_state_def leader_job_def store_set_state_time_def)
qed

lemma read_state_bound: "read_state fl data = ok (updated, js) \<Longrightarrow> length js \<le> MAX_JOBS"
proof -
  assume r: "read_state fl data = ok (updated, js)"
  then obtain obj where f: "run_fold state_field obj (time_ZERO, []) = ok (updated, js)"
    by (auto simp: read_state_def run_bind_ok_iff)
  have len: "de_list item k MAX_JOBS f = ok xs \<Longrightarrow> length xs \<le> MAX_JOBS" for item k f and xs :: "job list"
    by (auto simp: de_list_def run_bind_ok_iff run_map_length split: if_splits)
  have "length (snd (updated, js)) \<le> MAX_JOBS"
    by (rule run_fold_inv [OF f]) (auto simp: state_field_def run_bind_ok_iff len split: if_splits prod.splits)
  then show "length js \<le> MAX_JOBS" by simp
qed

section \<open>The snapshot is read back\<close>

lemma snapshot_value_ok:
  assumes "now \<le> u64_max"
  shows "\<exists>u. parse_rfc3339 u = Inr now \<and> utf8_valid u \<and>
    snapshot_value now l = Inr (JObject [(''updated'', JString u), (''jobs'', JArray (map job_to_value (leader_jobs l)))])"
proof -
  obtain u where u: "write_rfc3339 now [] = Inr u" "parse_rfc3339 u = Inr now" using rfc3339_read_back [OF assms] by blast
  with write_rfc3339_valid [OF assms u(1)] show ?thesis by (auto simp: snapshot_value_def ob_field_def obj_push_def)
qed

lemma state_wf:
  assumes "\<forall>j\<in>set js. job_ok j" "utf8_valid u"
  shows "json_wf MAX_DEPTH (JObject [(''updated'', JString u), (''jobs'', JArray (map job_to_value js))])"
proof -
  have levels: "json_wf (Suc (Suc n)) (JObject [(''updated'', JString u), (''jobs'', JArray (map job_to_value js))])"
    if "\<And>j. j \<in> set js \<Longrightarrow> json_wf n (job_to_value j)" for n
  proof -
    have "utf8_valid ''updated''" "utf8_valid ''jobs''" by (simp_all add: ascii_valid)
    with that assms(2) show ?thesis by (simp add: list_all_iff)
  qed
  have "json_wf (Suc (Suc 5)) (JObject [(''updated'', JString u), (''jobs'', JArray (map job_to_value js))])"
    by (rule levels) (use assms(1) in \<open>simp add: job_value_wf\<close>)
  then show ?thesis by (rule json_typed_mono) (simp add: MAX_DEPTH_def)
qed

lemma read_state_snapshot:
  assumes "\<forall>j\<in>set (leader_jobs l). job_ok j" "length (leader_jobs l) \<le> MAX_JOBS" "now \<le> u64_max"
    and "snapshot fl now l = Inr s" "length s \<le> MAX_INPUT"
  shows "read_state fl s = ok (now, leader_jobs l)"
proof -
  let ?js = "leader_jobs l"
  obtain u where u: "parse_rfc3339 u = Inr now" "utf8_valid u"
    "snapshot_value now l = Inr (JObject [(''updated'', JString u), (''jobs'', JArray (map job_to_value ?js))])"
    using snapshot_value_ok [OF assms(3)] by blast
  let ?v = "JObject [(''updated'', JString u), (''jobs'', JArray (map job_to_value ?js))]"
  have wf: "json_wf MAX_DEPTH ?v" by (rule state_wf [OF assms(1) u(2)])
  have "json_write fl ?v = Inr s"
    using assms(4) u(3) by (auto simp: snapshot_def json_to_string_def split: sum.splits)
  from json_parse_write [OF wf this assms(5)] have p: "json_parse fl s = ok ?v" .
  have "de_list (JArray (map job_to_value ?js)) ''jobs'' MAX_JOBS (job_from_value False) = ok ?js"
    using assms(1,2) job_read_back by (intro de_list_map) auto
  with p u(1) show ?thesis
    by (simp add: read_state_def de_object_def as_object_def state_field_def is_null_def)
qed

lemma snapshot_written:
  assumes "\<forall>j\<in>set (leader_jobs l). job_ok j" "now \<le> u64_max"
  shows "\<exists>s. snapshot fl now l = Inr s"
proof -
  obtain u where u: "utf8_valid u"
    "snapshot_value now l = Inr (JObject [(''updated'', JString u), (''jobs'', JArray (map job_to_value (leader_jobs l)))])"
    using snapshot_value_ok [OF assms(2)] by blast
  from json_write_wf(1) [OF state_wf [OF assms(1) u(1)], of fl] u(2) show ?thesis
    by (auto simp: snapshot_def json_to_string_def)
qed


section \<open>A snapshot can grow past what is read\<close>

lemma length_char_text: "utf8_char c \<Longrightarrow> length c \<le> length (char_text c)"
proof -
  assume c: "utf8_char c"
  have "length c \<le> 4" using c by (cases rule: utf8_char_cases) auto
  then show "length c \<le> length (char_text c)"
    by (auto simp: char_text_def hex4_text_def short_escape_def split: option.splits if_splits)
qed

lemma length_write_string:
  assumes "utf8_valid s"
  shows "length s \<le> length (write_string s)"
proof -
  have "list_all utf8_char cs \<Longrightarrow> length (concat cs) \<le> length (concat (map char_text cs))" for cs
    by (induction cs) (auto intro: add_mono length_char_text)
  from this [of "utf8_chars s"] utf8_valid_split [OF assms] show ?thesis by (simp add: write_string_def)
qed

lemma length_write_member:
  "write_items fl b vs = Inr t \<Longrightarrow> v \<in> set vs \<Longrightarrow> \<exists>u. json_write fl v = Inr u \<and> length u \<le> length t"
  "write_fields fl b ps = Inr t \<Longrightarrow> (k, v) \<in> set ps \<Longrightarrow> \<exists>u. json_write fl v = Inr u \<and> length u \<le> length t"
proof -
  show "write_items fl b vs = Inr t \<Longrightarrow> v \<in> set vs \<Longrightarrow> \<exists>u. json_write fl v = Inr u \<and> length u \<le> length t"
  proof (induction vs arbitrary: b t)
    case (Cons x xs)
    then show ?case by (fastforce simp: sum_append_eq_Inr)
  qed simp
  show "write_fields fl b ps = Inr t \<Longrightarrow> (k, v) \<in> set ps \<Longrightarrow> \<exists>u. json_write fl v = Inr u \<and> length u \<le> length t"
  proof (induction ps arbitrary: b t)
    case (Cons p ps)
    then show ?case by (cases p) (fastforce simp: sum_append_eq_Inr)
  qed simp
qed

lemma length_snapshot:
  assumes "j \<in> set (leader_jobs l)" "job_ok j" "now \<le> u64_max" "snapshot fl now l = Inr s"
  shows "length (j_command j) \<le> length s"
proof (cases "j_command j = []")
  case False
  obtain u where "snapshot_value now l = Inr (JObject [(''updated'', JString u), (''jobs'', JArray (map job_to_value (leader_jobs l)))])"
    using snapshot_value_ok [OF assms(3)] by blast
  with assms(4) obtain t1 where t1: "write_fields fl True [(''updated'', JString u), (''jobs'', JArray (map job_to_value (leader_jobs l)))] = Inr t1"
    "length t1 \<le> length s" by (auto simp: snapshot_def json_to_string_def sum_append_eq_Inr split: sum.splits)
  from length_write_member(2) [OF t1(1), of "''jobs''"] obtain t2 where
    t2: "write_items fl True (map job_to_value (leader_jobs l)) = Inr t2" "length t2 \<le> length t1" by (auto simp: sum_append_eq_Inr)
  from length_write_member(1) [OF t2(1), of "job_to_value j"] assms(1) obtain t3 where
    t3: "write_fields fl True (written (job_fields j)) = Inr t3" "length t3 \<le> length t2"
    by (auto simp: job_to_value_fields sum_append_eq_Inr)
  have "(''command'', JString (j_command j)) \<in> set (written (job_fields j))"
    using False by (simp add: written_def job_fields_def image_iff)
  from length_write_member(2) [OF t3(1) this] have "length (write_string (j_command j)) \<le> length t3" by auto
  with length_write_string [of "j_command j"] assms(2) t1 t2 t3 show ?thesis by (simp add: job_ok_def)
qed simp


section \<open>The invariant\<close>

lemma poll_snapshot_inv [inv_intros]: "leader_inv l \<Longrightarrow> leader_inv (snd (poll_snapshot fl now l))"
  by (auto simp: poll_snapshot_def leader_inv_def Let_def split: option.splits sum.splits)

lemma snapshot_failed_inv [inv_intros]: "leader_inv l \<Longrightarrow> leader_inv (snapshot_failed l)"
  by (simp add: snapshot_failed_def leader_inv_def)

lemma load_committed_state_inv:
  assumes "load_committed_state fl snap l = Some (r, l1)" "leader_inv l"
  shows "leader_inv l1"
proof (cases snap)
  case None
  then show ?thesis using assms by (simp add: load_committed_state_def)
next
  case (Some data)
  show ?thesis
  proof (cases "read_state fl data" rule: run_cases)
    case (ok x)
    obtain u js where "x = (u, js)" by fastforce
    with ok Some load_read [OF assms(2), of fl data u js] read_state_bound [of fl data u js] assms(1) show ?thesis by auto
  qed (use assms Some in \<open>auto simp: load_committed_state_def\<close>)
qed

section \<open>Properties\<close>

text \<open>
  C19. The cluster's jobs survive a change of leader: a snapshot of well-formed jobs within the
  input bound, loaded by any other leader, leaves that leader with exactly those jobs, field by
  field and under the same names, whatever it held before, and with the snapshot's time.
\<close>

theorem snapshot_restores:
  assumes "leader_inv l" "\<forall>j\<in>set (leader_jobs l). job_ok j" "now \<le> u64_max"
    and "snapshot fl now l = Inr s" "length s \<le> MAX_INPUT" "leader_inv l0"
  shows "\<exists>l1. load_committed_state fl (Some s) l0 = Some (Inr True, l1) \<and> leader_inv l1 \<and>
    (\<forall>n. leader_job l1 n = leader_job l n) \<and> store_state_time (l_store l1) = now"
proof -
  have store: "store_inv (l_store l)" using assms(1) by (simp add: leader_inv_def)
  then have len: "length (leader_jobs l) \<le> MAX_JOBS" "distinct (map j_name (leader_jobs l))"
    by (simp_all add: store_inv_def leader_jobs_def)
  from load_read [OF assms(6) read_state_snapshot [OF assms(2) len(1) assms(3,4,5)] len(1)]
    find_rev_distinct [OF len(2)]
  show ?thesis by (auto simp: leader_job_def store_get_def leader_jobs_def store_state_time_def)
qed

definition snap_job :: job where
  "snap_job = job_default\<lparr>j_name := ''web'', j_command := ''run'', j_ports := [(''http'', 80)]\<rparr>"

definition snap_author :: leader where
  "snap_author = leader_new ''a'' \<lparr>ms_jobs = [snap_job], ms_state_time = 0\<rparr>"

definition snap_successor :: leader where
  "snap_successor = leader_new ''b'' \<lparr>ms_jobs = [snap_job\<lparr>j_name := ''old''\<rparr>], ms_state_time = 0\<rparr>"

lemma snap_job_ok: "job_ok snap_job"
  by (simp add: snap_job_def job_default_def job_ok_def ascii_valid i64_range_def i64_min_def i64_max_def ports_ok_def
      MAX_PORTS_def u16_max_def hmap_inv_def)

lemma snap_leaders_inv: "leader_inv snap_author" "leader_inv snap_successor"
  by (simp_all add: snap_author_def snap_successor_def leader_new_def leader_inv_def agents_inv_def books_inv_def
      store_inv_def MAX_JOBS_def hmap_new_def)

theorem snapshot_restores_witness:
  "\<exists>s l1. snapshot plain_floats 0 snap_author = Inr s \<and>
     load_committed_state plain_floats (Some s) snap_successor = Some (Inr True, l1) \<and>
     leader_job l1 ''web'' = Some snap_job \<and> leader_job l1 ''old'' = None"
proof -
  have jobs: "\<forall>j\<in>set (leader_jobs snap_author). job_ok j" using snap_job_ok by (simp add: snap_author_def leader_jobs_def leader_new_def)
  have "case snapshot plain_floats 0 snap_author of Inr s \<Rightarrow> length s \<le> MAX_INPUT | Inl _ \<Rightarrow> False" by code_simp
  then obtain s where s: "snapshot plain_floats 0 snap_author = Inr s" "length s \<le> MAX_INPUT"
    by (cases "snapshot plain_floats 0 snap_author") simp_all
  have "(0::nat) \<le> u64_max" by simp
  from snapshot_restores [OF snap_leaders_inv(1) jobs this s snap_leaders_inv(2)] obtain l1 where
    l1: "load_committed_state plain_floats (Some s) snap_successor = Some (Inr True, l1)"
      "\<And>n. leader_job l1 n = leader_job snap_author n" by blast
  have "leader_job snap_author ''web'' = Some snap_job" "leader_job snap_author ''old'' = None" by code_simp+
  with l1(2) have "leader_job l1 ''web'' = Some snap_job" "leader_job l1 ''old'' = None" by simp_all
  with s(1) l1(1) show ?thesis by blast
qed

text \<open>
  C26. A broken snapshot is refused as a whole: when loading gives an error, the leader is as it
  was.
\<close>

theorem load_all_or_nothing:
  assumes "leader_inv l" "load_committed_state fl snap l = Some (Inl e, l1)"
  shows "l1 = l \<and> (\<exists>data e'. snap = Some data \<and> read_state fl data = fails e' \<and> e = leader_error_from e')"
proof -
  obtain data where data: "snap = Some data" using assms(2) by (auto simp: load_committed_state_def split: option.splits)
  show ?thesis
  proof (cases "read_state fl data" rule: run_cases)
    case (ok x)
    obtain u js where "x = (u, js)" by fastforce
    with ok load_read [OF assms(1), of fl data u js] read_state_bound [of fl data u js] assms(2) data
    show ?thesis by auto
  qed (use assms(2) data in \<open>auto simp: load_committed_state_def\<close>)
qed

theorem load_all_or_nothing_witness:
  "\<exists>e. load_committed_state plain_floats (Some ''{\"jobs\": ['') snap_successor = Some (Inl e, snap_successor)"
proof -
  have "case load_committed_state plain_floats (Some ''{\"jobs\": ['') snap_successor of Some (Inl _, _) \<Rightarrow> True | _ \<Rightarrow> False"
    by code_simp
  then obtain e l1 where r: "load_committed_state plain_floats (Some ''{\"jobs\": ['') snap_successor = Some (Inl e, l1)"
    by (auto split: option.splits prod.splits sum.splits)
  from load_all_or_nothing [OF snap_leaders_inv(2) this] r show ?thesis by auto
qed

text \<open>
  A snapshot can be written that no leader reads back: with one stored job whose command is
  longer than the input bound, taking the snapshot succeeds and loading it is refused as too
  large.
\<close>

theorem snapshot_too_large:
  assumes "j \<in> set (leader_jobs l)" "\<forall>j\<in>set (leader_jobs l). job_ok j" "now \<le> u64_max"
    and "MAX_INPUT < length (j_command j)"
  shows "\<exists>s. snapshot fl now l = Inr s \<and>
    load_committed_state fl (Some s) l0 = Some (Inl (LJson (TooLarge (length s) MAX_INPUT)), l0)"
proof -
  obtain s where s: "snapshot fl now l = Inr s" using snapshot_written [OF assms(2,3)] by blast
  have "MAX_INPUT < length s" using length_snapshot [OF assms(1) _ assms(3) s] assms(1,2,4) by auto
  then have "json_parse fl s = fails (TooLarge (length s) MAX_INPUT)" by (simp add: json_parse_def parse_with_limit_def)
  with s show ?thesis by (simp add: load_committed_state_def read_state_def)
qed

theorem snapshot_too_large_witness:
  "\<exists>l s n. snapshot plain_floats 0 l = Inr s \<and>
     load_committed_state plain_floats (Some s) snap_author = Some (Inl (LJson (TooLarge n MAX_INPUT)), snap_author)"
proof -
  define j where "j = snap_job\<lparr>j_command := replicate (Suc MAX_INPUT) (CHR ''x'')\<rparr>"
  define l where "l = leader_new ''a'' \<lparr>ms_jobs = [j], ms_state_time = 0\<rparr>"
  have "utf8_valid (replicate k (CHR ''x''))" for k by (rule ascii_valid) (simp add: list_all_iff)
  then have "job_ok j" using snap_job_ok by (simp add: j_def job_ok_def del: replicate_Suc)
  then have "\<forall>j\<in>set (leader_jobs l). job_ok j" "j \<in> set (leader_jobs l)" by (simp_all add: l_def leader_jobs_def leader_new_def)
  moreover have "MAX_INPUT < length (j_command j)" by (simp add: j_def del: replicate_Suc)
  ultimately show ?thesis using snapshot_too_large [of j l 0 plain_floats snap_author] by auto
qed

text \<open>
  The init jobs of the configuration are read all or not at all: the result has one job per
  entry, each with a name and with something to run, and an error names the first entry that
  is not such a job.
\<close>

theorem decode_init_jobs_ok:
  "case decode_init_jobs specs of
     Some (Inr js) \<Rightarrow> length js = length specs \<and> (\<forall>j\<in>set js. j_name j \<noteq> [] \<and> check_runnable j = Inr ())
   | Some (Inl e) \<Rightarrow> \<exists>i c. e = InitJob i c \<and> i < length specs \<and> decode_init_job (specs ! i) = fails c \<and>
       (\<forall>k<i. \<exists>j. decode_init_job (specs ! k) = ok j)
   | None \<Rightarrow> \<exists>spec\<in>set specs. job_from_value True spec = None"
proof -
  have name: "j_name (apply_hop_shorthand j) = j_name j" for j by (simp add: apply_hop_shorthand_def)
  have one: "decode_init_job spec = ok j \<Longrightarrow> j_name j \<noteq> [] \<and> check_runnable j = Inr ()" for spec j
    by (auto simp: decode_init_job_def run_bind_ok_iff Let_def name split: if_splits)
  have none: "decode_init_job spec = None \<Longrightarrow> job_from_value True spec = None" for spec
    by (auto simp: decode_init_job_def run_bind_None_iff Let_def split: if_splits)
  have "case decode_init_from i specs of
     Some (Inr js) \<Rightarrow> length js = length specs \<and> (\<forall>j\<in>set js. j_name j \<noteq> [] \<and> check_runnable j = Inr ())
   | Some (Inl e) \<Rightarrow> \<exists>m c. e = InitJob (i + m) c \<and> m < length specs \<and> decode_init_job (specs ! m) = fails c \<and>
       (\<forall>k<m. \<exists>j. decode_init_job (specs ! k) = ok j)
   | None \<Rightarrow> \<exists>spec\<in>set specs. job_from_value True spec = None" for i
  proof (induction specs arbitrary: i)
    case (Cons spec specs)
    show ?case
    proof (cases "decode_init_job spec" rule: run_cases)
      case None
      then show ?thesis using none by auto
    next
      case (fails e)
      then show ?thesis by (auto intro!: exI [of _ "0::nat"])
    next
      case (ok j)
      show ?thesis
      proof (cases "decode_init_from (Suc i) specs")
        case None
        then show ?thesis using ok Cons [of "Suc i"] by auto
      next
        case (Some r)
        show ?thesis
        proof (cases r)
          case (Inr js)
          then show ?thesis using ok Some Cons [of "Suc i"] one [OF ok] by auto
        next
          case (Inl e)
          then obtain m c where m: "e = InitJob (Suc i + m) c" "m < length specs" "decode_init_job (specs ! m) = fails c"
            "\<forall>k<m. \<exists>j. decode_init_job (specs ! k) = ok j" using Some Cons [of "Suc i"] by auto
          have "\<forall>k<Suc m. \<exists>j. decode_init_job ((spec # specs) ! k) = ok j" using ok m(4) by (auto simp: less_Suc_eq_0_disj)
          with m Inl Some ok show ?thesis by (auto intro!: exI [of _ "Suc m"])
        qed
      qed
    qed
  qed simp
  from this [of 0, unfolded add_0] show ?thesis unfolding decode_init_jobs_def .
qed

theorem decode_init_jobs_ok_witness:
  "\<exists>j. decode_init_jobs [JObject [(''name'', JString ''web''), (''command'', JString ''run'')]] = Some (Inr [j]) \<and>
     j_name j \<noteq> [] \<and> check_runnable j = Inr ()"
proof -
  have "decode_init_jobs [JObject [(''name'', JString ''web''), (''command'', JString ''run'')]] =
      Some (Inr [job_default\<lparr>j_name := ''web'', j_command := ''run''\<rparr>])" by code_simp
  with decode_init_jobs_ok [of "[JObject [(''name'', JString ''web''), (''command'', JString ''run'')]]"]
  show ?thesis by simp
qed

end
