(* ===== verification/Leader_System.thy ===== *)
theory Leader_System
  imports Leader_Update Leader_Persist
begin

text \<open>
  The leader as a state machine: \<open>leader_step\<close> has one rule per public operation, and the
  invariant holds in every reachable state.  After it come the properties of the leader's
  operations, with their witnesses on a small cluster.
\<close>

section \<open>The step relation\<close>

text \<open>
  The map of counts that an agent registers with is a \<^verbatim>\<open>Map<u32>\<close>: strictly sorted keys, values
  of 32 bits.  That is the premise of the rule \<open>register\<close>.
\<close>

inductive leader_step :: "'w transport \<Rightarrow> leader \<times> 'w \<Rightarrow> leader \<times> 'w \<Rightarrow> bool" for net where
  set_timeout: "leader_step net (l, w) (set_agent_timeout d l, w)"
| settle: "leader_step net (l, w) (settle d now l, w)"
| enable_settle: "leader_step net (l, w) (enable_settle now l, w)"
| notify: "leader_step net (l, w) (notify topic l, w)"
| drain: "drain_events l = (es, l') \<Longrightarrow> leader_step net (l, w) (l', w)"
| heartbeat: "heartbeat i v t now l = (known, l') \<Longrightarrow> leader_step net (l, w) (l', w)"
| register: "counts_inv placed \<Longrightarrow> register_agent net a placed now l w = (r, l', w') \<Longrightarrow>
    leader_step net (l, w) (l', w')"
| unregister: "unregister_agent net i l w = (r, l', w') \<Longrightarrow> leader_step net (l, w) (l', w')"
| unplaced: "mark_unplaced net i n l w = (r, l', w') \<Longrightarrow> leader_step net (l, w) (l', w')"
| dispatch: "dispatch_job net job l w = (r, l', w') \<Longrightarrow> leader_step net (l, w) (l', w')"
| update: "update_job net job l w = (r, l', w') \<Longrightarrow> leader_step net (l, w) (l', w')"
| delete: "delete_job net n l w = (r, l', w') \<Longrightarrow> leader_step net (l, w) (l', w')"
| patch: "patch_job_priority net n t l w = (r, l', w') \<Longrightarrow> leader_step net (l, w) (l', w')"
| seed: "seed_init_jobs net jobs l w = (r, l', w') \<Longrightarrow> leader_step net (l, w) (l', w')"
| check_dead: "check_dead_agents net now l w = (r, l', w') \<Longrightarrow> leader_step net (l, w) (l', w')"
| reconcile: "reconcile_jobs net l w = (r, l', w') \<Longrightarrow> leader_step net (l, w) (l', w')"
| tick: "tick net now l w = (r, l', w') \<Longrightarrow> leader_step net (l, w) (l', w')"
| poll: "poll_snapshot fl now l = (p, l') \<Longrightarrow> leader_step net (l, w) (l', w)"
| snapshot_failed: "leader_step net (l, w) (snapshot_failed l, w)"
| load: "load_committed_state fl snap l = Some (b, l') \<Longrightarrow> leader_step net (l, w) (l', w)"

inductive leader_reachable :: "'w transport \<Rightarrow> leader \<times> 'w \<Rightarrow> bool" for net where
  init: "leader_reachable net (leader_new i store_new, w)"
| step: "leader_reachable net s \<Longrightarrow> leader_step net s s' \<Longrightarrow> leader_reachable net s'"

inductive_cases leader_stepE: "leader_step net s s'"

lemma store_new_inv [simp]: "store_inv store_new"
  by (simp add: store_inv_def store_new_def)

lemma leader_inv_timeout [inv_intros]: "leader_inv l \<Longrightarrow> leader_inv (set_agent_timeout d l)"
  by (simp add: leader_inv_def set_agent_timeout_def)

lemma leader_inv_enable [inv_intros]: "leader_inv l \<Longrightarrow> leader_inv (enable_settle now l)"
  by (simp add: enable_settle_def leader_inv_settle)

text \<open>From "the operation keeps the invariant" to the form of a rule's premise.\<close>

lemma inv_of_result: "leader_inv (fst (snd p)) \<Longrightarrow> p = (r, l', w') \<Longrightarrow> leader_inv l'"
  by simp

lemma inv_of_pair: "leader_inv (snd p) \<Longrightarrow> p = (r, l') \<Longrightarrow> leader_inv l'"
  by simp

lemma leader_step_inv: "leader_step net (l, w) (l', w') \<Longrightarrow> leader_inv l \<Longrightarrow> leader_inv l'"
  by (erule leader_stepE; clarify)
    (auto intro: inv_intros inv_of_result inv_of_pair load_committed_state_inv)

section \<open>A small cluster for the witnesses\<close>

text \<open>Two agents that accept everything; the world counts the calls.\<close>

definition ex_net :: "nat transport" where
  "ex_net = \<lparr>net_run = \<lambda>a j r w. (Accepted, Suc w), net_stop_job = \<lambda>a n w. (True, Suc w),
     net_stop_task = \<lambda>a t w. Suc w, net_delete_job = \<lambda>a n w. Suc w,
     net_tasks = \<lambda>a w. (Some [], Suc w), net_pause = \<lambda>d w. w\<rparr>"

definition ex_agent :: "string \<Rightarrow> agent" where
  "ex_agent i = \<lparr>a_id = i, a_endpoint = ''http://'' @ i, a_version = ''1'', a_last_seen = 0,
     a_telemetry = telemetry_default\<rparr>"

definition ex_job :: "string \<Rightarrow> int \<Rightarrow> job" where
  "ex_job n c = job_default\<lparr>j_name := n, j_count := c, j_command := ''run''\<rparr>"

definition ex_leader :: leader where
  "ex_leader = (leader_new ''a'' \<lparr>ms_jobs = [ex_job ''web'' 3, ex_job ''log'' (-1)], ms_state_time = 0\<rparr>)
     \<lparr>l_agents := [ex_agent ''a'', ex_agent ''b''], l_placed := [(''a'', [(''web'', 1)]), (''b'', [])]\<rparr>"

lemma ex_leader_inv: "leader_inv ex_leader"
  by (simp add: ex_leader_def leader_new_def leader_inv_def agents_inv_def books_inv_def counts_inv_def
      hmap_inv_def store_inv_def MAX_JOBS_def MAX_AGENTS_def ex_agent_def ex_job_def u32_max_def)

lemma ex_net_willing: "willing ex_net"
  by (simp add: willing_def ex_net_def)

lemmas ex_defs = ex_leader_def ex_net_def ex_agent_def ex_job_def leader_new_def job_default_def

section \<open>Properties\<close>

text \<open>
  C1.  In every state a leader can reach, through any sequence of its operations and against
  any behaviour of the agents, the invariant holds: the agents are strictly sorted by id and
  at most 256, the books cover exactly the registered agents and hold 32-bit counts, job
  names are unique and at most 1024, the event queue has no duplicates and at most 64
  entries, the settle deadline is set exactly while settling, and the debounce clock runs
  only on a dirty state.
\<close>

theorem leader_reachable_inv: "leader_reachable net (l, w) \<Longrightarrow> leader_inv l"
proof (induction "(l, w)" arbitrary: l w rule: leader_reachable.induct)
  case (step s)
  then show ?case by (cases s) (auto intro: leader_step_inv)
qed simp

theorem leader_reachable_inv_witness:
  "leader_inv (fst (snd (dispatch_job ex_net (ex_job ''web'' 2) (leader_new ''a'' store_new) 0)))"
proof -
  obtain r l' w' where d: "dispatch_job ex_net (ex_job ''web'' 2) (leader_new ''a'' store_new) 0 = (r, l', w')"
    by (metis prod_cases3)
  have "leader_reachable ex_net (l', w')"
    by (rule leader_reachable.step [OF leader_reachable.init leader_step.dispatch [OF d]])
  from leader_reachable_inv [OF this] d show ?thesis by simp
qed

text \<open>
  C2.  Against agents that accept what they are asked to run, one reconcile gives every
  stored job its instances (a daemon on every agent, any other job its wanted number), and
  the next reconcile makes no call at all and leaves the books as they are.
\<close>

theorem reconcile_converges:
  assumes "willing net" "leader_inv l" "l_agents l \<noteq> []"
    and "\<forall>j \<in> set (leader_jobs l). j_name j \<noteq> [] \<and> desired j \<le> u32_max"
    and "reconcile_jobs net l w = (r, l1, w1)" "reconcile_jobs net l1 w1 = (r2, l2, w2)"
  shows "r = Inr () \<and> (\<forall>j \<in> set (leader_jobs l1).
      if is_daemon j then \<forall>a \<in> set (l_agents l1). 1 \<le> placed_on l1 (a_id a) (j_name j)
      else desired j \<le> total_placed l1 (j_name j)) \<and>
    w2 = w1 \<and> l_placed l2 = l_placed l1"
proof -
  have names: "j_name j \<noteq> [] \<and> desired j \<le> u32_max" if "store_get (l_store l) n = Some j" for n j
    using assms(4) store_get_mem [OF that] by (simp add: leader_jobs_def)
  have inv: "leader_inv l1" "r = Inr ()" using reconcile_jobs_inv_ok [OF assms(2,5)] by simp_all
  have sat: "satisfied l1 j" if "store_get (l_store l1) n = Some j" for n j
    by (rule reconcile_jobs_willing [OF assms(1-3) names assms(5) that])
  have "satisfied l1 j" if "j \<in> set (leader_jobs l1)" for j
    using that by (intro sat [OF store_get_unique [OF leader_inv_store [OF inv(1)]]]) (simp add: leader_jobs_def)
  then have "\<forall>j \<in> set (leader_jobs l1).
      if is_daemon j then \<forall>a \<in> set (l_agents l1). 1 \<le> placed_on l1 (a_id a) (j_name j)
      else desired j \<le> total_placed l1 (j_name j)"
    by (fastforce simp: satisfied_def Suc_le_eq split: if_splits)
  with reconcile_jobs_satisfied [OF inv(1) sat assms(6)] inv(2) show ?thesis by simp
qed

theorem reconcile_converges_witness:
  "\<exists>r l1 w1 r2 l2. reconcile_jobs ex_net ex_leader 0 = (r, l1, w1) \<and>
     reconcile_jobs ex_net l1 w1 = (r2, l2, w1) \<and> l_placed l2 = l_placed l1 \<and> r = Inr ()"
proof -
  obtain r l1 w1 where 1: "reconcile_jobs ex_net ex_leader 0 = (r, l1, w1)" by (metis prod_cases3)
  obtain r2 l2 w2 where 2: "reconcile_jobs ex_net l1 w1 = (r2, l2, w2)" by (metis prod_cases3)
  have "l_agents ex_leader \<noteq> []" "\<forall>j \<in> set (leader_jobs ex_leader). j_name j \<noteq> [] \<and> desired j \<le> u32_max"
    by (simp_all add: ex_defs leader_jobs_def desired_def u32_max_def)
  from reconcile_converges [OF ex_net_willing ex_leader_inv this 1 2] 1 2 show ?thesis by blast
qed

text \<open>
  C3.  A reconcile never over-places: afterwards no ordinary job has more instances than the
  larger of what it wants and what it had, and no daemon more than one on an agent where it
  did not have more already.
\<close>

theorem reconcile_no_overplacement:
  assumes "leader_inv l" "j \<in> set (leader_jobs l)" "reconcile_jobs net l w = (r, l', w')"
  shows "if is_daemon j
    then \<forall>a \<in> set (l_agents l'). placed_on l' (a_id a) (j_name j) \<le> max 1 (placed_on l (a_id a) (j_name j))
    else total_placed l' (j_name j) \<le> max (desired j) (total_placed l (j_name j))"
  using reconcile_jobs_facts(3) [OF assms(1,3), of j] assms(2)
  by (auto simp: not_over_def leader_jobs_def split: if_splits)

theorem reconcile_no_overplacement_witness:
  "\<exists>r l' w'. reconcile_jobs ex_net ex_leader 0 = (r, l', w') \<and> total_placed l' ''web'' \<le> 3"
proof -
  obtain r l' w' where r: "reconcile_jobs ex_net ex_leader 0 = (r, l', w')" by (metis prod_cases3)
  have "ex_job ''web'' 3 \<in> set (leader_jobs ex_leader)" by (simp add: ex_leader_def leader_new_def leader_jobs_def)
  from reconcile_no_overplacement [OF ex_leader_inv this r]
  have "total_placed l' ''web'' \<le> max 3 (total_placed ex_leader ''web'')"
    by (simp add: ex_job_def is_daemon_def desired_def)
  moreover have "total_placed ex_leader ''web'' = 1"
    by (simp add: ex_defs total_placed_def placed_on_def hmap_get_map_of hmap_inv_def)
  ultimately show ?thesis using r by auto
qed

text \<open>
  C4.  A reconcile only takes instances away from a job when some job comes strictly before it
  in the priority order; the most important job never loses an instance.
\<close>

theorem reconcile_evicts_by_priority:
  assumes "leader_inv l" "reconcile_jobs net l w = (r, l', w')" "placed_on l' i n < placed_on l i n"
  shows "\<exists>m \<in> set (priority_order l). place_in (priority_order l) m < place_in (priority_order l) n"
  by (rule reconcile_jobs_facts(4) [OF assms])

text \<open>One agent with room for one job; it has room again after a stop.\<close>

definition ex_full_net :: "bool transport" where
  "ex_full_net = \<lparr>net_run = \<lambda>a j r free. (if free then (Accepted, False) else (NoCapacity, False)),
     net_stop_job = \<lambda>a n free. (True, True), net_stop_task = \<lambda>a t free. True,
     net_delete_job = \<lambda>a n free. True, net_tasks = \<lambda>a free. (Some [], free), net_pause = \<lambda>d free. free\<rparr>"

definition ex_full_leader :: leader where
  "ex_full_leader = (leader_new ''a'' \<lparr>ms_jobs = [(ex_job ''low'' 1)\<lparr>j_priority := Some 1\<rparr>,
       (ex_job ''high'' 1)\<lparr>j_priority := Some 0\<rparr>], ms_state_time = 0\<rparr>)
     \<lparr>l_agents := [ex_agent ''a''], l_placed := [(''a'', [(''low'', 1)])]\<rparr>"

lemma ex_full_leader_inv: "leader_inv ex_full_leader"
  by (simp add: ex_full_leader_def leader_new_def leader_inv_def agents_inv_def books_inv_def counts_inv_def
      hmap_inv_def store_inv_def MAX_JOBS_def MAX_AGENTS_def ex_agent_def ex_job_def u32_max_def)

theorem reconcile_evicts_by_priority_witness:
  "\<exists>m \<in> set (priority_order ex_full_leader).
     place_in (priority_order ex_full_leader) m < place_in (priority_order ex_full_leader) ''low''"
proof -
  obtain r l' w' where r: "reconcile_jobs ex_full_net ex_full_leader False = (r, l', w')" by (metis prod_cases3)
  have "placed_on (fst (snd (reconcile_jobs ex_full_net ex_full_leader False))) ''a'' ''low''
      < placed_on ex_full_leader ''a'' ''low''"
    by code_simp
  with r reconcile_evicts_by_priority [OF ex_full_leader_inv r] show ?thesis by simp
qed

text \<open>
   A reconcile over a satisfied cluster (every daemon on every agent, every other job at or
  above its number) makes no call and leaves books, events and result as they are: the
  safety-net reconcile is free.
\<close>

theorem reconcile_quiescent:
  assumes "leader_inv l"
    and "\<forall>j \<in> set (leader_jobs l). if is_daemon j
      then \<forall>a \<in> set (l_agents l). 1 \<le> placed_on l (a_id a) (j_name j) else desired j \<le> total_placed l (j_name j)"
    and "reconcile_jobs net l w = (r, l', w')"
  shows "r = Inr () \<and> w' = w \<and> l_placed l' = l_placed l \<and> l_events l' = l_events l"
proof -
  have "satisfied l j" if "store_get (l_store l) n = Some j" for n j
    using assms(2) store_get_mem [OF that] by (fastforce simp: satisfied_def leader_jobs_def)
  from reconcile_jobs_satisfied [OF assms(1) this assms(3)] reconcile_jobs_inv_ok [OF assms(1,3)]
  show ?thesis by simp
qed

theorem reconcile_quiescent_witness:
  "\<exists>r l'. reconcile_jobs ex_full_net (ex_full_leader\<lparr>l_store := store_new\<rparr>) True = (r, l', True)"
proof -
  let ?l = "ex_full_leader\<lparr>l_store := store_new\<rparr>"
  obtain r l' w' where r: "reconcile_jobs ex_full_net ?l True = (r, l', w')" by (metis prod_cases3)
  have "leader_inv ?l" using ex_full_leader_inv by (simp add: leader_inv_def)
  from reconcile_quiescent [OF this _ r] r show ?thesis by (simp add: leader_jobs_def store_new_def)
qed

text \<open>
   The victim of a preemption on an agent is a job that runs there, is strictly less
  important than the newcomer, and is the least important of all stored jobs there; when
  there is no victim, nothing running there is less important.
\<close>

theorem find_victim_least_important:
  assumes "leader_inv l"
  shows "case find_victim l i p of
      Some v \<Rightarrow> 0 < placed_on l i v \<and> (\<exists>jv. leader_job l v = Some jv \<and>
          effective_priority p < effective_priority (j_priority jv) \<and>
          (\<forall>n j. 0 < placed_on l i n \<and> leader_job l n = Some j \<longrightarrow>
             effective_priority (j_priority j) \<le> effective_priority (j_priority jv)))
    | None \<Rightarrow> \<forall>n j. 0 < placed_on l i n \<and> leader_job l n = Some j \<longrightarrow>
          effective_priority (j_priority j) \<le> effective_priority p"
proof (cases "find_victim l i p")
  case None
  have "effective_priority (j_priority j) \<le> effective_priority p"
    if "0 < placed_on l i n" "leader_job l n = Some j" for n j
    using find_victim_None [OF leader_inv_books [OF assms] None that(1)] that(2)
    by (simp add: leader_job_def less_important_def not_less)
  with None show ?thesis by auto
next
  case (Some v)
  from find_victim_Some [OF leader_inv_books [OF assms] Some] Some show ?thesis
    by (auto simp: leader_job_def less_important_def split: option.splits)
qed

theorem find_victim_least_important_witness:
  "find_victim ex_full_leader ''a'' (Some 0) = Some ''low'' \<and> 0 < placed_on ex_full_leader ''a'' ''low''"
proof -
  have "find_victim ex_full_leader ''a'' (Some 0) = Some ''low''" by code_simp
  with find_victim_least_important [OF ex_full_leader_inv, of "''a''" "Some 0"] show ?thesis by simp
qed

text \<open>
  C18.  Placing a stored job: on success exactly one registered agent has one instance more (the
  count saturates at 32 bits), on refusal the job's counts are what they were.  Every other
  job keeps its instances on every agent, except that with preemption allowed a job strictly
  less important than this one may lose all of them on an agent.
\<close>

theorem place_effect:
  assumes "leader_inv l" "leader_job l (j_name job) = Some job" "place net job pre l w = (r, l', w')"
  shows "(if r = Inr ()
     then \<exists>a \<in> set (l_agents l). \<forall>i. placed_on l' i (j_name job) =
        (if i = a_id a then sat_add32 (placed_on l i (j_name job)) 1 else placed_on l i (j_name job))
     else \<forall>i. placed_on l' i (j_name job) = placed_on l i (j_name job)) \<and>
   (\<forall>i n. n \<noteq> j_name job \<longrightarrow> placed_on l' i n = placed_on l i n \<or>
      pre \<and> placed_on l' i n = 0 \<and> less_important (l_store l) (j_priority job) n)"
proof -
  have self: "no_self_evict l job" using assms(2) no_self_evict_stored [of l "j_name job" job] by (simp add: leader_job_def)
  have own: "placed_on l1 i (j_name job) = placed_on l i (j_name job)" if "evicts l (j_priority job) l1" for l1 i
    using that self by (auto simp: evicts_def)
  note spec = place_spec [OF assms(1,3)] and pl = place_placing [OF assms(1,3)]
  have others: "placed_on l' i n = placed_on l i n \<or>
      pre \<and> placed_on l' i n = 0 \<and> less_important (l_store l) (j_priority job) n" if "n \<noteq> j_name job" for i n
  proof (cases pre)
    case True
    with pl that show ?thesis by (auto simp: placing_def others_kept_def)
  next
    case False
    with place_nopreempt [OF assms(1), of net job w r l' w'] assms(3) that show ?thesis by auto
  qed
  then have all: "\<forall>i n. n \<noteq> j_name job \<longrightarrow> placed_on l' i n = placed_on l i n \<or>
      pre \<and> placed_on l' i n = 0 \<and> less_important (l_store l) (j_priority job) n" by blast
  show ?thesis
  proof (cases "r = Inr ()")
    case True
    with spec obtain l1 and a :: agent where a: "a \<in> set (l_agents l)" "evicts l (j_priority job) l1"
      "leader_inv l1" "placed_on l' = placed_on (track_placement (a_id a) (j_name job) l1)"
      unfolding placed_one_def by (metis (full_types))
    have "\<forall>i. placed_on l' i (j_name job) =
        (if i = a_id a then sat_add32 (placed_on l i (j_name job)) 1 else placed_on l i (j_name job))"
      using books.on_track [OF leader_inv_books [OF a(3)]] own [OF a(2)] a(4) by simp
    with a(1) show ?thesis unfolding if_P [OF True] by (intro conjI [OF _ all]) (rule rev_bexI)
  next
    case False
    with spec have "evicts l (j_priority job) l'" by simp
    then have "\<forall>i. placed_on l' i (j_name job) = placed_on l i (j_name job)" using own by blast
    then show ?thesis unfolding if_not_P [OF False] by (rule conjI [OF _ all])
  qed
qed

theorem place_effect_witness:
  "\<exists>l' w'. place ex_full_net ((ex_job ''high'' 1)\<lparr>j_priority := Some 0\<rparr>) True ex_full_leader False = (Inr (), l', w') \<and>
     placed_on l' ''a'' ''high'' = 1"
proof -
  let ?job = "(ex_job ''high'' 1)\<lparr>j_priority := Some 0\<rparr>"
  obtain r l' w' where p: "place ex_full_net ?job True ex_full_leader False = (r, l', w')" by (metis prod_cases3)
  have "fst (place ex_full_net ?job True ex_full_leader False) = Inr ()" by code_simp
  with p have r: "r = Inr ()" by simp
  have j: "leader_job ex_full_leader (j_name ?job) = Some ?job"
    by (simp add: leader_job_def store_get_def ex_full_leader_def ex_defs)
  have on: "placed_on ex_full_leader ''a'' ''high'' = 0" "sat_add32 0 1 = 1" by code_simp+
  have ag: "l_agents ex_full_leader = [ex_agent ''a'']" "a_id (ex_agent ''a'') = ''a''" "j_name ?job = ''high''"
    by (simp_all add: ex_full_leader_def ex_agent_def ex_job_def)
  from place_effect [OF ex_full_leader_inv j p] r on ag p show ?thesis by simp
qed

end
