(* ===== verification/Leader_Properties.thy ===== *)
theory Leader_Properties
  imports Leader_System
begin

text \<open>
  The properties of the leader's requests: priorities, registration and returning agents, dead
  agents, the settle period, deletion and updates.
\<close>

text \<open>
   Normalising gives the k-th job of the priority order the number k and changes nothing
  else of any job; it keeps the order and does nothing the second time.
\<close>

theorem normalize_numbers_densely:
  assumes "leader_inv l"
  shows "length (priority_order l) = length (leader_jobs l) \<and>
    (\<forall>k < length (priority_order l). \<exists>j. leader_job l (priority_order l ! k) = Some j \<and>
       leader_job (normalize_priorities l) (priority_order l ! k) = Some (j\<lparr>j_priority := Some (int k)\<rparr>)) \<and>
    priority_order (normalize_priorities l) = priority_order l \<and>
    normalize_priorities (normalize_priorities l) = normalize_priorities l"
proof -
  have "\<exists>j. leader_job l (priority_order l ! k) = Some j \<and>
       leader_job (normalize_priorities l) (priority_order l ! k) = Some (j\<lparr>j_priority := Some (int k)\<rparr>)"
    if k: "k < length (priority_order l)" for k
  proof -
    obtain j where "store_get (l_store l) (priority_order l ! k) = Some j"
      by (rule priority_order_stored [OF assms nth_mem [OF k]])
    then show ?thesis using normalize_get_nth [OF assms k] by (simp add: leader_job_def)
  qed
  then show ?thesis
    using priority_order_normalize [OF assms] normalize_idem [OF assms]
    by (simp add: priority_order_of leader_jobs_def)
qed

theorem normalize_numbers_densely_witness:
  "priority_order (normalize_priorities ex_leader) = [''log'', ''web''] \<and>
   normalize_priorities (normalize_priorities ex_leader) = normalize_priorities ex_leader"
proof -
  have "priority_order ex_leader = [''log'', ''web'']" by code_simp
  with normalize_numbers_densely [OF ex_leader_inv] show ?thesis by simp
qed

text \<open>
  C22.  Moving a job to place \<open>target\<close> puts it there (clamped to the ends) and keeps the order
  of all the others; the result is always success for a stored job.
\<close>

theorem patch_job_priority_moves:
  assumes "leader_inv l" "leader_job l name = Some j" "patch_job_priority net name target l w = (r, l', w')"
  shows "r = Inr () \<and>
    priority_order l' = insert_at (min (nat (max target 0)) (length (priority_order l) - 1)) name
      (filter (\<lambda>n. n \<noteq> name) (priority_order l))"
  using patch_order [OF assms(1) _ assms(3)] assms(2) by (simp add: leader_job_def)

theorem patch_job_priority_moves_witness:
  "\<exists>r l' w'. patch_job_priority ex_net ''web'' (-5) ex_leader 0 = (r, l', w') \<and>
     priority_order l' = [''web'', ''log'']"
proof -
  obtain r l' w' where p: "patch_job_priority ex_net ''web'' (-5) ex_leader 0 = (r, l', w')" by (metis prod_cases3)
  have "priority_order ex_leader = [''log'', ''web'']" by code_simp
  moreover have "leader_job ex_leader ''web'' = Some (ex_job ''web'' 3)"
    by (simp add: leader_job_def store_get_def ex_defs)
  ultimately show ?thesis using patch_job_priority_moves [OF ex_leader_inv _ p] p by (simp add: insert_at_def)
qed

lemma find_unique_agent:
  "distinct (map a_id as) \<Longrightarrow> find (\<lambda>a. a_id a = i) as = Some x \<longleftrightarrow> x \<in> set as \<and> a_id x = i"
  by (induction "as") auto

lemma register_agent_agents:
  assumes "leader_inv l" "counts_inv placed" "\<not> is_double agent now l"
    "length (filter (\<lambda>a. a_id a \<noteq> a_id agent) (l_agents l)) < MAX_AGENTS"
    "register_agent net agent placed now l w = (r, l', w')"
  shows "r = Inr True \<and> l_agents l' = l_agents (enrolled agent placed now l)"
proof -
  let ?e = "enrolled agent placed now l"
  have e: "leader_inv ?e" using enrolled_inv [OF assms(1,2)] assms(4) by simp
  obtain l3 w3 where t: "trim_returning_agent_surplus net (a_id agent) ?e w = (l3, w3)" by fastforce
  have l3: "leader_inv l3" "l_agents l3 = l_agents ?e"
    using trim_inv [OF e, of net "a_id agent" w] trim_frame(1) [of net "a_id agent" ?e w] t by simp_all
  obtain r4 l4 w4 where rec: "reconcile_jobs net l3 w3 = (r4, l4, w4)" by (metis prod_cases3)
  have "r4 = Inr ()" "l_agents l4 = l_agents l3"
    using reconcile_jobs_inv_ok [OF l3(1) rec] reconcile_jobs_facts(1) [OF l3(1) rec] by simp_all
  with assms(3-5) t rec l3 show ?thesis
    by (auto simp: register_agent_eq Let_def not_le split: if_splits)
qed

text \<open>
   Registration.  A double (the same id alive at another address) is refused and nothing
  changes.  Otherwise, when there is room, the agent is registered under its id exactly once
  with the time of registration, the other agents stay, and the order by id is kept.
\<close>

theorem register_agent_once:
  assumes "leader_inv l" "counts_inv placed" "register_agent net agent placed now l w = (r, l', w')"
    "length (l_agents l) < MAX_AGENTS"
  shows "if (\<exists>old \<in> set (l_agents l). a_id old = a_id agent \<and> a_endpoint old \<noteq> a_endpoint agent \<and>
            time_since now (a_last_seen old) < l_agent_timeout l)
    then r = Inr False \<and> l' = l \<and> w' = w
    else r = Inr True \<and> strictly_sorted (map a_id (l_agents l')) \<and>
      set (l_agents l') = insert (agent\<lparr>a_last_seen := now\<rparr>) {a \<in> set (l_agents l). a_id a \<noteq> a_id agent}"
    (is "if ?D then _ else _")
proof -
  have D: "is_double agent now l \<longleftrightarrow> (\<exists>old \<in> set (l_agents l). a_id old = a_id agent \<and>
      a_endpoint old \<noteq> a_endpoint agent \<and> time_since now (a_last_seen old) < l_agent_timeout l)"
  proof -
    have "leader_agent l (a_id agent) = Some old \<longleftrightarrow> old \<in> set (l_agents l) \<and> a_id old = a_id agent" for old
      using leader_inv_ids [OF assms(1)] find_unique_agent by (simp add: leader_agent_def)
    then show ?thesis unfolding is_double_def
      by (cases "leader_agent l (a_id agent)") (simp_all only: option.case, blast, metis option.inject)
  qed
  have len: "length (filter (\<lambda>a. a_id a \<noteq> a_id agent) (l_agents l)) < MAX_AGENTS"
    using assms(4) le_less_trans [OF length_filter_le] by blast
  show ?thesis
  proof (cases ?D)
    case True
    with D assms(3) show ?thesis unfolding if_P [OF True] by (simp only: register_agent_eq if_True prod.inject)
  next
    case False
    with D have "\<not> is_double agent now l" by (simp only: simp_thms)
    from register_agent_agents [OF assms(1,2) this len assms(3)] enrolled_ids [OF assms(1), of agent placed now]
    show ?thesis unfolding if_not_P [OF False] by (simp only: simp_thms)
  qed
qed

theorem register_agent_once_witness:
  "\<exists>r l' w'. register_agent ex_net (ex_agent ''c'') [] 7 ex_leader 0 = (r, l', w') \<and> r = Inr True \<and>
     (ex_agent ''c'')\<lparr>a_last_seen := 7\<rparr> \<in> set (l_agents l')"
proof -
  obtain r l' w' where p: "register_agent ex_net (ex_agent ''c'') [] 7 ex_leader 0 = (r, l', w')" by (metis prod_cases3)
  have "counts_inv []" "length (l_agents ex_leader) < MAX_AGENTS"
    "\<not> (\<exists>old \<in> set (l_agents ex_leader). a_id old = a_id (ex_agent ''c'') \<and> a_endpoint old \<noteq> a_endpoint (ex_agent ''c'') \<and>
            time_since 7 (a_last_seen old) < l_agent_timeout ex_leader)"
    by (simp_all add: counts_inv_def ex_defs MAX_AGENTS_def)
  with register_agent_once [OF ex_leader_inv _ p] p show ?thesis by simp
qed

lemma total_placed_split:
  assumes "leader_inv l" "leader_inv l'" "l_agents l' = l_agents l" "\<And>i'. i' \<noteq> i \<Longrightarrow> placed_on l' i' n = placed_on l i' n"
    "placed_on l' i n = 0" "i \<in> a_id ` set (l_agents l)"
  shows "total_placed l' n = total_placed l n - placed_on l i n"
proof -
  have "(\<Sum>x\<leftarrow>xs. placed_on l' x n) = (\<Sum>x\<leftarrow>xs. placed_on l x n) - placed_on l i n"
    if "distinct xs" "i \<in> set xs" for xs using that
  proof (induction xs)
    case (Cons x xs)
    show ?case
    proof (cases "x = i")
      case True
      with Cons.prems have "(\<Sum>x\<leftarrow>xs. placed_on l' x n) = (\<Sum>x\<leftarrow>xs. placed_on l x n)"
        by (intro arg_cong [of _ _ sum_list] map_cong refl assms(4)) auto
      with True assms(5) show ?thesis by simp
    next
      case False
      with Cons have IH: "(\<Sum>x\<leftarrow>xs. placed_on l' x n) = (\<Sum>x\<leftarrow>xs. placed_on l x n) - placed_on l i n" and "i \<in> set xs"
        by auto
      then have "placed_on l i n \<le> (\<Sum>x\<leftarrow>xs. placed_on l x n)" by (auto intro!: member_le_sum_list)
      with IH assms(4) [OF False] show ?thesis by simp
    qed
  qed simp
  from this [OF leader_inv_ids [OF assms(1)]] assms(3,6) show ?thesis by (simp add: total_placed_def o_def)
qed

text \<open>
  C22.  Trimming a returning agent never starves a job: what it takes from the returning
  agent, and only there, are all instances of jobs whose wanted number already runs on the
  other agents; such a job still has its wanted number afterwards, and every other count
  stays.
\<close>

theorem trim_never_starves:
  assumes "leader_inv l" "i \<in> a_id ` set (l_agents l)" "trim_returning_agent_surplus net i l w = (l', w')"
  shows "(\<forall>n. n \<in> set (redundant_jobs l i) \<longrightarrow> placed_on l' i n = 0 \<and>
      (\<exists>j. leader_job l n = Some j \<and> \<not> is_daemon j \<and> desired j \<le> total_placed l' n)) \<and>
    (\<forall>i' n. i' \<noteq> i \<or> n \<notin> set (redundant_jobs l i) \<longrightarrow> placed_on l' i' n = placed_on l i' n)"
proof -
  have l': "l' = fst (trim_returning_agent_surplus net i l w)" using assms(3) by simp
  have inv: "leader_inv l'" "l_agents l' = l_agents l" unfolding l' by (simp_all add: trim_inv [OF assms(1)])
  have on: "placed_on l' i' n = (if i' = i \<and> n \<in> set (redundant_jobs l i) then 0 else placed_on l i' n)" for i' n
    unfolding l' by (rule trim_placed [OF assms(1)])
  have "\<exists>j. leader_job l n = Some j \<and> \<not> is_daemon j \<and> desired j \<le> total_placed l' n"
    if n: "n \<in> set (redundant_jobs l i)" for n
  proof -
    have "total_placed l' n = total_placed l n - placed_on l i n"
      by (rule total_placed_split [OF assms(1) inv]) (use n on assms(2) in auto)
    with n show ?thesis by (auto simp: redundant_jobs_iff [OF assms(1)] leader_job_def)
  qed
  with on show ?thesis by simp
qed

text \<open>Both agents run the one wanted instance: the returning one is surplus.\<close>

definition ex_return_leader :: leader where
  "ex_return_leader = (leader_new ''a'' \<lparr>ms_jobs = [ex_job ''web'' 1], ms_state_time = 0\<rparr>)
     \<lparr>l_agents := [ex_agent ''a'', ex_agent ''b''], l_placed := [(''a'', [(''web'', 1)]), (''b'', [(''web'', 1)])]\<rparr>"

lemma ex_return_leader_inv: "leader_inv ex_return_leader"
  by (simp add: ex_return_leader_def leader_new_def leader_inv_def agents_inv_def books_inv_def counts_inv_def
      hmap_inv_def store_inv_def MAX_JOBS_def MAX_AGENTS_def ex_agent_def ex_job_def u32_max_def)

theorem trim_never_starves_witness:
  "\<exists>l' w'. trim_returning_agent_surplus ex_net ''b'' ex_return_leader 0 = (l', w') \<and>
     placed_on l' ''b'' ''web'' = 0 \<and> placed_on l' ''a'' ''web'' = 1"
proof -
  obtain l' w' where t: "trim_returning_agent_surplus ex_net ''b'' ex_return_leader 0 = (l', w')" by fastforce
  have "''b'' \<in> a_id ` set (l_agents ex_return_leader)" by (simp add: ex_return_leader_def ex_agent_def)
  note * = trim_never_starves [OF ex_return_leader_inv this t]
  have "''web'' \<in> set (redundant_jobs ex_return_leader ''b'')" "placed_on ex_return_leader ''a'' ''web'' = 1"
    by code_simp+
  with * t show ?thesis by auto
qed

text \<open>
   The check for dead agents removes exactly the agents that were silent for longer than
  the timeout, and their books with them; during the settle period it does nothing.
\<close>

theorem check_dead_agents_exact:
  assumes "leader_inv l" "check_dead_agents net now l w = (r, l', w')"
  shows "r = Inr () \<and>
    (if l_settled l
     then l_agents l' = filter (\<lambda>a. time_since now (a_last_seen a) \<le> l_agent_timeout l) (l_agents l) \<and>
       map fst (l_placed l') = map a_id (l_agents l')
     else l' = l \<and> w' = w)"
proof (cases "l_settled l")
  case True
  have inv: "leader_inv l'" using check_dead_inv [OF assms(1), of net now w] assms(2) by simp
  have "r = Inr ()"
    using assms(2) True reconcile_jobs_inv_ok [OF remove_dead_inv [OF assms(1)]]
    by (fastforce simp: check_dead_agents_def Let_def split: if_splits)
  with True inv check_dead_agents_agents [OF assms(1) True, of net now w] assms(2) show ?thesis
    by (simp add: leader_inv_def)
qed (use assms(2) in \<open>auto simp: check_dead_agents_def\<close>)

theorem check_dead_agents_exact_witness:
  "\<exists>r l' w'. check_dead_agents ex_net (31 * SECOND) ex_leader 0 = (r, l', w') \<and> l_agents l' = []"
proof -
  obtain r l' w' where c: "check_dead_agents ex_net (31 * SECOND) ex_leader 0 = (r, l', w')" by (metis prod_cases3)
  from check_dead_agents_exact [OF ex_leader_inv c] c show ?thesis
    by (simp add: ex_defs time_since_def SECOND_def DEFAULT_AGENT_TIMEOUT_def)
qed

lemma settling_quiet:
  assumes "leader_inv l" "\<not> l_settled l"
  shows "dispatch_job net job l w = (r1, l1, w1) \<Longrightarrow> w1 = w \<and> l_placed l1 = l_placed l"
    and "register_agent net agent placed now l w = (r2, l2, w2) \<Longrightarrow> counts_inv placed \<Longrightarrow>
      w2 = w \<and> (\<forall>i n. i \<noteq> a_id agent \<longrightarrow> placed_on l2 i n = placed_on l i n)"
    and "tick net now l w = (r3, l3, w3) \<Longrightarrow> the (l_settle_at l) > now \<Longrightarrow>
      w3 = w \<and> l3 = l\<lparr>l_ticks := wrap_add64 (l_ticks l) 1\<rparr>"
proof -
  assume d: "dispatch_job net job l w = (r1, l1, w1)"
  obtain r' l' where p: "leader_store_put job l = (r', l')" by fastforce
  with d assms(2) leader_store_put_frame [OF p] show "w1 = w \<and> l_placed l1 = l_placed l"
    by (auto simp: dispatch_job_def split: sum.splits if_splits)
next
  assume r: "register_agent net agent placed now l w = (r2, l2, w2)" and c: "counts_inv placed"
  have "placed_on (enrolled agent placed now l) i n = placed_on l i n" if "i \<noteq> a_id agent" for i n
    using enrolled_placed [OF assms(1) counts_hmap_inv [OF c], of agent now i n] that by simp
  then show "w2 = w \<and> (\<forall>i n. i \<noteq> a_id agent \<longrightarrow> placed_on l2 i n = placed_on l i n)"
    using r assms placed_on_remove_agent [OF leader_inv_books [OF assms(1)]]
    by (auto simp: register_agent_eq Let_def split: if_splits)
next
  assume "tick net now l w = (r3, l3, w3)" "the (l_settle_at l) > now"
  moreover obtain at where "l_settle_at l = Some at" using assms by (auto simp: leader_inv_def)
  ultimately show "w3 = w \<and> l3 = l\<lparr>l_ticks := wrap_add64 (l_ticks l) 1\<rparr>"
    using assms(2) by (auto simp: tick_def tick_rest_def check_dead_agents_def Let_def)
qed

text \<open>
   While the leader settles, submitting a job only stores it, registering an agent only
  books it, and a tick before the deadline only counts: none of them makes a call to an agent,
  and none of them changes another agent's books.
\<close>

theorem settling_makes_no_calls:
  assumes "leader_inv l" "\<not> l_settled l" "counts_inv placed" "now < the (l_settle_at l)"
  shows "(case dispatch_job net job l w of (_, l1, w1) \<Rightarrow> w1 = w \<and> l_placed l1 = l_placed l) \<and>
    (case register_agent net agent placed now l w of (_, l2, w2) \<Rightarrow>
       w2 = w \<and> (\<forall>i n. i \<noteq> a_id agent \<longrightarrow> placed_on l2 i n = placed_on l i n)) \<and>
    (case tick net now l w of (_, l3, w3) \<Rightarrow> w3 = w \<and> l3 = l\<lparr>l_ticks := wrap_add64 (l_ticks l) 1\<rparr>)"
  using settling_quiet(1) [OF assms(1,2), of net job w] settling_quiet(2) [OF assms(1,2), of net agent placed now w]
    settling_quiet(3) [OF assms(1,2), of net now w] assms(3,4)
  by (auto split: prod.split)

theorem settling_makes_no_calls_witness:
  "snd (snd (dispatch_job ex_net (ex_job ''new'' 5) (settle 30 0 ex_leader) 0)) = 0"
proof -
  have "leader_inv (settle 30 0 ex_leader)" by (rule leader_inv_settle [OF ex_leader_inv])
  moreover have "\<not> l_settled (settle 30 0 ex_leader)" "counts_inv []" "1 < the (l_settle_at (settle 30 0 ex_leader))"
    by (simp_all add: settle_def counts_inv_def sat_add64_def u64_max_def)
  ultimately show ?thesis
    using settling_makes_no_calls [of "settle 30 0 ex_leader" "[]" 1, where net = ex_net and w = 0
        and job = "ex_job ''new'' 5"]
    by (simp add: case_prod_unfold)
qed

text \<open>
   Deleting a stored job removes it from the store and from the books of every agent, and
  keeps every other job stored; deleting an unknown name changes nothing and makes no call.
\<close>

theorem delete_job_everywhere:
  assumes "leader_inv l" "delete_job net name l w = (r, l', w')"
  shows "r = Inr () \<and> leader_job l' name = None \<and>
    (leader_job l name = None \<longrightarrow> w' = w \<and> l_placed l' = l_placed l \<and> l_dirty l' = l_dirty l) \<and>
    (leader_job l name \<noteq> None \<longrightarrow> (\<forall>i. placed_on l' i name = 0)) \<and>
    (\<forall>m. m \<noteq> name \<longrightarrow> (leader_job l' m = None \<longleftrightarrow> leader_job l m = None))"
proof (cases "leader_job l name")
  case None
  with assms(2) have "r = Inr () \<and> w' = w \<and> l' = snd (leader_store_remove name l)"
    by (auto simp: delete_job_def leader_job_def leader_store_remove_def store_remove_def)
  with None store_remove_get [OF assms(1), of name] show ?thesis
    by (auto simp: leader_job_def leader_store_remove_def store_remove_def)
next
  case (Some j)
  with delete_job_spec [OF assms] show ?thesis by (auto simp: leader_job_def)
qed

theorem delete_job_everywhere_witness:
  "\<exists>r l' w'. delete_job ex_net ''web'' ex_leader 0 = (r, l', w') \<and> leader_job l' ''web'' = None \<and>
     placed_on l' ''a'' ''web'' = 0"
proof -
  obtain r l' w' where d: "delete_job ex_net ''web'' ex_leader 0 = (r, l', w')" by (metis prod_cases3)
  have "leader_job ex_leader ''web'' \<noteq> None" by (simp add: leader_job_def store_get_def ex_defs)
  with delete_job_everywhere [OF ex_leader_inv d] d show ?thesis by auto
qed

text \<open>
  C26.  The deploying flag tells the truth.  When an update of a stored, rollable job is
  carried out, the store afterwards holds the new definition (its priority apart), with
  \<open>deploying\<close> off exactly when the update reported success.
\<close>

theorem update_job_deploying_flag:
  assumes "leader_inv l" "leader_job l (j_name job) = Some old" "check_rollable job = Inr ()"
    "j_name job \<noteq> []" "update_job net job l w = (r, l', w')"
  shows "\<exists>p. leader_job l' (j_name job) = Some (job\<lparr>j_deploying := (r \<noteq> Inr ()), j_priority := p\<rparr>)"
  using update_job_deploying [OF assms(1) _ assms(3-5)] assms(2) by (auto simp: stored_def leader_job_def)

theorem update_job_deploying_flag_witness:
  "\<exists>r l' w' p. update_job ex_net (ex_job ''web'' 4) ex_leader 0 = (r, l', w') \<and>
     leader_job l' ''web'' = Some ((ex_job ''web'' 4)\<lparr>j_deploying := (r \<noteq> Inr ()), j_priority := p\<rparr>)"
proof -
  obtain r l' w' where u: "update_job ex_net (ex_job ''web'' 4) ex_leader 0 = (r, l', w')" by (metis prod_cases3)
  have "leader_job ex_leader (j_name (ex_job ''web'' 4)) = Some (ex_job ''web'' 3)"
    "check_rollable (ex_job ''web'' 4) = Inr ()" "j_name (ex_job ''web'' 4) = ''web''"
    by (simp_all add: leader_job_def store_get_def ex_defs check_rollable_def job_policy_def fixed_port_def hmap_iter_def)
  with update_job_deploying_flag [OF ex_leader_inv _ _ _ u] u show ?thesis by simp
qed

lemma update_blue_green_kept:
  assumes "leader_inv l" "update_blue_green net job l w = (Inl e, l', w')"
  shows "placed_on l i n \<le> placed_on l' i n"
proof -
  obtain olds w1 where s: "snapshot_job_tasks net (j_name job) l w = (olds, w1)" by fastforce
  obtain r1 l1 where p: "leader_store_put job l = (r1, l1)" by fastforce
  have l1: "leader_inv l1" using leader_inv_put [OF assms(1), of job] p by simp
  have l1_placed: "placed_on l1 = placed_on l" by (rule placed_on_cong [OF leader_store_put_frame(2) [OF p]])
  obtain r2 l2 w2 where b: "blue_green_place net job (desired job) 0 (desired job) l1 w1 = (r2, l2, w2)"
    by (metis prod_cases3)
  from assms(2) s p b have "l' = l1 \<or> l' = l2"
    by (auto simp: update_blue_green_def split: sum.splits prod.splits)
  with blue_green_place_kept [OF l1 b] l1_placed show ?thesis by auto
qed

text \<open>
  C23.  A blue-green update that fails leaves the old version intact: it has asked no agent to
  stop or delete anything (the outcome is the same whatever those calls would do), and no
  job has fewer instances in the books than before.
\<close>

theorem blue_green_failure_keeps_old:
  assumes "leader_inv l" "update_blue_green net job l w = (Inl e, l', w')"
  shows "(\<forall>stop_job stop_task delete. update_blue_green
      (net\<lparr>net_stop_job := stop_job, net_stop_task := stop_task, net_delete_job := delete\<rparr>) job l w = (Inl e, l', w')) \<and>
    (\<forall>i n. placed_on l i n \<le> placed_on l' i n)"
proof -
  have "update_blue_green (net\<lparr>net_stop_job := a, net_stop_task := b, net_delete_job := c\<rparr>) job l w = (Inl e, l', w')" for a b c
    using update_blue_green_failed [of net "net\<lparr>net_stop_job := a, net_stop_task := b, net_delete_job := c\<rparr>" job l w e] assms(2)
    by simp
  with update_blue_green_kept [OF assms] show ?thesis by simp
qed

theorem blue_green_failure_keeps_old_witness:
  "\<exists>e l' w'. update_blue_green ex_full_net (ex_job ''low'' 2) ex_full_leader False = (Inl e, l', w') \<and>
     1 \<le> placed_on l' ''a'' ''low''"
proof -
  obtain r l' w' where u: "update_blue_green ex_full_net (ex_job ''low'' 2) ex_full_leader False = (r, l', w')"
    by (metis prod_cases3)
  have "fst (update_blue_green ex_full_net (ex_job ''low'' 2) ex_full_leader False)
      = Inl (BlueGreenFailed ''low'' 1 2 (Full 1))" by code_simp
  with u have "r = Inl (BlueGreenFailed ''low'' 1 2 (Full 1))" by simp
  note u' = u [unfolded this]
  have "placed_on ex_full_leader ''a'' ''low'' = 1" by code_simp
  moreover have "placed_on ex_full_leader ''a'' ''low'' \<le> placed_on l' ''a'' ''low''"
    using blue_green_failure_keeps_old [OF ex_full_leader_inv u'] by blast
  ultimately show ?thesis using u' by auto
qed

lemma update_rolling_failed_others:
  assumes "leader_inv l" "update_rolling net job l w = (Inl e, l', w')" "n \<noteq> j_name job"
  shows "placed_on l' i n = placed_on l i n"
proof -
  obtain olds w1 where s: "snapshot_job_tasks net (j_name job) l w = (olds, w1)" by fastforce
  obtain r1 l1 where p: "leader_store_put job l = (r1, l1)" by fastforce
  have l1: "leader_inv l1" using leader_inv_put [OF assms(1), of job] p by simp
  have l1_placed: "placed_on l1 = placed_on l" by (rule placed_on_cong [OF leader_store_put_frame(2) [OF p]])
  obtain r2 l2 w2 where b: "rolling_loop net job (desired job) 0 olds l1 w1 = (r2, l2, w2)" by (metis prod_cases3)
  have "leader_inv l2" using rolling_loop_spec [OF l1 b] by simp
  then have "fst (reconcile_jobs net l2 w2) \<noteq> Inl e" by (simp add: reconcile_jobs_ok)
  with assms(2) s p b have "l' = l1 \<or> l' = l2" by (auto simp: update_rolling_def split: sum.splits)
  with rolling_loop_others [OF l1 b assms(3)] l1_placed show ?thesis by auto
qed

text \<open>
   A rolling update that fails has cost no neighbour anything: the counts of every other
  job on every agent are what they were.
\<close>

theorem rolling_failure_spares_neighbours:
  assumes "leader_inv l" "update_rolling net job l w = (Inl e, l', w')"
  shows "\<forall>i n. n \<noteq> j_name job \<longrightarrow> placed_on l' i n = placed_on l i n"
  using update_rolling_failed_others [OF assms] by blast

text \<open>An agent without room whose one old task of the job is known by id.\<close>

definition ex_old_net :: "bool transport" where
  "ex_old_net = ex_full_net\<lparr>net_tasks := \<lambda>a w. (Some [task_default\<lparr>t_id := ''t1'', t_job_name := ''low''\<rparr>], w)\<rparr>"

theorem rolling_failure_spares_neighbours_witness:
  "\<exists>e l' w'. update_rolling ex_old_net (ex_job ''low'' 1) ex_full_leader False = (Inl e, l', w') \<and>
     placed_on l' ''a'' ''high'' = placed_on ex_full_leader ''a'' ''high''"
proof -
  obtain r l' w' where u: "update_rolling ex_old_net (ex_job ''low'' 1) ex_full_leader False = (r, l', w')"
    by (metis prod_cases3)
  have "fst (update_rolling ex_old_net (ex_job ''low'' 1) ex_full_leader False)
      = Inl (RollingFailed ''low'' 1 (Full 1))" by code_simp
  with u have "r = Inl (RollingFailed ''low'' 1 (Full 1))" by simp
  note u' = u [unfolded this]
  have "''high'' \<noteq> j_name (ex_job ''low'' 1)" by (simp add: ex_job_def)
  with rolling_failure_spares_neighbours [OF ex_full_leader_inv u'] u' show ?thesis by blast
qed

text \<open>
   The two views on the books agree with it: the total per job is the sum over the
  registered agents, saturated at 32 bits, and the placement of a job lists exactly the agents
  with at least one instance, with their count.
\<close>

theorem placement_views_agree:
  assumes "leader_inv l"
  shows "(case hmap_get (placed_counts l) n of None \<Rightarrow> 0 | Some c \<Rightarrow> c) = min (total_placed l n) u32_max \<and>
    hmap_get (leader_placed l n) i = (if placed_on l i n > 0 then Some (placed_on l i n) else None)"
  using placed_counts_total [OF assms, of n] leader_placed_get [OF leader_inv_books [OF assms]]
  by (simp add: total_placed_def opt_count_def)

theorem placement_views_agree_witness:
  "hmap_get (leader_placed ex_return_leader ''web'') ''b'' = Some 1"
proof -
  have "placed_on ex_return_leader ''b'' ''web'' = 1" by code_simp
  with placement_views_agree [OF ex_return_leader_inv, of "''web''" "''b''"] show ?thesis by simp
qed

section \<open>Outside the settle guard\<close>

text \<open>
   The settle guard is not on every path: operations that end in a reconcile do not ask
  whether the leader has settled.  An agent that takes its leave during the settle period
  makes the leader dispatch at once, on books that are still incomplete.
\<close>

theorem unregister_dispatches_while_settling:
  "\<not> l_settled (settle (30 * SECOND) 0 ex_leader) \<and>
   0 < snd (snd (unregister_agent ex_net ''gone'' (settle (30 * SECOND) 0 ex_leader) 0))"
  by code_simp

end
