(* ===== verification/Lease.thy ===== *)
theory Lease
  imports Types_Job Decimal
begin

text \<open>
  \<^verbatim>\<open>leader/src/lease.rs\<close>: who leads, decided by compare-and-swap on one record.  A store is a
  record of functions over a state \<open>'s\<close>; \<open>MemLease\<close> is the one in memory.  The locale
  \<open>cas_record\<close> states what the trait promises (a write or a delete happens only when the
  handle still matches, and every write gives a handle never seen before); within it stand
  the facts about one claim and about any number of claims on one store.  The store in memory
  interprets it.
\<close>

section \<open>Record, errors and store\<close>

record lease_state =
  le_generation :: nat
  le_expires_at :: time
  le_owner :: string

datatype lease_error = LeNoLease | LeHeld | LeUnreachable | LeOutOfMemory

record 's lease_store =
  ls_read :: "'s \<Rightarrow> (lease_error + lease_state \<times> string) \<times> 's"
  ls_write :: "string \<Rightarrow> lease_state \<Rightarrow> 's \<Rightarrow> (lease_error + string) \<times> 's"
  ls_delete :: "string \<Rightarrow> 's \<Rightarrow> (lease_error + unit) \<times> 's"

datatype renewal = Renewed | Displaced | RenewUnreachable

section \<open>A claim\<close>

record claim =
  c_owner :: string
  c_ttl :: nanos
  c_handle :: string
  c_generation :: nat

definition claim_new :: "string \<Rightarrow> nanos \<Rightarrow> claim" where
  "claim_new owner ttl = \<lparr>c_owner = owner, c_ttl = ttl, c_handle = [], c_generation = 0\<rparr>"

definition refresh :: "'s lease_store \<Rightarrow> string \<Rightarrow> nat \<Rightarrow> time \<Rightarrow> claim \<Rightarrow> 's \<Rightarrow> (lease_error + unit) \<times> claim \<times> 's" where
  "refresh ls prev generation now c s =
     (let state = \<lparr>le_generation = generation, le_expires_at = sat_add64 now (c_ttl c),
                   le_owner = c_owner c\<rparr>
      in case ls_write ls prev state s of
           (Inl e, s1) \<Rightarrow> (Inl e, c, s1)
         | (Inr h, s1) \<Rightarrow> (Inr (), c\<lparr>c_handle := h, c_generation := generation\<rparr>, s1))"

definition try_claim :: "'s lease_store \<Rightarrow> time \<Rightarrow> claim \<Rightarrow> 's \<Rightarrow> (lease_error + unit) \<times> claim \<times> 's" where
  "try_claim ls now c s =
     (case ls_read ls s of
        (Inl e, s1) \<Rightarrow>
          if e = LeNoLease then refresh ls [] 1 now c s1 else (Inl e, c, s1)
      | (Inr (state, handle), s1) \<Rightarrow>
          if le_owner state = c_owner c then refresh ls handle (le_generation state) now c s1
          else if now > le_expires_at state
            then refresh ls handle (sat_add64 (le_generation state) 1) now c s1
          else (Inl LeHeld, c, s1))"

definition try_become_leader :: "'s lease_store \<Rightarrow> time \<Rightarrow> claim \<Rightarrow> 's \<Rightarrow> bool \<times> claim \<times> 's" where
  "try_become_leader ls now c s =
     (case try_claim ls now c s of (r, c1, s1) \<Rightarrow> (r = Inr (), c1, s1))"

fun renewal_of :: "lease_error + unit \<Rightarrow> renewal" where
  "renewal_of (Inr _) = Renewed"
| "renewal_of (Inl LeHeld) = Displaced"
| "renewal_of (Inl _) = RenewUnreachable"

definition renew :: "'s lease_store \<Rightarrow> time \<Rightarrow> claim \<Rightarrow> 's \<Rightarrow> renewal \<times> claim \<times> 's" where
  "renew ls now c s =
     (if c_handle c = []
      then case try_claim ls now c s of (r, c1, s1) \<Rightarrow> (renewal_of r, c1, s1)
      else
        let handle = c_handle c
        in case refresh ls handle (c_generation c) now (c\<lparr>c_handle := []\<rparr>) s of
             (r, c1, s1) \<Rightarrow>
               (renewal_of r,
                (if r \<noteq> Inr () \<and> c_handle c1 = [] then c1\<lparr>c_handle := handle\<rparr> else c1), s1))"

definition release :: "'s lease_store \<Rightarrow> claim \<Rightarrow> 's \<Rightarrow> claim \<times> 's" where
  "release ls c s =
     (let handle = c_handle c; c1 = c\<lparr>c_handle := []\<rparr>
      in if handle \<noteq> [] then (c1, snd (ls_delete ls handle s)) else (c1, s))"

definition leader_state :: "'s lease_store \<Rightarrow> time \<Rightarrow> 's \<Rightarrow> (string option \<times> bool) \<times> 's" where
  "leader_state ls now s =
     (case ls_read ls s of
        (Inl e, s1) \<Rightarrow> (if e = LeNoLease then (None, True) else (None, False), s1)
      | (Inr (state, _), s1) \<Rightarrow>
          (if now > le_expires_at state then (None, True) else (Some (le_owner state), True), s1))"

definition is_leader :: "'s lease_store \<Rightarrow> time \<Rightarrow> claim \<Rightarrow> 's \<Rightarrow> bool \<times> 's" where
  "is_leader ls now c s =
     (case leader_state ls now s of ((o1, _), s1) \<Rightarrow> (o1 = Some (c_owner c), s1))"

section \<open>The store in memory\<close>

text \<open>The counters are 64 bits in the source; they would need centuries to wrap.\<close>

record mem_lease =
  ml_state :: "(lease_state \<times> string) option"
  ml_seq :: nat
  ml_reads :: nat

definition mem_lease_new :: mem_lease where
  "mem_lease_new = \<lparr>ml_state = None, ml_seq = 0, ml_reads = 0\<rparr>"

definition next_handle :: "mem_lease \<Rightarrow> string \<times> mem_lease" where
  "next_handle m = (nat_text (ml_seq m + 1), m\<lparr>ml_seq := ml_seq m + 1\<rparr>)"

definition mem_read :: "mem_lease \<Rightarrow> (lease_error + lease_state \<times> string) \<times> mem_lease" where
  "mem_read m =
     (let m1 = m\<lparr>ml_reads := ml_reads m + 1\<rparr>
      in case ml_state m1 of None \<Rightarrow> (Inl LeNoLease, m1) | Some p \<Rightarrow> (Inr p, m1))"

definition mem_write :: "string \<Rightarrow> lease_state \<Rightarrow> mem_lease \<Rightarrow> (lease_error + string) \<times> mem_lease" where
  "mem_write prev state m =
     (if (case ml_state m of Some (_, h) \<Rightarrow> prev = [] \<or> h \<noteq> prev | None \<Rightarrow> prev \<noteq> [])
      then (Inl LeHeld, m)
      else case next_handle m of (h, m1) \<Rightarrow> (Inr h, m1\<lparr>ml_state := Some (state, h)\<rparr>))"

definition mem_delete :: "string \<Rightarrow> mem_lease \<Rightarrow> (lease_error + unit) \<times> mem_lease" where
  "mem_delete handle m =
     (case ml_state m of
        None \<Rightarrow> (Inl LeNoLease, m)
      | Some (_, h) \<Rightarrow> if h \<noteq> handle then (Inl LeHeld, m) else (Inr (), m\<lparr>ml_state := None\<rparr>))"

definition mem_store_ops :: "mem_lease lease_store" where
  "mem_store_ops = \<lparr>ls_read = mem_read, ls_write = mem_write, ls_delete = mem_delete\<rparr>"

section \<open>Many claims on one store\<close>

text \<open>
  The nodes of a cluster, each with its claim, take turns on the store; a turn is one call of
  the claim's interface at some time.
\<close>

inductive lease_step :: "'s lease_store \<Rightarrow> (nat \<Rightarrow> claim) \<times> 's \<Rightarrow> (nat \<Rightarrow> claim) \<times> 's \<Rightarrow> bool" for ls where
  become: "try_become_leader ls now (cs i) s = (b, c, s') \<Longrightarrow> lease_step ls (cs, s) (cs(i := c), s')"
| renew: "renew ls now (cs i) s = (r, c, s') \<Longrightarrow> lease_step ls (cs, s) (cs(i := c), s')"
| release: "release ls (cs i) s = (c, s') \<Longrightarrow> lease_step ls (cs, s) (cs(i := c), s')"
| look: "leader_state ls now s = (r, s') \<Longrightarrow> lease_step ls (cs, s) (cs, s')"

inductive lease_reachable :: "'s lease_store \<Rightarrow> 's \<Rightarrow> (nat \<Rightarrow> claim) \<times> 's \<Rightarrow> bool" for ls s0 where
  init: "\<forall>i. c_handle (cs i) = [] \<Longrightarrow> lease_reachable ls s0 (cs, s0)"
| step: "lease_reachable ls s0 st \<Longrightarrow> lease_step ls st st' \<Longrightarrow> lease_reachable ls s0 st'"

section \<open>The contract of the store\<close>

text \<open>The precondition of a write: no record for an empty handle, the record's own otherwise.\<close>

definition cas_match :: "(lease_state \<times> string) option \<Rightarrow> string \<Rightarrow> bool" where
  "cas_match r prev = (case r of None \<Rightarrow> prev = [] | Some (_, h) \<Rightarrow> prev \<noteq> [] \<and> h = prev)"

text \<open>
  \<open>content\<close> is the record in the store, \<open>used\<close> the handles it ever gave out.  A call that fails
  for another reason than the condition may or may not have taken effect (the answer can get
  lost); then nobody knows the new handle.
\<close>

locale cas_record =
  fixes ls :: "'s lease_store"
    and content :: "'s \<Rightarrow> (lease_state \<times> string) option"
    and used :: "'s \<Rightarrow> string set"
    and inv :: "'s \<Rightarrow> bool"
  assumes content_used: "inv s \<Longrightarrow> content s = Some (st, h) \<Longrightarrow> h \<in> used s \<and> h \<noteq> []"
    and read_keeps: "inv s \<Longrightarrow> ls_read ls s = (rr, s') \<Longrightarrow> inv s' \<and> content s' = content s \<and> used s' = used s"
    and read_ok: "inv s \<Longrightarrow> ls_read ls s = (Inr p, s') \<Longrightarrow> content s = Some p"
    and read_none: "inv s \<Longrightarrow> ls_read ls s = (Inl LeNoLease, s') \<Longrightarrow> content s = None"
    and write_keeps: "inv s \<Longrightarrow> ls_write ls prev st s = (rw, s') \<Longrightarrow> inv s' \<and> used s \<subseteq> used s'"
    and write_ok: "inv s \<Longrightarrow> ls_write ls prev st s = (Inr h, s') \<Longrightarrow>
        cas_match (content s) prev \<and> h \<notin> used s \<and> content s' = Some (st, h)"
    and write_held: "inv s \<Longrightarrow> ls_write ls prev st s = (Inl LeHeld, s') \<Longrightarrow>
        \<not> cas_match (content s) prev \<and> content s' = content s"
    and write_lost: "inv s \<Longrightarrow> ls_write ls prev st s = (Inl e, s') \<Longrightarrow> e \<noteq> LeHeld \<Longrightarrow>
        content s' = content s \<or> cas_match (content s) prev \<and> (\<exists>h. h \<notin> used s \<and> content s' = Some (st, h))"
    and delete_keeps: "inv s \<Longrightarrow> ls_delete ls handle s = (rd, s') \<Longrightarrow> inv s' \<and> used s' = used s \<and>
        (content s' = content s \<or> content s' = None)"
begin

text \<open>Each claim's handle was given out, and no two claims hold the same one.\<close>

definition claims_inv :: "(nat \<Rightarrow> claim) \<Rightarrow> 's \<Rightarrow> bool" where
  "claims_inv cs s \<longleftrightarrow> inv s \<and>
     (\<forall>i. c_handle (cs i) \<noteq> [] \<longrightarrow> c_handle (cs i) \<in> used s \<and>
        (\<forall>j. j \<noteq> i \<longrightarrow> c_handle (cs j) \<noteq> c_handle (cs i)) \<and>
        (\<forall>st. content s = Some (st, c_handle (cs i)) \<longrightarrow>
           le_owner st = c_owner (cs i) \<and> le_generation st = c_generation (cs i)))"

lemma refresh_ok:
  assumes "inv s" "refresh ls prev g now c s = (Inr (), c', s')"
  shows "inv s'" "cas_match (content s) prev" "c_handle c' \<notin> used s" "c_handle c' \<in> used s'" "c_handle c' \<noteq> []"
    "c' = c\<lparr>c_handle := c_handle c', c_generation := g\<rparr>" "used s \<subseteq> used s'"
    "content s' = Some (\<lparr>le_generation = g, le_expires_at = sat_add64 now (c_ttl c), le_owner = c_owner c\<rparr>, c_handle c')"
proof -
  let ?st = "\<lparr>le_generation = g, le_expires_at = sat_add64 now (c_ttl c), le_owner = c_owner c\<rparr>"
  obtain h where w: "ls_write ls prev ?st s = (Inr h, s')" and c': "c' = c\<lparr>c_handle := h, c_generation := g\<rparr>"
    using assms(2) by (auto simp: refresh_def Let_def split: prod.splits sum.splits)
  from write_keeps [OF assms(1) w] write_ok [OF assms(1) w]
  show "inv s'" "cas_match (content s) prev" "c_handle c' \<notin> used s" "c' = c\<lparr>c_handle := c_handle c', c_generation := g\<rparr>"
    "used s \<subseteq> used s'" "content s' = Some (?st, c_handle c')" by (auto simp: c')
  with content_used [of s' ?st h] show "c_handle c' \<in> used s'" "c_handle c' \<noteq> []" by (auto simp: c')
qed

lemma refresh_failed:
  assumes "inv s" "refresh ls prev g now c s = (Inl e, c', s')"
  shows "c' = c \<and> inv s' \<and> used s \<subseteq> used s' \<and> (content s' = content s \<or>
      (\<exists>st h. h \<notin> used s \<and> content s' = Some (st, h)))"
proof -
  let ?st = "\<lparr>le_generation = g, le_expires_at = sat_add64 now (c_ttl c), le_owner = c_owner c\<rparr>"
  have w: "ls_write ls prev ?st s = (Inl e, s')" "c' = c"
    using assms(2) by (auto simp: refresh_def Let_def split: prod.splits sum.splits)
  show ?thesis
    using write_keeps [OF assms(1) w(1)] write_held [OF assms(1)] write_lost [OF assms(1) w(1)] w
    by (cases "e = LeHeld") auto
qed

text \<open>A change of the store that a claim cannot notice, and one that gives it a new handle.\<close>

lemma claims_inv_quiet:
  assumes "claims_inv cs s" "inv s'" "used s \<subseteq> used s'"
    "content s' = content s \<or> content s' = None \<or> (\<exists>st h. h \<notin> used s \<and> content s' = Some (st, h))"
  shows "claims_inv cs s'"
  using assms unfolding claims_inv_def by (auto simp: subset_iff)

lemma claims_inv_forget:
  assumes "claims_inv cs s"
  shows "claims_inv (cs(i := (cs i)\<lparr>c_handle := []\<rparr>)) s"
  using assms unfolding claims_inv_def by auto

lemma claims_inv_fresh:
  assumes "claims_inv cs s" "inv s'" "used s \<subseteq> used s'" "c_handle c \<notin> used s" "c_handle c \<in> used s'" "c_handle c \<noteq> []"
    "content s' = Some (st, c_handle c)" "le_owner st = c_owner c" "le_generation st = c_generation c"
  shows "claims_inv (cs(i := c)) s'"
proof -
  have "c_handle (cs j) \<noteq> c_handle c" for j using assms(1,4,6) unfolding claims_inv_def by metis
  with assms show ?thesis unfolding claims_inv_def by (auto simp: subset_iff)
qed

lemma refresh_claims_inv:
  assumes "claims_inv cs s" "refresh ls prev g now (cs i) s = (r, c, s')"
  shows "claims_inv (cs(i := c)) s'"
proof -
  have inv: "inv s" using assms(1) by (simp add: claims_inv_def)
  show ?thesis
  proof (cases r)
    case (Inl e)
    have "claims_inv cs s'" "c = cs i"
      using refresh_failed [OF inv assms(2) [unfolded Inl]] claims_inv_quiet [OF assms(1)] by auto
    then show ?thesis by simp
  next
    case (Inr u)
    then have r: "refresh ls prev g now (cs i) s = (Inr (), c, s')" using assms(2) by simp
    note ok = refresh_ok [OF inv r]
    have "c_owner c = c_owner (cs i)" "c_generation c = g" by (subst ok(6), simp)+
    with claims_inv_fresh [OF assms(1) ok(1,7,3,4,5,8)] show ?thesis by simp
  qed
qed

lemma try_claim_claims_inv:
  assumes "claims_inv cs s" "try_claim ls now (cs i) s = (r, c, s')"
  shows "claims_inv (cs(i := c)) s'"
proof -
  obtain r1 s1 where rd: "ls_read ls s = (r1, s1)" by fastforce
  have inv: "inv s" using assms(1) by (simp add: claims_inv_def)
  have s1: "claims_inv cs s1" using claims_inv_quiet [OF assms(1)] read_keeps [OF inv rd] by simp
  have "cs(i := cs i) = cs" by simp
  with assms(2) rd s1 refresh_claims_inv [OF s1] show ?thesis
    by (auto simp: try_claim_def split: sum.splits if_splits)
qed

lemma renew_claims_inv:
  assumes "claims_inv cs s" "renew ls now (cs i) s = (r, c, s')"
  shows "claims_inv (cs(i := c)) s'"
proof (cases "c_handle (cs i) = []")
  case True
  with assms(2) obtain r1 where "try_claim ls now (cs i) s = (r1, c, s')"
    by (auto simp: renew_def split: prod.splits)
  then show ?thesis by (rule try_claim_claims_inv [OF assms(1)])
next
  case False
  let ?h = "c_handle (cs i)" and ?g = "c_generation (cs i)" and ?cs = "cs(i := (cs i)\<lparr>c_handle := []\<rparr>)"
  obtain r1 c1 s1 where rf: "refresh ls ?h ?g now (?cs i) s = (r1, c1, s1)" by (metis prod_cases3)
  with assms(2) False have c: "c = (if r1 \<noteq> Inr () \<and> c_handle c1 = [] then c1\<lparr>c_handle := ?h\<rparr> else c1)" "s' = s1"
    by (auto simp: renew_def Let_def)
  show ?thesis
  proof (cases r1)
    case (Inr u)
    with c rf refresh_claims_inv [OF claims_inv_forget [OF assms(1), of i], of ?h ?g now i r1 c1 s1]
    show ?thesis by simp
  next
    case (Inl e)
    have inv: "inv s" using assms(1) by (simp add: claims_inv_def)
    from refresh_failed [OF inv rf [unfolded Inl]]
    have "c1 = (cs i)\<lparr>c_handle := []\<rparr>" "claims_inv cs s1" using claims_inv_quiet [OF assms(1)] by auto
    with c Inl show ?thesis by simp
  qed
qed

lemma release_claims_inv:
  assumes "claims_inv cs s" "release ls (cs i) s = (c, s')"
  shows "claims_inv (cs(i := c)) s'"
proof -
  have inv: "inv s" using assms(1) by (simp add: claims_inv_def)
  obtain r s1 where d: "ls_delete ls (c_handle (cs i)) s = (r, s1)" by fastforce
  have "claims_inv cs s1" using claims_inv_quiet [OF assms(1)] delete_keeps [OF inv d] by auto
  with assms d claims_inv_forget [of cs s i] claims_inv_forget [of cs s1 i] show ?thesis
    by (auto simp: release_def Let_def split: if_splits)
qed

lemma lease_step_claims_inv:
  assumes "lease_step ls (cs, s) (cs', s')" "claims_inv cs s"
  shows "claims_inv cs' s'"
  using assms(1)
proof (cases rule: lease_step.cases)
  case (become now i b c)
  then show ?thesis using try_claim_claims_inv [OF assms(2)]
    by (auto simp: try_become_leader_def split: prod.splits)
next
  case (renew now i r c)
  then show ?thesis using renew_claims_inv [OF assms(2)] by blast
next
  case (release i c)
  then show ?thesis using release_claims_inv [OF assms(2)] by blast
next
  case (look now r)
  obtain r1 s1 where rd: "ls_read ls s = (r1, s1)" by fastforce
  have inv: "inv s" using assms(2) by (simp add: claims_inv_def)
  have "s' = s1" using look rd by (auto simp: leader_state_def split: sum.splits prod.splits)
  then show ?thesis using look claims_inv_quiet [OF assms(2)] read_keeps [OF inv rd] by simp
qed

lemma lease_reachable_claims_inv:
  assumes "lease_reachable ls s0 (cs, s)" "inv s0"
  shows "claims_inv cs s"
  using assms(1)
proof (induction "(cs, s)" arbitrary: cs s rule: lease_reachable.induct)
  case (init cs)
  then show ?case using assms(2) by (simp add: claims_inv_def)
next
  case (step st)
  then show ?case using lease_step_claims_inv by (cases st) auto
qed

lemma one_holder:
  assumes "lease_reachable ls s0 (cs, s)" "inv s0" "content s = Some (st, c_handle (cs i))" "content s = Some (st', c_handle (cs j))"
  shows "i = j \<and> le_owner st = c_owner (cs i) \<and> le_generation st = c_generation (cs i)"
proof -
  have "claims_inv cs s" by (rule lease_reachable_claims_inv [OF assms(1,2)])
  moreover from this have "c_handle (cs i) \<noteq> []" using content_used [of s st] assms(3) by (auto simp: claims_inv_def)
  ultimately show ?thesis using assms(3,4) unfolding claims_inv_def by (metis option.inject prod.inject)
qed

text \<open>What one successful attempt says about the store before it.\<close>

lemma try_claim_ok:
  assumes "inv s" "try_claim ls now c s = (Inr (), c', s')"
  shows "content s' = Some (\<lparr>le_generation = c_generation c', le_expires_at = sat_add64 now (c_ttl c),
        le_owner = c_owner c\<rparr>, c_handle c') \<and>
    (case content s of
       None \<Rightarrow> c_generation c' = 1
     | Some (st, h) \<Rightarrow>
         if le_owner st = c_owner c then c_generation c' = le_generation st
         else le_expires_at st < now \<and> c_generation c' = sat_add64 (le_generation st) 1)"
proof -
  obtain r1 s1 where rd: "ls_read ls s = (r1, s1)" by fastforce
  have s1: "inv s1" "content s1 = content s" using read_keeps [OF assms(1) rd] by auto
  have gen: "c_generation c' = g" if "refresh ls prev g now c s1 = (Inr (), c', s')" for prev g
    by (subst refresh_ok(6) [OF s1(1) that]) simp
  show ?thesis
  proof (cases r1)
    case (Inl e)
    with assms(2) rd have e: "e = LeNoLease" and rf: "refresh ls [] 1 now c s1 = (Inr (), c', s')"
      by (auto simp: try_claim_def split: if_splits)
    from read_none [OF assms(1)] rd Inl e have "content s = None" by blast
    with refresh_ok(8) [OF s1(1) rf] gen [OF rf] show ?thesis by simp
  next
    case (Inr p)
    obtain st h where p: "p = (st, h)" by fastforce
    have "content s = Some (st, h)" using read_ok [OF assms(1)] rd Inr p by blast
    moreover obtain g where rf: "refresh ls h g now c s1 = (Inr (), c', s')"
      and g: "if le_owner st = c_owner c then g = le_generation st
         else le_expires_at st < now \<and> g = sat_add64 (le_generation st) 1"
      using assms(2) rd Inr p by (auto simp: try_claim_def split: if_splits)
    ultimately show ?thesis using refresh_ok(8) [OF s1(1) rf] gen [OF rf] by auto
  qed
qed

lemma renew_ok:
  assumes "inv s" "c_handle c \<noteq> []" "renew ls now c s = (Renewed, c', s')"
  shows "\<exists>st. content s = Some (st, c_handle c) \<and> c_generation c' = c_generation c \<and>
    content s' = Some (\<lparr>le_generation = c_generation c, le_expires_at = sat_add64 now (c_ttl c),
      le_owner = c_owner c\<rparr>, c_handle c')"
proof -
  let ?c = "c\<lparr>c_handle := []\<rparr>"
  obtain r1 c1 where rf: "refresh ls (c_handle c) (c_generation c) now ?c s = (r1, c1, s')"
    and r: "renewal_of r1 = Renewed" and c': "c' = (if r1 \<noteq> Inr () \<and> c_handle c1 = [] then c1\<lparr>c_handle := c_handle c\<rparr> else c1)"
    using assms(2,3) by (auto simp: renew_def Let_def split: prod.splits)
  have "r1 = Inr ()" using r by (cases r1 rule: renewal_of.cases) auto
  with rf c' have rf: "refresh ls (c_handle c) (c_generation c) now ?c s = (Inr (), c', s')" by simp
  have "c_generation c' = c_generation c" by (subst refresh_ok(6) [OF assms(1) rf]) simp
  with refresh_ok(2,8) [OF assms(1) rf] assms(2) show ?thesis by (auto simp: cas_match_def split: option.splits)
qed

end

section \<open>The store in memory keeps the contract\<close>

lemmas mem_store_simps =
  mem_store_ops_def mem_read_def mem_write_def mem_delete_def next_handle_def Let_def

definition mem_used :: "mem_lease \<Rightarrow> string set" where
  "mem_used m = nat_text ` {1..ml_seq m}"

definition mem_inv :: "mem_lease \<Rightarrow> bool" where
  "mem_inv m = (case ml_state m of None \<Rightarrow> True | Some (_, h) \<Rightarrow> h \<in> mem_used m)"

lemma mem_used_next: "nat_text (Suc (ml_seq m)) \<notin> mem_used m"
  by (auto simp: mem_used_def)

interpretation ml: cas_record mem_store_ops ml_state mem_used mem_inv
proof (unfold_locales, goal_cases)
  case (1 s st h)
  then show ?case using nat_text_nonempty by (auto simp: mem_inv_def mem_used_def)
next
  case (5 s prev st rw s')
  then show ?case
    by (auto simp: mem_store_simps mem_inv_def mem_used_def split: option.splits if_splits)
next
  case (6 s prev st h s')
  then show ?case using mem_used_next [of s]
    by (auto simp: mem_store_simps cas_match_def split: option.splits if_splits)
qed (auto simp: mem_store_simps mem_inv_def mem_used_def cas_match_def split: option.splits if_splits)

section \<open>Properties\<close>

lemma mem_inv_new [simp]: "mem_inv mem_lease_new"
  by (simp add: mem_inv_def mem_lease_new_def)

definition ex_claims :: "nat \<Rightarrow> claim" where
  "ex_claims i = claim_new (if i = 0 then ''a:1'' else ''b:1'') 10"

text \<open>
  C8. The lease excludes: whatever the nodes do with their claims on one store in memory, in any
  order and at any times, the handle of the record in the store is that of at most one claim, and
  the record then carries that claim's owner and generation.  Another claim that has a handle is
  told \<open>Displaced\<close> by its next renewal, and nothing changes.  A claim without a handle renews by
  claiming: while the record of another owner runs it is told \<open>Displaced\<close> too, and claim and record
  stay; once the record has expired it takes it over.
\<close>

theorem one_lease_holder:
  assumes "lease_reachable mem_store_ops mem_lease_new (cs, m)"
    and "ml_state m = Some (st, c_handle (cs i))"
  shows "le_owner st = c_owner (cs i) \<and> le_generation st = c_generation (cs i) \<and>
    (\<forall>j. j \<noteq> i \<longrightarrow> c_handle (cs j) \<noteq> c_handle (cs i) \<and>
      (c_handle (cs j) \<noteq> [] \<longrightarrow> renew mem_store_ops now (cs j) m = (Displaced, cs j, m)) \<and>
      (c_handle (cs j) = [] \<and> c_owner (cs j) \<noteq> le_owner st \<longrightarrow>
        (case renew mem_store_ops now (cs j) m of (r, c', m') \<Rightarrow>
           if now \<le> le_expires_at st then r = Displaced \<and> c' = cs j \<and> ml_state m' = ml_state m
           else r = Renewed \<and> ml_state m' = Some (\<lparr>le_generation = sat_add64 (le_generation st) 1,
                  le_expires_at = sat_add64 now (c_ttl (cs j)), le_owner = c_owner (cs j)\<rparr>, c_handle c'))))"
proof -
  have own: "le_owner st = c_owner (cs i) \<and> le_generation st = c_generation (cs i)"
    using ml.one_holder [OF assms(1) mem_inv_new assms(2) assms(2)] by blast
  have diff: "c_handle (cs j) \<noteq> c_handle (cs i)" if "j \<noteq> i" for j
    using ml.one_holder [OF assms(1) mem_inv_new assms(2), of st j] assms(2) that by auto
  have held: "renew mem_store_ops now (cs j) m = (Displaced, cs j, m)" if "j \<noteq> i" "c_handle (cs j) \<noteq> []" for j
    using assms(2) diff [OF that(1)] that(2)
    by (auto simp: renew_def refresh_def mem_store_simps split: option.splits)
  have bare: "case renew mem_store_ops now (cs j) m of (r, c', m') \<Rightarrow>
      if now \<le> le_expires_at st then r = Displaced \<and> c' = cs j \<and> ml_state m' = ml_state m
      else r = Renewed \<and> ml_state m' = Some (\<lparr>le_generation = sat_add64 (le_generation st) 1,
             le_expires_at = sat_add64 now (c_ttl (cs j)), le_owner = c_owner (cs j)\<rparr>, c_handle c')"
    if "j \<noteq> i" "c_handle (cs j) = []" "c_owner (cs j) \<noteq> le_owner st" for j
    using assms(2) diff [OF that(1)] that(2,3)
    by (auto simp: renew_def try_claim_def refresh_def mem_store_simps)
  show ?thesis
  proof (intro conjI allI impI)
    show "le_owner st = c_owner (cs i)" "le_generation st = c_generation (cs i)" using own by simp_all
    fix j assume "j \<noteq> i"
    then show "c_handle (cs j) \<noteq> c_handle (cs i)" by (rule diff)
  qed (use held bare in simp_all)
qed

theorem one_lease_holder_witness:
  "\<exists>cs m st. ml_state m = Some (st, c_handle (cs 1)) \<and> le_owner st = ''b:1'' \<and> c_handle (cs 0) = ''1'' \<and>
     renew mem_store_ops 20 (cs (0::nat)) m = (Displaced, cs 0, m)"
proof -
  define r0 where "r0 = try_become_leader mem_store_ops 5 (ex_claims 0) mem_lease_new"
  define r1 where "r1 = try_become_leader mem_store_ops 16 (ex_claims 1) (snd (snd r0))"
  let ?cs = "ex_claims(0 := fst (snd r0), 1 := fst (snd r1))" and ?m = "snd (snd r1)"
  have "lease_reachable mem_store_ops mem_lease_new (ex_claims, mem_lease_new)"
    by (rule lease_reachable.init) (simp add: ex_claims_def claim_new_def)
  then have "lease_reachable mem_store_ops mem_lease_new (ex_claims(0 := fst (snd r0)), snd (snd r0))"
    by (rule lease_reachable.step) (rule lease_step.become [of _ 5 _ _ _ "fst r0"], simp add: r0_def)
  then have reach: "lease_reachable mem_store_ops mem_lease_new (?cs, ?m)"
    by (rule lease_reachable.step) (rule lease_step.become [of _ 16 _ _ _ "fst r1"], simp add: r1_def)
  have now: "ml_state ?m = Some (\<lparr>le_generation = 2, le_expires_at = 26, le_owner = ''b:1''\<rparr>, c_handle (?cs 1))"
    "c_handle (?cs 0) = ''1''" unfolding r1_def r0_def by code_simp+
  have "renew mem_store_ops 20 (?cs 0) ?m = (Displaced, ?cs 0, ?m)"
    using one_lease_holder [OF reach now(1), of 20, THEN conjunct2, THEN conjunct2, THEN spec [of _ 0]]
      now(2) by simp
  with now show ?thesis by (intro exI [of _ ?cs] exI [of _ ?m]) auto
qed

text \<open>
  A successful attempt to become leader found no record, its own record, or one that had
  expired; the record it leaves is its own, good for its time to live, with generation 1, the
  same generation, or one more.  With another owner's record still running the attempt fails and
  the record stays.
\<close>

theorem become_leader_claims:
  assumes "mem_inv m" "try_become_leader mem_store_ops now c m = (b, c', m')"
  shows "(if b then ml_state m' = Some (\<lparr>le_generation = c_generation c',
              le_expires_at = sat_add64 now (c_ttl c), le_owner = c_owner c\<rparr>, c_handle c')
          else ml_state m' = ml_state m \<and> c' = c) \<and>
    (case ml_state m of
       None \<Rightarrow> b \<and> c_generation c' = 1
     | Some (st, h) \<Rightarrow>
         b = (le_owner st = c_owner c \<or> le_expires_at st < now) \<and>
         (b \<longrightarrow> c_generation c' =
           (if le_owner st = c_owner c then le_generation st else sat_add64 (le_generation st) 1)))"
proof -
  obtain r where r: "try_claim mem_store_ops now c m = (r, c', m')" and b: "b = (r = Inr ())"
    using assms(2) by (auto simp: try_become_leader_def split: prod.splits)
  show ?thesis
  proof (cases "r = Inr ()")
    case True
    with ml.try_claim_ok [OF assms(1) r [unfolded True]] b show ?thesis
      by (auto split: option.splits if_splits)
  next
    case False
    then obtain e where "r = Inl e" by (cases r) auto
    with r have "ml_state m' = ml_state m" "c' = c" "\<exists>st h. ml_state m = Some (st, h) \<and> le_owner st \<noteq> c_owner c \<and> \<not> le_expires_at st < now"
      using assms(1) by (auto simp: try_claim_def refresh_def mem_store_simps mem_inv_def mem_used_def
          split: option.splits if_splits)
    with b False show ?thesis by auto
  qed
qed

theorem become_leader_claims_witness:
  "\<exists>m c'. ml_state m = Some (\<lparr>le_generation = 1, le_expires_at = 15, le_owner = ''a:1''\<rparr>, ''1'') \<and>
     fst (try_become_leader mem_store_ops 16 (ex_claims 1) m) \<and>
     c' = fst (snd (try_become_leader mem_store_ops 16 (ex_claims 1) m)) \<and> c_generation c' = 2"
proof -
  let ?m = "snd (snd (try_become_leader mem_store_ops 5 (ex_claims 0) mem_lease_new))"
  let ?r = "try_become_leader mem_store_ops 16 (ex_claims 1) ?m"
  have m: "ml_state ?m = Some (\<lparr>le_generation = 1, le_expires_at = 15, le_owner = ''a:1''\<rparr>, ''1'')"
    by code_simp
  have inv: "mem_inv ?m" unfolding mem_inv_def mem_used_def by code_simp
  have o1: "c_owner (ex_claims 1) = ''b:1''" by code_simp
  have "?r = (fst ?r, fst (snd ?r), snd (snd ?r))" by simp
  from become_leader_claims [OF inv this] m o1 show ?thesis
    by (auto simp: sat_add64_def u64_max_def)
qed

text \<open>
  C22. A renewal on a held handle is one conditional write: it never reads, it succeeds exactly
  when the handle is still the record's, and then the record keeps its generation and runs a
  full time to live from now; otherwise the answer is \<open>Displaced\<close>, and claim and store are as
  they were.
\<close>

theorem renew_is_one_write:
  assumes "c_handle c \<noteq> []"
  shows "\<exists>c' m'. renew mem_store_ops now c m =
      (if \<exists>st. ml_state m = Some (st, c_handle c) then (Renewed, c', m') else (Displaced, c, m)) \<and>
    c' = c\<lparr>c_handle := nat_text (ml_seq m + 1)\<rparr> \<and> ml_reads m' = ml_reads m \<and>
    ml_state m' = Some (\<lparr>le_generation = c_generation c, le_expires_at = sat_add64 now (c_ttl c),
      le_owner = c_owner c\<rparr>, c_handle c')"
proof (cases "\<exists>st. ml_state m = Some (st, c_handle c)")
  case True
  with assms show ?thesis
    by (auto simp: renew_def refresh_def mem_store_simps split: option.splits)
next
  case False
  let ?c = "c\<lparr>c_handle := nat_text (ml_seq m + 1)\<rparr>"
  have "renew mem_store_ops now c m = (Displaced, c, m)"
    using False assms by (auto simp: renew_def refresh_def mem_store_simps split: option.splits)
  then show ?thesis unfolding if_not_P [OF False]
    by (intro exI [of _ ?c] exI [of _ "m\<lparr>ml_state := Some (\<lparr>le_generation = c_generation c,
          le_expires_at = sat_add64 now (c_ttl c), le_owner = c_owner c\<rparr>, c_handle ?c)\<rparr>"]) simp
qed

theorem renew_is_one_write_witness:
  "\<exists>c. c_handle c = ''1'' \<and> renew mem_store_ops 7 c mem_lease_new = (Displaced, c, mem_lease_new)"
  using renew_is_one_write [of "ex_claims 0\<lparr>c_handle := ''1''\<rparr>" 7 mem_lease_new]
  by (intro exI [of _ "ex_claims 0\<lparr>c_handle := ''1''\<rparr>"]) (auto simp: mem_lease_new_def)

text \<open>
  The generation is not strictly increasing over the life of the key: a released lease is
  claimed again with generation 1, by whoever comes next, however high it had come.
\<close>

theorem release_restarts_generation:
  assumes "ml_state m = Some (st, c_handle c)" "c_handle c \<noteq> []"
    and "release mem_store_ops c m = (c1, m1)"
    and "try_become_leader mem_store_ops now d m1 = (b, d1, m2)"
  shows "b \<and> c_generation d1 = 1 \<and> (\<exists>h st1. ml_state m2 = Some (st1, h) \<and> le_generation st1 = 1)"
proof -
  have m1: "ml_state m1 = None" using assms(1,2,3) by (auto simp: release_def mem_store_simps)
  then have "try_become_leader mem_store_ops now d m1 =
      (let h = nat_text (ml_seq m1 + 1); s = \<lparr>le_generation = 1, le_expires_at = sat_add64 now (c_ttl d),
         le_owner = c_owner d\<rparr>
       in (True, d\<lparr>c_handle := h, c_generation := 1\<rparr>,
           m1\<lparr>ml_reads := ml_reads m1 + 1, ml_seq := ml_seq m1 + 1, ml_state := Some (s, h)\<rparr>))"
    by (simp add: try_become_leader_def try_claim_def refresh_def mem_store_simps)
  with assms(4) show ?thesis by (auto simp: Let_def)
qed

theorem release_restarts_generation_witness:
  "\<exists>m c c1 m1 d1 m2 st. ml_state m = Some (st, c_handle c) \<and> le_generation st = 2 \<and>
     release mem_store_ops c m = (c1, m1) \<and>
     try_become_leader mem_store_ops 17 (ex_claims 0) m1 = (True, d1, m2) \<and> c_generation d1 = 1"
proof -
  define r0 where "r0 = try_become_leader mem_store_ops 5 (ex_claims 0) mem_lease_new"
  define r1 where "r1 = try_become_leader mem_store_ops 16 (ex_claims 1) (snd (snd r0))"
  let ?c = "fst (snd r1)" and ?m = "snd (snd r1)"
  let ?r = "release mem_store_ops ?c ?m"
  let ?b = "try_become_leader mem_store_ops 17 (ex_claims 0) (snd ?r)"
  have m: "ml_state ?m = Some (\<lparr>le_generation = 2, le_expires_at = 26, le_owner = ''b:1''\<rparr>, c_handle ?c)"
    "c_handle ?c \<noteq> []" unfolding r1_def r0_def by code_simp+
  have r: "?r = (fst ?r, snd ?r)" and b: "?b = (fst ?b, fst (snd ?b), snd (snd ?b))" by simp_all
  from release_restarts_generation [OF m r b] have "fst ?b \<and> c_generation (fst (snd ?b)) = 1" by blast
  with m(1) b r show ?thesis
    by (intro exI [of _ ?m] exI [of _ ?c] exI [of _ "fst ?r"] exI [of _ "snd ?r"]
        exI [of _ "fst (snd ?b)"] exI [of _ "snd (snd ?b)"] exI
          [of _ "\<lparr>le_generation = 2, le_expires_at = 26, le_owner = ''b:1''\<rparr>"]) (auto simp: prod_eq_iff)
qed

end
