(* ===== verification/Btree_Map.thy ===== *)
theory Btree_Map
  imports Types_Map
begin

text \<open>
  What the sources use of the standard library's \<^verbatim>\<open>BTreeMap<String, V>\<close>: lookup, insertion,
  removal and iteration in the order of the keys.  The map is the list of its bindings in that
  order; \<open>bt_insert\<close> puts a binding at its place.  Lookup after an update needs no invariant;
  \<open>bt_inv\<close> (strictly increasing keys) is what makes the list the map.  A \<^verbatim>\<open>BTreeSet\<close> is a map
  to \<^typ>\<open>unit\<close>, as in the library.
\<close>

section \<open>Operations\<close>

type_synonym 'v btree = "(string \<times> 'v) list"

definition bt_inv :: "'v btree \<Rightarrow> bool" where
  "bt_inv m \<longleftrightarrow> strictly_sorted (map fst m)"

definition bt_get :: "'v btree \<Rightarrow> string \<Rightarrow> 'v option" where
  "bt_get m k = map_of m k"

definition bt_contains :: "'v btree \<Rightarrow> string \<Rightarrow> bool" where
  "bt_contains m k \<longleftrightarrow> bt_get m k \<noteq> None"

fun bt_insert :: "'v btree \<Rightarrow> string \<Rightarrow> 'v \<Rightarrow> 'v btree" where
  "bt_insert [] k v = [(k, v)]"
| "bt_insert ((k1, v1) # m) k v =
     (if k < k1 then (k, v) # (k1, v1) # m
      else if k = k1 then (k, v) # m
      else (k1, v1) # bt_insert m k v)"

definition bt_remove :: "'v btree \<Rightarrow> string \<Rightarrow> 'v btree" where
  "bt_remove m k = filter (\<lambda>p. fst p \<noteq> k) m"

text \<open>\<^verbatim>\<open>get_mut\<close>: the value at a key, changed in place.\<close>

definition bt_adjust :: "'v btree \<Rightarrow> string \<Rightarrow> ('v \<Rightarrow> 'v) \<Rightarrow> 'v btree" where
  "bt_adjust m k f = map (\<lambda>(k1, v). (k1, if k1 = k then f v else v)) m"

definition bt_keys :: "'v btree \<Rightarrow> string list" where
  "bt_keys m = map fst m"

definition bt_values :: "'v btree \<Rightarrow> 'v list" where
  "bt_values m = map snd m"

section \<open>Laws\<close>

lemma bt_get_Nil [simp]: "bt_get [] k = None"
  by (simp add: bt_get_def)

lemma bt_get_insert [simp]: "bt_get (bt_insert m k v) k' = (if k' = k then Some v else bt_get m k')"
  unfolding bt_get_def by (induction m k v rule: bt_insert.induct) auto

lemma bt_get_remove [simp]: "bt_get (bt_remove m k) k' = (if k' = k then None else bt_get m k')"
  unfolding bt_get_def bt_remove_def by (induction m) auto

lemma bt_get_adjust [simp]:
  "bt_get (bt_adjust m k f) k' = (if k' = k then map_option f (bt_get m k) else bt_get m k')"
  unfolding bt_get_def bt_adjust_def by (induction m) auto

lemma set_bt_insert: "set (bt_insert m k v) \<subseteq> insert (k, v) (set m)"
  by (induction m k v rule: bt_insert.induct) auto

lemma set_bt_remove: "set (bt_remove m k) \<subseteq> set m"
  by (auto simp: bt_remove_def)

lemma mem_bt_adjust:
  "(k', v') \<in> set (bt_adjust m k f) \<longleftrightarrow> (\<exists>v. (k', v) \<in> set m \<and> v' = (if k' = k then f v else v))"
  unfolding bt_adjust_def by (induction m) auto

lemma keys_bt_insert: "fst ` set (bt_insert m k v) = insert k (fst ` set m)"
  by (induction m k v rule: bt_insert.induct) auto

lemma keys_bt_adjust [simp]: "map fst (bt_adjust m k f) = map fst m"
  by (simp add: bt_adjust_def case_prod_unfold)

lemma key_set_bt_adjust [simp]: "fst ` set (bt_adjust m k f) = fst ` set m"
  by (metis keys_bt_adjust list.set_map)

lemma bt_inv_Nil [simp]: "bt_inv []"
  by (simp add: bt_inv_def)

lemma bt_inv_insert [inv_intros]: "bt_inv m \<Longrightarrow> bt_inv (bt_insert m k v)"
  unfolding bt_inv_def
proof (induction m k v rule: bt_insert.induct)
  case (2 k1 v1 m k v)
  then show ?case by (auto dest!: subsetD [OF set_bt_insert])
qed simp

lemma bt_inv_remove [inv_intros]: "bt_inv m \<Longrightarrow> bt_inv (bt_remove m k)"
  unfolding bt_inv_def bt_remove_def by (induction m) auto

lemma bt_inv_adjust [inv_intros]: "bt_inv m \<Longrightarrow> bt_inv (bt_adjust m k f)"
  by (simp add: bt_inv_def)

lemma bt_inv_distinct: "bt_inv m \<Longrightarrow> distinct (map fst m)"
  by (simp add: bt_inv_def strictly_sorted_distinct)

lemma bt_get_Some_mem: "bt_get m k = Some v \<Longrightarrow> (k, v) \<in> set m"
  by (simp add: bt_get_def map_of_SomeD)

lemma bt_get_mem: "bt_inv m \<Longrightarrow> (k, v) \<in> set m \<longleftrightarrow> bt_get m k = Some v"
  by (simp add: bt_get_def bt_inv_distinct)

lemma bt_get_None: "bt_get m k = None \<longleftrightarrow> k \<notin> fst ` set m"
  by (simp add: bt_get_def map_of_eq_None_iff)

lemma bt_contains_iff: "bt_contains m k \<longleftrightarrow> k \<in> fst ` set m"
  by (simp add: bt_contains_def bt_get_None)

lemma length_bt_adjust [simp]: "length (bt_adjust m k f) = length m"
  by (simp add: bt_adjust_def)

lemma length_bt_remove_le: "length (bt_remove m k) \<le> length m"
  by (simp add: bt_remove_def)

lemma length_bt_insert_le: "length (bt_insert m k v) \<le> Suc (length m)"
  by (induction m k v rule: bt_insert.induct) auto

lemma length_bt_insert_present: "bt_inv m \<Longrightarrow> bt_contains m k \<Longrightarrow> length (bt_insert m k v) = length m"
  unfolding bt_inv_def bt_contains_iff
  by (induction m k v rule: bt_insert.induct) auto

lemma length_bt_insert_absent: "\<not> bt_contains m k \<Longrightarrow> length (bt_insert m k v) = Suc (length m)"
  unfolding bt_contains_iff
  by (induction m k v rule: bt_insert.induct) auto

lemma length_bt_remove_present:
  "bt_inv m \<Longrightarrow> bt_contains m k \<Longrightarrow> Suc (length (bt_remove m k)) = length m"
proof (induction m)
  case (Cons p m)
  show ?case
  proof (cases "fst p = k")
    case True
    then have "\<forall>q \<in> set m. fst q \<noteq> k" using Cons.prems(1) by (auto simp: bt_inv_def)
    then show ?thesis using True by (simp add: bt_remove_def)
  next
    case False
    then show ?thesis using Cons by (auto simp: bt_remove_def bt_inv_def bt_contains_iff)
  qed
qed (simp add: bt_contains_iff)

lemma bt_remove_absent: "bt_get m k = None \<Longrightarrow> bt_remove m k = m"
  by (auto simp: bt_get_None bt_remove_def filter_id_conv)

lemma bt_inv_hmap: "bt_inv m \<longleftrightarrow> hmap_inv m"
  by (simp add: bt_inv_def hmap_inv_def)

lemma bt_ext: "bt_inv m \<Longrightarrow> bt_inv m' \<Longrightarrow> (\<And>k. bt_get m k = bt_get m' k) \<Longrightarrow> m = m'"
  by (rule map_ext) (simp_all add: bt_inv_hmap hmap_get_map_of bt_get_def)

interpretation bt: key_map bt_get "\<lambda>m k v. (bt_get m k, bt_insert m k v)" bt_adjust
  "\<lambda>m k. (bt_get m k, bt_remove m k)" bt_inv
  by unfold_locales (simp_all add: inv_intros)

end
