(* ===== verification/Agent_Parts.thy ===== *)
theory Agent_Parts
  imports Types_Job Btree_Map "HOL-Library.Word"
begin

text \<open>
  The parts of the node's state machine: the messages it exchanges with its executor
  (\<^verbatim>\<open>agent/src/action.rs\<close>), its settings (\<^verbatim>\<open>settings.rs\<close>, without the reading of the
  configuration), the source of task ids and jitter (\<^verbatim>\<open>ids.rs\<close>: splitmix64 on 64-bit words),
  health checks and the restart delay (\<^verbatim>\<open>health.rs\<close>), and the bounds and errors of the crate
  (\<^verbatim>\<open>lib.rs\<close>).

  Shown here: the delay before a restart lies between half its base and 30 s, and the first
  \<open>2 ^ 64\<close> ids drawn from one seed are pairwise different.
\<close>

unbundle bit_operations_syntax

section \<open>Bounds and errors\<close>

definition MAX_TASKS :: nat where "MAX_TASKS = 1024"
definition NODE_MAX_JOBS :: nat where "NODE_MAX_JOBS = 1024"
definition SYSTEM_GROUP :: string where "SYSTEM_GROUP = ''system''"
definition DEFAULT_MAX_RESTARTS :: int where "DEFAULT_MAX_RESTARTS = -1"
definition DEFAULT_RESTART_WINDOW :: nanos where "DEFAULT_RESTART_WINDOW = 5 * MINUTE"
definition MAX_RESTART_DELAY :: nanos where "MAX_RESTART_DELAY = 30 * SECOND"
definition DEFAULT_FAILURE_THRESHOLD :: nat where "DEFAULT_FAILURE_THRESHOLD = 3"
definition HOP_BLOCK_BYTES :: nat where "HOP_BLOCK_BYTES = 2 * 2 ^ 20"

datatype state_store_error = SsRefused nat | SsIo | SsTooBig nat nat | SsOutOfMemory

datatype node_error =
    NeAffinityMismatch
  | NeNoCapacity
  | NeTooManyTasks
  | NeTooManyJobs
  | NeNoArtifact
  | NeNotFound
  | NeJson types_error
  | NeVersion nat
  | NeStore state_store_error
  | NeAlloc

fun node_error_from :: "types_error \<Rightarrow> node_error" where
  "node_error_from OutOfMemory = NeAlloc"
| "node_error_from e = NeJson e"

section \<open>Messages\<close>

datatype probe = ProbeHttp nat string nanos | ProbeTcp nat nanos | ProbeFile string

datatype outcome = OutHttp "nat option" | OutTcp bool | OutFile "time option"

datatype task_event = TeStart | TeStarted | TeCrash | TeStop | TeUnplaceable

fun task_event_as_str :: "task_event \<Rightarrow> string" where
  "task_event_as_str TeStart = ''start''"
| "task_event_as_str TeStarted = ''started''"
| "task_event_as_str TeCrash = ''crash''"
| "task_event_as_str TeStop = ''stop''"
| "task_event_as_str TeUnplaceable = ''unplaceable''"

datatype action =
    ActStart string job
  | ActStop string driver int
  | ActPoll string driver int
  | ActProbe string probe
  | ActRefused string string
  | ActNotify string task_event

record start_ok =
  so_pid :: int
  so_ports :: "nat hmap"

datatype start_error = SeNoCapacity | SeFailed

datatype run_status = RsRunning | RsFailed

section \<open>Settings\<close>

record settings =
  s_id :: string
  s_endpoint :: string
  s_attributes :: "string btree"
  s_cpu_cores :: nat
  s_memory_bytes :: nat
  s_cap_cpu_shares :: int
  s_cap_memory :: nat
  s_free_groups :: "string list"
  s_monitor_interval :: nanos
  s_health_timeout :: nanos
  s_seed :: "64 word"

definition effective_cpu_shares :: "settings \<Rightarrow> int" where
  "effective_cpu_shares s =
     (let detected = sat_muli (int (s_cpu_cores s)) 1024
      in if s_cap_cpu_shares s > 0 \<and> s_cap_cpu_shares s < detected then s_cap_cpu_shares s
         else detected)"

definition effective_memory_bytes :: "settings \<Rightarrow> nat" where
  "effective_memory_bytes s =
     (if s_cap_memory s > 0 \<and> s_cap_memory s < s_memory_bytes s then s_cap_memory s
      else s_memory_bytes s)"

definition monitor_interval :: "settings \<Rightarrow> nanos" where
  "monitor_interval s = (if s_monitor_interval s > 0 then s_monitor_interval s else 5 * SECOND)"

definition health_timeout :: "settings \<Rightarrow> nanos" where
  "health_timeout s = (if s_health_timeout s > 0 then s_health_timeout s else 5 * SECOND)"

section \<open>Ids and jitter\<close>

type_synonym ids = "64 word"

definition splitmix :: "64 word \<Rightarrow> 64 word" where
  "splitmix z =
     (let z = (z XOR drop_bit 30 z) * 0xbf58476d1ce4e5b9;
          z = (z XOR drop_bit 27 z) * 0x94d049bb133111eb
      in z XOR drop_bit 31 z)"

definition next_u64 :: "ids \<Rightarrow> 64 word \<times> ids" where
  "next_u64 st = (let st = st + 0x9e3779b97f4a7c15 in (splitmix st, st))"

definition HEX :: string where
  "HEX = ''0123456789abcdef''"

fun id_text :: "nat \<Rightarrow> 64 word \<Rightarrow> string" where
  "id_text 0 v = []"
| "id_text (Suc n) v = HEX ! unat (v AND 0xf) # id_text n (drop_bit 4 v)"

definition ids_id :: "ids \<Rightarrow> string \<times> ids" where
  "ids_id st = (case next_u64 st of (v, st1) \<Rightarrow> (id_text 16 v, st1))"

section \<open>Health\<close>

record check =
  ck_fail_count :: nat
  ck_last_check :: time
  ck_notified_healthy :: bool

definition check_default :: check where
  "check_default = \<lparr>ck_fail_count = 0, ck_last_check = 0, ck_notified_healthy = False\<rparr>"

datatype verdict = VHealthy bool | VUnhealthy

definition named_port :: "nat hmap \<Rightarrow> string \<Rightarrow> nat option" where
  "named_port ports name = hmap_get ports (if name = [] then ''http'' else name)"

text \<open>\<open>None\<close>: the port the check names does not exist.\<close>

definition probe_for :: "task \<Rightarrow> health_check \<Rightarrow> nanos \<Rightarrow> probe option" where
  "probe_for task hc default_timeout =
     (let timeout = (if hc_timeout hc > 0 then hc_timeout hc else default_timeout);
          kind = (case hc_kind hc of Some k \<Rightarrow> k | None \<Rightarrow> Http)
      in if kind = File then Some (ProbeFile (hc_path hc))
         else case named_port (t_ports task) (hc_port hc) of
                None \<Rightarrow> None
              | Some port \<Rightarrow>
                  Some (if kind = Tcp then ProbeTcp port timeout
                        else ProbeHttp port (hc_path hc) timeout))"

fun is_healthy :: "outcome \<Rightarrow> check \<Rightarrow> bool" where
  "is_healthy (OutHttp (Some status)) ck \<longleftrightarrow> 200 \<le> status \<and> status < 400"
| "is_healthy (OutHttp None) ck \<longleftrightarrow> False"
| "is_healthy (OutTcp connected) ck \<longleftrightarrow> connected"
| "is_healthy (OutFile None) ck \<longleftrightarrow> False"
| "is_healthy (OutFile (Some mtime)) ck \<longleftrightarrow> time_is_zero (ck_last_check ck) \<or> mtime > ck_last_check ck"

definition effective_threshold :: "int \<Rightarrow> nat" where
  "effective_threshold t =
     (if 0 < t \<and> t \<le> int u32_max then nat t else DEFAULT_FAILURE_THRESHOLD)"

definition check_apply :: "check \<Rightarrow> bool \<Rightarrow> nanos \<Rightarrow> int \<Rightarrow> verdict \<times> check" where
  "check_apply ck healthy now threshold =
     (let ck = ck\<lparr>ck_last_check := now\<rparr>
      in if healthy then (VHealthy True, ck\<lparr>ck_fail_count := 0\<rparr>)
         else let ck = ck\<lparr>ck_fail_count := sat_add32 (ck_fail_count ck) 1\<rparr>
              in (if ck_fail_count ck < effective_threshold threshold then VHealthy False
                  else VUnhealthy, ck))"

definition restart_delay :: "int \<Rightarrow> nat \<Rightarrow> nanos" where
  "restart_delay count rand =
     (if count \<le> 0 then 0
      else let base = (if count \<le> 5 then SECOND * 2 ^ nat (count - 1) else MAX_RESTART_DELAY);
               half = base div 2;
               delay = sat_add64 half (rand mod sat_add64 half 1)
           in min (max delay 1) MAX_RESTART_DELAY)"

section \<open>The restart delay\<close>

lemma restart_delay_bounds:
  assumes "0 < count"
  shows "min (SECOND * 2 ^ nat (count - 1)) MAX_RESTART_DELAY div 2 \<le> restart_delay count rand"
    and "restart_delay count rand \<le> min (SECOND * 2 ^ nat (count - 1)) MAX_RESTART_DELAY"
proof -
  let ?b = "min (SECOND * 2 ^ nat (count - 1)) MAX_RESTART_DELAY"
  define base where "base = (if count \<le> 5 then SECOND * 2 ^ nat (count - 1) else MAX_RESTART_DELAY)"
  have base: "base = ?b"
  proof (cases "count \<le> 5")
    case True
    then have "nat (count - 1) \<in> {0, 1, 2, 3, 4}" using assms by auto
    then show ?thesis using True by (auto simp: base_def SECOND_def MAX_RESTART_DELAY_def)
  next
    case False
    then have "(2::nat) ^ 5 \<le> 2 ^ nat (count - 1)" by (intro power_increasing) auto
    then show ?thesis using False by (simp add: base_def SECOND_def MAX_RESTART_DELAY_def)
  qed
  have range: "SECOND \<le> base" "base \<le> 30000000000"
    unfolding base by (simp_all add: SECOND_def MAX_RESTART_DELAY_def)
  define half where "half = base div 2"
  have half: "half \<le> 15000000000" using range by (simp add: half_def)
  then have suc: "sat_add64 half 1 = half + 1" by (simp add: sat_defs)
  define r where "r = rand mod sat_add64 half 1"
  have "r \<le> half" using mod_less_divisor [of "half + 1" rand] unfolding r_def suc by simp
  moreover from this have "sat_add64 half r = half + r" using half by (simp add: sat_defs)
  ultimately have d: "half \<le> sat_add64 half r" "sat_add64 half r \<le> base"
    by (simp_all add: half_def)
  have "restart_delay count rand = min (max (sat_add64 half r) 1) MAX_RESTART_DELAY"
    using assms unfolding restart_delay_def Let_def r_def half_def base_def by simp
  also have "\<dots> = sat_add64 half r"
    using d range by (simp add: half_def SECOND_def MAX_RESTART_DELAY_def)
  finally have "restart_delay count rand = sat_add64 half r" .
  then show "?b div 2 \<le> restart_delay count rand" "restart_delay count rand \<le> ?b"
    using d base by (simp_all add: half_def)
qed

section \<open>The ids differ\<close>

lemma drop_bit_fixpoint:
  fixes d :: "64 word"
  assumes "drop_bit k d = d" "0 < k"
  shows "d = 0"
proof (rule bit_eqI)
  fix i
  have step: "bit d j \<longleftrightarrow> bit d (k + j)" for j
    using assms(1) by (metis bit_drop_bit_eq comp_apply)
  have "bit d i \<longleftrightarrow> bit d (n * k + i)" for n
    by (induction n) (use step in \<open>simp_all add: add.assoc\<close>)
  moreover have "\<not> bit d (64 * k + i)"
    using assms(2) bit_imp_le_length [of d "64 * k + i"] by auto
  ultimately show "bit d i \<longleftrightarrow> bit (0 :: 64 word) i" by simp
qed

lemma xorshift_inj:
  fixes x y :: "64 word"
  assumes "x XOR drop_bit k x = y XOR drop_bit k y" "0 < k"
  shows "x = y"
proof -
  have bits: "bit x i = bit y i \<longleftrightarrow> bit (drop_bit k x) i = bit (drop_bit k y) i" for i
    using arg_cong [OF assms(1), of "\<lambda>w. bit w i"] by (auto simp: bit_xor_iff)
  have "drop_bit k (x XOR y) = x XOR y"
    by (rule bit_eqI) (use bits in \<open>auto simp: bit_xor_iff bit_drop_bit_eq\<close>)
  then have "x XOR y = 0" using assms(2) by (rule drop_bit_fixpoint)
  then have "bit (x XOR y) i = bit (0 :: 64 word) i" for i by simp
  then show ?thesis by (intro bit_eqI) (auto simp: bit_xor_iff)
qed

lemma mult_unit_inj:
  fixes x y c c' :: "64 word"
  assumes "x * c = y * c" "c * c' = 1"
  shows "x = y"
proof -
  have "x * (c * c') = y * (c * c')" using assms(1) by (simp add: mult.assoc [symmetric])
  then show ?thesis by (simp add: assms(2))
qed

lemma splitmix_inj:
  assumes "splitmix x = splitmix y"
  shows "x = y"
proof -
  have "(10723151780598845931 :: 64 word) * 3573116690164977347 = 1"
    "(13787848793156543929 :: 64 word) * 10871156337175269513 = 1" by simp_all
  note units = this [THEN mult_unit_inj [rotated]]
  show ?thesis
    using assms unfolding splitmix_def Let_def
    by (auto dest!: xorshift_inj units)
qed

lemma id_text_inj:
  "id_text n v = id_text n w \<Longrightarrow> take_bit (4 * n) v = take_bit (4 * n) w"
proof (induction n arbitrary: v w)
  case (Suc n)
  have low: "unat (u AND 15) < 16" for u :: "64 word"
    using word_and_le1 [of u 15] by (simp add: word_le_nat_alt)
  have "distinct HEX" "length HEX = 16" by (simp_all add: HEX_def)
  then have "v AND 15 = w AND 15"
    using Suc.prems low [of v] low [of w] by (simp add: nth_eq_iff_index_eq word_unat_eq_iff)
  moreover have "(15 :: 64 word) = mask 4" by (simp add: mask_eq_exp_minus_1)
  ultimately have "take_bit 4 v = take_bit 4 w" by (simp only: take_bit_eq_mask)
  then have low4: "bit v i = bit w i" if "i < 4" for i
    using that by (metis bit_take_bit_iff)
  have "take_bit (4 * n) (drop_bit 4 v) = take_bit (4 * n) (drop_bit 4 w)"
    using Suc.prems by (intro Suc.IH) simp
  then have bits: "bit (drop_bit 4 v) (i - 4) = bit (drop_bit 4 w) (i - 4)" if "i - 4 < 4 * n" for i
    using that by (metis bit_take_bit_iff)
  have "bit v i = bit w i" if "i < 4 * Suc n" for i
    using that bits [of i] low4 [of i] by (cases "i < 4") (auto simp: bit_drop_bit_eq)
  then show ?case by (intro bit_eqI) (auto simp: bit_take_bit_iff)
qed simp

lemma id_text_16: "id_text 16 v = id_text 16 w \<longleftrightarrow> v = w"
  using id_text_inj [of 16 v w] by (auto simp: take_bit_word_eq_self)

definition ids_after :: "nat \<Rightarrow> ids \<Rightarrow> ids" where
  "ids_after n st = ((snd \<circ> ids_id) ^^ n) st"

lemma ids_id_eq: "ids_id st = (id_text 16 (splitmix (st + 0x9e3779b97f4a7c15)), st + 0x9e3779b97f4a7c15)"
  by (simp add: ids_id_def next_u64_def Let_def)

lemma ids_after_eq: "ids_after n st = st + of_nat n * 0x9e3779b97f4a7c15"
  by (induction n) (simp_all add: ids_after_def ids_id_eq algebra_simps)

lemma of_nat_inj_64: "of_nat i = (of_nat j :: 64 word) \<Longrightarrow> i < 2 ^ 64 \<Longrightarrow> j < 2 ^ 64 \<Longrightarrow> i = j"
  by (drule arg_cong [of _ _ unat]) (simp add: unat_of_nat)

lemma ids_differ:
  assumes "i < 2 ^ 64" "j < 2 ^ 64" "i \<noteq> j"
  shows "fst (ids_id (ids_after i seed)) \<noteq> fst (ids_id (ids_after j seed))"
proof
  assume "fst (ids_id (ids_after i seed)) = fst (ids_id (ids_after j seed))"
  then have "(of_nat i :: 64 word) * 0x9e3779b97f4a7c15 = of_nat j * 0x9e3779b97f4a7c15"
    by (auto simp: ids_id_eq id_text_16 ids_after_eq dest!: splitmix_inj)
  moreover have "(0x9e3779b97f4a7c15 :: 64 word) * 17428512612931826493 = 1" by simp
  ultimately have "(of_nat i :: 64 word) = of_nat j" by (rule mult_unit_inj)
  then show False using assms of_nat_inj_64 by blast
qed

end
