(* ===== verification/Agent_Node.thy ===== *)
theory Agent_Node
  imports Agent_Parts
begin

text \<open>
  \<^verbatim>\<open>agent/src/node.rs\<close>: the state machine of one node, from admission to restart.  The state is
  the record \<open>node\<close>; every method takes it and gives it back, and pushes what its executor has
  to do on \<open>n_out\<close>.  Methods that borrow the state keep it as an argument.

  A failed start can lead to a restart, which starts again: \<open>begin_start\<close>, \<open>start_failed\<close>,
  \<open>schedule_restart\<close>, \<open>restart_decide\<close> and \<open>restart_fire\<close> call one another.  They always
  return: such a round raises the restart count of the task by one and goes on only while the
  count is not positive.
\<close>

section \<open>State\<close>

record entry =
  e_task :: task
  e_check :: check
  e_restart_at :: "nanos option"
  e_first_start :: bool
  e_starting :: bool

record node =
  n_settings :: settings
  n_jobs :: "job btree"
  n_tasks :: "entry btree"
  n_state_time :: time
  n_leader_addr :: string
  n_lease_expires_at :: time
  n_ids :: ids
  n_out :: "action list"
  n_refused :: "unit btree"
  n_next_monitor :: nanos
  n_shutting_down :: bool

definition node_new :: "settings \<Rightarrow> node" where
  "node_new s = \<lparr>n_settings = s, n_jobs = [], n_tasks = [], n_state_time = time_ZERO,
     n_leader_addr = [], n_lease_expires_at = time_ZERO, n_ids = s_seed s, n_out = [],
     n_refused = [], n_next_monitor = 0, n_shutting_down = False\<rparr>"

definition node_push :: "action \<Rightarrow> node \<Rightarrow> node" where
  "node_push a n = n\<lparr>n_out := n_out n @ [a]\<rparr>"

definition take_actions :: "node \<Rightarrow> action list \<times> node" where
  "take_actions n = (n_out n, n\<lparr>n_out := []\<rparr>)"

definition set_leader_addr :: "string \<Rightarrow> node \<Rightarrow> node" where
  "set_leader_addr addr n = n\<lparr>n_leader_addr := addr\<rparr>"

definition set_lease_expires_at :: "time \<Rightarrow> node \<Rightarrow> node" where
  "set_lease_expires_at t n = n\<lparr>n_lease_expires_at := t\<rparr>"

text \<open>\<^verbatim>\<open>tasks.get_mut(id)\<close> followed by an assignment.\<close>

definition upd_entry :: "string \<Rightarrow> (entry \<Rightarrow> entry) \<Rightarrow> node \<Rightarrow> node" where
  "upd_entry i f n = n\<lparr>n_tasks := bt_adjust (n_tasks n) i f\<rparr>"

abbreviation upd_task :: "string \<Rightarrow> (task \<Rightarrow> task) \<Rightarrow> node \<Rightarrow> node" where
  "upd_task i f \<equiv> upd_entry i (\<lambda>e. e\<lparr>e_task := f (e_task e)\<rparr>)"

definition forget :: "string \<Rightarrow> node \<Rightarrow> entry option \<times> node" where
  "forget i n = (bt_get (n_tasks n) i, n\<lparr>n_tasks := bt_remove (n_tasks n) i\<rparr>)"

section \<open>Affinity and artifacts\<close>

definition matches_affinity :: "node \<Rightarrow> string hmap \<Rightarrow> bool" where
  "matches_affinity n affinity \<longleftrightarrow>
     list_all (\<lambda>(k, v). bt_get (s_attributes (n_settings n)) k = Some v) (hmap_iter affinity)"

definition resolve_artifact :: "node \<Rightarrow> artifact list \<Rightarrow> artifact option" where
  "resolve_artifact n arts = find (\<lambda>a. matches_affinity n (art_matches a)) arts"

definition resolve_job_for_run :: "node \<Rightarrow> job \<Rightarrow> node_error + job" where
  "resolve_job_for_run n job =
     (if j_artifacts job = [] then Inr job
      else case resolve_artifact n (j_artifacts job) of
             None \<Rightarrow> Inl NeNoArtifact
           | Some art \<Rightarrow> Inr (job\<lparr>j_artifacts := [art]\<rparr>))"

section \<open>Capacity\<close>

definition job_group :: "job \<Rightarrow> string option" where
  "job_group job =
     (case hmap_get (j_tags job) ''sharegroup'' of
        None \<Rightarrow> None
      | Some g \<Rightarrow> if g = [] then None else Some g)"

definition sharegroup_of :: "node \<Rightarrow> task \<Rightarrow> string option" where
  "sharegroup_of n t =
     (case bt_get (n_jobs n) (t_job_name t) of None \<Rightarrow> None | Some job \<Rightarrow> job_group job)"

definition free_group :: "node \<Rightarrow> string \<Rightarrow> bool" where
  "free_group n grp \<longleftrightarrow> list_ex (\<lambda>g. g = grp) (s_free_groups (n_settings n))"

definition costs_no_core :: "node \<Rightarrow> string option \<Rightarrow> task \<Rightarrow> bool" where
  "costs_no_core n grp t =
     (case grp of
        Some g \<Rightarrow> free_group n g
      | None \<Rightarrow> t_core t = Some 0 \<and> free_group n SYSTEM_GROUP)"

definition sharegroup_running :: "node \<Rightarrow> string \<Rightarrow> bool" where
  "sharegroup_running n grp \<longleftrightarrow>
     list_ex (\<lambda>e. sharegroup_of n (e_task e) = Some grp) (bt_values (n_tasks n))"

fun usage_loop :: "node \<Rightarrow> string option \<Rightarrow> entry list \<Rightarrow> int \<Rightarrow> nat \<Rightarrow> string list \<Rightarrow> int \<times> nat" where
  "usage_loop n exclude [] cpu mem seen = (cpu, mem)"
| "usage_loop n exclude (e # es) cpu mem seen =
     (if exclude = Some (t_job_name (e_task e)) then usage_loop n exclude es cpu mem seen
      else
        let mem = sat_add64 mem (t_memory_limit (e_task e));
            grp = sharegroup_of n (e_task e)
        in if costs_no_core n grp (e_task e) then usage_loop n exclude es cpu mem seen
           else case grp of
                  Some g \<Rightarrow>
                    if g \<in> set seen then usage_loop n exclude es cpu mem seen
                    else usage_loop n exclude es (sat_addi cpu (t_cpu_shares (e_task e))) mem (seen @ [g])
                | None \<Rightarrow> usage_loop n exclude es (sat_addi cpu (t_cpu_shares (e_task e))) mem seen)"

definition resource_usage_excluding :: "node \<Rightarrow> string option \<Rightarrow> int \<times> nat" where
  "resource_usage_excluding n exclude = usage_loop n exclude (bt_values (n_tasks n)) 0 0 []"

definition resource_usage :: "node \<Rightarrow> int \<times> nat" where
  "resource_usage n = resource_usage_excluding n None"

record capacity =
  cap_cpu_cores :: nat
  cap_memory_bytes :: nat
  cap_cpu_used_shares :: int
  cap_memory_used_bytes :: nat
  cap_tasks_running :: nat

definition node_capacity :: "node \<Rightarrow> capacity" where
  "node_capacity n =
     (case resource_usage n of (cpu_used, mem_used) \<Rightarrow>
        let running = length (filter (\<lambda>e. t_state (e_task e) = Running) (bt_values (n_tasks n)));
            c = trunc_div (effective_cpu_shares (n_settings n)) 1024;
            cores = (if 0 \<le> c \<and> c \<le> int u32_max then nat c else 0)
        in \<lparr>cap_cpu_cores = (if cores = 0 then s_cpu_cores (n_settings n) else cores),
            cap_memory_bytes = effective_memory_bytes (n_settings n),
            cap_cpu_used_shares = cpu_used, cap_memory_used_bytes = mem_used,
            cap_tasks_running = running\<rparr>)"

section \<open>Tasks that stop\<close>

definition driver_of :: "task \<Rightarrow> driver" where
  "driver_of t = (case driver_parse (t_driver t) of Some d \<Rightarrow> d | None \<Rightarrow> Exec)"

definition stop_action :: "task \<Rightarrow> action" where
  "stop_action t = ActStop (t_id t) (driver_of t) (t_pid t)"

definition remove_and_stop :: "string \<Rightarrow> node \<Rightarrow> bool \<times> node" where
  "remove_and_stop i n =
     (case forget i n of
        (Some e, n1) \<Rightarrow> (True, node_push (stop_action (e_task e)) n1)
      | (None, n1) \<Rightarrow> (False, n1))"

definition stop_task :: "string \<Rightarrow> node \<Rightarrow> bool \<times> node" where
  "stop_task i n = remove_and_stop i n"

definition ids_of_job :: "node \<Rightarrow> string \<Rightarrow> string list" where
  "ids_of_job n name = map fst (filter (\<lambda>(k, e). t_job_name (e_task e) = name) (n_tasks n))"

definition remove_each :: "string list \<Rightarrow> node \<Rightarrow> node" where
  "remove_each is n = fold (\<lambda>i n. snd (remove_and_stop i n)) is n"

definition stop_job_tasks :: "string \<Rightarrow> node \<Rightarrow> nat \<times> node" where
  "stop_job_tasks name n = (let is = ids_of_job n name in (length is, remove_each is n))"

definition node_delete_job :: "nanos \<Rightarrow> string \<Rightarrow> node \<Rightarrow> nat \<times> node" where
  "node_delete_job now name n =
     (let n1 = n\<lparr>n_jobs := bt_remove (n_jobs n) name, n_refused := bt_remove (n_refused n) name,
                 n_state_time := now\<rparr>
      in case stop_job_tasks name n1 of
           (count, n2) \<Rightarrow> (count, node_push (ActNotify name TeStop) n2))"

definition stop_all :: "node \<Rightarrow> nat \<times> node" where
  "stop_all n = (let is = bt_keys (n_tasks n) in (length is, remove_each is n))"

definition shutdown :: "node \<Rightarrow> nat \<times> node" where
  "shutdown n = stop_all (n\<lparr>n_shutting_down := True\<rparr>)"

section \<open>New tasks\<close>

definition new_task :: "nanos \<Rightarrow> job \<Rightarrow> node \<Rightarrow> task \<times> node" where
  "new_task now job n =
     (case ids_id (n_ids n) of (i, st) \<Rightarrow>
        (task_default\<lparr>t_id := i, t_job_name := j_name job,
           t_driver := driver_as_str (job_driver job), t_image := j_image job,
           t_state := Queued, t_cpu_shares := j_cpu_shares job,
           t_memory_limit := j_memory_limit job, t_started_at := now\<rparr>,
         n\<lparr>n_ids := st\<rparr>))"

definition insert_entry :: "task \<Rightarrow> bool \<Rightarrow> node \<Rightarrow> node" where
  "insert_entry t first_start n =
     n\<lparr>n_tasks := bt_insert (n_tasks n) (t_id t)
         \<lparr>e_task = t, e_check = check_default, e_restart_at = None, e_first_start = first_start,
          e_starting = False\<rparr>\<rparr>"

section \<open>Start and restart\<close>

text \<open>The restart count that decides whether a task may start another round.\<close>

definition count_of :: "string \<Rightarrow> node \<Rightarrow> int" where
  "count_of i n = (case bt_get (n_tasks n) i of Some e \<Rightarrow> t_restart_count (e_task e) | None \<Rightarrow> 1)"

text \<open>The budget of a failed task: only real uptime clears its count.\<close>

definition record_failure :: "nanos \<Rightarrow> nanos \<Rightarrow> bool \<Rightarrow> task \<Rightarrow> task" where
  "record_failure now window was_up t =
     (let t = (if was_up \<and> \<not> time_is_zero (t_started_at t) \<and> time_since now (t_started_at t) > window
               then t\<lparr>t_restart_count := 0\<rparr> else t)
      in t\<lparr>t_last_failed_at := now\<rparr>)"

lemma resolve_upd_entry [simp]: "resolve_job_for_run (upd_entry i f n) = resolve_job_for_run n"
  by (simp add: fun_eq_iff resolve_job_for_run_def resolve_artifact_def matches_affinity_def
      upd_entry_def)

text \<open>How many rounds are left, five calls to a round.\<close>

definition rounds :: "int \<Rightarrow> nat" where
  "rounds c = 5 * nat (1 - c)"

definition fire_rank :: "int \<Rightarrow> nat" where
  "fire_rank c = max 5 (rounds c)"

definition up_rounds :: "bool \<Rightarrow> int \<Rightarrow> nat" where
  "up_rounds was_up c = (if was_up then max 5 (rounds c) else rounds c)"

lemma count_record_failure:
  "t_restart_count (record_failure now window was_up t) =
     (if was_up \<and> \<not> time_is_zero (t_started_at t) \<and> time_since now (t_started_at t) > window
      then 0 else t_restart_count t)"
  by (simp add: record_failure_def Let_def)

lemma count_of_upd [simp]:
  "count_of i (upd_entry i f n) =
     (case bt_get (n_tasks n) i of Some e \<Rightarrow> t_restart_count (e_task (f e)) | None \<Rightarrow> 1)"
  by (simp add: count_of_def upd_entry_def split: option.splits)

lemma count_of_push [simp]: "count_of i (node_push a n) = count_of i n"
  by (simp add: count_of_def node_push_def)

lemma count_of_ids [simp]: "count_of i (n\<lparr>n_ids := st\<rparr>) = count_of i n"
  by (simp add: count_of_def)

lemma count_of_insert [simp]: "count_of (t_id t) (insert_entry t b n) = t_restart_count t"
  by (simp add: count_of_def insert_entry_def)

lemma rounds_suc: "rounds (sat_addi c 1) + 4 < fire_rank c"
  by (auto simp: rounds_def fire_rank_def sat_defs)

lemma tasks_upd_entry [simp]: "n_tasks (upd_entry i f n) = bt_adjust (n_tasks n) i f"
  by (simp add: upd_entry_def)

lemma tasks_node_push [simp]: "n_tasks (node_push a n) = n_tasks n"
  by (simp add: node_push_def)

function (sequential)
      begin_start :: "nanos \<Rightarrow> string \<Rightarrow> node \<Rightarrow> node"
  and start_failed :: "nanos \<Rightarrow> string \<Rightarrow> node \<Rightarrow> node"
  and schedule_restart :: "nanos \<Rightarrow> string \<Rightarrow> bool \<Rightarrow> node \<Rightarrow> node"
  and restart_decide :: "nanos \<Rightarrow> string \<Rightarrow> bool \<Rightarrow> node \<Rightarrow> node"
  and restart_fire :: "nanos \<Rightarrow> string \<Rightarrow> node \<Rightarrow> node"
where
  "begin_start now i n =
     (case bt_get (n_tasks n) i of
        None \<Rightarrow> n
      | Some e \<Rightarrow>
          (case (case bt_get (n_jobs n) (t_job_name (e_task e)) of
                   Some job \<Rightarrow> resolve_job_for_run n job
                 | None \<Rightarrow> Inl NeNotFound) of
             Inr job \<Rightarrow> node_push (ActStart i job) (upd_entry i (\<lambda>e. e\<lparr>e_starting := True\<rparr>) n)
           | Inl _ \<Rightarrow> start_failed now i n))"
| "start_failed now i n =
     (case bt_get (n_tasks n) i of
        None \<Rightarrow> n
      | Some e \<Rightarrow>
          let n1 = upd_task i (\<lambda>t. t\<lparr>t_state := Failed\<rparr>) n;
              n2 = (if e_first_start e then node_push (ActNotify (t_job_name (e_task e)) TeCrash) n1
                    else n1)
          in schedule_restart now i False n2)"
| "schedule_restart now i was_up n =
     restart_decide now i was_up
       (case bt_get (n_tasks n) i of Some e \<Rightarrow> node_push (stop_action (e_task e)) n | None \<Rightarrow> n)"
| "restart_decide now i was_up n =
     (case bt_get (n_tasks n) i of
        None \<Rightarrow> n
      | Some e \<Rightarrow>
          (case bt_get (n_jobs n) (t_job_name (e_task e)) of
             None \<Rightarrow> snd (forget i n)
           | Some job \<Rightarrow>
               let mx = (case j_max_restarts job of Some m \<Rightarrow> m | None \<Rightarrow> DEFAULT_MAX_RESTARTS);
                   window = (if j_restart_window job > 0 then j_restart_window job
                             else DEFAULT_RESTART_WINDOW);
                   (rand, st) = next_u64 (n_ids n);
                   t = record_failure now window was_up (e_task e);
                   count = t_restart_count t;
                   n1 = upd_task i (record_failure now window was_up) (n\<lparr>n_ids := st\<rparr>)
               in if mx \<ge> 0 \<and> count \<ge> mx
                  then upd_entry i (\<lambda>e. e\<lparr>e_task := (e_task e)\<lparr>t_state := Failed\<rparr>,
                                          e_restart_at := None\<rparr>) n1
                  else if count > 0
                  then let at = sat_add64 now (restart_delay count (unat rand))
                       in upd_entry i (\<lambda>e. e\<lparr>e_task := (e_task e)\<lparr>t_next_restart_at := at\<rparr>,
                                              e_restart_at := Some at\<rparr>) n1
                  else restart_fire now i n1))"
| "restart_fire now i n =
     (if n_shutting_down n then n
      else case bt_get (n_tasks n) i of
             None \<Rightarrow> n
           | Some old \<Rightarrow>
               (case bt_get (n_jobs n) (t_job_name (e_task old)) of
                  None \<Rightarrow> snd (forget i n)
                | Some job \<Rightarrow>
                    (case resolve_job_for_run n job of
                       Inl _ \<Rightarrow> upd_task i (\<lambda>t. t\<lparr>t_state := Failed\<rparr>) n
                     | Inr _ \<Rightarrow>
                         (case new_task now job n of
                            (t, n1) \<Rightarrow>
                              let t1 = t\<lparr>t_restart_count := sat_addi (t_restart_count (e_task old)) 1,
                                         t_last_failed_at := t_last_failed_at (e_task old)\<rparr>
                              in begin_start now (t_id t1)
                                   (insert_entry t1 False (snd (forget i n1)))))))"
  by pat_completeness auto
termination
proof (relation "measure (\<lambda>x. case x of
      Inl (Inl (now, i, n)) \<Rightarrow> rounds (count_of i n) + 4
    | Inl (Inr (now, i, n)) \<Rightarrow> rounds (count_of i n) + 3
    | Inr (Inl (now, i, was_up, n)) \<Rightarrow> up_rounds was_up (count_of i n) + 2
    | Inr (Inr (Inl (now, i, was_up, n))) \<Rightarrow> up_rounds was_up (count_of i n) + 1
    | Inr (Inr (Inr (now, i, n))) \<Rightarrow> fire_rank (count_of i n))", goal_cases)
  case 1 show ?case by simp
next
  case (2 now i n e a) then show ?case by simp
next
  case (3 now i n e n1 n2) then show ?case by (simp add: up_rounds_def count_of_def)
next
  case (4 now i was_up n) then show ?case by (simp add: count_of_def split: option.splits)
next
  case 5 then show ?case
    by (auto simp: up_rounds_def fire_rank_def rounds_def count_of_def count_record_failure
        split: if_splits)
next
  case 6 then show ?case using rounds_suc by (simp add: count_of_def insert_entry_def)
qed

declare begin_start.simps [simp del] start_failed.simps [simp del] schedule_restart.simps [simp del]
  restart_decide.simps [simp del] restart_fire.simps [simp del]

section \<open>Admission\<close>

definition round_for_hopos :: "job \<Rightarrow> job" where
  "round_for_hopos job =
     (let cores = trunc_div (sat_addi (j_cpu_shares job) 1023) 1024;
          job1 = job\<lparr>j_cpu_shares := sat_muli (max cores 1) 1024\<rparr>
      in if j_memory_limit job > 0
         then job1\<lparr>j_memory_limit :=
                sat_add64 (j_memory_limit job) (HOP_BLOCK_BYTES - 1) div HOP_BLOCK_BYTES
                  * HOP_BLOCK_BYTES\<rparr>
         else job1)"

definition admit :: "node \<Rightarrow> job \<Rightarrow> bool \<Rightarrow> nat option \<Rightarrow> string + unit" where
  "admit n job replace pool_largest =
     (case resource_usage_excluding n (if replace then Some (j_name job) else None) of
        (used_cpu, used_mem) \<Rightarrow>
          let grp = job_group job;
              new_cpu = (if (case grp of Some g \<Rightarrow> sharegroup_running n g | None \<Rightarrow> False) then 0
                         else j_cpu_shares job);
              cpu_full = (j_cpu_shares job > 0
                \<and> sat_addi used_cpu new_cpu > effective_cpu_shares (n_settings n));
              falls_back = (grp = None \<and> j_cpu_shares job \<le> 1024
                \<and> \<not> hmap_contains_key (j_tags job) ''core-class'' \<and> free_group n SYSTEM_GROUP);
              mem_cap = effective_memory_bytes (n_settings n)
          in if cpu_full \<and> \<not> (case grp of Some g \<Rightarrow> free_group n g | None \<Rightarrow> False) \<and> \<not> falls_back
             then Inl ''cpu''
             else if j_memory_limit job > 0 \<and> sat_add64 used_mem (j_memory_limit job) > mem_cap
             then Inl ''memory''
             else if j_memory_limit job > 0 \<and> \<not> replace \<and> j_driver job = Some Hop
                  \<and> (case pool_largest of Some l \<Rightarrow> l > 0 \<and> j_memory_limit job > l | None \<Rightarrow> False)
             then Inl ''partition''
             else Inr ())"

definition refuse :: "string \<Rightarrow> string \<Rightarrow> node \<Rightarrow> node" where
  "refuse job why n =
     (if bt_contains (n_refused n) job then n
      else let n1 = (if length (n_refused n) < NODE_MAX_JOBS
                     then n\<lparr>n_refused := bt_insert (n_refused n) job ()\<rparr> else n)
           in node_push (ActRefused job why) n1)"

definition keep_rollout_flag :: "node \<Rightarrow> job \<Rightarrow> job" where
  "keep_rollout_flag n job =
     job\<lparr>j_deploying := (case bt_get (n_jobs n) (j_name job) of
                           Some cur \<Rightarrow> j_deploying cur | None \<Rightarrow> False)\<rparr>"

text \<open>The job as the node keeps it: with a driver, and rounded to what HopOS hands out.\<close>

definition prepare_job :: "job \<Rightarrow> job" where
  "prepare_job job =
     (let job1 = (if j_driver job = None then job\<lparr>j_driver := Some (driver_for_image (j_image job))\<rparr>
                  else job)
      in if j_driver job1 = Some Hop then round_for_hopos job1 else job1)"

definition node_run :: "nanos \<Rightarrow> job \<Rightarrow> bool \<Rightarrow> nat option \<Rightarrow> node \<Rightarrow> (node_error + string) \<times> node" where
  "node_run now job replace pool_largest n =
     (if \<not> matches_affinity n (j_affinity job) then (Inl NeAffinityMismatch, n)
      else
        let job = prepare_job job
        in if length (n_tasks n) \<ge> MAX_TASKS then (Inl NeTooManyTasks, n)
           else if \<not> bt_contains (n_jobs n) (j_name job) \<and> length (n_jobs n) \<ge> NODE_MAX_JOBS
           then (Inl NeTooManyJobs, n)
           else case admit n job replace pool_largest of
                  Inl why \<Rightarrow> (Inl NeNoCapacity, refuse (j_name job) why n)
                | Inr _ \<Rightarrow>
                    let n1 = n\<lparr>n_refused := bt_remove (n_refused n) (j_name job)\<rparr>
                    in case new_task now job n1 of
                         (t, n2) \<Rightarrow>
                           let n3 = (if replace then remove_each (ids_of_job n2 (j_name job)) n2 else n2);
                               job1 = keep_rollout_flag n3 job;
                               n4 = n3\<lparr>n_jobs := bt_insert (n_jobs n3) (j_name job1) job1\<rparr>;
                               n5 = insert_entry t True n4
                           in (Inr (t_id t), begin_start now (t_id t) n5))"

section \<open>What the runner reports\<close>

definition on_progress :: "string \<Rightarrow> nat \<Rightarrow> nat \<Rightarrow> node \<Rightarrow> node" where
  "on_progress i downloaded amount n =
     (case bt_get (n_tasks n) i of
        Some e \<Rightarrow>
          if t_state (e_task e) = Queued \<or> t_state (e_task e) = Downloading
          then upd_task i (\<lambda>t. t\<lparr>t_state := Downloading, t_downloaded := downloaded,
                                t_image_size := amount\<rparr>) n
          else n
      | None \<Rightarrow> n)"

definition node_started :: "nanos \<Rightarrow> string \<Rightarrow> driver \<Rightarrow> start_ok \<Rightarrow> node \<Rightarrow> node" where
  "node_started now i driver s n =
     (case bt_get (n_tasks n) i of
        Some e \<Rightarrow>
          if t_state (e_task e) \<noteq> Stopping \<and> bt_contains (n_jobs n) (t_job_name (e_task e))
          then let n1 = upd_task i (\<lambda>t. t\<lparr>t_state := Running, t_pid := so_pid s, t_ports := so_ports s,
                                     t_started_at := now, t_next_restart_at := time_ZERO\<rparr>) n;
                   name = t_job_name (e_task e);
                   has_check = (case bt_get (n_jobs n1) name of
                                  Some j \<Rightarrow> j_health_check j \<noteq> None | None \<Rightarrow> False)
               in node_push (ActNotify name (if has_check then TeStart else TeStarted)) n1
          else node_push (ActStop i driver (so_pid s)) (snd (forget i n))
      | None \<Rightarrow> node_push (ActStop i driver (so_pid s)) (snd (forget i n)))"

definition release_unplaceable :: "string \<Rightarrow> node \<Rightarrow> node" where
  "release_unplaceable i n =
     (case forget i n of
        (Some e, n1) \<Rightarrow> node_push (ActNotify (t_job_name (e_task e)) TeUnplaceable) n1
      | (None, n1) \<Rightarrow> n1)"

definition on_started :: "nanos \<Rightarrow> string \<Rightarrow> driver \<Rightarrow> start_error + start_ok \<Rightarrow> node \<Rightarrow> node" where
  "on_started now i driver result n =
     (let n1 = upd_entry i (\<lambda>e. e\<lparr>e_starting := False\<rparr>) n
      in case result of
           Inl SeNoCapacity \<Rightarrow> release_unplaceable i n1
         | Inl SeFailed \<Rightarrow> start_failed now i n1
         | Inr s \<Rightarrow> node_started now i driver s n1)"

section \<open>Monitor and health\<close>

definition monitor :: "node \<Rightarrow> node" where
  "monitor n =
     fold node_push
       (map (\<lambda>e. ActPoll (t_id (e_task e)) (driver_of (e_task e)) (t_pid (e_task e)))
          (filter (\<lambda>e. t_state (e_task e) = Running) (bt_values (n_tasks n)))) n"

definition on_probe :: "nanos \<Rightarrow> string \<Rightarrow> outcome \<Rightarrow> node \<Rightarrow> node" where
  "on_probe now i outcome n =
     (case bt_get (n_tasks n) i of
        None \<Rightarrow> n
      | Some e \<Rightarrow>
          if t_state (e_task e) \<noteq> Running then n
          else
            let name = t_job_name (e_task e);
                threshold = (case bt_get (n_jobs n) name of
                               Some j \<Rightarrow> (case j_health_check j of
                                           Some hc \<Rightarrow> hc_failure_threshold hc | None \<Rightarrow> 0)
                             | None \<Rightarrow> 0);
                healthy = is_healthy outcome (e_check e)
            in case check_apply (e_check e) healthy now threshold of
                 (v, ck) \<Rightarrow>
                   let n1 = upd_entry i (\<lambda>e. e\<lparr>e_check := ck\<rparr>) n
                   in (case v of
                         VUnhealthy \<Rightarrow>
                           schedule_restart now i True
                             (node_push (ActNotify name TeCrash)
                               (upd_entry i (\<lambda>e. e\<lparr>e_task := (e_task e)\<lparr>t_state := Failed\<rparr>,
                                                  e_check := check_default\<rparr>) n1))
                       | VHealthy passed \<Rightarrow>
                           if passed \<and> \<not> ck_notified_healthy ck
                           then node_push (ActNotify name TeStarted)
                                  (upd_entry i (\<lambda>e. e\<lparr>e_check := (e_check e)\<lparr>ck_notified_healthy := True\<rparr>\<rparr>) n1)
                           else n1))"

definition maybe_probe :: "nanos \<Rightarrow> string \<Rightarrow> node \<Rightarrow> node" where
  "maybe_probe now i n =
     (case bt_get (n_tasks n) i of
        None \<Rightarrow> n
      | Some e \<Rightarrow>
          (case (case bt_get (n_jobs n) (t_job_name (e_task e)) of
                   Some j \<Rightarrow> j_health_check j | None \<Rightarrow> None) of
             None \<Rightarrow> n
           | Some hc \<Rightarrow>
               if hc_initial_timeout hc > 0
                  \<and> time_since now (t_started_at (e_task e)) < hc_initial_timeout hc then n
               else case probe_for (e_task e) hc (health_timeout (n_settings n)) of
                      Some p \<Rightarrow> node_push (ActProbe i p) n
                    | None \<Rightarrow> on_probe now i (OutTcp False) n))"

definition on_status :: "nanos \<Rightarrow> string \<Rightarrow> run_status \<Rightarrow> node \<Rightarrow> node" where
  "on_status now i status n =
     (case bt_get (n_tasks n) i of
        None \<Rightarrow> n
      | Some e \<Rightarrow>
          if t_state (e_task e) \<noteq> Running then n
          else (case status of
                  RsFailed \<Rightarrow>
                    schedule_restart now i True
                      (node_push (ActNotify (t_job_name (e_task e)) TeCrash)
                        (upd_entry i (\<lambda>e. e\<lparr>e_task := (e_task e)\<lparr>t_state := Stopping\<rparr>,
                                           e_check := check_default\<rparr>) n))
                | RsRunning \<Rightarrow> maybe_probe now i n))"

definition record_usage :: "string \<Rightarrow> f64 \<Rightarrow> f64 \<Rightarrow> nat \<Rightarrow> nat option \<Rightarrow> node \<Rightarrow> node" where
  "record_usage i cpu mem cores core n =
     upd_task i (\<lambda>t.
       let t = t\<lparr>t_cpu_percent := cpu, t_mem_percent := mem\<rparr>;
           t = (if cores \<noteq> 0 then t\<lparr>t_cores := cores\<rparr> else t)
       in if core \<noteq> None then t\<lparr>t_core := core\<rparr> else t) n"

text \<open>\<^verbatim>\<open>tick\<close> without the handing over of the actions, then with it.\<close>

definition due_restarts :: "nanos \<Rightarrow> node \<Rightarrow> string list" where
  "due_restarts now n =
     map fst (filter (\<lambda>(_, e). case e_restart_at e of Some t \<Rightarrow> t \<le> now | None \<Rightarrow> False) (n_tasks n))"

definition fire_due :: "nanos \<Rightarrow> string \<Rightarrow> node \<Rightarrow> node" where
  "fire_due now i n = restart_fire now i (upd_entry i (\<lambda>e. e\<lparr>e_restart_at := None\<rparr>) n)"

definition node_tick :: "nanos \<Rightarrow> node \<Rightarrow> action list \<times> node" where
  "node_tick now n =
     (let n1 = fold (fire_due now) (due_restarts now n) n;
          n2 = (if now \<ge> n_next_monitor n1
                then monitor (n1\<lparr>n_next_monitor := sat_add64 now (monitor_interval (n_settings n1))\<rparr>)
                else n1)
      in take_actions n2)"

section \<open>The job store of the node\<close>

definition placed_task_counts :: "node \<Rightarrow> nat btree" where
  "placed_task_counts n =
     fold (\<lambda>e counts.
        let name = t_job_name (e_task e)
        in if name = [] then counts
           else bt_insert counts name ((case bt_get counts name of Some c \<Rightarrow> c | None \<Rightarrow> 0) + 1))
       (bt_values (n_tasks n)) []"

definition store_job :: "nanos \<Rightarrow> job \<Rightarrow> node \<Rightarrow> (node_error + unit) \<times> node" where
  "store_job now job n =
     (if \<not> bt_contains (n_jobs n) (j_name job) \<and> length (n_jobs n) \<ge> NODE_MAX_JOBS
      then (Inl NeTooManyJobs, n)
      else (Inr (), n\<lparr>n_jobs := bt_insert (n_jobs n) (j_name job) job, n_state_time := now\<rparr>))"

definition node_update_job :: "nanos \<Rightarrow> job \<Rightarrow> node \<Rightarrow> bool \<times> node" where
  "node_update_job now job n =
     (case bt_get (n_jobs n) (j_name job) of
        Some _ \<Rightarrow> (True, n\<lparr>n_jobs := bt_adjust (n_jobs n) (j_name job) (\<lambda>_. job), n_state_time := now\<rparr>)
      | None \<Rightarrow> (False, n))"

definition set_job_priority :: "nanos \<Rightarrow> string \<Rightarrow> int \<Rightarrow> node \<Rightarrow> bool \<times> node" where
  "set_job_priority now name p n =
     (case bt_get (n_jobs n) name of
        Some _ \<Rightarrow> (True, n\<lparr>n_jobs := bt_adjust (n_jobs n) name (\<lambda>j. j\<lparr>j_priority := Some p\<rparr>),
                          n_state_time := now\<rparr>)
      | None \<Rightarrow> (False, n))"

definition set_job_deploying :: "nanos \<Rightarrow> string \<Rightarrow> bool \<Rightarrow> node \<Rightarrow> bool \<times> node" where
  "set_job_deploying now name d n =
     (case bt_get (n_jobs n) name of
        Some _ \<Rightarrow> (True, n\<lparr>n_jobs := bt_adjust (n_jobs n) name (\<lambda>j. j\<lparr>j_deploying := d\<rparr>),
                          n_state_time := now\<rparr>)
      | None \<Rightarrow> (False, n))"

definition delete_job_definition :: "nanos \<Rightarrow> string \<Rightarrow> node \<Rightarrow> node" where
  "delete_job_definition now name n =
     n\<lparr>n_jobs := bt_remove (n_jobs n) name, n_refused := bt_remove (n_refused n) name,
       n_state_time := now\<rparr>"

fun sync_loop :: "job list \<Rightarrow> node \<Rightarrow> (node_error + unit) \<times> node" where
  "sync_loop [] n = (Inr (), n)"
| "sync_loop (job # jobs) n =
     (if \<not> bt_contains (n_jobs n) (j_name job) \<and> length (n_jobs n) \<ge> NODE_MAX_JOBS
      then (Inl NeTooManyJobs, n)
      else sync_loop jobs (n\<lparr>n_jobs := bt_insert (n_jobs n) (j_name job) job\<rparr>))"

definition sync_jobs :: "job list \<Rightarrow> time \<Rightarrow> node \<Rightarrow> (node_error + unit) \<times> node" where
  "sync_jobs jobs updated n =
     (case sync_loop jobs n of
        (Inl e, n1) \<Rightarrow> (Inl e, n1)
      | (Inr _, n1) \<Rightarrow> (Inr (), n1\<lparr>n_state_time := updated\<rparr>))"

fun restore_jobs :: "job list \<Rightarrow> node \<Rightarrow> node" where
  "restore_jobs [] n = n"
| "restore_jobs (j # js) n =
     (if \<not> bt_contains (n_jobs n) (j_name j) \<and> length (n_jobs n) \<ge> NODE_MAX_JOBS then n
      else restore_jobs js (n\<lparr>n_jobs := bt_insert (n_jobs n) (j_name j) j\<rparr>))"

fun restore_tasks :: "task list \<Rightarrow> node \<Rightarrow> node" where
  "restore_tasks [] n = n"
| "restore_tasks (t # ts) n =
     (if length (n_tasks n) \<ge> MAX_TASKS then n else restore_tasks ts (insert_entry t False n))"

definition restore_entries :: "job list \<Rightarrow> task list \<Rightarrow> node \<Rightarrow> node" where
  "restore_entries jobs tasks n = restore_tasks tasks (restore_jobs jobs n)"

end
