(* ===== verification/Agent_Inv.thy ===== *)
theory Agent_Inv
  imports Agent_Node
begin

text \<open>
  The invariant of the node and that every operation keeps it.

  \<open>node_inv\<close>: the maps are keyed by the names and ids they hold and stay within their bounds,
  and every entry is in one phase: a task the runner is starting is not running (it is \<open>Queued\<close>
  or \<open>Downloading\<close>; \<open>Failed\<close> only if an id of 64 bits were drawn twice), a task that waits for a
  restart is \<open>Failed\<close> or \<open>Stopping\<close> and is not being started.  Under it the mutual recursion
  of start and restart unrolls to four outcomes (\<open>restart_fire_cases\<close>), which the later proofs
  use.  \<open>node_step\<close> has one rule per public method; its reachable states keep the invariant.
\<close>

section \<open>The invariant\<close>

definition entry_ok :: "entry \<Rightarrow> bool" where
  "entry_ok e \<longleftrightarrow>
     (e_restart_at e \<noteq> None \<longrightarrow> t_state (e_task e) \<in> {Failed, Stopping} \<and> \<not> e_starting e) \<and>
     (e_starting e \<longrightarrow> t_state (e_task e) \<in> {Queued, Downloading, Failed})"

definition tasks_inv :: "entry btree \<Rightarrow> bool" where
  "tasks_inv ts \<longleftrightarrow> bt_inv ts \<and> length ts \<le> MAX_TASKS \<and>
     list_all (\<lambda>(k, e). t_id (e_task e) = k \<and> entry_ok e) ts"

definition jobs_inv :: "job btree \<Rightarrow> bool" where
  "jobs_inv js \<longleftrightarrow> bt_inv js \<and> length js \<le> NODE_MAX_JOBS \<and> list_all (\<lambda>(k, j). j_name j = k) js"

definition node_inv :: "node \<Rightarrow> bool" where
  "node_inv n \<longleftrightarrow> tasks_inv (n_tasks n) \<and> jobs_inv (n_jobs n) \<and>
     bt_inv (n_refused n) \<and> length (n_refused n) \<le> NODE_MAX_JOBS"

lemma jobs_inv_get: "jobs_inv js \<Longrightarrow> bt_get js k = Some j \<Longrightarrow> j_name j = k"
  by (auto simp: jobs_inv_def list_all_iff dest!: bt_get_Some_mem)

lemma tasks_inv_get: "tasks_inv ts \<Longrightarrow> bt_get ts k = Some e \<Longrightarrow> t_id (e_task e) = k \<and> entry_ok e"
  by (auto simp: tasks_inv_def list_all_iff dest!: bt_get_Some_mem)

lemma tasks_inv_bt [simp]: "tasks_inv ts \<Longrightarrow> bt_inv ts"
  by (simp add: tasks_inv_def)

lemma jobs_inv_bt [simp]: "jobs_inv js \<Longrightarrow> bt_inv js"
  by (simp add: jobs_inv_def)

lemma node_invD:
  assumes "node_inv n"
  shows "tasks_inv (n_tasks n)" "jobs_inv (n_jobs n)" "bt_inv (n_refused n)"
    "length (n_refused n) \<le> NODE_MAX_JOBS"
  using assms by (simp_all add: node_inv_def)

lemma node_inv_get:
  assumes "node_inv n" "bt_get (n_tasks n) i = Some e"
  shows "t_id (e_task e) = i" "entry_ok e"
  using assms tasks_inv_get by (auto simp: node_inv_def)

section \<open>Maps\<close>

lemma jobs_inv_insert [inv_intros]:
  assumes "jobs_inv js" "bt_contains js (j_name j) \<or> length js < NODE_MAX_JOBS"
  shows "jobs_inv (bt_insert js (j_name j) j)"
proof -
  have "length (bt_insert js (j_name j) j) \<le> NODE_MAX_JOBS"
    using assms length_bt_insert_present [of js "j_name j" j] length_bt_insert_le [of js "j_name j" j]
    by (auto simp: jobs_inv_def)
  then show ?thesis
    using assms(1) by (auto simp: jobs_inv_def list_all_iff inv_intros dest!: subsetD [OF set_bt_insert])
qed

lemma jobs_inv_remove [inv_intros]: "jobs_inv js \<Longrightarrow> jobs_inv (bt_remove js k)"
  using length_bt_remove_le [of js k]
  by (auto simp: jobs_inv_def list_all_iff inv_intros dest!: subsetD [OF set_bt_remove])

lemma jobs_inv_adjust [inv_intros]:
  "jobs_inv js \<Longrightarrow> (\<And>j. j_name j = k \<Longrightarrow> j_name (f j) = k) \<Longrightarrow> jobs_inv (bt_adjust js k f)"
  by (fastforce simp: jobs_inv_def list_all_iff inv_intros mem_bt_adjust split: if_splits)

lemma tasks_inv_insert [inv_intros]:
  assumes "tasks_inv ts" "length ts < MAX_TASKS" "t_id (e_task e) = k" "entry_ok e"
  shows "tasks_inv (bt_insert ts k e)"
  using assms length_bt_insert_le [of ts k e]
  by (auto simp: tasks_inv_def list_all_iff inv_intros dest!: subsetD [OF set_bt_insert])

lemma tasks_inv_remove [inv_intros]: "tasks_inv ts \<Longrightarrow> tasks_inv (bt_remove ts k)"
  using length_bt_remove_le [of ts k]
  by (auto simp: tasks_inv_def list_all_iff inv_intros dest!: subsetD [OF set_bt_remove])

lemma tasks_inv_adjust [inv_intros]:
  assumes "tasks_inv ts"
    and "\<And>e. bt_get ts k = Some e \<Longrightarrow> t_id (e_task e) = k \<Longrightarrow> entry_ok e \<Longrightarrow>
           t_id (e_task (f e)) = k \<and> entry_ok (f e)"
  shows "tasks_inv (bt_adjust ts k f)"
proof -
  have new: "t_id (e_task (f e)) = k \<and> entry_ok (f e)" if "(k, e) \<in> set ts" for e
  proof -
    have "bt_get ts k = Some e" using that assms(1) by (simp add: bt_get_mem)
    then show ?thesis using assms(2) tasks_inv_get [OF assms(1)] by blast
  qed
  have "bt_inv (bt_adjust ts k f)" using assms(1) by (simp add: inv_intros)
  moreover have "t_id (e_task e') = k' \<and> entry_ok e'" if "(k', e') \<in> set (bt_adjust ts k f)" for k' e'
    using that new assms(1) by (auto simp: mem_bt_adjust tasks_inv_def list_all_iff)
  ultimately show ?thesis using assms(1) by (auto simp: tasks_inv_def list_all_iff)
qed

lemma bt_adjust_insert:
  "bt_inv m \<Longrightarrow> bt_adjust (bt_insert m k v) k f = bt_insert m k (f v)"
  by (rule bt_ext) (auto simp: inv_intros)

section \<open>What an operation leaves alone\<close>

lemma upd_entry_fields [simp]:
  "n_settings (upd_entry i f n) = n_settings n" "n_jobs (upd_entry i f n) = n_jobs n"
  "n_ids (upd_entry i f n) = n_ids n" "n_out (upd_entry i f n) = n_out n"
  "n_refused (upd_entry i f n) = n_refused n" "n_shutting_down (upd_entry i f n) = n_shutting_down n"
  by (simp_all add: upd_entry_def)

lemma node_push_fields [simp]:
  "n_settings (node_push a n) = n_settings n" "n_jobs (node_push a n) = n_jobs n"
  "n_ids (node_push a n) = n_ids n" "n_out (node_push a n) = n_out n @ [a]"
  "n_refused (node_push a n) = n_refused n" "n_shutting_down (node_push a n) = n_shutting_down n"
  by (simp_all add: node_push_def)

lemma forget_fields [simp]:
  "fst (forget i n) = bt_get (n_tasks n) i" "n_tasks (snd (forget i n)) = bt_remove (n_tasks n) i"
  "n_settings (snd (forget i n)) = n_settings n" "n_jobs (snd (forget i n)) = n_jobs n"
  "n_ids (snd (forget i n)) = n_ids n" "n_out (snd (forget i n)) = n_out n"
  "n_refused (snd (forget i n)) = n_refused n" "n_shutting_down (snd (forget i n)) = n_shutting_down n"
  by (simp_all add: forget_def)

lemma resolve_same: "n_settings n = n_settings m \<Longrightarrow> resolve_job_for_run n = resolve_job_for_run m"
  by (simp add: fun_eq_iff resolve_job_for_run_def resolve_artifact_def matches_affinity_def)

section \<open>Start and restart unrolled\<close>

text \<open>The task a restart puts in the place of \<open>old\<close>, and the state with it.\<close>

definition fresh_task :: "nanos \<Rightarrow> job \<Rightarrow> ids \<Rightarrow> task" where
  "fresh_task now job st = task_default\<lparr>t_id := fst (ids_id st), t_job_name := j_name job,
     t_driver := driver_as_str (job_driver job), t_image := j_image job,
     t_state := Queued, t_cpu_shares := j_cpu_shares job,
     t_memory_limit := j_memory_limit job, t_started_at := now\<rparr>"

definition replaced :: "nanos \<Rightarrow> string \<Rightarrow> task \<Rightarrow> job \<Rightarrow> job \<Rightarrow> node \<Rightarrow> node" where
  "replaced now i old job job' n =
     (let t = (fresh_task now job (n_ids n))\<lparr>t_restart_count := sat_addi (t_restart_count old) 1,
                t_last_failed_at := t_last_failed_at old\<rparr>
      in n\<lparr>n_ids := snd (ids_id (n_ids n)),
           n_tasks := bt_insert (bt_remove (n_tasks n) i) (t_id t)
             \<lparr>e_task = t, e_check = check_default, e_restart_at = None, e_first_start = False,
              e_starting = True\<rparr>,
           n_out := n_out n @ [ActStart (t_id t) job']\<rparr>)"

lemma new_task_eq: "new_task now job n = (fresh_task now job (n_ids n), n\<lparr>n_ids := snd (ids_id (n_ids n))\<rparr>)"
  by (simp add: new_task_def fresh_task_def split: prod.splits)

lemma fresh_task_fields [simp]:
  "t_id (fresh_task now job st) = fst (ids_id st)" "t_job_name (fresh_task now job st) = j_name job"
  "t_state (fresh_task now job st) = Queued" "t_restart_count (fresh_task now job st) = 0"
  "t_memory_limit (fresh_task now job st) = j_memory_limit job"
  "t_cpu_shares (fresh_task now job st) = j_cpu_shares job"
  "t_core (fresh_task now job st) = None"
  by (simp_all add: fresh_task_def task_default_def)

lemma restart_fire_eq:
  assumes "node_inv n"
  shows "restart_fire now i n =
     (if n_shutting_down n then n
      else case bt_get (n_tasks n) i of
             None \<Rightarrow> n
           | Some old \<Rightarrow>
               (case bt_get (n_jobs n) (t_job_name (e_task old)) of
                  None \<Rightarrow> snd (forget i n)
                | Some job \<Rightarrow>
                    (case resolve_job_for_run n job of
                       Inl _ \<Rightarrow> upd_task i (\<lambda>t. t\<lparr>t_state := Failed\<rparr>) n
                     | Inr job' \<Rightarrow> replaced now i (e_task old) job job' n)))"
proof (cases "bt_get (n_tasks n) i")
  case None
  then show ?thesis by (simp add: restart_fire.simps)
next
  case (Some old)
  show ?thesis
  proof (cases "bt_get (n_jobs n) (t_job_name (e_task old))")
    case None
    then show ?thesis using Some by (simp add: restart_fire.simps)
  next
    case job: (Some job)
    have inv: "bt_inv (bt_remove (n_tasks n) i)"
      using node_invD(1) [OF assms] by (simp add: inv_intros)
    have name: "j_name job = t_job_name (e_task old)"
      using jobs_inv_get [OF node_invD(2) [OF assms] job] .
    show ?thesis
    proof (cases "resolve_job_for_run n job")
      case (Inl e)
      then show ?thesis using Some job by (simp add: restart_fire.simps)
    next
      case (Inr job')
      have "resolve_job_for_run (n\<lparr>n_ids := st, n_tasks := ts\<rparr>) = resolve_job_for_run n" for st ts
        by (rule resolve_same) simp
      then show ?thesis
        using Some job Inr inv name
        by (simp add: restart_fire.simps begin_start.simps new_task_eq insert_entry_def forget_def
            Let_def replaced_def node_push_def upd_entry_def bt_adjust_insert)
    qed
  qed
qed

section \<open>Every operation keeps the invariant\<close>

lemma node_inv_cong:
  "n_tasks n = n_tasks m \<Longrightarrow> n_jobs n = n_jobs m \<Longrightarrow> n_refused n = n_refused m \<Longrightarrow>
   node_inv n \<longleftrightarrow> node_inv m"
  by (simp add: node_inv_def)

lemma node_inv_tasks [intro]: "node_inv n \<Longrightarrow> tasks_inv ts \<Longrightarrow> node_inv (n\<lparr>n_tasks := ts\<rparr>)"
  by (simp add: node_inv_def)

lemma node_inv_jobs [intro]: "node_inv n \<Longrightarrow> jobs_inv js \<Longrightarrow> node_inv (n\<lparr>n_jobs := js\<rparr>)"
  by (simp add: node_inv_def)

lemma node_inv_refused [intro]:
  "node_inv n \<Longrightarrow> bt_inv rs \<Longrightarrow> length rs \<le> NODE_MAX_JOBS \<Longrightarrow> node_inv (n\<lparr>n_refused := rs\<rparr>)"
  by (simp add: node_inv_def)

lemma node_inv_other [simp]:
  "node_inv (n\<lparr>n_ids := st\<rparr>) \<longleftrightarrow> node_inv n" "node_inv (n\<lparr>n_out := out\<rparr>) \<longleftrightarrow> node_inv n"
  "node_inv (n\<lparr>n_state_time := t\<rparr>) \<longleftrightarrow> node_inv n" "node_inv (n\<lparr>n_next_monitor := t\<rparr>) \<longleftrightarrow> node_inv n"
  "node_inv (n\<lparr>n_shutting_down := b\<rparr>) \<longleftrightarrow> node_inv n" "node_inv (n\<lparr>n_settings := s\<rparr>) \<longleftrightarrow> node_inv n"
  "node_inv (n\<lparr>n_leader_addr := a\<rparr>) \<longleftrightarrow> node_inv n"
  "node_inv (n\<lparr>n_lease_expires_at := t\<rparr>) \<longleftrightarrow> node_inv n"
  by (simp_all add: node_inv_def)

lemma node_inv_push [simp]: "node_inv (node_push a n) \<longleftrightarrow> node_inv n"
  by (simp add: node_push_def)

lemma node_inv_forget [inv_intros]: "node_inv n \<Longrightarrow> node_inv (snd (forget i n))"
  by (simp add: forget_def node_inv_tasks inv_intros node_invD)

lemma node_inv_upd [inv_intros]:
  assumes "node_inv n"
    and "\<And>e. bt_get (n_tasks n) i = Some e \<Longrightarrow> entry_ok e \<Longrightarrow>
           t_id (e_task (f e)) = t_id (e_task e) \<and> entry_ok (f e)"
  shows "node_inv (upd_entry i f n)"
  unfolding upd_entry_def using assms by (intro node_inv_tasks tasks_inv_adjust) (auto dest: node_invD)

text \<open>An entry the runner is not starting, and one that failed and may be restarted.\<close>

definition idle :: "string \<Rightarrow> node \<Rightarrow> bool" where
  "idle i n \<longleftrightarrow> (case bt_get (n_tasks n) i of Some e \<Rightarrow> \<not> e_starting e | None \<Rightarrow> True)"

definition resting :: "string \<Rightarrow> node \<Rightarrow> bool" where
  "resting i n \<longleftrightarrow>
     (case bt_get (n_tasks n) i of
        Some e \<Rightarrow> \<not> e_starting e \<and> t_state (e_task e) \<in> {Failed, Stopping} | None \<Rightarrow> True)"

lemma resting_idle: "resting i n \<Longrightarrow> idle i n"
  by (simp add: resting_def idle_def split: option.splits)

lemma node_inv_replaced:
  assumes "node_inv n" "bt_get (n_tasks n) i = Some e"
  shows "node_inv (replaced now i old job job' n)"
proof -
  have ts: "tasks_inv (n_tasks n)" using assms(1) by (rule node_invD)
  have "Suc (length (bt_remove (n_tasks n) i)) = length (n_tasks n)"
    using ts assms(2) by (intro length_bt_remove_present) (auto simp: bt_contains_def)
  then have "length (bt_remove (n_tasks n) i) < MAX_TASKS" using ts by (simp add: tasks_inv_def)
  then show ?thesis
    using assms(1) ts
    by (auto simp: replaced_def Let_def node_inv_def entry_ok_def intro!: tasks_inv_insert tasks_inv_remove)
qed

lemma node_inv_restart_fire [inv_intros]:
  assumes "node_inv n"
  shows "node_inv (restart_fire now i n)"
proof -
  have "node_inv (upd_task i (\<lambda>t. t\<lparr>t_state := Failed\<rparr>) n)"
    using assms by (intro node_inv_upd) (auto simp: entry_ok_def)
  then show ?thesis
    using assms node_inv_replaced [OF assms]
    by (auto simp: restart_fire_eq node_inv_forget split: option.splits sum.splits)
qed

lemma record_failure_fields [simp]:
  "t_id (record_failure now window up t) = t_id t" "t_state (record_failure now window up t) = t_state t"
  "t_job_name (record_failure now window up t) = t_job_name t"
  "t_memory_limit (record_failure now window up t) = t_memory_limit t"
  "t_cpu_shares (record_failure now window up t) = t_cpu_shares t"
  "t_core (record_failure now window up t) = t_core t"
  by (simp_all add: record_failure_def Let_def)

lemma upd_entry_compose: "upd_entry i f (upd_entry i g n) = upd_entry i (\<lambda>e. f (g e)) n"
  by (simp add: upd_entry_def bt_adjust_def comp_def case_prod_unfold if_distrib cong: if_cong)

definition job_window :: "job \<Rightarrow> nanos" where
  "job_window job = (if j_restart_window job > 0 then j_restart_window job else DEFAULT_RESTART_WINDOW)"

definition job_max_restarts :: "job \<Rightarrow> int" where
  "job_max_restarts job = (case j_max_restarts job of Some m \<Rightarrow> m | None \<Rightarrow> DEFAULT_MAX_RESTARTS)"

text \<open>The decision about a task whose job the node knows: give up, wait, or start again now.\<close>

lemma restart_decide_known:
  assumes "bt_get (n_tasks n) i = Some e" "bt_get (n_jobs n) (t_job_name (e_task e)) = Some job"
  shows "restart_decide now i up n =
    (let f = record_failure now (job_window job) up; count = t_restart_count (f (e_task e));
         st = snd (next_u64 (n_ids n));
         at = sat_add64 now (restart_delay count (unat (fst (next_u64 (n_ids n)))))
     in if job_max_restarts job \<ge> 0 \<and> count \<ge> job_max_restarts job
        then upd_entry i (\<lambda>e. e\<lparr>e_task := (f (e_task e))\<lparr>t_state := Failed\<rparr>, e_restart_at := None\<rparr>)
               (n\<lparr>n_ids := st\<rparr>)
        else if count > 0
        then upd_entry i (\<lambda>e. e\<lparr>e_task := (f (e_task e))\<lparr>t_next_restart_at := at\<rparr>, e_restart_at := Some at\<rparr>)
               (n\<lparr>n_ids := st\<rparr>)
        else restart_fire now i (upd_task i f (n\<lparr>n_ids := st\<rparr>)))"
  using assms
  by (simp add: restart_decide.simps [of now i up n] Let_def upd_entry_compose job_window_def
      job_max_restarts_def case_prod_unfold)

lemma node_inv_restart_decide [inv_intros]:
  assumes "node_inv n" "resting i n"
  shows "node_inv (restart_decide now i up n)"
proof (cases "bt_get (n_tasks n) i")
  case None
  then show ?thesis using assms(1) by (simp add: restart_decide.simps)
next
  case (Some e)
  show ?thesis
  proof (cases "bt_get (n_jobs n) (t_job_name (e_task e))")
    case None
    then show ?thesis using Some assms(1) by (simp add: restart_decide.simps node_inv_forget)
  next
    case job: (Some job)
    have upd: "node_inv (upd_entry i f (n\<lparr>n_ids := st\<rparr>))"
      if "t_id (e_task (f e)) = t_id (e_task e) \<and> entry_ok (f e)" for f st
      using assms that Some by (intro node_inv_upd) auto
    have rest: "\<not> e_starting e" "t_state (e_task e) \<in> {Failed, Stopping}"
      using assms(2) Some by (simp_all add: resting_def)
    show ?thesis
      unfolding restart_decide_known [OF Some job] Let_def
      using rest by (auto intro!: upd node_inv_restart_fire simp: entry_ok_def Some)
  qed
qed

lemma node_inv_schedule_restart [inv_intros]:
  "node_inv n \<Longrightarrow> resting i n \<Longrightarrow> node_inv (schedule_restart now i up n)"
  unfolding schedule_restart.simps
  by (intro node_inv_restart_decide) (auto simp: resting_def split: option.splits)

lemma node_inv_start_failed [inv_intros]:
  assumes "node_inv n" "idle i n"
  shows "node_inv (start_failed now i n)"
proof (cases "bt_get (n_tasks n) i")
  case (Some e)
  have "node_inv (upd_task i (\<lambda>t. t\<lparr>t_state := Failed\<rparr>) n)"
    using assms by (intro node_inv_upd) (auto simp: entry_ok_def idle_def)
  then show ?thesis
    using Some assms
    by (auto simp: start_failed.simps Let_def idle_def resting_def intro!: node_inv_schedule_restart)
qed (use assms in \<open>simp add: start_failed.simps\<close>)

definition fresh :: "string \<Rightarrow> node \<Rightarrow> bool" where
  "fresh i n \<longleftrightarrow>
     (case bt_get (n_tasks n) i of
        Some e \<Rightarrow> t_state (e_task e) = Queued \<and> e_restart_at e = None \<and> \<not> e_starting e | None \<Rightarrow> True)"

lemma node_inv_begin_start [inv_intros]:
  assumes "node_inv n" "fresh i n"
  shows "node_inv (begin_start now i n)"
proof (cases "bt_get (n_tasks n) i")
  case (Some e)
  then have "node_inv (upd_entry i (\<lambda>e. e\<lparr>e_starting := True\<rparr>) n)"
    using assms by (intro node_inv_upd) (auto simp: entry_ok_def fresh_def)
  moreover have "node_inv (start_failed now i n)"
    using assms by (intro node_inv_start_failed) (auto simp: fresh_def idle_def split: option.splits)
  ultimately show ?thesis using Some by (simp add: begin_start.simps split: sum.splits)
qed (use assms in \<open>simp add: begin_start.simps\<close>)

end
