(* ===== verification/Agent_System.thy ===== *)
theory Agent_System
  imports Agent_Inv
begin

text \<open>
  The node as a transition system: \<open>node_step\<close> has one rule for every public method that
  changes the state.  The only thing asked of the executor is that it reports the outcome of a
  start once: \<open>on_started\<close> is called for a task that is being started, or that is gone.
\<close>

section \<open>The remaining operations keep the invariant\<close>

lemma node_inv_remove_each [inv_intros]: "node_inv n \<Longrightarrow> node_inv (remove_each is n)"
  unfolding remove_each_def
  by (induction "is" arbitrary: n)
    (auto simp: remove_and_stop_def forget_def node_inv_def inv_intros split: option.splits)

lemma node_inv_remove_and_stop [inv_intros]: "node_inv n \<Longrightarrow> node_inv (snd (remove_and_stop i n))"
  using node_inv_remove_each [of n "[i]"] by (simp add: remove_each_def)

lemma remove_each_fields [simp]:
  "n_settings (remove_each is n) = n_settings n" "n_jobs (remove_each is n) = n_jobs n"
  "n_ids (remove_each is n) = n_ids n" "n_refused (remove_each is n) = n_refused n"
  "n_shutting_down (remove_each is n) = n_shutting_down n"
  "n_tasks (remove_each is n) = filter (\<lambda>p. fst p \<notin> set is) (n_tasks n)"
  unfolding remove_each_def
  by (induction "is" arbitrary: n)
    (auto simp: remove_and_stop_def forget_def bt_remove_def node_push_def filter_filter conj_commute
      split: option.splits intro!: filter_cong)

lemma node_inv_refuse [inv_intros]: "node_inv n \<Longrightarrow> node_inv (refuse job why n)"
  unfolding refuse_def Let_def
  using length_bt_insert_le [of "n_refused n" job "()"]
  by (auto simp: inv_intros intro!: node_inv_refused dest: node_invD)

lemma fresh_insert_entry: "t_state t = Queued \<Longrightarrow> fresh (t_id t) (insert_entry t b n)"
  by (simp add: fresh_def insert_entry_def)

lemma node_inv_insert_entry [inv_intros]:
  "node_inv n \<Longrightarrow> length (n_tasks n) < MAX_TASKS \<Longrightarrow> node_inv (insert_entry t b n)"
  unfolding insert_entry_def
  by (intro node_inv_tasks tasks_inv_insert) (auto simp: entry_ok_def dest: node_invD)

lemma prepare_job_name [simp]: "j_name (prepare_job job) = j_name job"
  by (simp add: prepare_job_def round_for_hopos_def Let_def)

text \<open>The state of an admitted job, just before its start is sent to the runner.\<close>

definition before_start :: "nanos \<Rightarrow> job \<Rightarrow> bool \<Rightarrow> node \<Rightarrow> node" where
  "before_start now job replace n =
     (let n2 = n\<lparr>n_refused := bt_remove (n_refused n) (j_name job), n_ids := snd (ids_id (n_ids n))\<rparr>;
          n3 = (if replace then remove_each (ids_of_job n (j_name job)) n2 else n2)
      in insert_entry (fresh_task now job (n_ids n)) True
           (n3\<lparr>n_jobs := bt_insert (n_jobs n) (j_name job) (keep_rollout_flag n job)\<rparr>))"

lemma keep_rollout_flag_name [simp]: "j_name (keep_rollout_flag n job) = j_name job"
  by (simp add: keep_rollout_flag_def)

lemma node_run_eq:
  "node_run now job replace pool n =
     (if \<not> matches_affinity n (j_affinity job) then (Inl NeAffinityMismatch, n)
      else if length (n_tasks n) \<ge> MAX_TASKS then (Inl NeTooManyTasks, n)
      else if \<not> bt_contains (n_jobs n) (j_name job) \<and> length (n_jobs n) \<ge> NODE_MAX_JOBS
      then (Inl NeTooManyJobs, n)
      else case admit n (prepare_job job) replace pool of
             Inl why \<Rightarrow> (Inl NeNoCapacity, refuse (j_name job) why n)
           | Inr _ \<Rightarrow>
               (Inr (fst (ids_id (n_ids n))),
                begin_start now (fst (ids_id (n_ids n))) (before_start now (prepare_job job) replace n)))"
  by (simp add: node_run_def before_start_def Let_def new_task_eq ids_of_job_def keep_rollout_flag_def
      split: sum.splits)

lemma node_inv_before_start:
  assumes "node_inv n" "length (n_tasks n) < MAX_TASKS"
    and "bt_contains (n_jobs n) (j_name job) \<or> length (n_jobs n) < NODE_MAX_JOBS"
  shows "node_inv (before_start now job replace n)"
proof -
  have "jobs_inv (bt_insert (n_jobs n) (j_name job) (keep_rollout_flag n job))"
    using jobs_inv_insert [OF node_invD(2) [OF assms(1)], of "keep_rollout_flag n job"] assms(3) by simp
  moreover have "node_inv (n\<lparr>n_refused := bt_remove (n_refused n) (j_name job)\<rparr>)"
    using assms length_bt_remove_le [of "n_refused n" "j_name job"] node_invD(3,4) [OF assms(1)]
    by (intro node_inv_refused) (auto simp: inv_intros)
  ultimately show ?thesis
    using assms(2) unfolding before_start_def Let_def
    by (intro node_inv_insert_entry node_inv_jobs)
      (auto simp: inv_intros intro: le_less_trans [OF length_filter_le])
qed

lemma fresh_before_start: "fresh (fst (ids_id (n_ids n))) (before_start now job replace n)"
  using fresh_insert_entry [of "fresh_task now job (n_ids n)"] by (simp add: before_start_def Let_def)

lemma node_inv_run [inv_intros]: "node_inv n \<Longrightarrow> node_inv (snd (node_run now job replace pool n))"
  by (auto simp: node_run_eq fresh_before_start inv_intros split: sum.splits
      intro!: node_inv_begin_start node_inv_before_start)

lemma node_inv_on_progress [inv_intros]: "node_inv n \<Longrightarrow> node_inv (on_progress i d a n)"
  unfolding on_progress_def
  by (auto split: option.splits intro!: node_inv_upd simp: entry_ok_def)

lemma node_inv_started [inv_intros]:
  assumes "node_inv n"
    and "\<And>e. bt_get (n_tasks n) i = Some e \<Longrightarrow> e_restart_at e = None \<and> \<not> e_starting e"
  shows "node_inv (node_started now i driver s n)"
  unfolding node_started_def Let_def
  using assms by (auto split: option.splits intro!: node_inv_upd node_inv_forget simp: entry_ok_def)

definition reported_once :: "string \<Rightarrow> node \<Rightarrow> bool" where
  "reported_once i n \<longleftrightarrow> (case bt_get (n_tasks n) i of Some e \<Rightarrow> e_starting e | None \<Rightarrow> True)"

lemma node_inv_on_started [inv_intros]:
  assumes "node_inv n" "reported_once i n"
  shows "node_inv (on_started now i driver result n)"
proof -
  let ?n = "upd_entry i (\<lambda>e. e\<lparr>e_starting := False\<rparr>) n"
  have inv: "node_inv ?n" using assms(1) by (intro node_inv_upd) (auto simp: entry_ok_def)
  have "e_restart_at e = None \<and> \<not> e_starting e" if "bt_get (n_tasks ?n) i = Some e" for e
    using that assms(2) node_inv_get(2) [OF assms(1), of i]
    by (fastforce simp: reported_once_def entry_ok_def split: option.splits)
  then have "node_inv (node_started now i driver s ?n)" for s
    using inv by (intro node_inv_started) auto
  moreover have "node_inv (start_failed now i ?n)"
    using inv by (intro node_inv_start_failed) (auto simp: idle_def split: option.splits)
  moreover have "node_inv (release_unplaceable i ?n)"
    using node_inv_forget [OF inv, of i]
    by (simp add: release_unplaceable_def case_prod_unfold split: option.splits)
  ultimately show ?thesis
    by (auto simp: on_started_def Let_def split: sum.splits start_error.splits)
qed

lemma node_inv_fold_push [simp]: "node_inv (fold node_push as n) \<longleftrightarrow> node_inv n"
  by (induction as arbitrary: n) simp_all

lemma node_inv_monitor [simp]: "node_inv (monitor n) \<longleftrightarrow> node_inv n"
  by (simp add: monitor_def)

lemma node_inv_on_probe [inv_intros]:
  assumes "node_inv n"
  shows "node_inv (on_probe now i outcome n)"
proof (cases "bt_get (n_tasks n) i")
  case (Some e)
  have ok: "entry_ok e" using node_inv_get(2) [OF assms Some] .
  have upd: "node_inv (upd_entry i f n)"
    if "t_id (e_task (f e)) = t_id (e_task e) \<and> entry_ok (f e)" for f
    using assms that Some by (intro node_inv_upd) auto
  show ?thesis
    using assms Some ok
    by (auto simp: on_probe_def Let_def upd_entry_compose entry_ok_def resting_def
        split: prod.splits verdict.splits intro!: node_inv_schedule_restart upd)
qed (use assms in \<open>simp add: on_probe_def\<close>)

lemma node_inv_on_status [inv_intros]:
  assumes "node_inv n"
  shows "node_inv (on_status now i status n)"
proof (cases "bt_get (n_tasks n) i")
  case (Some e)
  have ok: "entry_ok e" using node_inv_get(2) [OF assms Some] .
  have upd: "node_inv (upd_entry i f n)"
    if "t_id (e_task (f e)) = t_id (e_task e) \<and> entry_ok (f e)" for f
    using assms that Some by (intro node_inv_upd) auto
  show ?thesis
    using assms Some ok
    by (auto simp: on_status_def maybe_probe_def entry_ok_def resting_def
        split: option.splits run_status.splits intro!: node_inv_schedule_restart upd node_inv_on_probe)
qed (use assms in \<open>simp add: on_status_def\<close>)

lemma node_inv_record_usage [inv_intros]: "node_inv n \<Longrightarrow> node_inv (record_usage i c m k o1 n)"
  unfolding record_usage_def Let_def by (intro node_inv_upd) (auto simp: entry_ok_def)

lemma node_inv_fire_due [inv_intros]: "node_inv n \<Longrightarrow> node_inv (fire_due now i n)"
  unfolding fire_due_def by (intro node_inv_restart_fire node_inv_upd) (auto simp: entry_ok_def)

lemma node_inv_fold: "(\<And>x n. node_inv n \<Longrightarrow> node_inv (f x n)) \<Longrightarrow> node_inv n \<Longrightarrow> node_inv (fold f xs n)"
  by (induction xs arbitrary: n) auto

lemma node_inv_tick [inv_intros]:
  assumes "node_inv n"
  shows "node_inv (snd (node_tick now n))"
proof -
  have "node_inv (fold (fire_due now) (due_restarts now n) n)"
    using assms by (intro node_inv_fold) (auto intro: node_inv_fire_due)
  then show ?thesis by (simp add: node_tick_def Let_def take_actions_def)
qed

lemma node_inv_delete_definition [inv_intros]:
  assumes "node_inv n"
  shows "node_inv (delete_job_definition now name n)"
  using node_invD [OF assms] length_bt_remove_le [of "n_refused n" name]
  by (simp add: delete_job_definition_def node_inv_def inv_intros)

lemma node_inv_stop_job [inv_intros]: "node_inv n \<Longrightarrow> node_inv (snd (stop_job_tasks name n))"
  by (simp add: stop_job_tasks_def Let_def inv_intros)

lemma node_inv_delete_job [inv_intros]: "node_inv n \<Longrightarrow> node_inv (snd (node_delete_job now name n))"
  using node_inv_stop_job [OF node_inv_delete_definition]
  by (simp add: node_delete_job_def delete_job_definition_def Let_def case_prod_unfold)

lemma node_inv_stop_all [inv_intros]: "node_inv n \<Longrightarrow> node_inv (snd (stop_all n))"
  by (simp add: stop_all_def Let_def inv_intros)

lemma node_inv_put_job:
  assumes "node_inv n" "\<not> (\<not> bt_contains (n_jobs n) (j_name job) \<and> length (n_jobs n) \<ge> NODE_MAX_JOBS)"
  shows "node_inv (n\<lparr>n_jobs := bt_insert (n_jobs n) (j_name job) job\<rparr>)"
  using assms by (intro node_inv_jobs jobs_inv_insert) (auto dest: node_invD)

lemma node_inv_change_job:
  "node_inv n \<Longrightarrow> (\<And>j. j_name j = k \<Longrightarrow> j_name (f j) = k) \<Longrightarrow>
   node_inv (n\<lparr>n_jobs := bt_adjust (n_jobs n) k f\<rparr>)"
  by (intro node_inv_jobs jobs_inv_adjust) (auto dest: node_invD)

lemma node_inv_store_job [inv_intros]: "node_inv n \<Longrightarrow> node_inv (snd (store_job now job n))"
  using node_inv_put_job by (simp add: store_job_def)

lemma node_inv_sync_loop: "node_inv n \<Longrightarrow> node_inv (snd (sync_loop jobs n))"
  by (induction jobs n rule: sync_loop.induct) (simp_all add: node_inv_put_job)

lemma node_inv_sync [inv_intros]: "node_inv n \<Longrightarrow> node_inv (snd (sync_jobs jobs updated n))"
  using node_inv_sync_loop [of n jobs] by (auto simp: sync_jobs_def split: prod.splits sum.splits)

lemma node_inv_restore_jobs: "node_inv n \<Longrightarrow> node_inv (restore_jobs jobs n)"
  by (induction jobs n rule: restore_jobs.induct) (simp_all add: node_inv_put_job)

lemma node_inv_restore_tasks: "node_inv n \<Longrightarrow> node_inv (restore_tasks ts n)"
  by (induction ts n rule: restore_tasks.induct) (simp_all add: node_inv_insert_entry)

section \<open>Transitions\<close>

inductive node_step :: "node \<Rightarrow> node \<Rightarrow> bool" where
  step_tick: "node_step n (snd (node_tick now n))"
| step_run: "node_step n (snd (node_run now job replace pool n))"
| step_progress: "node_step n (on_progress i d a n)"
| step_started: "reported_once i n \<Longrightarrow> node_step n (on_started now i driver result n)"
| step_status: "node_step n (on_status now i status n)"
| step_probe: "node_step n (on_probe now i outcome n)"
| step_usage: "node_step n (record_usage i c m k o1 n)"
| step_stop_task: "node_step n (snd (stop_task i n))"
| step_stop_job: "node_step n (snd (stop_job_tasks name n))"
| step_delete_job: "node_step n (snd (node_delete_job now name n))"
| step_stop_all: "node_step n (snd (stop_all n))"
| step_shutdown: "node_step n (snd (shutdown n))"
| step_store_job: "node_step n (snd (store_job now job n))"
| step_update_job: "node_step n (snd (node_update_job now job n))"
| step_priority: "node_step n (snd (set_job_priority now name p n))"
| step_deploying: "node_step n (snd (set_job_deploying now name d n))"
| step_delete_definition: "node_step n (delete_job_definition now name n)"
| step_sync: "node_step n (snd (sync_jobs jobs updated n))"
| step_adopt: "node_step n (restore_entries jobs tasks n)"
| step_take: "node_step n (snd (take_actions n))"
| step_leader_addr: "node_step n (set_leader_addr addr n)"
| step_lease: "node_step n (set_lease_expires_at t n)"
| step_settings: "node_step n (n\<lparr>n_settings := s\<rparr>)"

inductive node_reachable :: "settings \<Rightarrow> node \<Rightarrow> bool" for s where
  boot: "node_reachable s (node_new s)"
| step: "node_reachable s n \<Longrightarrow> node_step n n' \<Longrightarrow> node_reachable s n'"

lemma node_inv_step: "node_step n n' \<Longrightarrow> node_inv n \<Longrightarrow> node_inv n'"
proof (induction rule: node_step.induct)
  case (step_update_job n now job)
  then show ?case
    using node_inv_change_job [of n "j_name job" "\<lambda>_. job"]
    by (simp add: node_update_job_def split: option.splits)
next
  case (step_priority n now name p)
  then show ?case
    using node_inv_change_job [of n name "\<lambda>j. j\<lparr>j_priority := Some p\<rparr>"]
    by (simp add: set_job_priority_def split: option.splits)
next
  case (step_deploying n now name d)
  then show ?case
    using node_inv_change_job [of n name "\<lambda>j. j\<lparr>j_deploying := d\<rparr>"]
    by (simp add: set_job_deploying_def split: option.splits)
qed (simp_all add: inv_intros stop_task_def shutdown_def restore_entries_def node_inv_restore_tasks
    node_inv_restore_jobs take_actions_def set_leader_addr_def set_lease_expires_at_def)

lemma node_inv_reachable: "node_reachable s n \<Longrightarrow> node_inv n"
proof (induction rule: node_reachable.induct)
  case boot
  show ?case by (simp add: node_new_def node_inv_def tasks_inv_def jobs_inv_def)
qed (rule node_inv_step)

end
