(* ===== verification/Agent_Properties.thy ===== *)
theory Agent_Properties
  imports Agent_System
begin

text \<open>
  What the node promises: its state stays well formed, an admitted job fits and a refused one
  changes nothing, and a restart keeps the reservation of the task it replaces.
\<close>

section \<open>The books\<close>

text \<open>The sum of the reservations outside one job.\<close>

definition reserved :: "string option \<Rightarrow> entry list \<Rightarrow> nat" where
  "reserved exclude es =
     (\<Sum>e\<leftarrow>es. if exclude = Some (t_job_name (e_task e)) then 0 else t_memory_limit (e_task e))"

lemma reserved_simps [simp]:
  "reserved x [] = 0"
  "reserved x (e # es) = (if x = Some (t_job_name (e_task e)) then 0 else t_memory_limit (e_task e)) + reserved x es"
  "reserved x (es @ fs) = reserved x es + reserved x fs"
  by (simp_all add: reserved_def)

lemma usage_loop_mem:
  "mem \<le> u64_max \<Longrightarrow> snd (usage_loop n x es cpu mem seen) = min (mem + reserved x es) u64_max"
proof (induction es arbitrary: cpu mem seen)
  case (Cons e es)
  have "min (min (mem + m) u64_max + r) u64_max = min (mem + (m + r)) u64_max" for m r by auto
  then show ?case
    using Cons by (auto simp: Let_def sat_add64_def split: option.split)
qed simp

lemma resource_usage_mem:
  "snd (resource_usage_excluding n x) = min (reserved x (bt_values (n_tasks n))) u64_max"
  by (simp add: resource_usage_excluding_def usage_loop_mem)

lemma reserved_insert:
  "reserved None (bt_values (bt_insert ts k e)) \<le> reserved None (bt_values ts) + t_memory_limit (e_task e)"
  by (induction ts k e rule: bt_insert.induct) (auto simp: bt_values_def)

lemma reserved_adjust:
  "(\<And>e. t_memory_limit (e_task (f e)) = t_memory_limit (e_task e)) \<Longrightarrow>
   reserved None (bt_values (bt_adjust ts k f)) = reserved None (bt_values ts)"
  by (induction ts) (auto simp: bt_values_def bt_adjust_def)

lemma reserved_exclude:
  assumes "distinct (map fst ts)"
  shows "reserved None (bt_values (filter (\<lambda>p. fst p \<notin> fst ` {q \<in> set ts. t_job_name (e_task (snd q)) = name}) ts))
     = reserved (Some name) (bt_values ts)"
proof -
  have "fst p \<notin> fst ` {q \<in> set ts. t_job_name (e_task (snd q)) = name} \<longleftrightarrow> t_job_name (e_task (snd p)) \<noteq> name"
    if "p \<in> set ts" for p
    using assms that by (force simp: distinct_map inj_on_def)
  then have "filter (\<lambda>p. fst p \<notin> fst ` {q \<in> set ts. t_job_name (e_task (snd q)) = name}) ts
      = filter (\<lambda>p. t_job_name (e_task (snd p)) \<noteq> name) ts"
    by (rule filter_cong [OF refl])
  moreover have "reserved None (bt_values (filter (\<lambda>p. t_job_name (e_task (snd p)) \<noteq> name) ts))
      = reserved (Some name) (bt_values ts)"
    by (induction ts) (auto simp: bt_values_def)
  ultimately show ?thesis by simp
qed

section \<open>Admission\<close>

lemma reserved_before_start:
  assumes "node_inv n"
  shows "reserved None (bt_values (n_tasks (before_start now job replace n))) \<le>
    reserved (if replace then Some (j_name job) else None) (bt_values (n_tasks n)) + j_memory_limit job"
proof -
  have d: "distinct (map fst (n_tasks n))"
    using node_invD(1) [OF assms] by (intro bt_inv_distinct) simp
  have s: "set (ids_of_job n (j_name job)) = fst ` {q \<in> set (n_tasks n). t_job_name (e_task (snd q)) = j_name job}"
    by (auto simp: ids_of_job_def)
  show ?thesis
    using reserved_insert [of _ "fst (ids_id (n_ids n))"
        "\<lparr>e_task = fresh_task now job (n_ids n), e_check = check_default, e_restart_at = None,
          e_first_start = True, e_starting = False\<rparr>"] reserved_exclude [OF d, of "j_name job"]
    by (simp add: before_start_def insert_entry_def Let_def s) (metis (no_types, lifting))
qed

text \<open>
  The start of an admitted job: it goes to the runner, or, when no artifact of the job fits the
  node, the task stays behind as failed.  Either way only the task's own entry changes, and not
  what it reserves.
\<close>

definition keeps_books :: "(entry \<Rightarrow> entry) \<Rightarrow> bool" where
  "keeps_books f \<longleftrightarrow>
     (\<forall>e. t_memory_limit (e_task (f e)) = t_memory_limit (e_task e) \<and>
          t_job_name (e_task (f e)) = t_job_name (e_task e))"

lemma bt_adjust_compose: "bt_adjust (bt_adjust m k g) k f = bt_adjust m k (\<lambda>v. f (g v))"
  by (auto simp: bt_adjust_def)

lemma restart_decide_unresolved:
  assumes "bt_get (n_tasks n) i = Some e" "bt_get (n_jobs n) (t_job_name (e_task e)) = Some job"
    and "resolve_job_for_run n job = Inl err"
  obtains f where "n_tasks (restart_decide now i up n) = bt_adjust (n_tasks n) i f" "keeps_books f"
    "n_settings (restart_decide now i up n) = n_settings n"
proof -
  have "resolve_job_for_run (n\<lparr>n_ids := st\<rparr>) = resolve_job_for_run n" for st
    by (rule resolve_same) simp
  then have "\<exists>f. n_tasks (restart_decide now i up n) = bt_adjust (n_tasks n) i f \<and> keeps_books f \<and>
      n_settings (restart_decide now i up n) = n_settings n"
    unfolding restart_decide_known [OF assms(1,2)] Let_def keeps_books_def
    using assms by (auto simp: restart_fire.simps bt_adjust_compose)
  then show ?thesis using that by blast
qed

lemma begin_start_known:
  assumes "bt_get (n_tasks n) i = Some e" "bt_get (n_jobs n) (t_job_name (e_task e)) = Some job"
  obtains f where "n_tasks (begin_start now i n) = bt_adjust (n_tasks n) i f" "keeps_books f"
    "n_settings (begin_start now i n) = n_settings n"
proof (cases "resolve_job_for_run n job")
  case (Inr job')
  then show ?thesis
    using assms by (intro that [of "\<lambda>e. e\<lparr>e_starting := True\<rparr>"]) (simp_all add: begin_start.simps keeps_books_def)
next
  case (Inl err)
  let ?f = "\<lambda>e. e\<lparr>e_task := (e_task e)\<lparr>t_state := Failed\<rparr>\<rparr>"
  define q where "q = node_push (stop_action ((e_task e)\<lparr>t_state := Failed\<rparr>))
    (if e_first_start e then node_push (ActNotify (t_job_name (e_task e)) TeCrash) (upd_entry i ?f n)
     else upd_entry i ?f n)"
  have q: "n_tasks q = bt_adjust (n_tasks n) i ?f" "n_jobs q = n_jobs n" "n_settings q = n_settings n"
    by (simp_all add: q_def)
  have eq: "begin_start now i n = restart_decide now i False q"
    using assms Inl by (simp add: begin_start.simps start_failed.simps schedule_restart.simps Let_def q_def)
  have "resolve_job_for_run q job = Inl err" using Inl resolve_same [OF q(3)] by simp
  then obtain f where "n_tasks (begin_start now i n) = bt_adjust (n_tasks q) i f" "keeps_books f"
      "n_settings (begin_start now i n) = n_settings q"
    unfolding eq using restart_decide_unresolved [of q i "?f e" job err now False] assms q by auto
  then show ?thesis
    by (intro that [of "\<lambda>e. f (?f e)"]) (auto simp: q bt_adjust_compose keeps_books_def)
qed

lemma node_run_ok:
  assumes "node_inv n" "node_run now job replace pool n = (Inr i, n')"
  obtains m where "m = before_start now (prepare_job job) replace n"
    and "admit n (prepare_job job) replace pool = Inr ()"
    and "reserved None (bt_values (n_tasks n')) = reserved None (bt_values (n_tasks m))"
    and "n_settings n' = n_settings n"
    and "\<exists>e. bt_get (n_tasks n') i = Some e \<and> t_job_name (e_task e) = j_name job"
proof -
  let ?m = "before_start now (prepare_job job) replace n"
  have adm: "admit n (prepare_job job) replace pool = Inr ()"
    and i: "i = fst (ids_id (n_ids n))" and n': "n' = begin_start now i ?m"
    using assms(2) by (auto simp: node_run_eq split: if_splits sum.splits)
  obtain e where e: "bt_get (n_tasks ?m) i = Some e" "t_job_name (e_task e) = j_name job"
    by (simp add: i before_start_def insert_entry_def Let_def)
  have "bt_get (n_jobs ?m) (j_name job) = Some (keep_rollout_flag n (prepare_job job))"
    by (simp add: before_start_def insert_entry_def Let_def)
  then obtain f where "n_tasks n' = bt_adjust (n_tasks ?m) i f" "keeps_books f" "n_settings n' = n_settings ?m"
    using begin_start_known [OF e(1)] e(2) unfolding n' by metis
  moreover have "n_settings ?m = n_settings n" by (simp add: before_start_def insert_entry_def Let_def)
  ultimately show ?thesis
    using e adm by (intro that [of ?m]) (auto simp: reserved_adjust keeps_books_def)
qed

lemma admit_memory:
  "admit n job replace pool = Inr () \<Longrightarrow> 0 < j_memory_limit job \<Longrightarrow>
   sat_add64 (snd (resource_usage_excluding n (if replace then Some (j_name job) else None)))
     (j_memory_limit job) \<le> effective_memory_bytes (n_settings n)"
  by (auto simp: admit_def Let_def split: prod.splits if_splits)

lemma prepare_job_memory: "0 < j_memory_limit job \<Longrightarrow> 0 < j_memory_limit (prepare_job job)"
  by (auto simp: prepare_job_def round_for_hopos_def Let_def sat_defs HOP_BLOCK_BYTES_def
      div_greater_zero_iff)

theorem node_run_fits:
  assumes "node_inv n" "node_run now job replace pool n = (Inr i, n')" "0 < j_memory_limit job"
  shows "snd (resource_usage n') \<le> effective_memory_bytes (n_settings n')"
proof -
  let ?job = "prepare_job job"
  let ?x = "if replace then Some (j_name job) else None"
  from node_run_ok [OF assms(1,2)] have
    adm: "admit n ?job replace pool = Inr ()"
    and m: "reserved None (bt_values (n_tasks n')) =
      reserved None (bt_values (n_tasks (before_start now ?job replace n)))"
    and set: "n_settings n' = n_settings n" by metis+
  have "snd (resource_usage n') \<le> min (reserved ?x (bt_values (n_tasks n)) + j_memory_limit ?job) u64_max"
    using reserved_before_start [OF assms(1), of now ?job replace, unfolded prepare_job_name]
    unfolding resource_usage_def resource_usage_mem m by (intro min.mono order_refl)
  also have "\<dots> = sat_add64 (snd (resource_usage_excluding n ?x)) (j_memory_limit ?job)"
    by (auto simp: resource_usage_mem sat_add64_def)
  also have "\<dots> \<le> effective_memory_bytes (n_settings n)"
    using admit_memory [OF adm prepare_job_memory [OF assms(3)]] unfolding prepare_job_name .
  finally show ?thesis by (simp add: set)
qed

section \<open>Reservations\<close>

definition task_count :: "entry btree \<Rightarrow> string \<Rightarrow> nat" where
  "task_count ts name = length (filter (\<lambda>p. t_job_name (e_task (snd p)) = name) ts)"

lemma task_count_insert:
  "k \<notin> fst ` set ts \<Longrightarrow>
   task_count (bt_insert ts k e) name = task_count ts name + (if t_job_name (e_task e) = name then 1 else 0)"
  unfolding task_count_def by (induction ts k e rule: bt_insert.induct) auto

lemma task_count_remove:
  assumes "bt_inv ts" "bt_get ts k = Some e"
  shows "task_count (bt_remove ts k) name + (if t_job_name (e_task e) = name then 1 else 0) = task_count ts name"
  using assms
proof (induction ts)
  case (Cons p ts)
  have inv: "bt_inv ts" using Cons.prems(1) by (simp add: bt_inv_def)
  show ?case
  proof (cases "fst p = k")
    case True
    then have "bt_get ts k = None" using Cons.prems(1) by (auto simp: bt_inv_def bt_get_None)
    then have "bt_remove ts k = ts" by (rule bt_remove_absent)
    then show ?thesis using True Cons.prems(2)
      by (cases p) (simp add: task_count_def bt_remove_def bt_get_def)
  next
    case False
    then have "bt_get ts k = Some e" using Cons.prems(2) by (cases p) (simp add: bt_get_def)
    then show ?thesis using False Cons.IH [OF inv] by (auto simp: task_count_def bt_remove_def)
  qed
qed simp

lemma task_count_adjust:
  "(\<And>e. t_job_name (e_task (f e)) = t_job_name (e_task e)) \<Longrightarrow> task_count (bt_adjust ts k f) = task_count ts"
  by (rule ext) (auto simp: task_count_def bt_adjust_def filter_map comp_def case_prod_unfold
      intro!: arg_cong [of _ _ length] filter_cong split: if_splits)

definition count_entry :: "entry \<Rightarrow> nat btree \<Rightarrow> nat btree" where
  "count_entry e counts =
     (let name = t_job_name (e_task e)
      in if name = [] then counts
         else bt_insert counts name ((case bt_get counts name of Some c \<Rightarrow> c | None \<Rightarrow> 0) + 1))"

lemma placed_task_counts_fold: "placed_task_counts n = fold count_entry (bt_values (n_tasks n)) []"
  by (simp add: placed_task_counts_def count_entry_def [abs_def])

lemma fold_count_entry:
  "bt_get (fold count_entry (map snd ts) c) name =
     (if name = [] \<or> task_count ts name = 0 then bt_get c name
      else Some ((case bt_get c name of Some k \<Rightarrow> k | None \<Rightarrow> 0) + task_count ts name))"
  by (induction ts arbitrary: c) (auto simp: count_entry_def task_count_def Let_def split: option.splits)

lemma bt_inv_fold_count: "bt_inv c \<Longrightarrow> bt_inv (fold count_entry es c)"
  by (induction es arbitrary: c) (auto simp: count_entry_def Let_def inv_intros)

lemma placed_task_counts_get:
  "bt_get (placed_task_counts n) name =
     (if name = [] \<or> task_count (n_tasks n) name = 0 then None else Some (task_count (n_tasks n) name))"
  using fold_count_entry [of "n_tasks n" "[]"] by (simp add: placed_task_counts_fold bt_values_def)

lemma placed_task_counts_cong:
  "task_count (n_tasks n) = task_count (n_tasks m) \<Longrightarrow> placed_task_counts n = placed_task_counts m"
  by (rule bt_ext) (simp_all add: placed_task_counts_get placed_task_counts_fold [symmetric],
      simp_all add: placed_task_counts_fold bt_inv_fold_count)

definition jobs_known :: "node \<Rightarrow> bool" where
  "jobs_known n \<longleftrightarrow> list_all (\<lambda>(k, e). bt_contains (n_jobs n) (t_job_name (e_task e))) (n_tasks n)"

text \<open>The next ids of the generator are not in use on this node.\<close>

definition ids_unused :: "node \<Rightarrow> bool" where
  "ids_unused n \<longleftrightarrow>
     list_all (\<lambda>k. \<not> bt_contains (n_tasks n) (fst (ids_id (ids_after k (n_ids n)))))
       [0..<Suc (length (n_tasks n))]"

lemma jobs_known_get:
  "jobs_known n \<Longrightarrow> bt_get (n_tasks n) i = Some e \<Longrightarrow> \<exists>job. bt_get (n_jobs n) (t_job_name (e_task e)) = Some job"
  by (auto simp: jobs_known_def list_all_iff bt_contains_def dest!: bt_get_Some_mem)

lemma jobs_known_upd:
  assumes "\<And>e. t_job_name (e_task (f e)) = t_job_name (e_task e)" "jobs_known n"
  shows "jobs_known (upd_entry i f n)"
proof -
  have "bt_contains (n_jobs n) (t_job_name (e_task e'))" if "(k, e') \<in> set (bt_adjust (n_tasks n) i f)" for k e'
    using that assms by (cases "k = i") (auto simp: mem_bt_adjust jobs_known_def list_all_iff)
  then show ?thesis by (auto simp: jobs_known_def list_all_iff)
qed

text \<open>
  A restart that fires keeps the number of tasks of every job, draws at most one id, and changes
  no other part of the books.
\<close>

definition same_books :: "node \<Rightarrow> node \<Rightarrow> bool" where
  "same_books n m \<longleftrightarrow> task_count (n_tasks m) = task_count (n_tasks n) \<and> jobs_known m \<and>
     (n_ids m = n_ids n \<and> fst ` set (n_tasks m) \<subseteq> fst ` set (n_tasks n) \<or>
      n_ids m = snd (ids_id (n_ids n)) \<and>
        fst ` set (n_tasks m) \<subseteq> insert (fst (ids_id (n_ids n))) (fst ` set (n_tasks n)))"

lemma same_books_replaced:
  assumes "node_inv n" "jobs_known n" "\<not> bt_contains (n_tasks n) (fst (ids_id (n_ids n)))"
    and e: "bt_get (n_tasks n) i = Some e"
    and job: "bt_get (n_jobs n) (t_job_name (e_task e)) = Some job"
  shows "same_books n (replaced now i (e_task e) job job' n)"
proof -
  let ?ts = "bt_remove (n_tasks n) i" and ?k = "fst (ids_id (n_ids n))"
  let ?m = "replaced now i (e_task e) job job' n"
  obtain x where x: "n_tasks ?m = bt_insert ?ts ?k x" "t_job_name (e_task x) = j_name job"
    by (simp add: replaced_def Let_def)
  have ids: "n_ids ?m = snd (ids_id (n_ids n))" "n_jobs ?m = n_jobs n" by (simp_all add: replaced_def Let_def)
  have name: "j_name job = t_job_name (e_task e)"
    using jobs_inv_get [OF node_invD(2) [OF assms(1)] job] .
  have inv: "bt_inv (n_tasks n)" using node_invD(1) [OF assms(1)] by simp
  have new: "?k \<notin> fst ` set ?ts"
    using assms(3) by (auto simp: bt_contains_iff dest!: subsetD [OF set_bt_remove])
  have "task_count (n_tasks ?m) = task_count (n_tasks n)"
    using task_count_remove [OF inv e] by (simp add: fun_eq_iff x task_count_insert [OF new] name)
  moreover have "bt_contains (n_jobs n) (t_job_name (e_task y))" if "(k, y) \<in> set (n_tasks ?m)" for k y
    using that subsetD [OF set_bt_insert, of _ ?ts ?k x] subsetD [OF set_bt_remove, of _ "n_tasks n" i]
      assms(2) job x name
    by (fastforce simp: jobs_known_def list_all_iff bt_contains_def)
  then have "jobs_known ?m" by (auto simp: jobs_known_def list_all_iff ids)
  moreover have "fst ` set (n_tasks ?m) \<subseteq> insert ?k (fst ` set (n_tasks n))"
    using set_bt_remove [of "n_tasks n" i] by (auto simp: x keys_bt_insert)
  ultimately show ?thesis by (simp add: same_books_def ids)
qed

lemma restart_fire_books:
  assumes "node_inv n" "jobs_known n" "\<not> bt_contains (n_tasks n) (fst (ids_id (n_ids n)))"
  shows "same_books n (restart_fire now i n)"
proof (cases "n_shutting_down n \<or> bt_get (n_tasks n) i = None")
  case True
  then show ?thesis using assms(2) by (auto simp: restart_fire.simps same_books_def)
next
  case False
  then obtain e where e: "bt_get (n_tasks n) i = Some e" "\<not> n_shutting_down n" by auto
  obtain job where job: "bt_get (n_jobs n) (t_job_name (e_task e)) = Some job"
    using jobs_known_get [OF assms(2) e(1)] by blast
  show ?thesis
  proof (cases "resolve_job_for_run n job")
    case (Inl err)
    then show ?thesis
      using e job assms(2)
      by (simp add: restart_fire.simps same_books_def task_count_adjust jobs_known_upd)
  next
    case (Inr job')
    then show ?thesis
      using e job same_books_replaced [OF assms e(1) job] by (simp add: restart_fire_eq [OF assms(1)])
  qed
qed

text \<open>Several restarts in a row: the ids drawn on the way differ from those in use.\<close>

lemma ids_after_Suc: "ids_after (Suc k) st = ids_after k (snd (ids_id st))"
  by (simp add: ids_after_def funpow_swap1)

lemma fold_fire_due:
  assumes "node_inv n" "jobs_known n" "length is \<le> d" "d < 2 ^ 64"
    and "\<And>k. k < d \<Longrightarrow> \<not> bt_contains (n_tasks n) (fst (ids_id (ids_after k (n_ids n))))"
  shows "task_count (n_tasks (fold (fire_due now) is n)) = task_count (n_tasks n)"
  using assms
proof (induction "is" arbitrary: n d)
  case (Cons i "is")
  let ?u = "upd_entry i (\<lambda>e. e\<lparr>e_restart_at := None\<rparr>) n"
  have u: "node_inv ?u" "jobs_known ?u" "task_count (n_tasks ?u) = task_count (n_tasks n)"
    using Cons.prems(1,2) by (auto intro!: node_inv_upd jobs_known_upd simp: entry_ok_def task_count_adjust)
  have 0: "\<not> bt_contains (n_tasks ?u) (fst (ids_id (n_ids ?u)))"
    using Cons.prems(3) Cons.prems(5) [of 0] by (simp add: bt_contains_iff ids_after_def)
  let ?r = "fire_due now i n"
  have b: "same_books ?u ?r" unfolding fire_due_def by (rule restart_fire_books [OF u(1,2) 0])
  have inv: "node_inv ?r" using Cons.prems(1) by (rule node_inv_fire_due)
  have unused: "\<not> bt_contains (n_tasks ?r) (fst (ids_id (ids_after k (n_ids ?r))))" if k: "k < d - 1" for k
  proof -
    have out: "fst (ids_id (ids_after j (n_ids n))) \<notin> fst ` set (n_tasks n)" if "j < d" for j
      using Cons.prems(5) [OF that] by (simp add: bt_contains_iff)
    have "fst (ids_id (ids_after (Suc k) (n_ids n))) \<noteq> fst (ids_id (ids_after 0 (n_ids n)))"
      using k Cons.prems(4) by (intro ids_differ) auto
    then have ne: "fst (ids_id (ids_after (Suc k) (n_ids n))) \<noteq> fst (ids_id (n_ids n))"
      by (simp add: ids_after_def)
    from b consider
        "n_ids ?r = n_ids n" "fst ` set (n_tasks ?r) \<subseteq> fst ` set (n_tasks n)"
      | "n_ids ?r = snd (ids_id (n_ids n))"
        "fst ` set (n_tasks ?r) \<subseteq> insert (fst (ids_id (n_ids n))) (fst ` set (n_tasks n))"
      by (auto simp: same_books_def)
    then show ?thesis
    proof cases
      case 1
      have "k < d" using k by simp
      then show ?thesis unfolding bt_contains_iff 1(1) using out 1(2) by blast
    next
      case 2
      have "Suc k < d" using k by simp
      then show ?thesis unfolding bt_contains_iff 2(1) ids_after_Suc [symmetric] using out ne 2(2) by blast
    qed
  qed
  have "task_count (n_tasks (fold (fire_due now) is ?r)) = task_count (n_tasks ?r)"
    using Cons.prems(3,4) b inv unused by (intro Cons.IH [of ?r "d - 1"]) (auto simp: same_books_def)
  then show ?case using b u(3) by (simp add: same_books_def)
qed simp

lemma tasks_fold_push [simp]: "n_tasks (fold node_push as n) = n_tasks n"
  by (induction as arbitrary: n) simp_all

lemma unused_draw: "ids_unused n \<Longrightarrow> k \<le> length (n_tasks n) \<Longrightarrow>
   \<not> bt_contains (n_tasks n) (fst (ids_id (ids_after k (n_ids n))))"
  by (cases "k = length (n_tasks n)") (simp_all add: ids_unused_def list_all_iff)

lemma tick_counts:
  assumes "node_inv n" "jobs_known n" "ids_unused n"
  shows "task_count (n_tasks (snd (node_tick now n))) = task_count (n_tasks n)"
proof -
  have len: "length (n_tasks n) \<le> 1024"
    using node_invD(1) [OF assms(1)] by (simp add: tasks_inv_def MAX_TASKS_def)
  have due: "length (due_restarts now n) \<le> length (n_tasks n)" by (simp add: due_restarts_def)
  have "task_count (n_tasks (fold (fire_due now) (due_restarts now n) n)) = task_count (n_tasks n)"
    using unused_draw [OF assms(3)] due len
    by (intro fold_fire_due [OF assms(1,2), of _ "length (n_tasks n)"]) auto
  then show ?thesis by (simp add: node_tick_def Let_def take_actions_def monitor_def)
qed

text \<open>A task that fails: it is restarted in its place, waits, or stays behind as failed.\<close>

lemma restart_decide_counts:
  assumes "node_inv n" "jobs_known n"
    and "\<not> bt_contains (n_tasks n) (fst (ids_id (ids_after 1 (n_ids n))))"
  shows "task_count (n_tasks (restart_decide now i up n)) = task_count (n_tasks n)"
proof (cases "bt_get (n_tasks n) i")
  case (Some e)
  then obtain job where job: "bt_get (n_jobs n) (t_job_name (e_task e)) = Some job"
    using jobs_known_get [OF assms(2)] by blast
  have st: "snd (next_u64 (n_ids n)) = ids_after 1 (n_ids n)"
    by (simp add: ids_after_def ids_id_def case_prod_unfold)
  let ?m = "\<lambda>f. upd_task i f (n\<lparr>n_ids := snd (next_u64 (n_ids n))\<rparr>)"
  have "task_count (n_tasks (restart_fire now i (?m f))) = task_count (n_tasks n)"
    if "\<And>t. t_id (f t) = t_id t \<and> t_state (f t) = t_state t \<and> t_job_name (f t) = t_job_name t" for f
  proof -
    have "same_books (?m f) (restart_fire now i (?m f))"
      using assms that unfolding st
      by (intro restart_fire_books node_inv_upd jobs_known_upd)
        (auto simp: entry_ok_def bt_contains_iff jobs_known_def)
    then show ?thesis using that by (simp add: same_books_def task_count_adjust)
  qed
  then show ?thesis
    unfolding restart_decide_known [OF Some job] Let_def by (simp add: task_count_adjust)
qed (simp add: restart_decide.simps)

lemma schedule_restart_counts:
  assumes "node_inv n" "jobs_known n"
    and "\<not> bt_contains (n_tasks n) (fst (ids_id (ids_after 1 (n_ids n))))"
  shows "task_count (n_tasks (schedule_restart now i up n)) = task_count (n_tasks n)"
  unfolding schedule_restart.simps
  using assms by (cases "bt_get (n_tasks n) i")
    (auto simp: restart_decide_counts jobs_known_def)

lemma failing_counts:
  assumes "node_inv n" "jobs_known n" "ids_unused n"
    and "bt_get (n_tasks n) i = Some e" "entry_ok (f e)"
    and "\<And>e. t_id (e_task (f e)) = t_id (e_task e) \<and> t_job_name (e_task (f e)) = t_job_name (e_task e)"
  shows "task_count (n_tasks (schedule_restart now i up (node_push a (upd_entry i f n)))) = task_count (n_tasks n)"
proof -
  let ?m = "node_push a (upd_entry i f n)"
  have "node_inv ?m" using assms by (auto intro!: node_inv_upd)
  moreover have "jobs_known ?m"
    using jobs_known_upd [of f n i] assms(2,6) by (simp add: jobs_known_def)
  moreover have "1 \<le> length (n_tasks n)" using bt_get_Some_mem [OF assms(4)] by (cases "n_tasks n") auto
  then have "\<not> bt_contains (n_tasks ?m) (fst (ids_id (ids_after 1 (n_ids ?m))))"
    using unused_draw [OF assms(3), of 1] by (simp add: bt_contains_iff)
  ultimately show ?thesis using assms(6) by (simp add: schedule_restart_counts task_count_adjust)
qed

lemma on_probe_counts:
  assumes "node_inv n" "jobs_known n" "ids_unused n"
  shows "task_count (n_tasks (on_probe now i outcome n)) = task_count (n_tasks n)"
proof (cases "bt_get (n_tasks n) i")
  case (Some e)
  have "entry_ok e" by (rule node_inv_get(2) [OF assms(1) Some])
  then show ?thesis
    using failing_counts [OF assms Some]
    by (auto simp: on_probe_def Some Let_def upd_entry_compose task_count_adjust entry_ok_def
        split: prod.splits verdict.splits)
qed (simp add: on_probe_def)

lemma on_status_counts:
  assumes "node_inv n" "jobs_known n" "ids_unused n"
  shows "task_count (n_tasks (on_status now i status n)) = task_count (n_tasks n)"
proof (cases "bt_get (n_tasks n) i")
  case (Some e)
  have "entry_ok e" by (rule node_inv_get(2) [OF assms(1) Some])
  then show ?thesis
    using failing_counts [OF assms Some] on_probe_counts [OF assms]
    by (auto simp: on_status_def maybe_probe_def Some task_count_adjust entry_ok_def
        split: option.splits run_status.splits)
qed (simp add: on_status_def)

section \<open>Replacement\<close>

lemma task_count_insert_only:
  "task_count ts (t_job_name (e_task e)) = 0 \<Longrightarrow> task_count (bt_insert ts k e) (t_job_name (e_task e)) = 1"
  unfolding task_count_def by (induction ts k e rule: bt_insert.induct) (auto split: if_splits)

lemma task_count_before_start: "task_count (n_tasks (before_start now job True n)) (j_name job) = 1"
proof -
  have "task_count (filter (\<lambda>p. fst p \<notin> set (ids_of_job n (j_name job))) (n_tasks n)) (j_name job) = 0"
    by (force simp: task_count_def ids_of_job_def filter_empty_conv)
  then show ?thesis
    using task_count_insert_only [of _ "\<lparr>e_task = fresh_task now job (n_ids n), e_check = check_default,
        e_restart_at = None, e_first_start = True, e_starting = False\<rparr>"]
    by (simp add: before_start_def insert_entry_def Let_def)
qed

lemma node_run_replaces:
  assumes "node_run now job True pool n = (Inr i, n')"
  shows "task_count (n_tasks n') (j_name job) = 1"
proof -
  let ?m = "before_start now (prepare_job job) True n"
  have i: "i = fst (ids_id (n_ids n))" and n': "n' = begin_start now i ?m"
    using assms by (auto simp: node_run_eq split: if_splits sum.splits)
  obtain e where e: "bt_get (n_tasks ?m) i = Some e" "t_job_name (e_task e) = j_name job"
    by (simp add: i before_start_def insert_entry_def Let_def)
  have "bt_get (n_jobs ?m) (t_job_name (e_task e)) = Some (keep_rollout_flag n (prepare_job job))"
    using e by (simp add: before_start_def insert_entry_def Let_def)
  then obtain f where "n_tasks n' = bt_adjust (n_tasks ?m) i f" "keeps_books f"
    unfolding n' by (rule begin_start_known [OF e(1)])
  then show ?thesis
    using task_count_before_start [of now "prepare_job job" n]
    by (simp add: task_count_adjust keeps_books_def)
qed

lemma node_run_refused:
  "node_run now job replace pool n = (Inl err, n') \<Longrightarrow> n_tasks n' = n_tasks n \<and> n_jobs n' = n_jobs n"
  by (auto simp: node_run_eq refuse_def Let_def split: if_splits sum.splits)

section \<open>Properties\<close>

text \<open>
  C5. In every state the node can reach by its public methods, in any order, with any outcomes of
  starts, status reports and probes, provided that the outcome of a start is reported only for a task
  that is being started or is gone (\<open>reported_once\<close>; the code does not check it), it holds at most \<open>MAX_TASKS\<close> tasks and \<open>NODE_MAX_JOBS\<close> jobs, each under its own id or name; a
  task that waits for a restart has failed or is stopping and is not being started, and a task
  that is being started is not running.
\<close>

theorem node_reachable_inv:
  assumes "node_reachable s n"
  shows "length (n_tasks n) \<le> MAX_TASKS \<and> length (n_jobs n) \<le> NODE_MAX_JOBS \<and>
    (\<forall>k job. bt_get (n_jobs n) k = Some job \<longrightarrow> j_name job = k) \<and>
    (\<forall>k e. bt_get (n_tasks n) k = Some e \<longrightarrow>
       t_id (e_task e) = k \<and>
       (e_restart_at e \<noteq> None \<longrightarrow> t_state (e_task e) \<in> {Failed, Stopping} \<and> \<not> e_starting e) \<and>
       (e_starting e \<longrightarrow> t_state (e_task e) \<in> {Queued, Downloading, Failed}))"
proof -
  have inv: "node_inv n" using assms by (rule node_inv_reachable)
  then show ?thesis
    using node_inv_get [OF inv] jobs_inv_get [OF node_invD(2) [OF inv]]
    by (auto simp: node_inv_def tasks_inv_def jobs_inv_def entry_ok_def)
qed

definition ex_settings :: settings where
  "ex_settings = \<lparr>s_id = ''n1'', s_endpoint = ''http://10.0.0.1:8080'', s_attributes = [],
     s_cpu_cores = 4, s_memory_bytes = 1000, s_cap_cpu_shares = 0, s_cap_memory = 0,
     s_free_groups = [], s_monitor_interval = 0, s_health_timeout = 0, s_seed = 1\<rparr>"

definition ex_job :: job where
  "ex_job = job_default\<lparr>j_name := ''web'', j_command := ''serve'', j_memory_limit := 600\<rparr>"

definition ex_task :: task where
  "ex_task = task_default\<lparr>t_id := ''t1'', t_job_name := ''web'', t_driver := ''exec'',
     t_restart_count := 2, t_memory_limit := 600\<rparr>"

definition ex_node :: node where
  "ex_node = restore_entries [ex_job] [ex_task] (node_new ex_settings)"

text \<open>The task of \<open>ex_node\<close> crashed and waits for its third restart.\<close>

definition ex_waiting :: node where
  "ex_waiting = on_status 5 ''t1'' RsFailed ex_node"

lemmas ex_defs = ex_node_def ex_job_def ex_task_def ex_settings_def job_default_def task_default_def
  node_new_def restore_entries_def insert_entry_def MAX_TASKS_def NODE_MAX_JOBS_def bt_contains_def
  bt_get_def upd_entry_def bt_adjust_def node_push_def

lemma ex_node_reachable: "node_reachable ex_settings ex_node" "node_reachable ex_settings ex_waiting"
  unfolding ex_waiting_def ex_node_def by (meson node_reachable.intros node_step.intros)+

lemma ex_waiting_entry:
  "\<exists>e. bt_get (n_tasks ex_waiting) ''t1'' = Some e \<and> e_restart_at e \<noteq> None"
  by (simp add: ex_waiting_def ex_defs on_status_def schedule_restart.simps restart_decide.simps Let_def
      record_failure_def DEFAULT_MAX_RESTARTS_def time_is_zero_def case_prod_unfold)

theorem node_reachable_inv_witness:
  "\<exists>e. bt_get (n_tasks ex_waiting) ''t1'' = Some e \<and> e_restart_at e \<noteq> None \<and> t_id (e_task e) = ''t1'' \<and>
     t_state (e_task e) \<in> {Failed, Stopping} \<and> \<not> e_starting e"
  using node_reachable_inv [OF ex_node_reachable(2)] ex_waiting_entry by blast

text \<open>
  The proviso is needed: a start that failed, waits for its next try and is then reported as started
  after all is running and waits for a restart.
\<close>

lemma second_report_mixes_phases:
  "\<exists>e. bt_get (n_tasks (on_started 6 ''t1'' d (Inr ok) (on_started 5 ''t1'' d (Inl SeFailed) ex_node))) ''t1'' = Some e \<and>
     t_state (e_task e) = Running \<and> e_restart_at e \<noteq> None"
  by (simp add: ex_defs on_started_def node_started_def start_failed.simps schedule_restart.simps restart_decide.simps
      Let_def record_failure_def DEFAULT_MAX_RESTARTS_def time_is_zero_def case_prod_unfold)

text \<open>
  C6. Admission.  A job the node refuses changes neither its tasks nor its jobs.  A job that it takes
  is under the id it answers; when the job has a memory limit the reservations then fit in the
  memory the node plans with; when it replaces its predecessors it is the only task of the job.
\<close>

theorem node_run_admission:
  assumes "node_inv n"
  shows "case node_run now job replace pool n of
      (Inl err, n') \<Rightarrow> n_tasks n' = n_tasks n \<and> n_jobs n' = n_jobs n
    | (Inr i, n') \<Rightarrow>
        (\<exists>e. bt_get (n_tasks n') i = Some e \<and> t_job_name (e_task e) = j_name job) \<and>
        (0 < j_memory_limit job \<longrightarrow> snd (resource_usage n') \<le> effective_memory_bytes (n_settings n)) \<and>
        (replace \<longrightarrow> task_count (n_tasks n') (j_name job) = 1)"
proof (cases "node_run now job replace pool n")
  case (Pair r n')
  show ?thesis
  proof (cases r)
    case (Inl err)
    then show ?thesis using Pair node_run_refused by simp
  next
    case (Inr i)
    then have ok: "node_run now job replace pool n = (Inr i, n')" using Pair by simp
    obtain e where "bt_get (n_tasks n') i = Some e" "t_job_name (e_task e) = j_name job"
      "n_settings n' = n_settings n"
      by (rule node_run_ok [OF assms(1) ok]) blast
    moreover have "snd (resource_usage n') \<le> effective_memory_bytes (n_settings n')" if "0 < j_memory_limit job"
      using that by (rule node_run_fits [OF assms(1) ok])
    moreover have "task_count (n_tasks n') (j_name job) = 1" if replace
      using ok that by (intro node_run_replaces [of now job pool n i]) simp
    ultimately show ?thesis by (simp add: ok)
  qed
qed

lemma ex_run_ok: "\<exists>i n'. node_run 7 ex_job True None ex_node = (Inr i, n')"
proof -
  have "admit ex_node (prepare_job ex_job) True None = Inr ()"
    by (simp add: admit_def prepare_job_def driver_for_image_def ex_defs Let_def job_group_def
        hmap_get_def hmap_find_def binary_search_by_def resource_usage_excluding_def bt_values_def
        effective_memory_bytes_def sat_defs)
  then show ?thesis
    by (simp add: node_run_eq) (simp add: ex_defs matches_affinity_def hmap_iter_def)
qed

theorem node_run_admission_witness:
  "case node_run 7 ex_job True None ex_node of
      (Inl err, n') \<Rightarrow> False
    | (Inr i, n') \<Rightarrow> snd (resource_usage n') \<le> 1000 \<and> task_count (n_tasks n') ''web'' = 1"
proof -
  obtain i n' where ok: "node_run 7 ex_job True None ex_node = (Inr i, n')" using ex_run_ok by blast
  have "effective_memory_bytes (n_settings ex_node) = 1000" by (simp add: ex_defs effective_memory_bytes_def)
  then show ?thesis
    using node_run_admission [where job = ex_job and now = 7 and replace = True and pool = None,
        OF node_inv_reachable [OF ex_node_reachable(1)]]
    unfolding ok by (simp add: ex_job_def)
qed

lemma crash_without_job:
  assumes "bt_get (n_tasks n) i = Some e" "t_state (e_task e) = Running" "bt_get (n_jobs n) (t_job_name (e_task e)) = None"
  shows "bt_get (n_tasks (on_status now i RsFailed n)) k = (if k = i then None else bt_get (n_tasks n) k)"
  using assms by (simp add: on_status_def schedule_restart.simps restart_decide.simps upd_entry_def node_push_def)

text \<open>
  C7. A crash does not free the reservation of a task.  In a state where the node knows the jobs of
  all its tasks and the ids its generator draws next are unused, a tick (with the restarts that are
  due), a crash the monitor reports and the outcome of a health check leave the number of tasks per
  job, which is what the node reports to the leader, as it was.  (A task whose job is no longer known
  goes when it crashes: \<open>crash_without_job\<close>.)
\<close>

theorem crash_keeps_placements:
  assumes "node_inv n" "jobs_known n" "ids_unused n"
  shows "placed_task_counts (snd (node_tick now n)) = placed_task_counts n \<and>
    placed_task_counts (on_status now i status n) = placed_task_counts n \<and>
    placed_task_counts (on_probe now i outcome n) = placed_task_counts n"
  using tick_counts [OF assms] on_status_counts [OF assms] on_probe_counts [OF assms]
  by (auto intro: placed_task_counts_cong)

lemma length_id_text [simp]: "length (id_text k v) = k"
  by (induction k arbitrary: v) simp_all

lemma short_id_unused: "length i \<noteq> 16 \<Longrightarrow> fst (ids_id st) \<noteq> i"
  by (auto simp: ids_id_eq)

theorem crash_keeps_placements_witness:
  "placed_task_counts (snd (node_tick 40000000000 ex_waiting)) = placed_task_counts ex_waiting"
proof -
  obtain e where e: "n_tasks ex_waiting = [(''t1'', e)]" "t_job_name (e_task e) = ''web''"
    "n_jobs ex_waiting = [(''web'', ex_job)]"
    by (simp add: ex_waiting_def ex_defs on_status_def schedule_restart.simps restart_decide.simps Let_def
        record_failure_def DEFAULT_MAX_RESTARTS_def time_is_zero_def case_prod_unfold)
  have "jobs_known ex_waiting" by (simp add: jobs_known_def e bt_contains_def bt_get_def)
  moreover have "ids_unused ex_waiting"
    by (simp add: ids_unused_def e bt_contains_def bt_get_def short_id_unused)
  ultimately show ?thesis
    using crash_keeps_placements [OF node_inv_reachable [OF ex_node_reachable(2)]] by blast
qed

text \<open>
  C28. The first \<open>2 ^ 64\<close> ids drawn from one seed are pairwise different: the generator of
  splitmix64 is a bijection of its 64-bit state, which an odd step carries round, and the
  sixteen hexadecimal digits show all of it.
\<close>

theorem task_ids_differ:
  assumes "i < 2 ^ 64" "j < 2 ^ 64" "i \<noteq> j"
  shows "fst (ids_id (ids_after i seed)) \<noteq> fst (ids_id (ids_after j seed))"
  using assms by (rule ids_differ)

theorem task_ids_differ_witness:
  "fst (ids_id (ids_after 0 7)) \<noteq> fst (ids_id (ids_after 18446744073709551615 7))"
  by (rule task_ids_differ) simp_all

end
