(* ===== verification/Elector.thy ===== *)
theory Elector
  imports Types_Job Decimal
begin

text \<open>
  \<^verbatim>\<open>agent/src/elector.rs\<close>: the election side of a node.  It asks the owner of the lease store
  through a queue and answers every question at once from the last reply and from the timer of
  its own lease.

  The queue is a parameter: \<open>send op q\<close> tells whether the order was taken, and the queue after
  it.  A method that reads the clock takes the reading as its argument \<open>now\<close>, in milliseconds.
\<close>

section \<open>Orders, replies and state\<close>

datatype lease_op = OpRead | OpClaim | OpRenew | OpRelease

datatype lease_reply = ReRead "string option" bool | ReClaimed bool | ReRenewed bool bool

record 'q elector =
  el_ops :: 'q
  el_ttl_ms :: nat
  el_leader :: "string option"
  el_leader_at :: "nat option"
  el_store_ok :: bool
  el_reading :: bool
  el_holding :: bool
  el_expires_at :: nat
  el_renewing :: bool
  el_next_renew :: nat
  el_claiming :: bool
  el_claimed :: bool
  el_displaced :: bool
  el_notes :: "string list"

type_synonym 'q send = "lease_op \<Rightarrow> 'q \<Rightarrow> bool \<times> 'q"

definition elector_new :: "'q \<Rightarrow> nat \<Rightarrow> nat \<Rightarrow> bool \<Rightarrow> 'q elector" where
  "elector_new ops now ttl_ms holding =
     \<lparr>el_ops = ops, el_ttl_ms = ttl_ms, el_leader = None, el_leader_at = None, el_store_ok = False,
      el_reading = False, el_holding = holding,
      el_expires_at = (if holding then sat_add64 now ttl_ms else 0), el_renewing = False,
      el_next_renew = sat_add64 now (ttl_ms div 3), el_claiming = False, el_claimed = holding,
      el_displaced = False, el_notes = []\<rparr>"

definition el_send :: "'q send \<Rightarrow> lease_op \<Rightarrow> 'q elector \<Rightarrow> bool \<times> 'q elector" where
  "el_send send op e = (case send op (el_ops e) of (b, q) \<Rightarrow> (b, e\<lparr>el_ops := q\<rparr>))"

definition take_notes :: "'q elector \<Rightarrow> string list \<times> 'q elector" where
  "take_notes e = (el_notes e, e\<lparr>el_notes := []\<rparr>)"

definition el_note :: "string \<Rightarrow> 'q elector \<Rightarrow> 'q elector" where
  "el_note line e = e\<lparr>el_notes := el_notes e @ [line]\<rparr>"

section \<open>Time and replies\<close>

definition el_tick :: "'q send \<Rightarrow> nat \<Rightarrow> 'q elector \<Rightarrow> 'q elector" where
  "el_tick send now e =
     (if el_holding e \<and> \<not> el_renewing e \<and> now \<ge> el_next_renew e
      then case el_send send OpRenew (e\<lparr>el_next_renew := sat_add64 now (el_ttl_ms e div 3)\<rparr>) of
             (b, e1) \<Rightarrow> e1\<lparr>el_renewing := b\<rparr>
      else e)"

fun el_on_reply :: "nat \<Rightarrow> lease_reply \<Rightarrow> 'q elector \<Rightarrow> 'q elector" where
  "el_on_reply now (ReRead leader ok) e =
     e\<lparr>el_reading := False, el_leader := leader, el_leader_at := Some now, el_store_ok := ok\<rparr>"
| "el_on_reply now (ReClaimed got) e =
     (let e = e\<lparr>el_claiming := False\<rparr>
      in if got
         then e\<lparr>el_holding := True, el_claimed := True, el_expires_at := sat_add64 now (el_ttl_ms e),
                el_next_renew := sat_add64 now (el_ttl_ms e div 3), el_leader := None,
                el_leader_at := None\<rparr>
         else e)"
| "el_on_reply now (ReRenewed renewed displaced) e =
     (let e = e\<lparr>el_renewing := False\<rparr>
      in if \<not> el_holding e then e
         else if renewed then e\<lparr>el_expires_at := sat_add64 now (el_ttl_ms e)\<rparr>
         else if displaced
         then el_note ''hop: lease renew: another owner holds the lease, stepping down HOP_LEASE_DISPLACED''
                (e\<lparr>el_holding := False, el_displaced := True\<rparr>)
         else el_note (''hop: lease renew failed; lease valid for another '' @
                nat_text ((el_expires_at e - now) div 1000) @ '' s HOP_LEASE_RENEW_FAIL'') e)"

section \<open>Questions\<close>

definition el_get_leader :: "'q send \<Rightarrow> nat \<Rightarrow> 'q elector \<Rightarrow> string option \<times> 'q elector" where
  "el_get_leader send now e =
     (if (case el_leader_at e of Some at \<Rightarrow> now - at < el_ttl_ms e | None \<Rightarrow> False)
      then (el_leader e, e)
      else if \<not> el_reading e
      then case el_send send OpRead e of (b, e1) \<Rightarrow> (None, e1\<lparr>el_reading := b\<rparr>)
      else (None, e))"

definition el_try_become_leader :: "'q send \<Rightarrow> 'q elector \<Rightarrow> bool \<times> 'q elector" where
  "el_try_become_leader send e =
     (if el_claimed e then (True, e\<lparr>el_claimed := False\<rparr>)
      else if el_holding e \<or> el_claiming e then (False, e)
      else case el_send send OpClaim e of (b, e1) \<Rightarrow> (False, e1\<lparr>el_claiming := b\<rparr>))"

definition el_renew_lease :: "nat \<Rightarrow> 'q elector \<Rightarrow> (bool \<times> bool) \<times> 'q elector" where
  "el_renew_lease now e =
     (if el_displaced e then ((False, True), e\<lparr>el_displaced := False\<rparr>)
      else ((el_holding e \<and> now < el_expires_at e, False), e))"

definition el_release_leadership :: "'q send \<Rightarrow> 'q elector \<Rightarrow> 'q elector" where
  "el_release_leadership send e =
     snd (el_send send OpRelease
       (e\<lparr>el_holding := False, el_claimed := False, el_displaced := False, el_expires_at := 0\<rparr>))"

definition el_store_reachable :: "'q elector \<Rightarrow> bool" where
  "el_store_reachable e \<longleftrightarrow> el_leader_at e \<noteq> None \<and> el_store_ok e"

definition el_invalidate :: "'q elector \<Rightarrow> 'q elector" where
  "el_invalidate e = e\<lparr>el_leader_at := None\<rparr>"

definition el_lease_expires_at :: "'q elector \<Rightarrow> time option" where
  "el_lease_expires_at e =
     (if el_holding e then Some (sat_mul64 (el_expires_at e) MILLISECOND) else None)"

end
