(* ===== verification/Election.thy ===== *)
theory Election
  imports Elector Agent_Node
begin

text \<open>
  \<^verbatim>\<open>agent/src/election.rs\<close>: the loop that takes or finds the leadership, as a state machine.
  It asks a \<^verbatim>\<open>Discoverer\<close> (a record of functions over a state \<open>'d\<close>; \<open>elector_disc\<close> is the
  elector), tells the node where the leader is and stops its tasks when it is isolated, and
  gives its executor the requests to make.

  A method takes and returns the loop's state, the discoverer and the node: \<open>loop\<close> is the triple.
\<close>

section \<open>Interface and state\<close>

definition TAKEOVER_AFTER :: nat where "TAKEOVER_AFTER = 4"
definition ISOLATED_AFTER :: nat where "ISOLATED_AFTER = 7"

record 'd discoverer =
  di_get_leader :: "'d \<Rightarrow> string option \<times> 'd"
  di_try_become_leader :: "'d \<Rightarrow> bool \<times> 'd"
  di_renew_lease :: "'d \<Rightarrow> (bool \<times> bool) \<times> 'd"
  di_release_leadership :: "'d \<Rightarrow> 'd"
  di_store_reachable :: "'d \<Rightarrow> bool"
  di_invalidate :: "'d \<Rightarrow> 'd"
  di_lease_expires_at :: "'d \<Rightarrow> time option"

definition elector_disc :: "'q send \<Rightarrow> nat \<Rightarrow> 'q elector discoverer" where
  "elector_disc send now =
     \<lparr>di_get_leader = el_get_leader send now, di_try_become_leader = el_try_become_leader send,
      di_renew_lease = el_renew_lease now, di_release_leadership = el_release_leadership send,
      di_store_reachable = el_store_reachable, di_invalidate = el_invalidate,
      di_lease_expires_at = el_lease_expires_at\<rparr>"

datatype request =
    RqRegister string
  | RqHeartbeat string
  | RqSelfHeartbeat string
  | RqSelfRegister string
  | RqStartLeader
  | RqStopLeader

datatype link_error = LkNotRegistered | LkFailed

record election =
  ec_own_leader :: string
  ec_leading :: bool
  ec_registered :: bool
  ec_last_leader :: string
  ec_fail_count :: nat
  ec_self_beat_fails :: nat
  ec_out :: "request list"

type_synonym 'd loop = "election \<times> 'd \<times> node"

definition election_new :: "string \<Rightarrow> nat \<Rightarrow> election" where
  "election_new ip port =
     \<lparr>ec_own_leader = ip @ '':'' @ nat_text (port + 1000), ec_leading = False, ec_registered = False,
      ec_last_leader = [], ec_fail_count = 0, ec_self_beat_fails = 0, ec_out = []\<rparr>"

definition emit :: "request \<Rightarrow> election \<Rightarrow> election" where
  "emit r ec = ec\<lparr>ec_out := ec_out ec @ [r]\<rparr>"

definition publish :: "election \<Rightarrow> string \<Rightarrow> node \<Rightarrow> node" where
  "publish ec addr n =
     (let n1 = set_leader_addr addr n
      in if addr \<noteq> ec_own_leader ec then set_lease_expires_at time_ZERO n1 else n1)"

text \<open>\<^verbatim>\<open>core::mem::take(&mut self.out)\<close>, which ends every public method.\<close>

definition hand_over :: "'d loop \<Rightarrow> request list \<times> 'd loop" where
  "hand_over s = (case s of (ec, d, n) \<Rightarrow> (ec_out ec, ec\<lparr>ec_out := []\<rparr>, d, n))"

section \<open>Taking and leaving the lead\<close>

definition become_leader :: "election \<Rightarrow> node \<Rightarrow> election \<times> node" where
  "become_leader ec n =
     (let ec1 = emit RqStartLeader (ec\<lparr>ec_leading := True, ec_fail_count := 0\<rparr>)
      in (ec1, publish ec1 (ec_own_leader ec1) n))"

definition become_leader_now :: "'d discoverer \<Rightarrow> 'd loop \<Rightarrow> request list \<times> 'd loop" where
  "become_leader_now di s =
     (case s of (ec, d, n) \<Rightarrow>
        hand_over
          (if ec_leading ec then (ec, d, n)
           else case di_try_become_leader di d of
                  (True, d1) \<Rightarrow> (case become_leader ec n of (ec1, n1) \<Rightarrow> (ec1, d1, n1))
                | (False, d1) \<Rightarrow> (ec, d1, n)))"

definition step_down_inner :: "'d discoverer \<Rightarrow> bool \<Rightarrow> 'd loop \<Rightarrow> 'd loop" where
  "step_down_inner di rel s =
     (case s of (ec, d, n) \<Rightarrow>
        let was = ec_leading ec;
            ec1 = ec\<lparr>ec_leading := False, ec_registered := False, ec_last_leader := []\<rparr>;
            n1 = publish ec1 [] n
        in if \<not> was then (ec1, d, n1)
           else (emit RqStopLeader ec1, if rel then di_release_leadership di d else d, n1))"

definition step_down :: "'d discoverer \<Rightarrow> bool \<Rightarrow> 'd loop \<Rightarrow> request list \<times> 'd loop" where
  "step_down di rel s = hand_over (step_down_inner di rel s)"

definition try_take_over :: "'d discoverer \<Rightarrow> 'd loop \<Rightarrow> 'd loop" where
  "try_take_over di s =
     (case s of (ec, d, n) \<Rightarrow>
        let ec1 = ec\<lparr>ec_last_leader := []\<rparr>; n1 = publish ec1 [] n
        in case di_try_become_leader di (di_invalidate di d) of
             (True, d1) \<Rightarrow> (case become_leader ec1 n1 of (ec2, n2) \<Rightarrow> (ec2, d1, n2))
           | (False, d1) \<Rightarrow> (ec1, d1, n1))"

definition store_says_no_leader :: "'d discoverer \<Rightarrow> 'd \<Rightarrow> bool \<times> 'd" where
  "store_says_no_leader di d =
     (case di_get_leader di d of (l, d1) \<Rightarrow> (l = None \<and> di_store_reachable di d1, d1))"

definition leader_failed :: "'d discoverer \<Rightarrow> 'd loop \<Rightarrow> 'd loop" where
  "leader_failed di s =
     (case s of (ec, d, n) \<Rightarrow>
        let ec1 = ec\<lparr>ec_fail_count := sat_add32 (ec_fail_count ec) 1\<rparr>
        in case (if ec_fail_count ec1 \<ge> TAKEOVER_AFTER then try_take_over di (ec1, d, n) else (ec1, d, n)) of
             (ec2, d2, n2) \<Rightarrow>
               if ec_fail_count ec2 \<ge> ISOLATED_AFTER
               then case store_says_no_leader di d2 of
                      (none, d3) \<Rightarrow>
                        (ec2\<lparr>ec_fail_count := TAKEOVER_AFTER\<rparr>, d3, if none then n2 else snd (stop_all n2))
               else (ec2, d2, n2))"

definition no_leader :: "'d discoverer \<Rightarrow> 'd loop \<Rightarrow> 'd loop" where
  "no_leader di s =
     (case s of (ec, d, n) \<Rightarrow>
        let ec1 = ec\<lparr>ec_fail_count := sat_add32 (ec_fail_count ec) 1\<rparr>
        in if ec_fail_count ec1 \<ge> TAKEOVER_AFTER
           then case try_take_over di (ec1, d, n) of
                  (ec2, d2, n2) \<Rightarrow>
                    (if ec_leading ec2 then ec2 else ec2\<lparr>ec_fail_count := TAKEOVER_AFTER\<rparr>, d2, n2)
           else (ec1, d, n))"

section \<open>Ticks and replies\<close>

text \<open>The part of a tick while this node leads.\<close>

definition tick_leading :: "'d discoverer \<Rightarrow> nat \<Rightarrow> 'd loop \<Rightarrow> 'd loop" where
  "tick_leading di agents_connected s =
     (case s of (ec, d, n) \<Rightarrow>
        case di_renew_lease di d of ((renewed, displaced), d1) \<Rightarrow>
          let n1 = (case di_lease_expires_at di d1 of Some t \<Rightarrow> set_lease_expires_at t n | None \<Rightarrow> n)
          in if displaced then step_down_inner di False (ec, d1, n1)
             else if \<not> renewed \<and> agents_connected = 0 then step_down_inner di False (ec, d1, n1)
             else let ec1 = (if renewed then ec\<lparr>ec_fail_count := 0\<rparr> else ec)
                  in (emit (RqSelfHeartbeat (ec_own_leader ec1)) ec1, d1, n1))"

definition tick_inner :: "'d discoverer \<Rightarrow> nat \<Rightarrow> 'd loop \<Rightarrow> 'd loop" where
  "tick_inner di agents_connected s =
     (case s of (ec, d, n) \<Rightarrow>
        case (if ec_last_leader ec = []
              then (case di_get_leader di d of (l, d1) \<Rightarrow> (case l of Some a \<Rightarrow> a | None \<Rightarrow> [], d1))
              else (ec_last_leader ec, d)) of
          (leader, d1) \<Rightarrow>
            if ec_leading ec then tick_leading di agents_connected (ec, d1, n)
            else if leader \<noteq> []
            then (emit (if ec_registered ec then RqHeartbeat leader else RqRegister leader) ec, d1, n)
            else case store_says_no_leader di d1 of
                   (True, d2) \<Rightarrow> no_leader di (ec, d2, n)
                 | (False, d2) \<Rightarrow> leader_failed di (ec, d2, n))"

definition election_tick :: "'d discoverer \<Rightarrow> nat \<Rightarrow> 'd loop \<Rightarrow> request list \<times> 'd loop" where
  "election_tick di agents_connected s = hand_over (tick_inner di agents_connected s)"

fun reply_inner :: "'d discoverer \<Rightarrow> request \<Rightarrow> link_error + unit \<Rightarrow> 'd loop \<Rightarrow> 'd loop" where
  "reply_inner di (RqRegister leader) (Inr _) (ec, d, n) =
     (let ec1 = ec\<lparr>ec_registered := True, ec_fail_count := 0, ec_last_leader := leader\<rparr>
      in (ec1, d, publish ec1 leader n))"
| "reply_inner di (RqRegister leader) (Inl _) s = leader_failed di s"
| "reply_inner di (RqHeartbeat leader) (Inr _) (ec, d, n) =
     (let ec1 = ec\<lparr>ec_fail_count := 0, ec_last_leader := leader\<rparr> in (ec1, d, publish ec1 leader n))"
| "reply_inner di (RqHeartbeat leader) (Inl LkNotRegistered) (ec, d, n) =
     (ec\<lparr>ec_registered := False\<rparr>, d, n)"
| "reply_inner di (RqHeartbeat leader) (Inl LkFailed) s = leader_failed di s"
| "reply_inner di (RqSelfHeartbeat leader) (Inr _) (ec, d, n) = (ec\<lparr>ec_self_beat_fails := 0\<rparr>, d, n)"
| "reply_inner di (RqSelfHeartbeat leader) (Inl LkNotRegistered) (ec, d, n) =
     (emit (RqSelfRegister leader) ec, d, n)"
| "reply_inner di (RqSelfHeartbeat leader) (Inl LkFailed) (ec, d, n) =
     (ec\<lparr>ec_self_beat_fails := sat_add32 (ec_self_beat_fails ec) 1\<rparr>, d, n)"
| "reply_inner di (RqSelfRegister leader) (Inr _) (ec, d, n) = (ec\<lparr>ec_self_beat_fails := 0\<rparr>, d, n)"
| "reply_inner di (RqSelfRegister leader) (Inl _) (ec, d, n) =
     (ec\<lparr>ec_self_beat_fails := sat_add32 (ec_self_beat_fails ec) 1\<rparr>, d, n)"
| "reply_inner di RqStartLeader _ s = s"
| "reply_inner di RqStopLeader _ s = s"

definition election_on_reply :: "'d discoverer \<Rightarrow> request \<Rightarrow> link_error + unit \<Rightarrow> 'd loop \<Rightarrow> request list \<times> 'd loop" where
  "election_on_reply di rq result s = hand_over (reply_inner di rq result s)"

end
