(* ===== verification/Election_Properties.thy ===== *)
theory Election_Properties
  imports Election Agent_Properties
begin

text \<open>
  The elector and the election loop together.  \<open>elector_step\<close> is the elector with the queue of
  its orders: the owner of the store takes them in order and answers each one but a release.
\<close>

section \<open>The queue of the elector\<close>

text \<open>The owner of the store is there, or it is gone and takes no order.\<close>

definition queue_send :: "bool \<Rightarrow> lease_op list send" where
  "queue_send alive op q = (if alive then (True, q @ [op]) else (False, q))"

fun answers :: "lease_op \<Rightarrow> lease_reply \<Rightarrow> bool" where
  "answers OpRead (ReRead _ _) = True"
| "answers OpClaim (ReClaimed _) = True"
| "answers OpRenew (ReRenewed _ _) = True"
| "answers _ _ = False"

inductive elector_step :: "lease_op list elector \<Rightarrow> lease_op list elector \<Rightarrow> bool" where
  es_tick: "elector_step e (el_tick (queue_send alive) now e)"
| es_get_leader: "elector_step e (snd (el_get_leader (queue_send alive) now e))"
| es_become: "elector_step e (snd (el_try_become_leader (queue_send alive) e))"
| es_renew: "elector_step e (snd (el_renew_lease now e))"
| es_release: "elector_step e (el_release_leadership (queue_send alive) e)"
| es_invalidate: "elector_step e (el_invalidate e)"
| es_notes: "elector_step e (snd (take_notes e))"
| es_reply: "el_ops e = op # q \<Longrightarrow> answers op r \<Longrightarrow> elector_step e (el_on_reply now r (e\<lparr>el_ops := q\<rparr>))"
| es_released: "el_ops e = OpRelease # q \<Longrightarrow> elector_step e (e\<lparr>el_ops := q\<rparr>)"

inductive elector_reachable :: "lease_op list elector \<Rightarrow> bool" where
  er_boot: "elector_reachable (elector_new [] now ttl holding)"
| er_step: "elector_reachable e \<Longrightarrow> elector_step e e' \<Longrightarrow> elector_reachable e'"

definition outstanding :: "lease_op list elector \<Rightarrow> lease_op \<Rightarrow> nat" where
  "outstanding e op = length (filter (\<lambda>x. x = op) (el_ops e))"

definition elector_inv :: "lease_op list elector \<Rightarrow> bool" where
  "elector_inv e \<longleftrightarrow>
     outstanding e OpRead = (if el_reading e then 1 else 0) \<and>
     outstanding e OpClaim = (if el_claiming e then 1 else 0) \<and>
     outstanding e OpRenew = (if el_renewing e then 1 else 0)"

lemmas elector_ops = el_tick_def el_get_leader_def el_try_become_leader_def el_renew_lease_def
  el_release_leadership_def el_invalidate_def take_notes_def el_send_def queue_send_def el_note_def

lemma elector_inv_step: "elector_step e e' \<Longrightarrow> elector_inv e \<Longrightarrow> elector_inv e'"
proof (induction rule: elector_step.induct)
  case (es_reply e op q r now)
  then show ?case
    by (cases op; cases r) (auto simp: elector_inv_def outstanding_def elector_ops Let_def split: if_splits)
qed (auto simp: elector_inv_def outstanding_def elector_ops split: if_splits option.splits)

lemma elector_inv_reachable: "elector_reachable e \<Longrightarrow> elector_inv e"
proof (induction rule: elector_reachable.induct)
  case (er_boot now ttl holding)
  show ?case by (simp add: elector_new_def elector_inv_def outstanding_def)
qed (rule elector_inv_step)

section \<open>What the loop does to the node\<close>

text \<open>Telling the node where the leader is changes nothing else.\<close>

lemma publish_fields [simp]:
  "n_tasks (publish ec a n) = n_tasks n" "n_jobs (publish ec a n) = n_jobs n"
  "n_refused (publish ec a n) = n_refused n" "n_out (publish ec a n) = n_out n"
  "n_leader_addr (publish ec a n) = a"
  by (simp_all add: publish_def set_leader_addr_def set_lease_expires_at_def Let_def)

lemma set_lease_fields [simp]:
  "n_tasks (set_lease_expires_at t n) = n_tasks n" "n_leader_addr (set_lease_expires_at t n) = n_leader_addr n"
  by (simp_all add: set_lease_expires_at_def)

lemma emit_fields [simp]:
  "ec_leading (emit r ec) = ec_leading ec" "ec_out (emit r ec) = ec_out ec @ [r]"
  "ec_fail_count (emit r ec) = ec_fail_count ec" "ec_own_leader (emit r ec) = ec_own_leader ec"
  by (simp_all add: emit_def)

lemma stop_all_tasks [simp]: "n_tasks (snd (stop_all n)) = []"
  by (auto simp: stop_all_def Let_def bt_keys_def filter_empty_conv)

text \<open>
  Which steps can stop the tasks, and when: only the seventh failure in a row, on a node that
  did not become leader by it.
\<close>

definition spares :: "nat \<Rightarrow> node \<Rightarrow> 'd loop \<Rightarrow> bool" where
  "spares fails n s = (case s of (ec, d, n') \<Rightarrow>
     n_tasks n' = n_tasks n \<or> n_tasks n' = [] \<and> fails + 1 \<ge> ISOLATED_AFTER \<and> ec_fail_count ec = TAKEOVER_AFTER)"

lemma try_take_over_tasks:
  assumes "try_take_over di (ec, d, n) = (ec', d', n')"
  shows "n_tasks n' = n_tasks n" "ec_fail_count ec' = ec_fail_count ec \<or> ec_leading ec' \<and> ec_fail_count ec' = 0"
  using assms
  by (auto simp: try_take_over_def become_leader_def Let_def emit_def split: prod.splits bool.splits)

lemma leader_failed_spares: "spares (ec_fail_count ec) n (leader_failed di (ec, d, n))"
proof -
  define c where "c = sat_add32 (ec_fail_count ec) 1"
  have c: "c \<le> ec_fail_count ec + 1" by (simp add: c_def sat_add32_def)
  show ?thesis
  proof (cases "try_take_over di (ec\<lparr>ec_fail_count := c\<rparr>, d, n)")
    case (fields ec2 d2 n2)
    then show ?thesis
      using try_take_over_tasks [OF fields] c
      by (auto simp: leader_failed_def c_def [symmetric] spares_def Let_def TAKEOVER_AFTER_def
          ISOLATED_AFTER_def simp del: One_nat_def split: prod.splits if_splits)
  qed
qed

lemma spares_same [simp]: "spares f n (ec, d, n)"
  by (simp add: spares_def)

lemma no_leader_spares [simp]: "spares f n (no_leader di (ec, d, n))"
  by (auto simp: spares_def no_leader_def Let_def split: prod.splits dest: try_take_over_tasks(1))

lemma step_down_spares [simp]: "spares f n (step_down_inner di rel (ec, d, n))"
  by (simp add: spares_def step_down_inner_def Let_def)

lemma tick_leading_spares [simp]: "spares f n (tick_leading di k (ec, d, n))"
  by (auto simp: spares_def tick_leading_def Let_def step_down_inner_def split: prod.splits option.splits)

lemma tick_inner_spares: "spares (ec_fail_count ec) n (tick_inner di k (ec, d, n))"
  by (auto simp: tick_inner_def leader_failed_spares emit_def spares_def [of _ _ "(_, _, n)"]
      split: prod.splits bool.splits)

lemma reply_inner_spares: "spares (ec_fail_count ec) n (reply_inner di rq result (ec, d, n))"
proof -
  have "spares (ec_fail_count ec) n s"
    if "s = leader_failed di (ec, d, n) \<or> (case s of (ec', d', n') \<Rightarrow> n_tasks n' = n_tasks n)" for s
    using that leader_failed_spares [of ec n di d] by (auto simp: spares_def)
  then show ?thesis
    by (cases "(di, rq, result, (ec, d, n))" rule: reply_inner.cases) (auto simp: Let_def)
qed

section \<open>Properties\<close>

lemmas elector_disc_simps = elector_disc_def el_renew_lease_def el_lease_expires_at_def
  el_store_reachable_def el_invalidate_def

text \<open>Asking who leads sends at most one order, and touches only the flag of that order.\<close>

lemma el_get_leader_fields:
  assumes "el_get_leader send now e = (l, e')"
  shows "el_holding e' = el_holding e" "el_displaced e' = el_displaced e" "el_expires_at e' = el_expires_at e"
    "el_claimed e' = el_claimed e" "el_claiming e' = el_claiming e" "el_leader_at e' = el_leader_at e"
    "el_store_ok e' = el_store_ok e" "el_leader e' = el_leader e"
    "el_ops e' = el_ops e \<or> el_ops e' = snd (send OpRead (el_ops e))"
  using assms by (auto simp: el_get_leader_def el_send_def split: if_splits prod.splits)

text \<open>
  C13. The elector never has more than one order of a kind with the owner of the store: in every
  state that questions, ticks, orders taken and answers lead to, the queue holds one read, claim
  or renewal exactly when the flag of that kind is up, and none otherwise.
\<close>

theorem elector_one_order:
  assumes "elector_reachable e"
  shows "outstanding e OpRead = of_bool (el_reading e) \<and> outstanding e OpClaim = of_bool (el_claiming e) \<and>
    outstanding e OpRenew = of_bool (el_renewing e)"
  using elector_inv_reachable [OF assms] by (simp add: elector_inv_def)

definition ex_elector :: "bool \<Rightarrow> lease_op list elector" where
  "ex_elector holding = elector_new [] 1000 30000 holding"

theorem elector_one_order_witness:
  "outstanding (snd (el_try_become_leader (queue_send True) (ex_elector False))) OpClaim = 1"
proof -
  let ?e = "snd (el_try_become_leader (queue_send True) (ex_elector False))"
  have "elector_reachable ?e"
    unfolding ex_elector_def by (rule er_step [OF er_boot es_become])
  from elector_one_order [OF this] show ?thesis
    by (simp add: ex_elector_def elector_new_def elector_ops)
qed

text \<open>What a leading tick does, whichever way it went.\<close>

lemma leading_tick_cases:
  assumes "ec_leading ec" "election_tick (elector_disc send now) k (ec, e, n) = (rs, ec', e', n')"
  shows "ec_leading ec' = (\<not> el_displaced e \<and> (el_holding e \<and> now < el_expires_at e \<or> k > 0))"
    "rs = ec_out ec @ [if ec_leading ec' then RqSelfHeartbeat (ec_own_leader ec) else RqStopLeader]"
    "n_leader_addr n' = (if ec_leading ec' then n_leader_addr n else [])"
    "el_ops e' = el_ops e \<or> el_ops e' = snd (send OpRead (el_ops e))" "n_tasks n' = n_tasks n"
proof -
  obtain l e1 where g: "el_get_leader send now e = (l, e1)" by fastforce
  note e1 = el_get_leader_fields [OF g]
  define e2 where "e2 = (if ec_last_leader ec = [] then e1 else e)"
  have e2: "el_displaced e2 = el_displaced e" "el_holding e2 = el_holding e" "el_expires_at e2 = el_expires_at e"
    "el_ops e2 = el_ops e \<or> el_ops e2 = snd (send OpRead (el_ops e))"
    using e1 by (auto simp: e2_def)
  have "hand_over (tick_leading (elector_disc send now) k (ec, e2, n)) = (rs, ec', e', n')"
    using assms g by (auto simp: election_tick_def tick_inner_def elector_disc_def e2_def split: if_splits)
  with e2 show "ec_leading ec' = (\<not> el_displaced e \<and> (el_holding e \<and> now < el_expires_at e \<or> k > 0))"
    "rs = ec_out ec @ [if ec_leading ec' then RqSelfHeartbeat (ec_own_leader ec) else RqStopLeader]"
    "n_leader_addr n' = (if ec_leading ec' then n_leader_addr n else [])"
    "el_ops e' = el_ops e \<or> el_ops e' = snd (send OpRead (el_ops e))" "n_tasks n' = n_tasks n"
    using assms(1)
    by (auto simp: hand_over_def tick_leading_def elector_disc_simps step_down_inner_def Let_def split: if_splits)
qed

text \<open>
  C14. A leading node's tick, answered by the elector: it goes on leading exactly when nobody took
  its lease and either the lease still runs or an agent is connected; then it only sends itself a
  heartbeat.  Otherwise it tells its executor to stop the leader half, forgets the leader's
  address, and neither releases nor claims a lease.  Its tasks run on in both cases.
\<close>

theorem leading_tick:
  assumes "ec_leading ec" "election_tick (elector_disc send now) k (ec, e, n) = (rs, ec', e', n')"
  shows "ec_leading ec' = (\<not> el_displaced e \<and> (el_holding e \<and> now < el_expires_at e \<or> k > 0)) \<and>
    rs = ec_out ec @ [if ec_leading ec' then RqSelfHeartbeat (ec_own_leader ec) else RqStopLeader] \<and>
    (if ec_leading ec' then n_leader_addr n' = n_leader_addr n else n_leader_addr n' = []) \<and>
    (el_ops e' = el_ops e \<or> el_ops e' = snd (send OpRead (el_ops e))) \<and> n_tasks n' = n_tasks n"
  using leading_tick_cases [OF assms] by auto

text \<open>An election loop that has failed \<open>fails\<close> times, on a node whose leader is \<open>10.0.0.2:9080\<close>.\<close>

definition ex_election :: "bool \<Rightarrow> nat \<Rightarrow> election" where
  "ex_election leading fails = (election_new ''10.0.0.1'' 8080)\<lparr>ec_leading := leading, ec_fail_count := fails\<rparr>"

theorem leading_tick_witness:
  "\<exists>rs ec e n. election_tick (elector_disc (queue_send True) 40000) 0 (ex_election True 0, ex_elector True, ex_node) =
     (rs, ec, e, n) \<and> rs = [RqStopLeader] \<and> \<not> ec_leading ec \<and> n_tasks n = n_tasks ex_node"
proof -
  let ?r = "election_tick (elector_disc (queue_send True) 40000) 0 (ex_election True 0, ex_elector True, ex_node)"
  have l: "ec_leading (ex_election True 0)" "ec_out (ex_election True 0) = []"
    "el_expires_at (ex_elector True) = 31000"
    by (simp_all add: ex_election_def election_new_def ex_elector_def elector_new_def sat_add64_def u64_max_def)
  obtain rs ec e n where r: "?r = (rs, ec, e, n)" using prod_cases4 by blast
  from leading_tick [OF l(1) r] l show ?thesis by (simp add: r)
qed

text \<open>
  C15. Only isolation stops tasks: whatever the store answers, a tick or a reply leaves every task
  of the node as it was, or it is the seventh failure in a row, stops them all and sets the count
  back to four.
\<close>

theorem only_isolation_stops_tasks:
  assumes "election_tick di k (ec, d, n) = (rs, ec', d', n') \<or>
    election_on_reply di rq result (ec, d, n) = (rs, ec', d', n')"
  shows "n_tasks n' = n_tasks n \<or>
    n_tasks n' = [] \<and> ec_fail_count ec + 1 \<ge> ISOLATED_AFTER \<and> ec_fail_count ec' = TAKEOVER_AFTER"
  using assms tick_inner_spares [of ec n di k d] reply_inner_spares [of ec n di rq result d]
  by (auto simp: election_tick_def election_on_reply_def hand_over_def spares_def split: prod.splits)

theorem only_isolation_stops_tasks_witness:
  "\<exists>rs ec e n. election_tick (elector_disc (queue_send True) 2000) 0 (ex_election False 1, ex_elector False, ex_node) =
     (rs, ec, e, n) \<and> n_tasks n = n_tasks ex_node"
proof -
  let ?r = "election_tick (elector_disc (queue_send True) 2000) 0 (ex_election False 1, ex_elector False, ex_node)"
  obtain rs ec e n where r: "?r = (rs, ec, e, n)" using prod_cases4 by blast
  from only_isolation_stops_tasks [OF disjI1 [OF r]] have "n_tasks n = n_tasks ex_node"
    by (simp add: ex_election_def ISOLATED_AFTER_def)
  with r show ?thesis by blast
qed

text \<open>
  C16. When the store answered that nobody leads, a node that lost its leader keeps its tasks at
  every tick.  From the fourth failure on it goes for the lease: it claims it once (unless a claim
  is on its way or it holds one already), and the tick after the claim was granted makes it the
  leader, with its own address published; until then the count stays at four.
\<close>

theorem nobody_leads_takes_over:
  assumes "\<not> ec_leading ec" "ec_last_leader ec = []" "el_leader_at e = Some at" "now - at < el_ttl_ms e"
    and "el_leader e = None" "el_store_ok e"
    and "election_tick (elector_disc send now) k (ec, e, n) = (rs, ec', e', n')"
  shows "n_tasks n' = n_tasks n \<and>
    (if ec_fail_count ec + 1 < TAKEOVER_AFTER
     then \<not> ec_leading ec' \<and> ec_fail_count ec' = ec_fail_count ec + 1 \<and> e' = e
     else if el_claimed e
     then ec_leading ec' \<and> rs = ec_out ec @ [RqStartLeader] \<and> n_leader_addr n' = ec_own_leader ec
     else \<not> ec_leading ec' \<and> ec_fail_count ec' = TAKEOVER_AFTER \<and> n_leader_addr n' = [] \<and>
       el_ops e' = (if el_holding e \<or> el_claiming e then el_ops e else snd (send OpClaim (el_ops e))))"
proof -
  have "el_get_leader send now e = (None, e)" using assms(3,4,5) by (simp add: el_get_leader_def)
  with assms have "hand_over (no_leader (elector_disc send now) (ec, e, n)) = (rs, ec', e', n')"
    by (simp add: election_tick_def tick_inner_def store_says_no_leader_def elector_disc_simps)
  moreover have "sat_add32 (ec_fail_count ec) 1 = ec_fail_count ec + 1 \<and> ec_fail_count ec < 3 \<or>
      sat_add32 (ec_fail_count ec) 1 \<ge> 4 \<and> ec_fail_count ec \<ge> 3"
    by (auto simp: sat_add32_def u32_max_def)
  ultimately show ?thesis
    using assms(1)
    by (auto simp: no_leader_def hand_over_def try_take_over_def become_leader_def elector_disc_simps
        el_try_become_leader_def el_send_def TAKEOVER_AFTER_def Let_def emit_def
        split: if_splits prod.splits bool.splits)
qed

text \<open>An elector that asked who leads and heard, at time 1500, that nobody does.\<close>

definition ex_nobody :: "lease_op list elector" where
  "ex_nobody = el_on_reply 1500 (ReRead None True) (ex_elector False)"

lemma ex_nobody_fields:
  "el_leader_at ex_nobody = Some 1500" "el_leader ex_nobody = None" "el_store_ok ex_nobody"
  "el_ttl_ms ex_nobody = 30000" "\<not> el_claimed ex_nobody" "\<not> el_holding ex_nobody"
  "\<not> el_claiming ex_nobody" "el_ops ex_nobody = []"
  by (simp_all add: ex_nobody_def ex_elector_def elector_new_def)

theorem nobody_leads_takes_over_witness:
  "\<exists>rs ec e n. election_tick (elector_disc (queue_send True) 2000) 0 (ex_election False 3, ex_nobody, ex_node) =
     (rs, ec, e, n) \<and> n_tasks n = n_tasks ex_node \<and> el_ops e = [OpClaim] \<and> ec_fail_count ec = 4"
proof -
  let ?r = "election_tick (elector_disc (queue_send True) 2000) 0 (ex_election False 3, ex_nobody, ex_node)"
  obtain rs ec e n where r: "?r = (rs, ec, e, n)" using prod_cases4 by blast
  have "\<not> ec_leading (ex_election False 3)" "ec_last_leader (ex_election False 3) = []"
    "(2000::nat) - 1500 < el_ttl_ms ex_nobody" "ec_fail_count (ex_election False 3) = 3"
    by (simp_all add: ex_election_def election_new_def ex_nobody_fields)
  from nobody_leads_takes_over [OF this(1,2) ex_nobody_fields(1) this(3) ex_nobody_fields(2,3) r] this(4)
  have "n_tasks n = n_tasks ex_node \<and> el_ops e = [OpClaim] \<and> ec_fail_count ec = 4"
    by (simp add: ex_nobody_fields TAKEOVER_AFTER_def queue_send_def)
  with r show ?thesis by blast
qed

text \<open>
  The test for the store's answer in the isolation path has no effect with the elector: on the
  seventh failure of a call to the leader every task is stopped, whatever the elector last heard,
  since taking over has just made it forget the answer.
\<close>

theorem isolation_forgets_answer:
  assumes "ec_fail_count ec + 1 \<ge> ISOLATED_AFTER" "\<not> el_claimed e"
    and "election_on_reply (elector_disc send now) (RqRegister leader) (Inl err) (ec, e, n) = (rs, ec', e', n')"
  shows "n_tasks n' = [] \<and> ec_fail_count ec' = TAKEOVER_AFTER"
proof -
  have "sat_add32 (ec_fail_count ec) 1 \<ge> 7"
    using assms(1) by (auto simp: sat_add32_def u32_max_def ISOLATED_AFTER_def)
  with assms(2,3) show ?thesis
    by (auto simp: election_on_reply_def hand_over_def leader_failed_def try_take_over_def elector_disc_simps
        el_try_become_leader_def el_send_def store_says_no_leader_def el_get_leader_def TAKEOVER_AFTER_def
        ISOLATED_AFTER_def Let_def split: if_splits prod.splits bool.splits)
qed

theorem isolation_forgets_answer_witness:
  "\<exists>rs ec e n. election_on_reply (elector_disc (queue_send True) 2000) (RqRegister ''10.0.0.2:9080'') (Inl LkFailed)
       (ex_election False 6, ex_nobody, ex_node) = (rs, ec, e, n) \<and>
     fst (store_says_no_leader (elector_disc (queue_send True) 2000) ex_nobody) \<and> n_tasks ex_node \<noteq> [] \<and> n_tasks n = []"
proof -
  let ?r = "election_on_reply (elector_disc (queue_send True) 2000) (RqRegister ''10.0.0.2:9080'') (Inl LkFailed)
       (ex_election False 6, ex_nobody, ex_node)"
  obtain rs ec e n where r: "?r = (rs, ec, e, n)" using prod_cases4 by blast
  have "ec_fail_count (ex_election False 6) + 1 \<ge> ISOLATED_AFTER"
    by (simp add: ex_election_def ISOLATED_AFTER_def)
  from isolation_forgets_answer [OF this ex_nobody_fields(5) r] have "n_tasks n = []" by blast
  moreover have "fst (store_says_no_leader (elector_disc (queue_send True) 2000) ex_nobody)"
    by (simp add: store_says_no_leader_def elector_disc_simps el_get_leader_def ex_nobody_fields)
  moreover have "n_tasks ex_node \<noteq> []" by (simp add: ex_defs)
  ultimately show ?thesis using r by blast
qed

text \<open>
  A late answer of the previous leader moves a leader's clients away: a heartbeat that was
  under way when the node became leader, and is then answered, publishes the address of the other
  leader on a node that leads, and no tick on which it goes on leading publishes its own again.
\<close>

theorem late_answer_misleads:
  assumes "ec_leading ec"
    and "election_on_reply di (RqHeartbeat leader) (Inr ()) (ec, e, n) = (rs, ec1, e1, n1)"
    and "election_tick (elector_disc send now) k (ec1, e1, n1) = (rs2, ec2, e2, n2)" "ec_leading ec2"
  shows "n_leader_addr n1 = leader \<and> ec_leading ec1 \<and> n_leader_addr n2 = leader"
proof -
  have r: "n_leader_addr n1 = leader" "ec_leading ec1"
    using assms(1,2) by (auto simp: election_on_reply_def hand_over_def Let_def)
  with leading_tick_cases(3) [OF r(2) assms(3)] assms(4) show ?thesis by simp
qed

theorem late_answer_misleads_witness:
  "\<exists>rs ec e n. election_tick (elector_disc (queue_send True) 2000) 1
       (snd (election_on_reply (elector_disc (queue_send True) 2000) (RqHeartbeat ''10.0.0.2:9080'') (Inr ())
          (ex_election True 0, ex_elector True, ex_node))) = (rs, ec, e, n) \<and>
     ec_leading ec \<and> n_leader_addr n = ''10.0.0.2:9080'' \<and> ec_own_leader (ex_election True 0) = ''10.0.0.1:9080''"
proof -
  let ?d = "elector_disc (queue_send True) 2000" and ?hb = "RqHeartbeat ''10.0.0.2:9080''"
  obtain rs ec e n where a: "election_on_reply ?d ?hb (Inr ()) (ex_election True 0, ex_elector True, ex_node) = (rs, ec, e, n)"
    using prod_cases4 by blast
  obtain rs2 ec2 e2 n2 where b: "election_tick ?d 1 (ec, e, n) = (rs2, ec2, e2, n2)" using prod_cases4 by blast
  have l: "ec_leading (ex_election True 0)" by (simp add: ex_election_def)
  have e: "ec_leading ec" "e = ex_elector True"
    using a l by (auto simp: election_on_reply_def hand_over_def Let_def)
  then have "ec_leading ec2"
    using leading_tick_cases(1) [OF e(1) b] by (simp add: ex_elector_def elector_new_def)
  from late_answer_misleads [OF l a b this] this
  have "ec_leading ec2 \<and> n_leader_addr n2 = ''10.0.0.2:9080''" by blast
  moreover have "ec_own_leader (ex_election True 0) = ''10.0.0.1:9080''"
    unfolding ex_election_def by code_simp
  ultimately show ?thesis using a b by auto
qed

end
