(* ===== verification/Discovery.thy ===== *)
theory Discovery
  imports Lease Elector
begin

text \<open>
  \<^verbatim>\<open>discovery/src/lib.rs\<close> and \<^verbatim>\<open>mem.rs\<close>: the lease of a node, over a store that answers at once,
  and \<^verbatim>\<open>agentd/src/elector.rs\<close>: the thread that owns both and serves the elector's orders.

  This is the second implementation of the lease in the repository (\<open>Lease\<close> has the leader
  crate's).  It keeps another record and other errors, counts in milliseconds, plans a claim
  before it writes, and takes an optional store.  The refinement says that it does exactly what
  \<open>Claim\<close> does, on every store; so what is known about claims holds for it.
\<close>

section \<open>Record, errors and store\<close>

definition MIN_BACKEND_TIMEOUT_MS :: nat where
  "MIN_BACKEND_TIMEOUT_MS = 5000"

record disc_lease =
  dl_generation :: nat
  dl_expires_at :: nat
  dl_owner :: string

datatype disc_error = DNoLease | DLeaseHeld | DUnreachable

fun disc_error_text :: "disc_error \<Rightarrow> string" where
  "disc_error_text DNoLease = ''lease: no lease''"
| "disc_error_text DLeaseHeld = ''lease: held by another owner''"
| "disc_error_text DUnreachable = ''lease: store unreachable''"

type_synonym disc_read = "disc_error + disc_lease \<times> string"

record 's backend =
  b_read :: "'s \<Rightarrow> disc_read \<times> 's"
  b_write :: "string \<Rightarrow> disc_lease \<Rightarrow> 's \<Rightarrow> (disc_error + string) \<times> 's"
  b_delete :: "string \<Rightarrow> 's \<Rightarrow> (disc_error + unit) \<times> 's"

definition backend_timeout_for :: "nat \<Rightarrow> nat" where
  "backend_timeout_for ttl_ms =
     (let third = ttl_ms div 3
      in if third > MIN_BACKEND_TIMEOUT_MS then third else MIN_BACKEND_TIMEOUT_MS)"

definition read_leader_state :: "disc_read \<Rightarrow> nat \<Rightarrow> string option \<times> bool" where
  "read_leader_state rd now =
     (case rd of
        Inl e \<Rightarrow> if e = DNoLease then (None, True) else (None, False)
      | Inr (state, _) \<Rightarrow>
          if now > dl_expires_at state then (None, True) else (Some (dl_owner state), True))"

section \<open>The handle of a node\<close>

datatype claim_plan = PlanWrite string disc_lease | PlanFail disc_error

datatype renew_plan = RenewWrite string disc_lease | RenewClaim

record discovery =
  d_owner :: string
  d_ttl_ms :: nat
  d_timeout_ms :: nat
  d_handle :: string
  d_generation :: nat

definition discovery_new :: "string \<Rightarrow> nat \<Rightarrow> discovery" where
  "discovery_new owner ttl_ms =
     \<lparr>d_owner = owner, d_ttl_ms = ttl_ms, d_timeout_ms = backend_timeout_for ttl_ms,
      d_handle = [], d_generation = 0\<rparr>"

definition holds_handle :: "discovery \<Rightarrow> bool" where
  "holds_handle d \<longleftrightarrow> d_handle d \<noteq> []"

definition disc_lease_of :: "nat \<Rightarrow> nat \<Rightarrow> discovery \<Rightarrow> disc_lease" where
  "disc_lease_of generation now d =
     \<lparr>dl_generation = generation, dl_expires_at = sat_add64 now (d_ttl_ms d), dl_owner = d_owner d\<rparr>"

definition plan_claim :: "disc_read \<Rightarrow> nat \<Rightarrow> discovery \<Rightarrow> claim_plan" where
  "plan_claim rd now d =
     (case rd of
        Inl e \<Rightarrow> if e = DNoLease then PlanWrite [] (disc_lease_of 1 now d) else PlanFail e
      | Inr (state, handle) \<Rightarrow>
          if dl_owner state = d_owner d
          then PlanWrite handle (disc_lease_of (dl_generation state) now d)
          else if now > dl_expires_at state
          then PlanWrite handle (disc_lease_of (sat_add64 (dl_generation state) 1) now d)
          else PlanFail DLeaseHeld)"

definition renew_op :: "nat \<Rightarrow> discovery \<Rightarrow> renew_plan" where
  "renew_op now d =
     (if d_handle d = [] then RenewClaim
      else RenewWrite (d_handle d) (disc_lease_of (d_generation d) now d))"

definition on_write :: "disc_lease \<Rightarrow> disc_error + string \<Rightarrow> discovery \<Rightarrow> (disc_error + unit) \<times> discovery" where
  "on_write state result d =
     (case result of
        Inl e \<Rightarrow> (Inl e, d)
      | Inr handle \<Rightarrow> (Inr (), d\<lparr>d_handle := handle, d_generation := dl_generation state\<rparr>))"

definition take_handle :: "discovery \<Rightarrow> string \<times> discovery" where
  "take_handle d = (d_handle d, d\<lparr>d_handle := []\<rparr>)"

definition set_handle :: "string \<Rightarrow> nat \<Rightarrow> discovery \<Rightarrow> discovery" where
  "set_handle handle generation d = d\<lparr>d_handle := handle, d_generation := generation\<rparr>"

section \<open>The calls on a store\<close>

definition disc_claim :: "'s backend \<Rightarrow> nat \<Rightarrow> discovery \<Rightarrow> 's \<Rightarrow> (disc_error + unit) \<times> discovery \<times> 's" where
  "disc_claim b now d s =
     (case b_read b s of (rd, s1) \<Rightarrow>
        case plan_claim rd now d of
          PlanWrite prev state \<Rightarrow>
            (case b_write b prev state s1 of (w, s2) \<Rightarrow>
               case on_write state w d of (r, d1) \<Rightarrow> (r, d1, s2))
        | PlanFail e \<Rightarrow> (Inl e, d, s1))"

text \<open>The store is optional: a standalone node has none.\<close>

definition disc_leader_state :: "'s backend option \<Rightarrow> nat \<Rightarrow> 's \<Rightarrow> (string option \<times> bool) \<times> 's" where
  "disc_leader_state backend now s =
     (case backend of
        None \<Rightarrow> ((None, True), s)
      | Some b \<Rightarrow> case b_read b s of (rd, s1) \<Rightarrow> (read_leader_state rd now, s1))"

definition disc_get_leader :: "'s backend option \<Rightarrow> nat \<Rightarrow> 's \<Rightarrow> string option \<times> 's" where
  "disc_get_leader backend now s = (case disc_leader_state backend now s of ((l, _), s1) \<Rightarrow> (l, s1))"

definition disc_try_become_leader :: "'s backend option \<Rightarrow> nat \<Rightarrow> discovery \<Rightarrow> 's \<Rightarrow> bool \<times> discovery \<times> 's" where
  "disc_try_become_leader backend now d s =
     (case backend of
        None \<Rightarrow> (False, d, s)
      | Some b \<Rightarrow> case disc_claim b now d s of (r, d1, s1) \<Rightarrow> (r = Inr (), d1, s1))"

definition disc_renew_lease :: "'s backend option \<Rightarrow> nat \<Rightarrow> discovery \<Rightarrow> 's \<Rightarrow> (bool \<times> bool) \<times> discovery \<times> 's" where
  "disc_renew_lease backend now d s =
     (case backend of
        None \<Rightarrow> ((False, False), d, s)
      | Some b \<Rightarrow>
          case (case renew_op now d of
                  RenewWrite prev state \<Rightarrow>
                    (case b_write b prev state s of (w, s1) \<Rightarrow>
                       case on_write state w d of (r, d1) \<Rightarrow> (r, d1, s1))
                | RenewClaim \<Rightarrow> disc_claim b now d s) of
            (r, d1, s1) \<Rightarrow>
              (case r of Inr _ \<Rightarrow> (True, False) | Inl e \<Rightarrow> (False, e = DLeaseHeld), d1, s1))"

definition disc_release_leadership :: "'s backend option \<Rightarrow> discovery \<Rightarrow> 's \<Rightarrow> discovery \<times> 's" where
  "disc_release_leadership backend d s =
     (case take_handle d of (handle, d1) \<Rightarrow>
        case backend of
          Some b \<Rightarrow> (d1, if handle \<noteq> [] then snd (b_delete b handle s) else s)
        | None \<Rightarrow> (d1, s))"

definition disc_is_leader :: "'s backend option \<Rightarrow> nat \<Rightarrow> discovery \<Rightarrow> 's \<Rightarrow> bool \<times> 's" where
  "disc_is_leader backend now d s =
     (case disc_get_leader backend now s of (l, s1) \<Rightarrow> (l = Some (d_owner d), s1))"

section \<open>The store in memory\<close>

record mem_backend =
  mb_lease :: "(disc_lease \<times> string) option"
  mb_next :: nat

definition mem_backend_new :: mem_backend where
  "mem_backend_new = \<lparr>mb_lease = None, mb_next = 0\<rparr>"

definition fresh_handle :: "mem_backend \<Rightarrow> string \<times> mem_backend" where
  "fresh_handle m =
     (let n = wrap_add64 (mb_next m) 1 in (''mem-'' @ nat_text n, m\<lparr>mb_next := n\<rparr>))"

definition mb_read :: "mem_backend \<Rightarrow> disc_read \<times> mem_backend" where
  "mb_read m = (case mb_lease m of None \<Rightarrow> Inl DNoLease | Some p \<Rightarrow> Inr p, m)"

definition mb_write :: "string \<Rightarrow> disc_lease \<Rightarrow> mem_backend \<Rightarrow> (disc_error + string) \<times> mem_backend" where
  "mb_write prev state m =
     (if \<not> (case mb_lease m of None \<Rightarrow> prev = [] | Some (_, h) \<Rightarrow> h = prev)
      then (Inl DLeaseHeld, m)
      else case fresh_handle m of (h, m1) \<Rightarrow> (Inr h, m1\<lparr>mb_lease := Some (state, h)\<rparr>))"

definition mb_delete :: "string \<Rightarrow> mem_backend \<Rightarrow> (disc_error + unit) \<times> mem_backend" where
  "mb_delete handle m =
     (case mb_lease m of
        Some (_, h) \<Rightarrow> if h = handle then (Inr (), m\<lparr>mb_lease := None\<rparr>) else (Inl DLeaseHeld, m)
      | None \<Rightarrow> (Inr (), m))"

definition mem_backend_ops :: "mem_backend backend" where
  "mem_backend_ops = \<lparr>b_read = mb_read, b_write = mb_write, b_delete = mb_delete\<rparr>"

section \<open>The lease thread\<close>

definition claim_now :: "'s backend \<Rightarrow> nat \<Rightarrow> discovery \<Rightarrow> 's \<Rightarrow> bool \<times> discovery \<times> 's" where
  "claim_now b now d s = disc_try_become_leader (Some b) now d s"

text \<open>
  One order of the thread: the clock is read before the store is called, and the reply goes to
  the elector.  A release has no reply.
\<close>

fun lease_turn :: "'s backend \<Rightarrow> nat \<Rightarrow> lease_op \<Rightarrow> discovery \<Rightarrow> 's \<Rightarrow> lease_reply option \<times> discovery \<times> 's" where
  "lease_turn b now OpRead d s =
     (case disc_leader_state (Some b) now s of ((l, ok), s1) \<Rightarrow> (Some (ReRead l ok), d, s1))"
| "lease_turn b now OpClaim d s =
     (case disc_try_become_leader (Some b) now d s of (got, d1, s1) \<Rightarrow> (Some (ReClaimed got), d1, s1))"
| "lease_turn b now OpRenew d s =
     (case disc_renew_lease (Some b) now d s of
        ((renewed, displaced), d1, s1) \<Rightarrow> (Some (ReRenewed renewed displaced), d1, s1))"
| "lease_turn b now OpRelease d s =
     (case disc_release_leadership (Some b) d s of (d1, s1) \<Rightarrow> (None, d1, s1))"

section \<open>It is a claim\<close>

text \<open>The errors, the record, the store and the handle, as \<open>Lease\<close> has them.\<close>

fun error_of :: "disc_error \<Rightarrow> lease_error" where
  "error_of DNoLease = LeNoLease"
| "error_of DLeaseHeld = LeHeld"
| "error_of DUnreachable = LeUnreachable"

definition lease_of :: "disc_lease \<Rightarrow> lease_state" where
  "lease_of l = \<lparr>le_generation = dl_generation l, le_expires_at = dl_expires_at l, le_owner = dl_owner l\<rparr>"

definition disc_of :: "lease_state \<Rightarrow> disc_lease" where
  "disc_of l = \<lparr>dl_generation = le_generation l, dl_expires_at = le_expires_at l, dl_owner = le_owner l\<rparr>"

definition claim_of :: "discovery \<Rightarrow> claim" where
  "claim_of d = \<lparr>c_owner = d_owner d, c_ttl = d_ttl_ms d, c_handle = d_handle d, c_generation = d_generation d\<rparr>"

definition store_of :: "'s backend \<Rightarrow> 's lease_store" where
  "store_of b =
     \<lparr>ls_read = (\<lambda>s. map_prod (map_sum error_of (map_prod lease_of id)) id (b_read b s)),
      ls_write = (\<lambda>prev state s. map_prod (map_sum error_of id) id (b_write b prev (disc_of state) s)),
      ls_delete = (\<lambda>handle s. map_prod (map_sum error_of id) id (b_delete b handle s))\<rparr>"

fun renewal_answer :: "renewal \<Rightarrow> bool \<times> bool" where
  "renewal_answer Renewed = (True, False)"
| "renewal_answer Displaced = (False, True)"
| "renewal_answer RenewUnreachable = (False, False)"

lemma error_of_inj [simp]:
  "error_of e = LeNoLease \<longleftrightarrow> e = DNoLease" "error_of e = LeHeld \<longleftrightarrow> e = DLeaseHeld"
  by (cases e; simp)+

lemma disc_of_lease_of [simp]: "disc_of (lease_of l) = l" "lease_of (disc_of s) = s"
  by (simp_all add: disc_of_def lease_of_def)

lemma lease_of_fields [simp]:
  "le_generation (lease_of l) = dl_generation l" "le_expires_at (lease_of l) = dl_expires_at l"
  "le_owner (lease_of l) = dl_owner l"
  by (simp_all add: lease_of_def)

lemma claim_of_fields [simp]:
  "c_owner (claim_of d) = d_owner d" "c_ttl (claim_of d) = d_ttl_ms d" "c_handle (claim_of d) = d_handle d"
  "c_generation (claim_of d) = d_generation d"
  "(claim_of d)\<lparr>c_handle := h\<rparr> = claim_of (d\<lparr>d_handle := h\<rparr>)"
  "(claim_of d)\<lparr>c_handle := h, c_generation := g\<rparr> = claim_of (d\<lparr>d_handle := h, d_generation := g\<rparr>)"
  by (simp_all add: claim_of_def)

text \<open>One write and what it does to the handle: \<open>refresh\<close> of a claim.\<close>

lemma refresh_store_of:
  "refresh (store_of b) prev g now (claim_of d) s =
     (case b_write b prev (disc_lease_of g now d) s of (w, s1) \<Rightarrow>
        case on_write (disc_lease_of g now d) w d of (r, d1) \<Rightarrow> (map_sum error_of id r, claim_of d1, s1))"
  by (auto simp: refresh_def store_of_def disc_of_def disc_lease_of_def on_write_def
      split: prod.splits sum.splits)

lemma disc_claim_refines:
  "try_claim (store_of b) now (claim_of d) s =
     (case disc_claim b now d s of (r, d1, s1) \<Rightarrow> (map_sum error_of id r, claim_of d1, s1))"
proof (cases "b_read b s")
  case (Pair rd s1)
  then have rd: "ls_read (store_of b) s = (map_sum error_of (map_prod lease_of id) rd, s1)"
    by (simp add: store_of_def)
  show ?thesis
  proof (cases rd)
    case (Inl e)
    with Pair rd show ?thesis
      by (auto simp: try_claim_def disc_claim_def plan_claim_def refresh_store_of split: prod.splits)
  next
    case (Inr p)
    with Pair rd show ?thesis
      by (cases p) (auto simp: try_claim_def disc_claim_def plan_claim_def refresh_store_of split: prod.splits)
  qed
qed

lemma renewal_answer_error [simp]:
  "renewal_answer (renewal_of (Inl (error_of e))) = (False, e = DLeaseHeld)"
  by (cases e) auto

lemma renewal_of_error:
  "renewal_answer (renewal_of (map_sum error_of id r)) =
     (case r of Inr _ \<Rightarrow> (True, False) | Inl e \<Rightarrow> (False, e = DLeaseHeld))"
  by (cases r) auto

lemma disc_renew_refines:
  "(case renew (store_of b) now (claim_of d) s of (r, c1, s1) \<Rightarrow> (renewal_answer r, c1, s1)) =
     (case disc_renew_lease (Some b) now d s of (a, d1, s1) \<Rightarrow> (a, claim_of d1, s1))"
proof (cases "d_handle d = []")
  case True
  then show ?thesis
    by (auto simp: renew_def disc_renew_lease_def renew_op_def disc_claim_refines renewal_of_error split: prod.splits)
next
  case False
  obtain w s1 where w: "b_write b (d_handle d) (disc_lease_of (d_generation d) now d) s = (w, s1)" by fastforce
  have "disc_lease_of g t (d\<lparr>d_handle := []\<rparr>) = disc_lease_of g t d" for g t by (simp add: disc_lease_of_def)
  then have "refresh (store_of b) (d_handle d) (d_generation d) now (claim_of (d\<lparr>d_handle := []\<rparr>)) s =
      (case on_write (disc_lease_of (d_generation d) now d) w (d\<lparr>d_handle := []\<rparr>) of
         (r, d1) \<Rightarrow> (map_sum error_of id r, claim_of d1, s1))"
    by (simp add: refresh_store_of w)
  with False w show ?thesis
    by (cases w) (auto simp: renew_def disc_renew_lease_def renew_op_def on_write_def renewal_of_error
        disc_lease_of_def)
qed

lemma disc_become_refines:
  "try_become_leader (store_of b) now (claim_of d) s =
     (case disc_try_become_leader (Some b) now d s of (got, d1, s1) \<Rightarrow> (got, claim_of d1, s1))"
  by (auto simp: try_become_leader_def disc_try_become_leader_def disc_claim_refines map_sum_def
      split: prod.splits sum.splits)

lemma disc_release_refines:
  "release (store_of b) (claim_of d) s =
     (case disc_release_leadership (Some b) d s of (d1, s1) \<Rightarrow> (claim_of d1, s1))"
  by (simp add: release_def disc_release_leadership_def take_handle_def store_of_def Let_def)

lemma disc_leader_state_refines: "leader_state (store_of b) now s = disc_leader_state (Some b) now s"
  by (auto simp: leader_state_def disc_leader_state_def read_leader_state_def store_of_def
      split: prod.splits sum.splits)

end
