(* ===== verification/Discovery_Properties.thy ===== *)
theory Discovery_Properties
  imports Discovery
begin

text \<open>
  What the lease of \<open>Discovery\<close> promises: it refines the claim of \<open>Lease\<close> on every store; the
  lease threads of a cluster exclude each other on the store in memory; and how far the timer of
  the elector reaches beyond the record.
\<close>

section \<open>The refinement\<close>

text \<open>
  C9. Discovery implements the claim: on every store, seen through the translation of errors,
  records and handles, an attempt to become leader, a renewal, a release and the question who
  leads give the claim's answer, leave the claim's handle and generation, and make the same calls
  on the store.
\<close>

theorem discovery_refines_claim:
  "try_become_leader (store_of b) now (claim_of d) s =
     (case disc_try_become_leader (Some b) now d s of (got, d1, s1) \<Rightarrow> (got, claim_of d1, s1)) \<and>
   (case renew (store_of b) now (claim_of d) s of (r, c1, s1) \<Rightarrow> (renewal_answer r, c1, s1)) =
     (case disc_renew_lease (Some b) now d s of (a, d1, s1) \<Rightarrow> (a, claim_of d1, s1)) \<and>
   release (store_of b) (claim_of d) s =
     (case disc_release_leadership (Some b) d s of (d1, s1) \<Rightarrow> (claim_of d1, s1)) \<and>
   leader_state (store_of b) now s = disc_leader_state (Some b) now s \<and>
   is_leader (store_of b) now (claim_of d) s = disc_is_leader (Some b) now d s"
proof (intro conjI)
  show "try_become_leader (store_of b) now (claim_of d) s =
     (case disc_try_become_leader (Some b) now d s of (got, d1, s1) \<Rightarrow> (got, claim_of d1, s1))"
    by (rule disc_become_refines)
  show "release (store_of b) (claim_of d) s =
     (case disc_release_leadership (Some b) d s of (d1, s1) \<Rightarrow> (claim_of d1, s1))"
    by (rule disc_release_refines)
  show ls: "leader_state (store_of b) now s = disc_leader_state (Some b) now s"
    by (rule disc_leader_state_refines)
  show "is_leader (store_of b) now (claim_of d) s = disc_is_leader (Some b) now d s"
    by (auto simp: is_leader_def disc_is_leader_def disc_get_leader_def ls split: prod.splits)
qed (rule disc_renew_refines)

section \<open>Many nodes on the store in memory\<close>

text \<open>
  Each node has its lease thread; the threads take turns on the store.  The number counts the
  orders served: the handles of the store repeat after \<open>2 ^ 64\<close> writes.
\<close>

inductive lease_threads :: "'s backend \<Rightarrow> 's \<Rightarrow> nat \<Rightarrow> (nat \<Rightarrow> discovery) \<times> 's \<Rightarrow> bool" for b s0 where
  lt_boot: "\<forall>i. d_handle (ds i) = [] \<Longrightarrow> lease_threads b s0 0 (ds, s0)"
| lt_turn: "lease_threads b s0 k (ds, s) \<Longrightarrow> lease_turn b now op (ds i) s = (r, d, s') \<Longrightarrow>
    lease_threads b s0 (Suc k) (ds(i := d), s')"

text \<open>A store that answers no more when its handles are used up keeps the contract of a store.\<close>

definition guarded_ops :: "mem_backend backend" where
  "guarded_ops = mem_backend_ops\<lparr>b_write := \<lambda>prev state m.
     if mb_next m < u64_max then mb_write prev state m else (Inl DUnreachable, m)\<rparr>"

definition mb_content :: "mem_backend \<Rightarrow> (lease_state \<times> string) option" where
  "mb_content m = map_option (map_prod lease_of id) (mb_lease m)"

definition mb_used :: "mem_backend \<Rightarrow> string set" where
  "mb_used m = (\<lambda>n. ''mem-'' @ nat_text n) ` {1..mb_next m}"

definition mb_inv :: "mem_backend \<Rightarrow> bool" where
  "mb_inv m = (case mb_lease m of None \<Rightarrow> True | Some (_, h) \<Rightarrow> h \<in> mb_used m)"

lemmas mb_simps = store_of_def guarded_ops_def mem_backend_ops_def mb_read_def mb_write_def mb_delete_def
  fresh_handle_def Let_def

lemma wrap_next: "n < u64_max \<Longrightarrow> wrap_add64 n (Suc 0) = Suc n"
  by (simp add: wrap_add64_def u64_max_def)

lemma mb_used_next: "''mem-'' @ nat_text (Suc (mb_next m)) \<notin> mb_used m"
  by (auto simp: mb_used_def)

interpretation mb: cas_record "store_of guarded_ops" mb_content mb_used mb_inv
proof (unfold_locales, goal_cases)
  case (1 s st h)
  then show ?case by (auto simp: mb_inv_def mb_content_def mb_used_def)
next
  case (2 s rr s')
  then show ?case by (auto simp: mb_simps)
next
  case (3 s p s')
  then show ?case by (auto simp: mb_simps mb_content_def split: option.splits)
next
  case (4 s s')
  then show ?case by (auto simp: mb_simps mb_content_def split: option.splits)
next
  case (5 s prev st rw s')
  then show ?case
    by (auto simp: mb_simps mb_inv_def mb_used_def wrap_next split: option.splits if_splits)
next
  case (6 s prev st h s')
  then show ?case using mb_used_next [of s]
    by (auto simp: mb_simps mb_content_def mb_inv_def mb_used_def wrap_next cas_match_def split: option.splits if_splits)
next
  case (7 s prev st s')
  then show ?case
    by (auto simp: mb_simps mb_content_def mb_inv_def mb_used_def cas_match_def split: option.splits if_splits)
next
  case (8 s prev st e s')
  then show ?case
    by (auto simp: mb_simps split: option.splits if_splits)
next
  case (9 s handle rd s')
  then show ?case
    by (auto simp: mb_simps mb_inv_def mb_used_def mb_content_def split: option.splits if_splits)
qed

lemma mb_inv_new [simp]: "mb_inv mem_backend_new"
  by (simp add: mb_inv_def mem_backend_new_def)

text \<open>Before the handles are used up the two stores do the same.\<close>

lemma guarded_turn:
  assumes "mb_next m < u64_max"
  shows "lease_turn mem_backend_ops now op d m = lease_turn guarded_ops now op d m"
proof -
  have r: "b_read mem_backend_ops m = b_read guarded_ops m" "b_delete mem_backend_ops h m = b_delete guarded_ops h m"
    "b_write mem_backend_ops prev st m = b_write guarded_ops prev st m" "snd (b_read guarded_ops m) = m" for h prev st
    using assms by (simp_all add: guarded_ops_def mem_backend_ops_def mb_read_def)
  have "disc_claim mem_backend_ops now d m = disc_claim guarded_ops now d m"
    using r(4) by (cases "b_read guarded_ops m") (simp add: disc_claim_def r split: claim_plan.splits)
  with r show ?thesis
    by (cases op) (simp_all add: disc_leader_state_def disc_try_become_leader_def disc_renew_lease_def
        disc_release_leadership_def split: renew_plan.splits prod.splits)
qed

lemma mb_next_write: "mb_next (snd (mb_write prev st m)) \<le> Suc (mb_next m)"
  by (auto simp: mb_write_def fresh_handle_def Let_def wrap_add64_def mod_Suc split: prod.splits)

lemma mb_next_claim: "mb_next (snd (snd (disc_claim mem_backend_ops now d m))) \<le> Suc (mb_next m)"
  using mb_next_write [of _ _ m]
  by (auto simp: disc_claim_def mem_backend_ops_def mb_read_def split: prod.splits claim_plan.splits)
    (metis snd_conv)

lemma mb_next_turn:
  assumes "lease_turn mem_backend_ops now op d m = (r, d', m')"
  shows "mb_next m' \<le> Suc (mb_next m)"
proof (cases op)
  case OpRead
  with assms show ?thesis
    by (auto simp: disc_leader_state_def mem_backend_ops_def mb_read_def split: prod.splits)
next
  case OpClaim
  with assms mb_next_claim [of now d m] show ?thesis
    by (auto simp: disc_try_become_leader_def split: prod.splits)
next
  case OpRenew
  with assms mb_next_claim [of now d m] mb_next_write [of "d_handle d" "disc_lease_of (d_generation d) now d" m]
  show ?thesis
    by (auto simp: disc_renew_lease_def renew_op_def mem_backend_ops_def split: prod.splits if_splits)
next
  case OpRelease
  with assms show ?thesis
    by (auto simp: disc_release_leadership_def take_handle_def mem_backend_ops_def mb_delete_def
        split: prod.splits option.splits if_splits)
qed

text \<open>A turn of a lease thread is a turn of its claim.\<close>

lemma turn_is_claim_step:
  assumes "lease_turn b now op (ds i) s = (r, d, s')"
  shows "lease_step (store_of b) (claim_of \<circ> ds, s) (claim_of \<circ> (ds(i := d)), s')"
proof -
  have upd: "claim_of \<circ> (ds(i := d)) = (claim_of \<circ> ds)(i := claim_of d)" by auto
  show ?thesis
  proof (cases op)
    case OpRead
    with assms have "leader_state (store_of b) now s = (fst (disc_leader_state (Some b) now s), s')" "d = ds i"
      by (auto simp: disc_leader_state_refines split: prod.splits)
    then show ?thesis using lease_step.look [of "store_of b" now s _ s' "claim_of \<circ> ds"] by simp
  next
    case OpClaim
    with assms obtain got where "try_become_leader (store_of b) now ((claim_of \<circ> ds) i) s = (got, claim_of d, s')"
      by (auto simp: disc_become_refines split: prod.splits)
    then show ?thesis unfolding upd by (rule lease_step.become)
  next
    case OpRenew
    with assms disc_renew_refines [of b now "ds i" s] obtain a
      where "renew (store_of b) now ((claim_of \<circ> ds) i) s = (a, claim_of d, s')"
      by (auto split: prod.splits)
    then show ?thesis unfolding upd by (rule lease_step.renew)
  next
    case OpRelease
    with assms have "release (store_of b) ((claim_of \<circ> ds) i) s = (claim_of d, s')"
      by (auto simp: disc_release_refines split: prod.splits)
    then show ?thesis unfolding upd by (rule lease_step.release)
  qed
qed

lemma threads_are_claims:
  assumes "lease_threads mem_backend_ops mem_backend_new k st" "k \<le> u64_max"
  shows "lease_reachable (store_of guarded_ops) mem_backend_new (claim_of \<circ> fst st, snd st) \<and> mb_next (snd st) \<le> k"
  using assms
proof (induction rule: lease_threads.induct)
  case (lt_boot ds)
  then show ?case by (auto simp: mem_backend_new_def intro: lease_reachable.init)
next
  case (lt_turn k ds m now op i r d m')
  then have ih: "lease_reachable (store_of guarded_ops) mem_backend_new (claim_of \<circ> ds, m)" "mb_next m \<le> k"
    "mb_next m < u64_max" by (auto simp: comp_def)
  from lt_turn(2) have "lease_turn guarded_ops now op (ds i) m = (r, d, m')"
    by (simp add: guarded_turn [OF ih(3)])
  from lease_reachable.step [OF ih(1) turn_is_claim_step [of _ _ _ ds i, OF this]] mb_next_turn [OF lt_turn(2)] ih(2)
  show ?case by (auto simp: comp_def)
qed

text \<open>
  C10. The lease threads of a cluster exclude each other: whatever orders they serve on one store
  in memory, in any order and at any times, up to the \<open>2 ^ 64 - 1\<close> handles it can give out, the
  record's handle is that of at most one node, and the record then carries that node's address and
  generation.  Every other node that thinks it holds a handle is told by its next renewal that it
  was displaced.
\<close>

theorem lease_threads_exclude:
  assumes "lease_threads mem_backend_ops mem_backend_new k (ds, m)" "k \<le> u64_max"
    and "mb_lease m = Some (l, d_handle (ds i))"
  shows "dl_owner l = d_owner (ds i) \<and> dl_generation l = d_generation (ds i) \<and>
    (\<forall>j. j \<noteq> i \<longrightarrow> d_handle (ds j) \<noteq> d_handle (ds i) \<and>
      (holds_handle (ds j) \<longrightarrow>
        lease_turn mem_backend_ops now OpRenew (ds j) m = (Some (ReRenewed False True), ds j, m)))"
proof -
  have reach: "lease_reachable (store_of guarded_ops) mem_backend_new (claim_of \<circ> ds, m)"
    using threads_are_claims [OF assms(1,2)] by simp
  have content: "mb_content m = Some (lease_of l, d_handle (ds i))" by (simp add: mb_content_def assms(3))
  have own: "i = j \<and> dl_owner l = d_owner (ds i) \<and> dl_generation l = d_generation (ds i)"
    if "d_handle (ds j) = d_handle (ds i)" for j
  proof -
    have "mb_content m = Some (lease_of l, c_handle ((claim_of \<circ> ds) i))"
      "mb_content m = Some (lease_of l, c_handle ((claim_of \<circ> ds) j))"
      using content that by simp_all
    from mb.one_holder [OF reach mb_inv_new this] show ?thesis by simp
  qed
  then have diff: "d_handle (ds j) \<noteq> d_handle (ds i)" if "j \<noteq> i" for j using own [of j] that by auto
  have "lease_turn mem_backend_ops now OpRenew (ds j) m = (Some (ReRenewed False True), ds j, m)"
    if "j \<noteq> i" "holds_handle (ds j)" for j
    using assms(3) diff [OF that(1)] that(2)
    by (auto simp: disc_renew_lease_def renew_op_def holds_handle_def mem_backend_ops_def mb_write_def on_write_def)
  with own diff show ?thesis by blast
qed

definition ex_discs :: "nat \<Rightarrow> discovery" where
  "ex_discs i = discovery_new (if i = 0 then ''a:1'' else ''b:1'') 10"

theorem lease_threads_exclude_witness:
  "\<exists>ds m l. mb_lease m = Some (l, d_handle (ds 1)) \<and> dl_owner l = ''b:1'' \<and> d_handle (ds 0) = ''mem-1'' \<and>
     lease_turn mem_backend_ops 20 OpRenew (ds (0::nat)) m = (Some (ReRenewed False True), ds 0, m)"
proof -
  define r0 where "r0 = lease_turn mem_backend_ops 5 OpClaim (ex_discs 0) mem_backend_new"
  define r1 where "r1 = lease_turn mem_backend_ops 16 OpClaim (ex_discs 1) (snd (snd r0))"
  let ?ds = "ex_discs(0 := fst (snd r0), 1 := fst (snd r1))" and ?m = "snd (snd r1)"
  have "lease_threads mem_backend_ops mem_backend_new 0 (ex_discs, mem_backend_new)"
    by (rule lt_boot) (simp add: ex_discs_def discovery_new_def)
  then have "lease_threads mem_backend_ops mem_backend_new (Suc 0) (ex_discs(0 := fst (snd r0)), snd (snd r0))"
    by (rule lt_turn [of _ _ _ _ _ 5 OpClaim _ "fst r0"]) (simp add: r0_def)
  then have reach: "lease_threads mem_backend_ops mem_backend_new (Suc (Suc 0)) (?ds, ?m)"
    by (rule lt_turn [of _ _ _ _ _ 16 OpClaim _ "fst r1"]) (simp add: r1_def)
  have now: "mb_lease ?m = Some (\<lparr>dl_generation = 2, dl_expires_at = 26, dl_owner = ''b:1''\<rparr>, d_handle (?ds 1))"
    "d_handle (?ds 0) = ''mem-1''" unfolding r1_def r0_def by code_simp+
  have "Suc (Suc 0) \<le> u64_max" by (simp add: u64_max_def)
  from lease_threads_exclude [OF reach this now(1), of 20, THEN conjunct2, THEN conjunct2, THEN spec [of _ 0]] now(2)
  have "lease_turn mem_backend_ops 20 OpRenew (?ds 0) ?m = (Some (ReRenewed False True), ?ds 0, ?m)"
    by (simp add: holds_handle_def)
  with now show ?thesis by (intro exI [of _ ?ds] exI [of _ ?m]) auto
qed

section \<open>The timer and the record\<close>

text \<open>A renewal that succeeded wrote the node's own record.\<close>

lemma written_record:
  assumes "mb_write prev (disc_lease_of g t d) m = (w, m')" "on_write (disc_lease_of g t d) w d = (Inr (), d')"
  shows "mb_lease m' = Some (disc_lease_of g t d, d_handle d')"
  using assms by (auto simp: mb_write_def on_write_def fresh_handle_def Let_def split: if_splits sum.splits)

lemma renewed_record:
  assumes "lease_turn mem_backend_ops t OpRenew d m = (Some (ReRenewed True w), d', m')"
  shows "\<exists>g. mb_lease m' = Some (disc_lease_of g t d, d_handle d')"
proof -
  have "\<exists>prev g v. mb_write prev (disc_lease_of g t d) m = (v, m') \<and> on_write (disc_lease_of g t d) v d = (Inr (), d')"
    using assms
    by (auto simp: disc_renew_lease_def renew_op_def disc_claim_def plan_claim_def mem_backend_ops_def mb_read_def
        split: prod.splits sum.splits if_splits option.splits; blast)
  then show ?thesis using written_record by blast
qed

text \<open>
  C17. How long the elector trusts a renewal.  The thread reads the clock at \<open>t\<close>, before it calls
  the store; the elector reads it at \<open>u\<close>, when the reply arrives.  From then on the elector answers
  that the lease is still ours until \<open>u\<close> plus the time to live, while the store gives the lease to
  another node as soon as \<open>t\<close> plus the time to live is past.  So with a reply that took no time the
  two exclude each other, and otherwise there is a window as long as the call in which the old
  leader still leads by its timer and a new one has the lease.
\<close>

theorem lease_timer_window:
  assumes "lease_turn mem_backend_ops t OpRenew d m = (Some (ReRenewed True w), d', m')"
    and "el_holding e" "\<not> el_displaced e" "el_ttl_ms e = d_ttl_ms d" "t \<le> u" "u + d_ttl_ms d \<le> u64_max"
    and "d_owner other \<noteq> d_owner d"
  shows "fst (el_renew_lease now (el_on_reply u (ReRenewed True w) e)) = (now < u + d_ttl_ms d, False) \<and>
    fst (lease_turn mem_backend_ops now OpClaim other m') = Some (ReClaimed (t + d_ttl_ms d < now))"
proof -
  obtain g where l: "mb_lease m' = Some (\<lparr>dl_generation = g, dl_expires_at = sat_add64 t (d_ttl_ms d),
      dl_owner = d_owner d\<rparr>, d_handle d')"
    using renewed_record [OF assms(1)] by (auto simp: disc_lease_of_def)
  have "sat_add64 u (d_ttl_ms d) = u + d_ttl_ms d" "sat_add64 t (d_ttl_ms d) = t + d_ttl_ms d"
    using assms(5,6) by (simp_all add: sat_add64_def)
  with l assms(2,3,4,7) show ?thesis
    by (auto simp: el_renew_lease_def disc_try_become_leader_def disc_claim_def plan_claim_def mem_backend_ops_def
        mb_read_def mb_write_def fresh_handle_def on_write_def Let_def split: prod.splits)
qed

theorem lease_timer_window_witness:
  "\<exists>d m d' m'. lease_turn mem_backend_ops 10 OpRenew d m = (Some (ReRenewed True False), d', m') \<and>
     fst (el_renew_lease 22 (el_on_reply 14 (ReRenewed True False) (elector_new () 5 10 True))) = (True, False) \<and>
     fst (lease_turn mem_backend_ops 22 OpClaim (ex_discs 1) m') = Some (ReClaimed True)"
proof -
  define r where "r = lease_turn mem_backend_ops 5 OpClaim (ex_discs 0) mem_backend_new"
  let ?d = "fst (snd r)" and ?m = "snd (snd r)" and ?e = "elector_new () 5 10 True"
  define q where "q = lease_turn mem_backend_ops 10 OpRenew ?d ?m"
  have "fst q = Some (ReRenewed True False)" unfolding q_def r_def by code_simp
  then have q: "lease_turn mem_backend_ops 10 OpRenew ?d ?m = (Some (ReRenewed True False), fst (snd q), snd (snd q))"
    unfolding q_def by (metis prod.collapse)
  have d: "d_ttl_ms ?d = 10" "d_owner ?d = ''a:1''" "d_owner (ex_discs 1) = ''b:1''" unfolding r_def by code_simp+
  have e: "el_holding ?e" "\<not> el_displaced ?e" "el_ttl_ms ?e = d_ttl_ms ?d"
    by (simp_all add: elector_new_def d)
  have n: "(10::nat) \<le> 14" "14 + d_ttl_ms ?d \<le> u64_max" "d_owner (ex_discs 1) \<noteq> d_owner ?d"
    using d by (simp_all add: u64_max_def)
  have "fst (el_renew_lease 22 (el_on_reply 14 (ReRenewed True False) ?e)) = (True, False) \<and>
      fst (lease_turn mem_backend_ops 22 OpClaim (ex_discs 1) (snd (snd q))) = Some (ReClaimed True)"
    using lease_timer_window [OF q e n, of 22] unfolding d by simp
  with q show ?thesis by blast
qed

end
