(* ===== verification/Sha256.thy ===== *)
theory Sha256
  imports Utf8 "HOL-Library.Word"
begin

unbundle bit_operations_syntax

text \<open>
  \<^verbatim>\<open>auth/src/sha256.rs\<close>: SHA-256 over 32-bit words, fed in pieces through a block of 64 bytes.
  Bytes are characters.  \<open>None\<close> is a run that gives no result: the subtraction \<open>64 - filled\<close> would
  overflow, or the padding would never reach byte 56; neither happens to a hash made by \<open>sha_new\<close>.

  The reference definition pads the whole message and folds the compression over its blocks.
  Feeding the message in any pieces gives the same hash.
\<close>

section \<open>Constants\<close>

definition sha_K :: "32 word list" where
  "sha_K = concat
    [[0x428a2f98, 0x71374491, 0xb5c0fbcf, 0xe9b5dba5, 0x3956c25b, 0x59f111f1, 0x923f82a4, 0xab1c5ed5],
     [0xd807aa98, 0x12835b01, 0x243185be, 0x550c7dc3, 0x72be5d74, 0x80deb1fe, 0x9bdc06a7, 0xc19bf174],
     [0xe49b69c1, 0xefbe4786, 0x0fc19dc6, 0x240ca1cc, 0x2de92c6f, 0x4a7484aa, 0x5cb0a9dc, 0x76f988da],
     [0x983e5152, 0xa831c66d, 0xb00327c8, 0xbf597fc7, 0xc6e00bf3, 0xd5a79147, 0x06ca6351, 0x14292967],
     [0x27b70a85, 0x2e1b2138, 0x4d2c6dfc, 0x53380d13, 0x650a7354, 0x766a0abb, 0x81c2c92e, 0x92722c85],
     [0xa2bfe8a1, 0xa81a664b, 0xc24b8b70, 0xc76c51a3, 0xd192e819, 0xd6990624, 0xf40e3585, 0x106aa070],
     [0x19a4c116, 0x1e376c08, 0x2748774c, 0x34b0bcb5, 0x391c0cb3, 0x4ed8aa4a, 0x5b9cca4f, 0x682e6ff3],
     [0x748f82ee, 0x78a5636f, 0x84c87814, 0x8cc70208, 0x90befffa, 0xa4506ceb, 0xbef9a3f7, 0xc67178f2]]"

type_synonym sha_state = "32 word list"

definition sha_H0 :: sha_state where
  "sha_H0 =
    [0x6a09e667, 0xbb67ae85, 0x3c6ef372, 0xa54ff53a, 0x510e527f, 0x9b05688c, 0x1f83d9ab, 0x5be0cd19]"

section \<open>The compression\<close>

text \<open>\<^verbatim>\<open>u32::from_be_bytes\<close> over the chunks of four bytes, and \<^verbatim>\<open>to_be_bytes\<close>.\<close>

fun be_words :: "string \<Rightarrow> 32 word list" where
  "be_words (a # b # c # d # s) =
     word_of_nat (((byte a * 256 + byte b) * 256 + byte c) * 256 + byte d) # be_words s"
| "be_words _ = []"

definition be_bytes :: "32 word \<Rightarrow> string" where
  "be_bytes w = map (\<lambda>k. char_of (unat (drop_bit k w) mod 256)) [24, 16, 8, 0]"

definition schedule_word :: "32 word list \<Rightarrow> nat \<Rightarrow> 32 word" where
  "schedule_word w i =
     (let s0 = word_rotr 7 (w ! (i - 15)) XOR word_rotr 18 (w ! (i - 15)) XOR drop_bit 3 (w ! (i - 15));
          s1 = word_rotr 17 (w ! (i - 2)) XOR word_rotr 19 (w ! (i - 2)) XOR drop_bit 10 (w ! (i - 2))
      in w ! (i - 16) + s0 + w ! (i - 7) + s1)"

text \<open>The array \<open>w\<close> as the loop fills it: the words up to index \<open>i\<close>.\<close>

definition sha_schedule :: "string \<Rightarrow> 32 word list" where
  "sha_schedule block = foldl (\<lambda>w i. w @ [schedule_word w i]) (be_words block) [16..<64]"

type_synonym sha_vars = "32 word \<times> 32 word \<times> 32 word \<times> 32 word \<times> 32 word \<times> 32 word \<times> 32 word \<times> 32 word"

definition sha_round :: "sha_vars \<Rightarrow> 32 word \<times> 32 word \<Rightarrow> sha_vars" where
  "sha_round v p =
     (case (v, p) of ((a, b, c, d, e, f, g, h), (k, wi)) \<Rightarrow>
        let s1 = word_rotr 6 e XOR word_rotr 11 e XOR word_rotr 25 e;
            ch = (e AND f) XOR (NOT e AND g);
            t1 = h + s1 + ch + k + wi;
            s0 = word_rotr 2 a XOR word_rotr 13 a XOR word_rotr 22 a;
            maj = (a AND b) XOR (a AND c) XOR (b AND c);
            t2 = s0 + maj
        in (t1 + t2, a, b, c, d + t1, e, f, g))"

definition compress :: "sha_state \<Rightarrow> string \<Rightarrow> sha_state" where
  "compress state block =
     (case state of
        [a, b, c, d, e, f, g, h] \<Rightarrow>
          (case foldl sha_round (a, b, c, d, e, f, g, h) (zip sha_K (sha_schedule block)) of
             (a', b', c', d', e', f', g', h') \<Rightarrow>
               [a + a', b + b', c + c', d + d', e + e', f + f', g + g', h + h'])
      | _ \<Rightarrow> state)"

section \<open>The stream\<close>

record sha256_stream =
  sh_state :: sha_state
  sh_block :: string
  sh_filled :: nat
  sh_total :: nat

definition sha_new :: sha256_stream where
  "sha_new = \<lparr>sh_state = sha_H0, sh_block = replicate 64 (CHR 0x00), sh_filled = 0, sh_total = 0\<rparr>"

function update_loop :: "sha256_stream \<Rightarrow> string \<Rightarrow> sha256_stream option" where
  "update_loop h data =
     (if data = [] then Some h
      else if sh_filled h > 64 then None
      else
        let take_n = min (64 - sh_filled h) (length data);
            block = take (sh_filled h) (sh_block h) @ take take_n data @ drop (sh_filled h + take_n) (sh_block h);
            h1 = h\<lparr>sh_block := block, sh_filled := sh_filled h + take_n\<rparr>
        in update_loop
             (if sh_filled h1 = 64 then h1\<lparr>sh_state := compress (sh_state h1) block, sh_filled := 0\<rparr> else h1)
             (drop take_n data))"
  by pat_completeness auto
termination
  by (relation "measures [\<lambda>(h, data). length data, \<lambda>(h, data). if sh_filled h = 64 then 1 else 0]")
    (auto simp: min_def split: if_splits)

definition sha_update :: "sha256_stream \<Rightarrow> string \<Rightarrow> sha256_stream option" where
  "sha_update h data = update_loop (h\<lparr>sh_total := wrap_add64 (sh_total h) (length data)\<rparr>) data"

partial_function (option) pad_loop :: "sha256_stream \<Rightarrow> sha256_stream option" where
  "pad_loop h =
     (if sh_filled h \<noteq> 56
      then Option.bind (sha_update h [CHR 0x00]) pad_loop
      else Some h)"

text \<open>\<^verbatim>\<open>u64::to_be_bytes\<close>.\<close>

definition be_bytes64 :: "nat \<Rightarrow> string" where
  "be_bytes64 n = map (\<lambda>k. char_of (n div 256 ^ k mod 256)) [7, 6, 5, 4, 3, 2, 1, 0]"

definition sha_finish :: "sha256_stream \<Rightarrow> string option" where
  "sha_finish h =
     (let bits = sh_total h * 8 mod 2 ^ 64 in
      Option.bind (sha_update h [CHR 0x80]) (\<lambda>h1.
      Option.bind (pad_loop h1) (\<lambda>h2.
      Option.bind (sha_update h2 (be_bytes64 bits)) (\<lambda>h3.
      Some (concat (map be_bytes (sh_state h3)))))))"

definition sha256 :: "string \<Rightarrow> string option" where
  "sha256 data = Option.bind (sha_update sha_new data) sha_finish"

section \<open>One byte at a time\<close>

text \<open>What a byte does to the hash: the compressed state and the bytes of an unfinished block.\<close>

definition absorb :: "sha_state \<times> string \<Rightarrow> char \<Rightarrow> sha_state \<times> string" where
  "absorb s c = (let q = snd s @ [c] in if length q = 64 then (compress (fst s) q, []) else (fst s, q))"

definition sha_ok :: "sha256_stream \<Rightarrow> bool" where
  "sha_ok h \<longleftrightarrow> sh_filled h < 64 \<and> length (sh_block h) = 64"

definition sha_abs :: "sha256_stream \<Rightarrow> sha_state \<times> string" where
  "sha_abs h = (sh_state h, take (sh_filled h) (sh_block h))"

lemma absorb_within: "length p + length xs < 64 \<Longrightarrow> foldl absorb (st, p) xs = (st, p @ xs)"
proof (induction xs arbitrary: p)
  case (Cons c xs)
  then show ?case using Cons.IH [of "p @ [c]"] by (simp add: absorb_def)
qed simp

lemma absorb_block:
  assumes "length p + length xs = 64" "xs \<noteq> []"
  shows "foldl absorb (st, p) xs = (compress st (p @ xs), [])"
proof -
  have "foldl absorb (st, p) (butlast xs @ [last xs]) = (compress st (p @ butlast xs @ [last xs]), [])"
    using assms by (cases xs rule: rev_cases) (simp_all add: absorb_within absorb_def)
  then show ?thesis using assms(2) by simp
qed

lemma absorb_length: "length (snd s) < 64 \<Longrightarrow> length (snd (foldl absorb s xs)) = (length (snd s) + length xs) mod 64"
proof (induction xs arbitrary: s)
  case (Cons c xs)
  have "length (snd (absorb s c)) = (length (snd s) + 1) mod 64"
    using Cons.prems by (auto simp: absorb_def Let_def)
  with Cons show ?case by (simp add: mod_simps)
qed simp

lemma update_loop_absorbs:
  assumes "sha_ok h"
  shows "\<exists>h'. update_loop h data = Some h' \<and> sha_ok h' \<and> sha_abs h' = foldl absorb (sha_abs h) data \<and>
    sh_total h' = sh_total h"
  using assms
proof (induction h data rule: update_loop.induct)
  case (1 h data)
  show ?case
  proof (cases "data = []")
    case True
    with 1 show ?thesis by (subst update_loop.simps) simp
  next
    case False
    define k where "k = min (64 - sh_filled h) (length data)"
    define block where "block = take (sh_filled h) (sh_block h) @ take k data @ drop (sh_filled h + k) (sh_block h)"
    define h1 where "h1 = h\<lparr>sh_block := block, sh_filled := sh_filled h + k\<rparr>"
    define h2 where "h2 = (if sh_filled h1 = 64 then h1\<lparr>sh_state := compress (sh_state h1) block, sh_filled := 0\<rparr> else h1)"
    have ok: "sh_filled h < 64" "length (sh_block h) = 64" using 1 by (auto simp: sha_ok_def)
    with False have k: "0 < k" "sh_filled h + k \<le> 64" "k \<le> length data" by (auto simp: k_def)
    have b: "length block = 64" "take (sh_filled h + k) block = take (sh_filled h) (sh_block h) @ take k data"
      using ok k by (auto simp: block_def min_def)
    have step: "update_loop h data = update_loop h2 (drop k data)"
      using False ok by (subst update_loop.simps) (simp add: h2_def h1_def block_def k_def Let_def)
    have ok2: "sha_ok h2" using ok k b(1) by (auto simp: h2_def h1_def sha_ok_def)
    have "foldl absorb (sha_abs h) (take k data) = sha_abs h2"
    proof (cases "sh_filled h + k = 64")
      case True
      have "foldl absorb (sh_state h, take (sh_filled h) (sh_block h)) (take k data) =
          (compress (sh_state h) (take (sh_filled h) (sh_block h) @ take k data), [])"
        using ok k True by (intro absorb_block) auto
      with True b show ?thesis by (simp add: sha_abs_def h2_def h1_def)
    next
      case False
      with ok k b show ?thesis
        by (auto simp: sha_abs_def h2_def h1_def absorb_within min_def)
    qed
    moreover have "foldl absorb (sha_abs h) data = foldl absorb (foldl absorb (sha_abs h) (take k data)) (drop k data)"
      by (metis append_take_drop_id foldl_append)
    moreover have "\<exists>h'. update_loop h2 (drop k data) = Some h' \<and> sha_ok h' \<and>
        sha_abs h' = foldl absorb (sha_abs h2) (drop k data) \<and> sh_total h' = sh_total h2"
      using 1(1) [OF False _ k_def block_def h1_def] ok ok2 unfolding h2_def by simp
    moreover have "sh_total h2 = sh_total h" by (simp add: h2_def h1_def)
    ultimately show ?thesis unfolding step by simp
  qed
qed

lemma sha_update_absorbs:
  assumes "sha_ok h"
  shows "\<exists>h'. sha_update h data = Some h' \<and> sha_ok h' \<and> sha_abs h' = foldl absorb (sha_abs h) data \<and>
    sh_total h' = wrap_add64 (sh_total h) (length data)"
  using update_loop_absorbs [of "h\<lparr>sh_total := wrap_add64 (sh_total h) (length data)\<rparr>" data] assms
  by (simp add: sha_update_def sha_ok_def sha_abs_def)

lemma sha_ok_abs: "sha_ok h \<Longrightarrow> length (snd (sha_abs h)) = sh_filled h"
  by (simp add: sha_ok_def sha_abs_def)

text \<open>The arithmetic of the padding.\<close>

lemma pad_no_more: "k < 64 \<Longrightarrow> (56 + k) mod 64 = 56 \<Longrightarrow> k = (0::nat)"
  by (cases "k < 8") (auto simp: le_mod_geq)

lemma pad_count: "(n + 1 + (119 - n mod 64) mod 64) mod 64 = (56::nat)"
proof -
  define r where "r = n mod 64"
  have "r < 64" by (simp add: r_def)
  then have "(r + 1 + (119 - r) mod 64) mod 64 = 56"
    by (cases "r \<le> 55") (auto simp: le_mod_geq)
  then show ?thesis unfolding r_def by (metis add.assoc mod_add_left_eq)
qed

text \<open>The padding ends, after as many zeros as are missing.\<close>

lemma pad_loop_absorbs:
  assumes "sha_ok h" "(sh_filled h + k) mod 64 = 56" "k < 64"
  shows "\<exists>h'. pad_loop h = Some h' \<and> sha_ok h' \<and> sha_abs h' = foldl absorb (sha_abs h) (replicate k (CHR 0x00))"
  using assms
proof (induction k arbitrary: h)
  case 0
  then have "sh_filled h = 56" by (simp add: sha_ok_def)
  with 0 show ?case by (subst pad_loop.simps) simp
next
  case (Suc k)
  obtain h1 where h1: "sha_update h [CHR 0x00] = Some h1" "sha_ok h1" "sha_abs h1 = foldl absorb (sha_abs h) [CHR 0x00]"
    using sha_update_absorbs [OF Suc.prems(1)] by blast
  have "sh_filled h1 = (sh_filled h + 1) mod 64"
    using absorb_length [of "sha_abs h" "[CHR 0x00]"] sha_ok_abs [OF h1(2)] sha_ok_abs [OF Suc.prems(1)] Suc.prems(1) h1(3)
    by (simp add: sha_ok_def)
  moreover from this Suc.prems have "(sh_filled h1 + k) mod 64 = 56" by (simp add: mod_simps)
  ultimately obtain h' where h': "pad_loop h1 = Some h'" "sha_ok h'"
    "sha_abs h' = foldl absorb (sha_abs h1) (replicate k (CHR 0x00))"
    using Suc.IH [OF h1(2)] Suc.prems(3) by auto
  have "sh_filled h \<noteq> 56"
    using pad_no_more [of "Suc k"] Suc.prems(2,3) by auto
  then have "pad_loop h = Some h'" using h1(1) h'(1) by (subst pad_loop.simps) simp
  with h' h1(3) show ?case by simp
qed

section \<open>The reference\<close>

text \<open>FIPS 180-4: the padded message, its blocks, and the compression folded over them.\<close>

function blocks64 :: "string \<Rightarrow> string list" where
  "blocks64 s = (if length s < 64 then [] else take 64 s # blocks64 (drop 64 s))"
  by pat_completeness auto
termination
  by (relation "measure length") auto

declare blocks64.simps [simp del]

definition fips_pad :: "string \<Rightarrow> string" where
  "fips_pad msg = msg @ [CHR 0x80] @ replicate ((119 - length msg mod 64) mod 64) (CHR 0x00) @
     be_bytes64 (length msg * 8 mod 2 ^ 64)"

definition fips_sha256 :: "string \<Rightarrow> string" where
  "fips_sha256 msg = concat (map be_bytes (foldl compress sha_H0 (blocks64 (fips_pad msg))))"

lemma compress_length [simp]: "length (compress st block) = length st"
  by (auto simp: compress_def split: list.splits prod.splits)

lemma fips_length [simp]: "length (fips_sha256 msg) = 32"
proof -
  have "length (foldl compress st bs) = length st" for st bs by (induction bs arbitrary: st) simp_all
  moreover have "length (concat (map be_bytes ws)) = 4 * length ws" for ws
    by (induction ws) (simp_all add: be_bytes_def)
  ultimately show ?thesis by (simp add: fips_sha256_def sha_H0_def)
qed

lemma fips_pad_length: "length (fips_pad msg) mod 64 = 0"
proof -
  have "length (fips_pad msg) = (length msg + 1 + (119 - length msg mod 64) mod 64) + 8"
    by (simp add: fips_pad_def be_bytes64_def)
  then have "length (fips_pad msg) mod 64 = ((length msg + 1 + (119 - length msg mod 64) mod 64) mod 64 + 8) mod 64"
    by (simp only: mod_add_left_eq)
  then show ?thesis by (simp only: pad_count) simp
qed

lemma absorb_blocks:
  "length s mod 64 = 0 \<Longrightarrow> foldl absorb (st, []) s = (foldl compress st (blocks64 s), [])"
proof (induction s arbitrary: st rule: blocks64.induct)
  case (1 s)
  show ?case
  proof (cases "length s < 64")
    case True
    with 1 have "s = []" by simp
    then show ?thesis by (simp add: blocks64.simps)
  next
    case False
    have "length (drop 64 s) mod 64 = 0" using 1(2) False by (simp add: mod_eq_0_iff_dvd dvd_minus_self)
    note ih = 1(1) [OF False this]
    have "take 64 s \<noteq> []" "length (take 64 s) = 64" using False by auto
    then have "foldl absorb (st, []) (take 64 s) = (compress st (take 64 s), [])" using absorb_block [of "[]" "take 64 s"] by simp
    moreover have "foldl absorb (st, []) s = foldl absorb (foldl absorb (st, []) (take 64 s)) (drop 64 s)"
      by (metis append_take_drop_id foldl_append)
    ultimately show ?thesis using False ih by (subst blocks64.simps) simp
  qed
qed

text \<open>A stream that has taken in a message.\<close>

definition sha_took :: "sha256_stream \<Rightarrow> string \<Rightarrow> bool" where
  "sha_took h msg \<longleftrightarrow> sha_ok h \<and> sha_abs h = foldl absorb (sha_H0, []) msg \<and> sh_total h = length msg mod 2 ^ 64"

lemma sha_took_new: "sha_took sha_new []"
  by (simp add: sha_took_def sha_ok_def sha_new_def sha_abs_def)

lemma sha_took_update:
  assumes "sha_took h msg"
  shows "\<exists>h'. sha_update h data = Some h' \<and> sha_took h' (msg @ data)"
  using sha_update_absorbs [of h data] assms by (auto simp: sha_took_def wrap_add64_def mod_simps)

lemma sha_took_finish:
  assumes "sha_took h msg"
  shows "sha_finish h = Some (fips_sha256 msg)"
proof -
  let ?z = "replicate ((119 - length msg mod 64) mod 64) (CHR 0x00)"
  obtain h1 where h1: "sha_update h [CHR 0x80] = Some h1" "sha_ok h1" "sha_abs h1 = foldl absorb (sha_H0, []) (msg @ [CHR 0x80])"
    using sha_update_absorbs [of h "[CHR 0x80]"] assms by (auto simp: sha_took_def)
  have "sh_filled h1 = (length msg + 1) mod 64"
    using absorb_length [of "(sha_H0, [])" "msg @ [CHR 0x80]"] sha_ok_abs [OF h1(2)] h1(3) by simp
  then have "(sh_filled h1 + (119 - length msg mod 64) mod 64) mod 64 = 56"
    using pad_count [of "length msg"] by (simp only: mod_add_left_eq)
  then obtain h2 where h2: "pad_loop h1 = Some h2" "sha_ok h2" "sha_abs h2 = foldl absorb (sha_abs h1) ?z"
    using pad_loop_absorbs [OF h1(2)] by fastforce
  obtain h3 where h3: "sha_update h2 (be_bytes64 (length msg * 8 mod 2 ^ 64)) = Some h3"
    "sha_abs h3 = foldl absorb (sha_abs h2) (be_bytes64 (length msg * 8 mod 2 ^ 64))"
    using sha_update_absorbs [OF h2(2)] by blast
  have "sha_abs h3 = foldl absorb (sha_H0, []) (fips_pad msg)"
    by (simp add: fips_pad_def h3(2) h2(3) h1(3))
  then have "sh_state h3 = foldl compress sha_H0 (blocks64 (fips_pad msg))"
    using absorb_blocks [OF fips_pad_length] by (simp add: sha_abs_def)
  moreover have "sh_total h * 8 mod 2 ^ 64 = length msg * 8 mod 2 ^ 64"
    using assms by (simp add: sha_took_def mod_simps)
  ultimately show ?thesis
    using h1(1) h2(1) h3(1) by (simp add: sha_finish_def Let_def fips_sha256_def)
qed

section \<open>The interface of a streaming hash\<close>

text \<open>
  What a client of a hash that is fed in pieces relies on: \<open>took h msg\<close> says that the state \<open>h\<close> has
  taken in \<open>msg\<close>; feeding more extends it, finishing gives the digest of all of it.
\<close>

locale stream_hash =
  fixes fresh :: 'h
    and update :: "'h \<Rightarrow> string \<Rightarrow> 'h option"
    and finish :: "'h \<Rightarrow> string option"
    and digest :: "string \<Rightarrow> string"
    and took :: "'h \<Rightarrow> string \<Rightarrow> bool"
  assumes took_fresh: "took fresh []"
    and took_update: "took h msg \<Longrightarrow> \<exists>h'. update h data = Some h' \<and> took h' (msg @ data)"
    and took_finish: "took h msg \<Longrightarrow> finish h = Some (digest msg)"
begin

lemma feed_pieces:
  "Option.bind (foldl (\<lambda>r piece. Option.bind r (\<lambda>h. update h piece)) (Some fresh) pieces) finish =
     Some (digest (concat pieces))"
proof -
  have "\<exists>h. foldl (\<lambda>r piece. Option.bind r (\<lambda>h. update h piece)) (Some h0) pieces = Some h \<and>
      took h (msg @ concat pieces)" if "took h0 msg" for h0 msg
    using that
  proof (induction pieces arbitrary: h0 msg)
    case (Cons p ps)
    obtain h1 where h1: "update h0 p = Some h1" "took h1 (msg @ p)" using took_update [OF Cons.prems] by blast
    from Cons.IH [OF h1(2)] show ?case by (simp add: h1(1))
  qed simp
  from this [OF took_fresh] show ?thesis by (auto simp: took_finish)
qed

lemma one_shot: "Option.bind (update fresh data) finish = Some (digest data)"
  using feed_pieces [of "[data]"] by simp

lemma two_pieces: "Option.bind (update fresh a) (\<lambda>h. Option.bind (update h b) finish) = Some (digest (a @ b))"
proof -
  obtain h1 where h1: "update fresh a = Some h1" "took h1 a" using took_update [OF took_fresh, of a] by auto
  obtain h2 where h2: "update h1 b = Some h2" "took h2 (a @ b)" using took_update [OF h1(2)] by blast
  show ?thesis by (simp add: h1(1) h2(1) took_finish [OF h2(2)])
qed

end

interpretation sh: stream_hash sha_new sha_update sha_finish fips_sha256 sha_took
  by unfold_locales (fact sha_took_new, erule sha_took_update, erule sha_took_finish)

end
