(* ===== verification/Texts.thy ===== *)
theory Texts
  imports Utf8
begin

text \<open>
  What several components use of the standard library's texts: \<^verbatim>\<open>str::find\<close>, \<^verbatim>\<open>str::split\<close> at an ASCII
  character, \<^verbatim>\<open>to_ascii_lowercase\<close> and \<^verbatim>\<open>str::trim\<close>.
\<close>

section \<open>Operations\<close>

fun find_text :: "string \<Rightarrow> string \<Rightarrow> nat option" where
  "find_text pat [] = (if pat = [] then Some 0 else None)"
| "find_text pat (c # s) =
     (if take (length pat) (c # s) = pat then Some 0 else map_option Suc (find_text pat s))"

fun split_char :: "char \<Rightarrow> string \<Rightarrow> string list" where
  "split_char d [] = [[]]"
| "split_char d (c # s) =
     (if c = d then [] # split_char d s
      else case split_char d s of [] \<Rightarrow> [[c]] | w # ws \<Rightarrow> (c # w) # ws)"

fun join_char :: "char \<Rightarrow> string list \<Rightarrow> string" where
  "join_char d [] = []"
| "join_char d [w] = w"
| "join_char d (w # ws) = w @ d # join_char d ws"

text \<open>\<^verbatim>\<open>split_once\<close> at a character: before and after the first one.\<close>

definition split_once :: "char \<Rightarrow> string \<Rightarrow> (string \<times> string) option" where
  "split_once d s =
     (if d \<in> set s then Some (takeWhile (\<lambda>c. c \<noteq> d) s, tl (dropWhile (\<lambda>c. c \<noteq> d) s)) else None)"

definition strip_end :: "char \<Rightarrow> string \<Rightarrow> string" where
  "strip_end d s = (if s \<noteq> [] \<and> last s = d then butlast s else s)"

definition ascii_lower :: "char \<Rightarrow> char" where
  "ascii_lower c = (if between 65 90 c then char_of (byte c + 32) else c)"

text \<open>The code points of Unicode's white space.\<close>

definition white_space :: "nat \<Rightarrow> bool" where
  "white_space n \<longleftrightarrow> 0x09 \<le> n \<and> n \<le> 0x0D \<or> 0x2000 \<le> n \<and> n \<le> 0x200A \<or>
     n \<in> set [0x20, 0x85, 0xA0, 0x1680, 0x2028, 0x2029, 0x202F, 0x205F, 0x3000]"

definition trim :: "string \<Rightarrow> string" where
  "trim s =
     (let ws = (\<lambda>c. white_space (utf8_decode c))
      in concat (rev (dropWhile ws (rev (dropWhile ws (utf8_chars s))))))"

section \<open>Laws\<close>

lemma split_char_ne [simp]: "split_char d s \<noteq> []"
  by (cases s) (auto split: list.splits)

lemma split_char_free: "w \<in> set (split_char d s) \<Longrightarrow> d \<notin> set w"
  by (induction s arbitrary: w) (auto split: if_splits list.splits)

lemma split_char_plain: "d \<notin> set w \<Longrightarrow> split_char d (w @ d # s) = w # split_char d s"
  by (induction w) auto

lemma split_char_end: "d \<notin> set w \<Longrightarrow> split_char d w = [w]"
  by (induction w) auto

lemma split_join: "ws \<noteq> [] \<Longrightarrow> (\<And>w. w \<in> set ws \<Longrightarrow> d \<notin> set w) \<Longrightarrow> split_char d (join_char d ws) = ws"
  by (induction d ws rule: join_char.induct) (auto simp: split_char_plain split_char_end)

lemma join_split: "join_char d (split_char d s) = s"
proof (induction s)
  case (Cons c s)
  obtain w ws where "split_char d s = w # ws" by (cases "split_char d s") auto
  with Cons show ?case by (cases ws) auto
qed simp

lemma set_split_char: "w \<in> set (split_char d s) \<Longrightarrow> set w \<subseteq> set s"
proof (induction s arbitrary: w)
  case (Cons c s)
  obtain v vs where v: "split_char d s = v # vs" by (cases "split_char d s") auto
  have "set v \<subseteq> set s" using Cons.IH [of v] v by simp
  moreover have "w' \<in> set vs \<Longrightarrow> set w' \<subseteq> set s" for w' using Cons.IH [of w'] v by simp
  ultimately show ?case using Cons.prems v by (auto split: if_splits)
qed simp

lemma join_char_Nil: "join_char d ws = [] \<longleftrightarrow> ws = [] \<or> ws = [[]]"
  by (cases "(d, ws)" rule: join_char.cases) auto

lemma set_join_char: "set (join_char d ws) \<subseteq> insert d (\<Union> (set ` set ws))"
  by (induction d ws rule: join_char.induct) auto

lemma map_split_char: "d \<notin> f ` (- {d}) \<Longrightarrow> f d = d \<Longrightarrow> split_char d (map f s) = map (map f) (split_char d s)"
proof (induction s)
  case (Cons c s)
  obtain v vs where v: "split_char d s = v # vs" by (cases "split_char d s") auto
  have "f c = d \<longleftrightarrow> c = d" using Cons.prems by auto
  with Cons v show ?case by simp
qed simp

end
