(* ===== verification/Auth.thy ===== *)
theory Auth
  imports Sha256 Texts
begin

text \<open>
  \<^verbatim>\<open>auth/src/lib.rs\<close>: the signature of a request, \<^verbatim>\<open>hex(HMAC-SHA256(key, METHOD \n PATH \n hex(sha256(body))))\<close>,
  and its check.  The functions stream what the reference definitions build; \<open>None\<close> would be a
  hash that does not return.
\<close>

section \<open>Rejections and texts\<close>

definition MAX_BODY_BYTES :: nat where
  "MAX_BODY_BYTES = 512 * 1024"

datatype rejection = BodyTooLarge nat | Unauthorized

fun rejection_status :: "rejection \<Rightarrow> nat" where
  "rejection_status (BodyTooLarge _) = 413"
| "rejection_status Unauthorized = 401"

definition hex_text :: "string \<Rightarrow> string" where
  "hex_text bytes = concat (map (\<lambda>b. [''0123456789abcdef'' ! (byte b div 16), ''0123456789abcdef'' ! (byte b mod 16)]) bytes)"

definition constant_time_eq :: "string \<Rightarrow> string \<Rightarrow> bool" where
  "constant_time_eq a b =
     (if length a \<noteq> length b then False
      else foldl (\<lambda>acc (x, y). acc OR (byte x XOR byte y)) (0::nat) (zip a b) = 0)"

definition path_of :: "string \<Rightarrow> string" where
  "path_of url =
     (let rest = (case find_text ''://'' url of
                    Some i \<Rightarrow>
                      let after = drop (i + 3) url
                      in if CHR ''/'' \<in> set after then dropWhile (\<lambda>c. c \<noteq> CHR ''/'') after else []
                  | None \<Rightarrow> url)
      in takeWhile (\<lambda>c. c \<noteq> CHR ''?'' \<and> c \<noteq> CHR ''#'') rest)"

section \<open>HMAC\<close>

record hmac =
  hm_inner :: sha256_stream
  hm_outer_key :: string

definition hmac_block :: "string \<Rightarrow> string option" where
  "hmac_block key =
     (if length key > 64
      then map_option (\<lambda>d. d @ replicate (64 - length d) (CHR 0x00)) (sha256 key)
      else Some (key @ replicate (64 - length key) (CHR 0x00)))"

definition xor_bytes :: "nat \<Rightarrow> string \<Rightarrow> string" where
  "xor_bytes n s = map (\<lambda>k. char_of (byte k XOR n)) s"

definition hmac_new :: "string \<Rightarrow> hmac option" where
  "hmac_new key =
     Option.bind (hmac_block key) (\<lambda>block.
     Option.bind (sha_update sha_new (xor_bytes 0x36 block)) (\<lambda>inner.
     Some \<lparr>hm_inner = inner, hm_outer_key = xor_bytes 0x5c block\<rparr>))"

definition hmac_update :: "string \<Rightarrow> hmac \<Rightarrow> hmac option" where
  "hmac_update data m = map_option (\<lambda>h. m\<lparr>hm_inner := h\<rparr>) (sha_update (hm_inner m) data)"

definition hmac_finish :: "hmac \<Rightarrow> string option" where
  "hmac_finish m =
     Option.bind (sha_finish (hm_inner m)) (\<lambda>inner.
     Option.bind (sha_update sha_new (hm_outer_key m)) (\<lambda>o1.
     Option.bind (sha_update o1 inner) sha_finish))"

definition hmac_sha256 :: "string \<Rightarrow> string \<Rightarrow> string option" where
  "hmac_sha256 key data = Option.bind (hmac_new key) (\<lambda>m. Option.bind (hmac_update data m) hmac_finish)"

section \<open>Signing and checking\<close>

definition feed_signing_string :: "string \<Rightarrow> string \<Rightarrow> string \<Rightarrow> hmac \<Rightarrow> hmac option" where
  "feed_signing_string meth path body m =
     Option.bind (sha256 body) (\<lambda>digest.
     Option.bind (hmac_update meth m) (\<lambda>m.
     Option.bind (hmac_update [CHR 0x0A] m) (\<lambda>m.
     Option.bind (hmac_update path m) (\<lambda>m.
     Option.bind (hmac_update [CHR 0x0A] m) (\<lambda>m.
     hmac_update (hex_text digest) m)))))"

definition sign_request :: "string \<Rightarrow> string \<Rightarrow> string \<Rightarrow> string \<Rightarrow> string option" where
  "sign_request key meth path body =
     Option.bind (hmac_new key) (\<lambda>m.
     Option.bind (feed_signing_string meth path body m) (\<lambda>m.
     map_option hex_text (hmac_finish m)))"

text \<open>The outer option is the run, the inner one the answer: no signature without a key.\<close>

definition sign_call :: "string \<Rightarrow> string \<Rightarrow> string \<Rightarrow> string \<Rightarrow> string option option" where
  "sign_call key meth url body =
     (if key = [] then Some None
      else map_option Some (sign_request key (if meth = [] then ''GET'' else meth) (path_of url) body))"

definition verify :: "string \<Rightarrow> string \<Rightarrow> string \<Rightarrow> string \<Rightarrow> string option \<Rightarrow> (rejection + unit) option" where
  "verify key meth path body header =
     (if key = [] then Some (Inr ())
      else if length body > MAX_BODY_BYTES then Some (Inl (BodyTooLarge (length body)))
      else Option.bind (sign_request key meth path body) (\<lambda>expected.
        let got = (case header of Some h \<Rightarrow> h | None \<Rightarrow> [])
        in Some (if constant_time_eq expected got then Inr () else Inl Unauthorized)))"

section \<open>The references\<close>

text \<open>RFC 2104, and the text that is signed.\<close>

definition rfc2104_key :: "string \<Rightarrow> string" where
  "rfc2104_key key = (let k = (if length key > 64 then fips_sha256 key else key) in k @ replicate (64 - length k) (CHR 0x00))"

definition rfc2104_hmac :: "string \<Rightarrow> string \<Rightarrow> string" where
  "rfc2104_hmac key msg =
     fips_sha256 (xor_bytes 0x5c (rfc2104_key key) @ fips_sha256 (xor_bytes 0x36 (rfc2104_key key) @ msg))"

definition signing_string :: "string \<Rightarrow> string \<Rightarrow> string \<Rightarrow> string" where
  "signing_string meth path body = meth @ [CHR 0x0A] @ path @ [CHR 0x0A] @ hex_text (fips_sha256 body)"

lemma hex_text_length: "length (hex_text s) = 2 * length s"
  by (induction s) (simp_all add: hex_text_def)

lemma sha256_fips: "sha256 data = Some (fips_sha256 data)"
  unfolding sha256_def by (rule sh.one_shot)

lemma hmac_block_rfc: "hmac_block key = Some (rfc2104_key key)"
  by (simp add: hmac_block_def rfc2104_key_def sha256_fips Let_def)

text \<open>A HMAC under way has taken in the inner key and the message so far.\<close>

definition hmac_took :: "string \<Rightarrow> hmac \<Rightarrow> string \<Rightarrow> bool" where
  "hmac_took key m msg \<longleftrightarrow> sha_took (hm_inner m) (xor_bytes 0x36 (rfc2104_key key) @ msg) \<and>
     hm_outer_key m = xor_bytes 0x5c (rfc2104_key key)"

lemma hmac_took_new: "\<exists>m. hmac_new key = Some m \<and> hmac_took key m []"
  using sh.took_update [OF sh.took_fresh, of "xor_bytes 0x36 (rfc2104_key key)"]
  by (auto simp: hmac_new_def hmac_block_rfc hmac_took_def)

lemma hmac_took_update: "hmac_took key m msg \<Longrightarrow> \<exists>m'. hmac_update data m = Some m' \<and> hmac_took key m' (msg @ data)"
  using sh.took_update [of "hm_inner m" "xor_bytes 0x36 (rfc2104_key key) @ msg" data]
  by (auto simp: hmac_took_def hmac_update_def)

lemma hmac_took_finish: "hmac_took key m msg \<Longrightarrow> hmac_finish m = Some (rfc2104_hmac key msg)"
  unfolding hmac_took_def
  by (elim conjE, drule sh.took_finish) (simp add: hmac_finish_def sh.two_pieces rfc2104_hmac_def)

text \<open>The MAC is itself a streaming hash, one for each key.\<close>

interpretation hm: stream_hash "the (hmac_new key)" "\<lambda>m data. hmac_update data m" hmac_finish "rfc2104_hmac key"
  "hmac_took key" for key
proof unfold_locales
  show "hmac_took key (the (hmac_new key)) []" using hmac_took_new [of key] by auto
qed (erule hmac_took_update, erule hmac_took_finish)

lemma hmac_new_Some: "hmac_new key = Some (the (hmac_new key))"
  using hmac_took_new [of key] by auto

lemma sign_request_rfc:
  "sign_request key meth path body = Some (hex_text (rfc2104_hmac key (signing_string meth path body)))"
proof -
  let ?pieces = "[meth, [CHR 0x0A], path, [CHR 0x0A], hex_text (fips_sha256 body)]"
  have "sign_request key meth path body = map_option hex_text (Option.bind
      (foldl (\<lambda>r piece. Option.bind r (\<lambda>m. hmac_update piece m)) (Some (the (hmac_new key))) ?pieces) hmac_finish)"
    by (subst sign_request_def, subst hmac_new_Some)
      (simp add: feed_signing_string_def sha256_fips bind_map_option comp_def split: bind_splits)
  then show ?thesis unfolding hm.feed_pieces by (simp add: signing_string_def)
qed

lemma xor_nat_0 [simp]: "x XOR y = 0 \<longleftrightarrow> x = (y::nat)"
  by (auto simp: bit_eq_iff bit_simps)

lemma or_nat_0 [simp]: "x OR y = 0 \<longleftrightarrow> x = 0 \<and> y = (0::nat)"
  by (auto simp: bit_eq_iff bit_simps)

lemma constant_time_eq_iff [simp]: "constant_time_eq a b \<longleftrightarrow> a = b"
proof -
  have "foldl (\<lambda>acc (x, y). acc OR (byte x XOR byte y)) acc (zip a b) = 0 \<longleftrightarrow> acc = 0 \<and> a = b"
    if "length a = length b" for acc :: nat
    using that by (induction a b arbitrary: acc rule: list_induct2) auto
  then show ?thesis by (auto simp: constant_time_eq_def)
qed

section \<open>Properties\<close>

text \<open>
  C30. The streaming hash is SHA-256: fed with a message in any pieces it always returns, with the
  hash that the standard gives for the whole message, padded and compressed block by block.
\<close>

theorem sha256_streams:
  "Option.bind (foldl (\<lambda>r piece. Option.bind r (\<lambda>h. sha_update h piece)) (Some sha_new) pieces) sha_finish =
     Some (fips_sha256 (concat pieces))"
  by (rule sh.feed_pieces)

text \<open>
  C31. What the check accepts: without a key everything; otherwise a body over 512 KiB is refused
  before the signature is looked at, and a request passes exactly when its header is the hexadecimal
  HMAC-SHA256 (RFC 2104) of method, path and hash of the body under the key.
\<close>

theorem verify_exact:
  "verify key meth path body header =
     Some (if key = [] then Inr ()
           else if length body > MAX_BODY_BYTES then Inl (BodyTooLarge (length body))
           else if header = Some (hex_text (rfc2104_hmac key (signing_string meth path body))) then Inr ()
           else Inl Unauthorized)"
proof -
  have "length (hex_text (rfc2104_hmac key (signing_string meth path body))) = 64"
    by (simp add: hex_text_length rfc2104_hmac_def)
  then have "hex_text (rfc2104_hmac key (signing_string meth path body)) \<noteq> []" by auto
  then show ?thesis by (auto simp: verify_def sign_request_rfc split: option.splits)
qed

text \<open>
  What is signed is accepted: a call signed with a key passes the check under the same key, for
  the method that was sent (GET when none was named), the path of its URL and the same body, up to
  the bound on bodies; and for another key, method, path or body it passes only when the HMAC is
  the same.
\<close>

theorem signed_call_accepted:
  assumes "key \<noteq> []" "length body \<le> MAX_BODY_BYTES"
  shows "\<exists>sig. sign_call key meth url body = Some (Some sig) \<and> length sig = 64 \<and>
    verify key (if meth = [] then ''GET'' else meth) (path_of url) body (Some sig) = Some (Inr ()) \<and>
    (\<forall>key' meth' path' body'. key' \<noteq> [] \<and> verify key' meth' path' body' (Some sig) = Some (Inr ()) \<longrightarrow>
      hex_text (rfc2104_hmac key' (signing_string meth' path' body')) = sig)"
proof -
  let ?sig = "hex_text (rfc2104_hmac key (signing_string (if meth = [] then ''GET'' else meth) (path_of url) body))"
  have "sign_call key meth url body = Some (Some ?sig)"
    using assms(1) by (simp add: sign_call_def sign_request_rfc)
  moreover have "length ?sig = 64" by (simp add: hex_text_length rfc2104_hmac_def)
  ultimately show ?thesis
    using assms by (intro exI [of _ ?sig]) (auto simp: verify_def sign_request_rfc split: if_splits)
qed

theorem signed_call_accepted_witness:
  "\<exists>sig. sign_call ''k'' ''POST'' ''http://node:7878/v1/jobs?dry=1'' ''spec'' = Some (Some sig) \<and> length sig = 64 \<and>
     verify ''k'' ''POST'' ''/v1/jobs'' ''spec'' (Some sig) = Some (Inr ())"
proof -
  have "''k'' \<noteq> []" "length ''spec'' \<le> MAX_BODY_BYTES" by (simp_all add: MAX_BODY_BYTES_def)
  moreover have "path_of ''http://node:7878/v1/jobs?dry=1'' = ''/v1/jobs''" by code_simp
  ultimately show ?thesis
    using signed_call_accepted [of "''k''" "''spec''" "''POST''" "''http://node:7878/v1/jobs?dry=1''"] by auto
qed

text \<open>
  The path of a URL is looked for after the first \<open>://\<close>, wherever it stands, and after the host up
  to the first slash, also one of the query: a relative URL with another URL in its query, and a URL
  with no path, are signed for a path that is not theirs.
\<close>

lemma path_of_query:
  "path_of ''/v1/jobs?from=http://h/x'' = ''/x''" "path_of ''http://h?next=/x'' = ''/x''" "path_of ''http://h'' = []"
  by code_simp+

end
