(* ===== verification/Lockserver.thy ===== *)
theory Lockserver
  imports Auth Btree_Map Decimal
begin

text \<open>
  \<^verbatim>\<open>apps/hoplockserver/src\<close>: keys (\<^verbatim>\<open>key.rs\<close>), ETags (\<^verbatim>\<open>etag.rs\<close>), the store with its conditions
  and the store in memory (\<^verbatim>\<open>store.rs\<close>), the request as a state machine (\<^verbatim>\<open>server.rs\<close>) and the
  exchange that runs it (\<^verbatim>\<open>http.rs\<close>).  Memory does not run out.
\<close>

section \<open>Errors, keys and ETags\<close>

datatype lock_error = KNotFound | KPrecondition | KBadKey | KOutOfMemory nat | KIo string string string

fun lock_error_text :: "lock_error \<Rightarrow> string" where
  "lock_error_text KNotFound = ''hoplockserver/store: not found''"
| "lock_error_text KPrecondition = ''hoplockserver/store: precondition failed''"
| "lock_error_text KBadKey = ''hoplockserver/store: invalid key''"
| "lock_error_text (KOutOfMemory bytes) = ''hoplockserver/store: out of memory ('' @ nat_text bytes @ '' bytes)''"
| "lock_error_text (KIo op key why) = ''hoplockserver/store: '' @ op @ '' '' @ key @ '': '' @ why"

text \<open>\<^verbatim>\<open>str::split('/')\<close>, and the segments with slashes between them.\<close>

abbreviation split_slash :: "string \<Rightarrow> string list" where
  "split_slash \<equiv> split_char (CHR ''/'')"

abbreviation join_slash :: "string list \<Rightarrow> string" where
  "join_slash \<equiv> join_char (CHR ''/'')"

definition clean_seg :: "string list \<Rightarrow> string \<Rightarrow> string list" where
  "clean_seg segs seg =
     (if seg = [] \<or> seg = ''.'' then segs
      else if seg = ''..''
      then (if segs \<noteq> [] \<and> last segs \<noteq> ''..'' then butlast segs else segs @ [''..''])
      else segs @ [seg])"

definition clean_path :: "string \<Rightarrow> string" where
  "clean_path p =
     (let out = join_slash (foldl clean_seg [] (split_slash p)) in if out = [] then ''.'' else out)"

definition key_parse :: "string \<Rightarrow> lock_error + string" where
  "key_parse raw =
     (if raw = [] \<or> CHR 0x00 \<in> set raw \<or> take 1 raw = ''/'' then Inl KBadKey
      else let clean = clean_path raw
           in if clean = ''.'' \<or> take 2 clean = ''..'' \<or> find_text ''../'' clean \<noteq> None then Inl KBadKey
              else Inr clean)"

definition etag_from_digest :: "string \<Rightarrow> string" where
  "etag_from_digest digest = [CHR 0x22] @ hex_text digest @ [CHR 0x22]"

text \<open>The hash always returns (\<open>sha256_fips\<close>).\<close>

definition etag_of :: "string \<Rightarrow> string" where
  "etag_of body = etag_from_digest (the (sha256 body))"

section \<open>The store\<close>

record condition =
  cn_if_none_match :: string
  cn_if_match :: string

record lock_object =
  lo_body :: string
  lo_etag :: string

definition check_put :: "string option \<Rightarrow> condition \<Rightarrow> lock_error + unit" where
  "check_put current cond =
     (if cn_if_none_match cond = ''*''
      then (case current of Some _ \<Rightarrow> Inl KPrecondition | None \<Rightarrow> Inr ())
      else if cn_if_match cond \<noteq> []
      then (case current of
              Some e \<Rightarrow> if e = cn_if_match cond then Inr () else Inl KPrecondition
            | None \<Rightarrow> Inl KPrecondition)
      else Inr ())"

definition check_delete :: "string \<Rightarrow> condition \<Rightarrow> lock_error + unit" where
  "check_delete current cond =
     (if cn_if_match cond \<noteq> [] \<and> current \<noteq> cn_if_match cond then Inl KPrecondition else Inr ())"

type_synonym lock_store = "lock_object btree"

definition store_get :: "string \<Rightarrow> lock_store \<Rightarrow> lock_error + lock_object" where
  "store_get key st = (case bt_get st key of None \<Rightarrow> Inl KNotFound | Some obj \<Rightarrow> Inr obj)"

definition store_put_if :: "string \<Rightarrow> string \<Rightarrow> condition \<Rightarrow> lock_store \<Rightarrow> (lock_error + string) \<times> lock_store" where
  "store_put_if key body cond st =
     (case check_put (map_option lo_etag (bt_get st key)) cond of
        Inl e \<Rightarrow> (Inl e, st)
      | Inr _ \<Rightarrow>
          let etag = etag_of body
          in (Inr etag, bt_insert st key \<lparr>lo_body = body, lo_etag = etag\<rparr>))"

definition store_delete :: "string \<Rightarrow> condition \<Rightarrow> lock_store \<Rightarrow> (lock_error + unit) \<times> lock_store" where
  "store_delete key cond st =
     (case bt_get st key of
        None \<Rightarrow> (Inl KNotFound, st)
      | Some obj \<Rightarrow>
          (case check_delete (lo_etag obj) cond of
             Inl e \<Rightarrow> (Inl e, st)
           | Inr _ \<Rightarrow> (Inr (), bt_remove st key)))"

section \<open>The request\<close>

record head =
  hd_method :: string
  hd_path :: string
  hd_api_key :: string
  hd_if_match :: string
  hd_if_none_match :: string

datatype resp_body = BodyEmpty | BodyStatic string | BodyLine string | BodyBytes string

record response =
  rs_status :: nat
  rs_etag :: "string option"
  rs_content_type :: "string option"
  rs_nosniff :: bool
  rs_allow :: "string option"
  rs_body :: resp_body

record pending_put =
  pp_raw_key :: string
  pp_cond :: condition

datatype lock_op = LoGet string | LoPut string string condition | LoDelete string condition

datatype lock_done = DnGet "lock_error + lock_object" | DnPut "lock_error + string" | DnDelete "lock_error + unit"

datatype lock_step = StRespond response | StReadBody pending_put | StStore lock_op

definition TEXT_PLAIN :: string where "TEXT_PLAIN = ''text/plain; charset=utf-8''"
definition APPLICATION_JSON :: string where "APPLICATION_JSON = ''application/json''"
definition ALLOW :: string where "ALLOW = ''GET, PUT, DELETE''"

definition resp_status :: "nat \<Rightarrow> response" where
  "resp_status status =
     \<lparr>rs_status = status, rs_etag = None, rs_content_type = None, rs_nosniff = False, rs_allow = None,
      rs_body = BodyEmpty\<rparr>"

definition resp_error :: "nat \<Rightarrow> string \<Rightarrow> response" where
  "resp_error status msg =
     \<lparr>rs_status = status, rs_etag = None, rs_content_type = Some TEXT_PLAIN, rs_nosniff = True,
      rs_allow = None, rs_body = BodyLine msg\<rparr>"

definition resp_internal :: "lock_error \<Rightarrow> response" where
  "resp_internal e = (resp_error 500 [])\<lparr>rs_body := BodyLine (lock_error_text e)\<rparr>"

definition resp_headers :: "response \<Rightarrow> (string \<times> string) list" where
  "resp_headers r =
     (case rs_allow r of Some a \<Rightarrow> [(''Allow'', a)] | None \<Rightarrow> []) @
     (case rs_etag r of Some e \<Rightarrow> [(''ETag'', e)] | None \<Rightarrow> []) @
     (case rs_content_type r of Some c \<Rightarrow> [(''Content-Type'', c)] | None \<Rightarrow> []) @
     (if rs_nosniff r then [(''X-Content-Type-Options'', ''nosniff'')] else [])"

definition body_parts :: "response \<Rightarrow> string \<times> string" where
  "body_parts r =
     (case rs_body r of
        BodyEmpty \<Rightarrow> ([], [])
      | BodyStatic s \<Rightarrow> (s, [])
      | BodyLine l \<Rightarrow> (l, [CHR 0x0A])
      | BodyBytes b \<Rightarrow> (b, []))"

definition key_error :: "lock_error \<Rightarrow> response" where
  "key_error e = (if e = KBadKey then resp_error 400 ''invalid key'' else resp_internal e)"

text \<open>A server is its API key.\<close>

definition is_authorised :: "string \<Rightarrow> string \<Rightarrow> bool" where
  "is_authorised api_key got \<longleftrightarrow> api_key = [] \<or> constant_time_eq got api_key"

definition server_begin :: "string \<Rightarrow> head \<Rightarrow> lock_step" where
  "server_begin api_key h =
     (if hd_path h = ''/health''
      then StRespond ((resp_status 200)\<lparr>rs_content_type := Some TEXT_PLAIN, rs_body := BodyStatic ''ok''\<rparr>)
      else if \<not> is_authorised api_key (hd_api_key h) then StRespond (resp_error 401 ''unauthorized'')
      else
        let raw = (if take 1 (hd_path h) = ''/'' then drop 1 (hd_path h) else hd_path h)
        in if raw = [] then StRespond (resp_error 400 ''key required'')
           else if hd_method h = ''GET''
           then (case key_parse raw of Inr key \<Rightarrow> StStore (LoGet key) | Inl e \<Rightarrow> StRespond (resp_internal e))
           else if hd_method h = ''PUT''
           then StReadBody \<lparr>pp_raw_key = raw,
                  pp_cond = \<lparr>cn_if_none_match = hd_if_none_match h, cn_if_match = hd_if_match h\<rparr>\<rparr>
           else if hd_method h = ''DELETE''
           then (case key_parse raw of
                   Inr key \<Rightarrow> StStore (LoDelete key \<lparr>cn_if_none_match = [], cn_if_match = hd_if_match h\<rparr>)
                 | Inl e \<Rightarrow> StRespond (key_error e))
           else StRespond ((resp_error 405 ''method not allowed'')\<lparr>rs_allow := Some ALLOW\<rparr>))"

definition with_body :: "pending_put \<Rightarrow> string \<Rightarrow> lock_step" where
  "with_body pending body =
     (if cn_if_none_match (pp_cond pending) \<noteq> [] \<and> cn_if_none_match (pp_cond pending) \<noteq> ''*''
      then StRespond (resp_error 400 ''only If-None-Match: * is supported'')
      else case key_parse (pp_raw_key pending) of
             Inr key \<Rightarrow> StStore (LoPut key body (pp_cond pending))
           | Inl e \<Rightarrow> StRespond (key_error e))"

fun lock_run :: "lock_op \<Rightarrow> lock_store \<Rightarrow> lock_done \<times> lock_store" where
  "lock_run (LoGet key) st = (DnGet (store_get key st), st)"
| "lock_run (LoPut key body cond) st = (case store_put_if key body cond st of (r, st1) \<Rightarrow> (DnPut r, st1))"
| "lock_run (LoDelete key cond) st = (case store_delete key cond st of (r, st1) \<Rightarrow> (DnDelete r, st1))"

fun respond :: "lock_done \<Rightarrow> response" where
  "respond (DnGet (Inr obj)) =
     (resp_status 200)\<lparr>rs_etag := Some (lo_etag obj), rs_content_type := Some APPLICATION_JSON,
       rs_body := BodyBytes (lo_body obj)\<rparr>"
| "respond (DnGet (Inl e)) = (if e = KNotFound then resp_error 404 ''not found'' else resp_internal e)"
| "respond (DnPut (Inr etag)) = (resp_status 200)\<lparr>rs_etag := Some etag\<rparr>"
| "respond (DnPut (Inl e)) =
     (if e = KPrecondition then resp_error 412 ''precondition failed'' else key_error e)"
| "respond (DnDelete (Inr _)) = resp_status 204"
| "respond (DnDelete (Inl e)) =
     (if e = KNotFound then resp_error 404 ''not found''
      else if e = KPrecondition then resp_error 412 ''precondition failed'' else key_error e)"

datatype unanswered = UnGone | UnBusy | UnLate

fun unanswered_response :: "unanswered \<Rightarrow> response" where
  "unanswered_response UnGone = resp_error 503 ''store is gone''"
| "unanswered_response UnBusy = resp_error 503 ''store is busy''"
| "unanswered_response UnLate = resp_error 504 ''store did not answer in time''"

text \<open>
  One exchange.  \<open>run\<close> gets an operation to the owner of the store; \<open>lock_run\<close> is the owner that
  answers.  A body is read only when the machine asks for it.
\<close>

definition exchange :: "string \<Rightarrow> (lock_op \<Rightarrow> 's \<Rightarrow> (unanswered + lock_done) \<times> 's) \<Rightarrow> head \<Rightarrow> string \<Rightarrow> 's \<Rightarrow> response \<times> 's" where
  "exchange api_key run h body st =
     (let step = (case server_begin api_key h of StReadBody pending \<Rightarrow> with_body pending body | s \<Rightarrow> s)
      in case step of
           StRespond r \<Rightarrow> (r, st)
         | StStore op \<Rightarrow>
             (case run op st of
                (Inr dn, st1) \<Rightarrow> (respond dn, st1)
              | (Inl why, st1) \<Rightarrow> (unanswered_response why, st1))
         | StReadBody _ \<Rightarrow> (resp_error 500 ''internal server error'', st))"

definition answered :: "lock_op \<Rightarrow> lock_store \<Rightarrow> (unanswered + lock_done) \<times> lock_store" where
  "answered op st = (case lock_run op st of (dn, st1) \<Rightarrow> (Inr dn, st1))"

section \<open>Keys stay under the root\<close>

text \<open>A segment that cleaning leaves: not empty, no dot, no slash in it.\<close>

definition plain_seg :: "string \<Rightarrow> bool" where
  "plain_seg w \<longleftrightarrow> w \<noteq> [] \<and> w \<noteq> ''.'' \<and> CHR ''/'' \<notin> set w"

lemma clean_segs_plain:
  "list_all plain_seg segs \<Longrightarrow> \<forall>w\<in>set ws. CHR ''/'' \<notin> set w \<Longrightarrow> list_all plain_seg (foldl clean_seg segs ws)"
proof (induction ws arbitrary: segs)
  case (Cons w ws)
  have "list_all plain_seg (clean_seg segs w)"
    using Cons.prems by (auto simp: clean_seg_def plain_seg_def list_all_iff dest: in_set_butlastD)
  with Cons show ?case by simp
qed simp

text \<open>Cleaning leaves the segments that go up in front.\<close>

definition ups_first :: "string list \<Rightarrow> bool" where
  "ups_first segs \<longleftrightarrow> (\<exists>n rest. segs = replicate n ''..'' @ rest \<and> ''..'' \<notin> set rest)"

lemma ups_first_clean_seg: "ups_first segs \<Longrightarrow> ups_first (clean_seg segs w)"
proof -
  assume "ups_first segs"
  then obtain n rest where s: "segs = replicate n ''..'' @ rest" "''..'' \<notin> set rest" by (auto simp: ups_first_def)
  have same: "ups_first segs" using s by (auto simp: ups_first_def)
  have plain: "ups_first (segs @ [w])" if "w \<noteq> ''..''"
    using s that unfolding ups_first_def by (intro exI [of _ n] exI [of _ "rest @ [w]"]) auto
  have up: "ups_first (segs @ [''..''])" if "rest = []"
    using s that unfolding ups_first_def
    by (intro exI [of _ "Suc n"] exI [of _ "[]"]) (simp add: replicate_append_same [symmetric])
  have pop: "ups_first (butlast segs)" if "rest \<noteq> []"
    using s that unfolding ups_first_def
    by (intro exI [of _ n] exI [of _ "butlast rest"]) (auto simp: butlast_append dest: in_set_butlastD)
  have last: "last segs = ''..''" if "rest = []" "segs \<noteq> []"
    using s that by (cases n) (auto simp: replicate_append_same [symmetric])
  have rest: "rest = []" if "segs = [] \<or> last segs = ''..''"
    using s that by (cases rest rule: rev_cases) auto
  show "ups_first (clean_seg segs w)"
    using same plain up pop last rest by (cases "rest = []") (auto simp: clean_seg_def)
qed

lemma ups_first_clean: "ups_first segs \<Longrightarrow> ups_first (foldl clean_seg segs ws)"
  by (induction ws arbitrary: segs) (auto intro: ups_first_clean_seg)

lemma clean_seg_keeps: "list_all plain_seg segs \<Longrightarrow> ''..'' \<notin> set segs \<Longrightarrow> foldl clean_seg acc segs = acc @ segs"
  by (induction segs arbitrary: acc) (auto simp: clean_seg_def plain_seg_def)

lemma join_slash_take: "take 2 (join_slash (''..'' # ws)) = ''..''"
  by (cases ws) auto

lemma set_clean_segs: "\<Union> (set ` set (foldl clean_seg segs ws)) \<subseteq> insert (CHR ''.'') (\<Union> (set ` set segs) \<union> \<Union> (set ` set ws))"
proof (induction ws arbitrary: segs)
  case (Cons w ws)
  have "\<Union> (set ` set (clean_seg segs w)) \<subseteq> insert (CHR ''.'') (\<Union> (set ` set segs) \<union> set w)"
    by (auto simp: clean_seg_def dest: in_set_butlastD)
  with Cons [of "clean_seg segs w"] show ?case by fastforce
qed auto

text \<open>
  C32. A key cannot leave the root of the store: a key that is accepted has only segments that name
  something (none empty, none a single or a double dot), no leading slash and no NUL byte, and it
  is its own clean form, so two requests that name the same object use the same key.
\<close>

theorem key_parse_safe:
  assumes "key_parse raw = Inr k"
  shows "(\<forall>w \<in> set (split_slash k). w \<noteq> [] \<and> w \<noteq> ''.'' \<and> w \<noteq> ''..'') \<and> take 1 k \<noteq> ''/'' \<and> CHR 0x00 \<notin> set k \<and>
    key_parse k = Inr k"
proof -
  define segs where "segs = foldl clean_seg [] (split_slash raw)"
  have nul: "CHR 0x00 \<notin> set raw" and k: "k = clean_path raw"
    and bad: "k \<noteq> ''.''" "take 2 k \<noteq> ''..''" "find_text ''../'' k = None"
    using assms by (auto simp: key_parse_def Let_def split: if_splits)
  have plain: "list_all plain_seg segs"
    unfolding segs_def by (rule clean_segs_plain) (auto dest: split_char_free)
  have ne: "segs \<noteq> []" and kj: "k = join_slash segs"
    using k bad(1) plain by (auto simp: clean_path_def segs_def [symmetric] Let_def split: if_splits)
  have "ups_first segs" unfolding segs_def by (rule ups_first_clean) (auto simp: ups_first_def)
  then obtain n rest where nr: "segs = replicate n ''..'' @ rest" "''..'' \<notin> set rest" by (auto simp: ups_first_def)
  have "n = 0"
  proof (rule ccontr)
    assume "n \<noteq> 0"
    then obtain m where "segs = ''..'' # (replicate m ''..'' @ rest)" using nr(1) by (cases n) auto
    with bad(2) kj show False using join_slash_take by metis
  qed
  then have no: "''..'' \<notin> set segs" using nr by simp
  have split: "split_slash k = segs" using split_join [OF ne, of "CHR ''/''"] plain kj by (auto simp: list_all_iff plain_seg_def)
  have "clean_path k = k"
    using clean_seg_keeps [OF plain no, of "[]"] split kj ne plain
    by (auto simp: clean_path_def join_char_Nil plain_seg_def)
  moreover have slash: "take 1 k \<noteq> ''/''" "k \<noteq> []"
    using split plain by (cases k; auto simp: plain_seg_def list_all_iff)+
  moreover have "CHR 0x00 \<notin> set k"
    using set_join_char [of "CHR ''/''" segs] set_clean_segs [of "[]" "split_slash raw"] nul
    by (auto simp: kj segs_def dest!: subsetD dest: set_split_char)
  ultimately show ?thesis
    using split plain no bad by (auto simp: key_parse_def Let_def plain_seg_def list_all_iff)
qed

theorem key_parse_safe_witness:
  "key_parse ''a//b/./c/../d'' = Inr ''a/b/d'' \<and> key_parse ''a/b/d'' = Inr ''a/b/d''"
proof -
  have k: "key_parse ''a//b/./c/../d'' = Inr ''a/b/d''" by code_simp
  from key_parse_safe [OF k] k show ?thesis by blast
qed

end
