(* ===== verification/Discovery_Wire.thy ===== *)
theory Discovery_Wire
  imports Discovery Types_Json
begin

text \<open>
  \<^verbatim>\<open>discovery/src/wire.rs\<close> and \<^verbatim>\<open>discovery/src/store.rs\<close>: the lease as the JSON object that the nodes of
  a cluster share, the quotes of an ETag, and the choice of the store for the cluster's state.
\<close>

section \<open>The lease on the wire\<close>

text \<open>A key of the object, with its quotes and the colon, as the format strings have it.\<close>

definition wire_key :: "string \<Rightarrow> string" where
  "wire_key k = [CHR 0x22] @ k @ [CHR 0x22] @ '':''"

definition lease_encode :: "disc_lease \<Rightarrow> types_error + string" where
  "lease_encode state =
     (case write_rfc3339 (sat_mul64 (dl_expires_at state) MILLISECOND) [] of
        Inl e \<Rightarrow> Inl e
      | Inr at \<Rightarrow>
          Inr (''{'' @ wire_key ''generation'' @ nat_text (dl_generation state) @ '','' @
            wire_key ''expires_at'' @ write_string at @
            (if dl_owner state \<noteq> [] then '','' @ wire_key ''owner'' @ write_string (dl_owner state) else []) @
            ''}''))"

definition wire_generation :: "(string \<times> json) list \<Rightarrow> string + nat" where
  "wire_generation obj =
     (case obj_get obj ''generation'' of
        None \<Rightarrow> Inr 0
      | Some JNull \<Rightarrow> Inr 0
      | Some (JNumber g) \<Rightarrow>
          (case (number_as_u64 g, number_as_i64 g) of
             (Some n, _) \<Rightarrow> Inr n
           | (None, Some _) \<Rightarrow> Inr 0
           | (None, None) \<Rightarrow> Inl ''generation is not an integer'')
      | Some _ \<Rightarrow> Inl ''generation is not an integer'')"

definition wire_expires_at :: "(string \<times> json) list \<Rightarrow> string + nat" where
  "wire_expires_at obj =
     (case obj_get obj ''expires_at'' of
        None \<Rightarrow> Inr 0
      | Some JNull \<Rightarrow> Inr 0
      | Some t \<Rightarrow>
          (case as_str t of
             None \<Rightarrow> Inl ''expires_at is not a string''
           | Some s \<Rightarrow>
               (case parse_rfc3339 s of
                  Inl _ \<Rightarrow> Inl ''expires_at is not RFC 3339''
                | Inr at \<Rightarrow> Inr (at div MILLISECOND))))"

definition wire_owner :: "(string \<times> json) list \<Rightarrow> string + string" where
  "wire_owner obj =
     (case obj_get obj ''owner'' of
        None \<Rightarrow> Inr []
      | Some JNull \<Rightarrow> Inr []
      | Some s \<Rightarrow> (case as_str s of None \<Rightarrow> Inl ''owner is not a string'' | Some t \<Rightarrow> Inr t))"

text \<open>\<open>None\<close> is a parse that does not return; there is none.\<close>

definition lease_decode :: "float_text \<Rightarrow> string \<Rightarrow> (string + disc_lease) option" where
  "lease_decode fl body =
     (case json_parse fl body of
        None \<Rightarrow> None
      | Some (Inl _) \<Rightarrow> Some (Inl ''not JSON'')
      | Some (Inr v) \<Rightarrow>
          Some (case as_object v of
             None \<Rightarrow> Inl ''not a JSON object''
           | Some obj \<Rightarrow>
               (case wire_generation obj of
                  Inl e \<Rightarrow> Inl e
                | Inr generation \<Rightarrow>
                    (case wire_expires_at obj of
                       Inl e \<Rightarrow> Inl e
                     | Inr expires_at \<Rightarrow>
                         (case wire_owner obj of
                            Inl e \<Rightarrow> Inl e
                          | Inr owner \<Rightarrow>
                              Inr \<lparr>dl_generation = generation, dl_expires_at = expires_at, dl_owner = owner\<rparr>)))))"

definition strip_quotes :: "string \<Rightarrow> string option" where
  "strip_quotes etag =
     (case etag of
        [] \<Rightarrow> None
      | c # s \<Rightarrow> if c = CHR 0x22 \<and> s \<noteq> [] \<and> last s = CHR 0x22 then Some (butlast s) else None)"

section \<open>The store for the cluster's state\<close>

datatype state_store_kind = SsS3 | SsHoplockServer | SsFile

definition state_store_for :: "bool \<Rightarrow> string \<Rightarrow> string \<Rightarrow> string \<Rightarrow> string \<Rightarrow> state_store_kind" where
  "state_store_for standalone lock_type lock_url s3_endpoint s3_bucket =
     (if standalone then SsFile
      else if s3_bucket \<noteq> [] \<and> s3_endpoint \<noteq> [] then SsS3
      else if (lock_type = [] \<or> lock_type = ''hoplockserver'') \<and> lock_url \<noteq> [] then SsHoplockServer
      else SsFile)"

section \<open>What is written is read\<close>

definition disc_lease_ok :: "disc_lease \<Rightarrow> bool" where
  "disc_lease_ok l \<longleftrightarrow> dl_generation l \<le> u64_max \<and> dl_expires_at l \<le> u64_max \<and> utf8_valid (dl_owner l)"

text \<open>The object that the text stands for.\<close>

definition lease_object :: "string \<Rightarrow> disc_lease \<Rightarrow> json" where
  "lease_object at l =
     JObject ([(''generation'', json_uint (dl_generation l)), (''expires_at'', JString at)] @
       (if dl_owner l \<noteq> [] then [(''owner'', JString (dl_owner l))] else []))"

lemma wire_keys:
  "write_string ''generation'' @ '':'' = wire_key ''generation''"
  "write_string ''expires_at'' @ '':'' = wire_key ''expires_at''"
  "write_string ''owner'' @ '':'' = wire_key ''owner''"
  by code_simp+

lemma wire_keys_append:
  "write_string ''generation'' @ CHR '':'' # s = wire_key ''generation'' @ s"
  "write_string ''expires_at'' @ CHR '':'' # s = wire_key ''expires_at'' @ s"
  "write_string ''owner'' @ CHR '':'' # s = wire_key ''owner'' @ s"
  using wire_keys by (metis append_Cons append_Nil append_assoc)+

lemma lease_encode_object:
  assumes "write_rfc3339 (sat_mul64 (dl_expires_at l) MILLISECOND) [] = Inr at"
  shows "\<exists>s. lease_encode l = Inr s \<and> json_write fl (lease_object at l) = Inr s"
  using assms by (simp add: lease_encode_def lease_object_def json_uint_def write_number_def wire_keys_append)

lemma lease_object_wf: "disc_lease_ok l \<Longrightarrow> utf8_valid at \<Longrightarrow> json_wf MAX_DEPTH (lease_object at l)"
  by (auto simp: lease_object_def disc_lease_ok_def MAX_DEPTH_def numeral_eq_Suc json_uint_def ascii_valid)

text \<open>
  C29. The lease survives the wire: the text of a lease, when it is within the input bound, is read
  back as the same lease, except that an expiry beyond the last instant of the time format (year
  2554) becomes that instant; the writing never fails.
\<close>

theorem lease_wire_roundtrip:
  assumes "disc_lease_ok l"
  shows "\<exists>s. lease_encode l = Inr s \<and> (length s \<le> MAX_INPUT \<longrightarrow>
    lease_decode fl s = Some (Inr (l\<lparr>dl_expires_at := min (dl_expires_at l) (u64_max div MILLISECOND)\<rparr>)))"
proof -
  let ?t = "sat_mul64 (dl_expires_at l) MILLISECOND"
  have t: "?t \<le> u64_max" by (simp add: sat_mul64_def)
  obtain at where at: "write_rfc3339 ?t [] = Inr at" "parse_rfc3339 at = Inr ?t"
    using rfc3339_read_back [OF t] by blast
  obtain s where s: "lease_encode l = Inr s" "json_write fl (lease_object at l) = Inr s"
    using lease_encode_object [OF at(1)] by blast
  have "json_parse fl s = ok (lease_object at l)" if "length s \<le> MAX_INPUT"
    using json_parse_write [OF lease_object_wf [OF assms write_rfc3339_valid [OF t at(1)]] s(2) that] .
  moreover have "?t div MILLISECOND = min (dl_expires_at l) (u64_max div MILLISECOND)"
    by (auto simp: sat_mul64_def min_def MILLISECOND_def div_le_mono)
  ultimately show ?thesis
    using s(1) at(2)
    by (auto simp: lease_decode_def lease_object_def as_object_def wire_generation_def wire_expires_at_def
        wire_owner_def obj_get_def json_uint_def number_as_u64_def as_str_def)
qed

lemma ex_stamp: "write_rfc3339 (sat_mul64 0 MILLISECOND) [] = Inr ''0001-01-01T00:00:00Z''"
  by (simp add: write_rfc3339_def sat_mul64_def time_is_zero_def)

theorem lease_wire_roundtrip_witness:
  "\<exists>s. lease_encode \<lparr>dl_generation = 7, dl_expires_at = 0, dl_owner = ''10.0.0.1:9080''\<rparr> = Inr s \<and>
     lease_decode plain_floats s =
       Some (Inr \<lparr>dl_generation = 7, dl_expires_at = 0, dl_owner = ''10.0.0.1:9080''\<rparr>)"
proof -
  let ?l = "\<lparr>dl_generation = 7, dl_expires_at = 0, dl_owner = ''10.0.0.1:9080''\<rparr>"
  have wf: "disc_lease_ok ?l" by (simp add: disc_lease_ok_def ascii_valid u64_max_def)
  have len: "list_all (\<lambda>s. length s \<le> MAX_INPUT) (case lease_encode ?l of Inr s \<Rightarrow> [s] | Inl _ \<Rightarrow> [])"
    unfolding lease_encode_def disc_lease.simps ex_stamp by code_simp
  obtain s where s: "lease_encode ?l = Inr s"
    "length s \<le> MAX_INPUT \<longrightarrow> lease_decode plain_floats s =
       Some (Inr (?l\<lparr>dl_expires_at := min (dl_expires_at ?l) (u64_max div MILLISECOND)\<rparr>))"
    using lease_wire_roundtrip [OF wf, of plain_floats] by blast
  with len show ?thesis by (auto simp: u64_max_def MILLISECOND_def)
qed

end
