(* ===== verification/Hoplock.thy ===== *)
theory Hoplock
  imports Lockserver Discovery_Wire
begin

text \<open>
  \<^verbatim>\<open>store/src/hoplock.rs\<close>: the lease and the cluster's state on a lock server, over HTTP.  The HTTP
  client is a parameter \<open>http\<close> over a world \<open>'s\<close>; the clients are stores of a lease for \<open>Discovery\<close>.
  Of an error reply the status is kept and not the excerpt of its body, which only the log shows.

  The second half puts client, network and lock server together: requests and replies may get lost.
\<close>

section \<open>HTTP\<close>

record http_call =
  hc_method :: string
  hc_url :: string
  hc_headers :: "(string \<times> string) list"
  hc_body :: "string option"
  hc_timeout :: nat

record reply =
  rp_status :: nat
  rp_headers :: "(string \<times> string) list"
  rp_body :: string

type_synonym 's http = "http_call \<Rightarrow> 's \<Rightarrow> (string + reply) \<times> 's"

definition reply_header :: "reply \<Rightarrow> string \<Rightarrow> string option" where
  "reply_header r name =
     map_option snd (find (\<lambda>(k, _). map ascii_lower k = map ascii_lower name) (rp_headers r))"

definition reply_etag :: "reply \<Rightarrow> string option" where
  "reply_etag r = (case reply_header r ''ETag'' of Some e \<Rightarrow> if e = [] then None else Some e | None \<Rightarrow> None)"

section \<open>Errors\<close>

datatype client_error =
    CeHttp string string string
  | CeStatus string string nat
  | CeMissingEtag string string
  | CeBadLease string string

text \<open>A URL without its user and password.\<close>

definition redact_url :: "string \<Rightarrow> string" where
  "redact_url url =
     (let (scheme, rest) = (case find_text ''://'' url of
             Some i \<Rightarrow> (take (i + 3) url, drop (i + 3) url) | None \<Rightarrow> ([], url));
          stop = (\<lambda>c. c \<noteq> CHR ''/'' \<and> c \<noteq> CHR ''?'' \<and> c \<noteq> CHR ''#'');
          authority = takeWhile stop rest;
          tail = dropWhile stop rest;
          host = (if CHR ''@'' \<in> set authority then rev (takeWhile (\<lambda>c. c \<noteq> CHR ''@'') (rev authority)) else authority)
      in scheme @ host @ tail)"

section \<open>One server\<close>

record lock_server =
  sv_base :: string
  sv_api_key :: string
  sv_timeout :: nat

definition server_new :: "string \<Rightarrow> string \<Rightarrow> nat \<Rightarrow> lock_server" where
  "server_new url api_key timeout =
     \<lparr>sv_base = rev (dropWhile (\<lambda>c. c = CHR ''/'') (rev url)), sv_api_key = api_key, sv_timeout = timeout\<rparr>"

definition server_url :: "lock_server \<Rightarrow> string \<Rightarrow> string" where
  "server_url sv key = sv_base sv @ ''/'' @ dropWhile (\<lambda>c. c = CHR ''/'') key"

definition server_call ::
  "'s http \<Rightarrow> lock_server \<Rightarrow> string \<Rightarrow> string \<Rightarrow> (string \<times> string) list \<Rightarrow> string option \<Rightarrow> 's \<Rightarrow> (client_error + reply) \<times> 's" where
  "server_call http sv meth key extra body s =
     (let url = server_url sv key;
          headers = extra @ (if sv_api_key sv \<noteq> [] then [(''X-API-Key'', sv_api_key sv)] else [])
      in case http \<lparr>hc_method = meth, hc_url = url, hc_headers = headers, hc_body = body,
                    hc_timeout = sv_timeout sv\<rparr> s of
           (Inl source, s1) \<Rightarrow> (Inl (CeHttp meth (redact_url url) source), s1)
         | (Inr r, s1) \<Rightarrow> (Inr r, s1))"

definition status_error :: "lock_server \<Rightarrow> string \<Rightarrow> string \<Rightarrow> reply \<Rightarrow> client_error" where
  "status_error sv op key r = CeStatus op (redact_url (server_url sv key)) (rp_status r)"

section \<open>The lease\<close>

record hoplock_lease =
  hl_server :: lock_server
  hl_key :: string
  hl_last_error :: "client_error option"

definition hoplock_lease_new :: "string \<Rightarrow> string \<Rightarrow> string \<Rightarrow> nat \<Rightarrow> hoplock_lease" where
  "hoplock_lease_new url api_key key timeout =
     \<lparr>hl_server = server_new url api_key timeout, hl_key = key, hl_last_error = None\<rparr>"

definition hl_unreachable :: "client_error \<Rightarrow> hoplock_lease \<Rightarrow> disc_error \<times> hoplock_lease" where
  "hl_unreachable e l = (DUnreachable, l\<lparr>hl_last_error := Some e\<rparr>)"

definition hl_missing_etag :: "string \<Rightarrow> hoplock_lease \<Rightarrow> disc_error \<times> hoplock_lease" where
  "hl_missing_etag op l = hl_unreachable (CeMissingEtag op (hl_key l)) l"

definition hl_bad_status :: "string \<Rightarrow> reply \<Rightarrow> hoplock_lease \<Rightarrow> disc_error \<times> hoplock_lease" where
  "hl_bad_status op r l = hl_unreachable (status_error (hl_server l) op (hl_key l) r) l"

text \<open>A failure: the error, with what the lease then remembers of it.\<close>

definition hl_fail :: "disc_error \<times> hoplock_lease \<Rightarrow> 's \<Rightarrow> (disc_error + 'a) \<times> hoplock_lease \<times> 's" where
  "hl_fail p s = (Inl (fst p), snd p, s)"

definition hl_call ::
  "'s http \<Rightarrow> string \<Rightarrow> (string \<times> string) list \<Rightarrow> string option \<Rightarrow> hoplock_lease \<times> 's \<Rightarrow> (disc_error + reply) \<times> hoplock_lease \<times> 's" where
  "hl_call http meth extra body ls =
     (case ls of (l, s) \<Rightarrow>
        case server_call http (hl_server l) meth (hl_key l) extra body s of
          (Inr r, s1) \<Rightarrow> (Inr r, l, s1)
        | (Inl e, s1) \<Rightarrow> hl_fail (hl_unreachable e l) s1)"

text \<open>Reading the body always returns (\<open>json_parse_terminates\<close>).\<close>

definition hl_read :: "float_text \<Rightarrow> 's http \<Rightarrow> hoplock_lease \<times> 's \<Rightarrow> disc_read \<times> hoplock_lease \<times> 's" where
  "hl_read fl http ls =
     (case hl_call http ''GET'' [] None ls of
        (Inl e, ls1) \<Rightarrow> (Inl e, ls1)
      | (Inr r, l, s) \<Rightarrow>
          if rp_status r = 200
          then (case the (lease_decode fl (rp_body r)) of
                  Inl why \<Rightarrow> hl_fail (hl_unreachable (CeBadLease (hl_key l) why) l) s
                | Inr state \<Rightarrow>
                    (case reply_etag r of
                       None \<Rightarrow> hl_fail (hl_missing_etag ''GET'' l) s
                     | Some etag \<Rightarrow> (Inr (state, etag), l\<lparr>hl_last_error := None\<rparr>, s)))
          else if rp_status r = 404 then (Inl DNoLease, l\<lparr>hl_last_error := None\<rparr>, s)
          else hl_fail (hl_bad_status ''GET'' r l) s)"

definition hl_write :: "'s http \<Rightarrow> string \<Rightarrow> disc_lease \<Rightarrow> hoplock_lease \<times> 's \<Rightarrow> (disc_error + string) \<times> hoplock_lease \<times> 's" where
  "hl_write http prev state ls =
     (case lease_encode state of
        Inl _ \<Rightarrow> (case ls of (l, s) \<Rightarrow> hl_fail (hl_unreachable (CeBadLease (hl_key l) ''out of memory while encoding'') l) s)
      | Inr body \<Rightarrow>
          let cond = (if prev = [] then (''If-None-Match'', ''*'') else (''If-Match'', prev));
              headers = [(''Content-Type'', ''application/json''), cond]
          in case hl_call http ''PUT'' headers (Some body) ls of
               (Inl e, ls1) \<Rightarrow> (Inl e, ls1)
             | (Inr r, l, s) \<Rightarrow>
                 if rp_status r = 200 \<or> rp_status r = 201
                 then (case reply_etag r of
                         None \<Rightarrow> hl_fail (hl_missing_etag ''PUT'' l) s
                       | Some etag \<Rightarrow> (Inr etag, l\<lparr>hl_last_error := None\<rparr>, s))
                 else if rp_status r = 409 \<or> rp_status r = 412 then (Inl DLeaseHeld, l, s)
                 else hl_fail (hl_bad_status ''PUT'' r l) s)"

definition hl_delete :: "'s http \<Rightarrow> string \<Rightarrow> hoplock_lease \<times> 's \<Rightarrow> (disc_error + unit) \<times> hoplock_lease \<times> 's" where
  "hl_delete http handle ls =
     (if handle = [] then (Inl DLeaseHeld, ls)
      else case hl_call http ''DELETE'' [(''If-Match'', handle)] None ls of
             (Inl e, ls1) \<Rightarrow> (Inl e, ls1)
           | (Inr r, l, s) \<Rightarrow>
               if rp_status r = 200 \<or> rp_status r = 204 then (Inr (), l\<lparr>hl_last_error := None\<rparr>, s)
               else if rp_status r = 404 then (Inl DNoLease, l, s)
               else if rp_status r = 412 then (Inl DLeaseHeld, l, s)
               else hl_fail (hl_bad_status ''DELETE'' r l) s)"

definition hoplock_backend :: "float_text \<Rightarrow> 's http \<Rightarrow> (hoplock_lease \<times> 's) backend" where
  "hoplock_backend fl http =
     \<lparr>b_read = hl_read fl http, b_write = hl_write http, b_delete = hl_delete http\<rparr>"

section \<open>The state of the cluster\<close>

record hoplock_state_store =
  hs_server :: lock_server
  hs_key :: string

definition state_key :: "string \<Rightarrow> string" where
  "state_key cluster = ''state/'' @ cluster"

definition hoplock_state_store_new :: "string \<Rightarrow> string \<Rightarrow> string \<Rightarrow> nat \<Rightarrow> hoplock_state_store" where
  "hoplock_state_store_new url api_key cluster timeout =
     \<lparr>hs_server = server_new url api_key timeout, hs_key = state_key cluster\<rparr>"

definition hs_save :: "'s http \<Rightarrow> hoplock_state_store \<Rightarrow> string \<Rightarrow> 's \<Rightarrow> (client_error + unit) \<times> 's" where
  "hs_save http st snapshot s =
     (case server_call http (hs_server st) ''PUT'' (hs_key st) [(''Content-Type'', ''application/json'')] (Some snapshot) s of
        (Inl e, s1) \<Rightarrow> (Inl e, s1)
      | (Inr r, s1) \<Rightarrow>
          (if rp_status r = 200 \<or> rp_status r = 201 \<or> rp_status r = 204 then Inr ()
           else Inl (status_error (hs_server st) ''PUT'' (hs_key st) r), s1))"

definition hs_load :: "'s http \<Rightarrow> hoplock_state_store \<Rightarrow> 's \<Rightarrow> (client_error + string option) \<times> 's" where
  "hs_load http st s =
     (case server_call http (hs_server st) ''GET'' (hs_key st) [] None s of
        (Inl e, s1) \<Rightarrow> (Inl e, s1)
      | (Inr r, s1) \<Rightarrow>
          (if rp_status r = 200 then Inr (Some (rp_body r))
           else if rp_status r = 404 then Inr None
           else Inl (status_error (hs_server st) ''GET'' (hs_key st) r), s1))"

definition hs_describe :: "hoplock_state_store \<Rightarrow> string" where
  "hs_describe st = ''hoplockserver '' @ redact_url (server_url (hs_server st) (hs_key st))"

section \<open>A network with a lock server at the other end\<close>

text \<open>
  What becomes of a call: it gets through, or the request or its reply is lost.  \<open>ln_log\<close> has the bodies
  of all writes that reached the server, the latest first.
\<close>

datatype fate = Through | RequestLost | ReplyLost

record lock_net =
  ln_store :: lock_store
  ln_log :: "string list"
  ln_fate :: "fate list"

definition header_of :: "http_call \<Rightarrow> string \<Rightarrow> string" where
  "header_of c name = (case map_of (hc_headers c) name of Some v \<Rightarrow> v | None \<Rightarrow> [])"

definition head_of :: "http_call \<Rightarrow> head" where
  "head_of c =
     \<lparr>hd_method = hc_method c, hd_path = path_of (hc_url c), hd_api_key = header_of c ''X-API-Key'',
      hd_if_match = header_of c ''If-Match'', hd_if_none_match = header_of c ''If-None-Match''\<rparr>"

definition reply_of :: "response \<Rightarrow> reply" where
  "reply_of r =
     \<lparr>rp_status = rs_status r, rp_headers = resp_headers r,
      rp_body = fst (body_parts r) @ snd (body_parts r)\<rparr>"

definition lock_http :: "string \<Rightarrow> lock_net http" where
  "lock_http api_key c net =
     (let fate = (case ln_fate net of [] \<Rightarrow> Through | f # _ \<Rightarrow> f);
          net1 = net\<lparr>ln_fate := tl (ln_fate net)\<rparr>;
          body = (case hc_body c of Some b \<Rightarrow> b | None \<Rightarrow> [])
      in if fate = RequestLost then (Inl ''connection failed'', net1)
         else case exchange api_key answered (head_of c) body (ln_store net1) of
                (r, st) \<Rightarrow>
                  let net2 = net1\<lparr>ln_store := st, ln_log := (if hc_method c = ''PUT'' then [body] else []) @ ln_log net1\<rparr>
                  in if fate = ReplyLost then (Inl ''timeout'', net2) else (Inr (reply_of r), net2))"

end
