(* ===== verification/Hoplock_Properties.thy ===== *)
theory Hoplock_Properties
  imports Hoplock
begin

text \<open>
  Lease threads on a lock server.  A handle is here the hash of the lease's text, so the store does not
  give out handles never seen before, as \<open>cas_record\<close> asks; the threads exclude each other all the same,
  because a text names its owner.
\<close>

section \<open>One order of a lease thread, over any store\<close>

lemma disc_claim_keeps:
  assumes "\<And>s. P s \<Longrightarrow> P (snd (b_read b s))" "\<And>prev st s. P s \<Longrightarrow> P (snd (b_write b prev st s))" "P s"
  shows "P (snd (snd (disc_claim b now d s)))"
proof -
  obtain rd s1 where rd: "b_read b s = (rd, s1)" by fastforce
  then have "P s1" using assms(1) [OF assms(3)] by simp
  with assms(2) [of s1] rd show ?thesis
    by (auto simp: disc_claim_def split: claim_plan.splits prod.splits) (metis snd_conv)
qed

lemma lease_turn_keeps:
  assumes "\<And>s. P s \<Longrightarrow> P (snd (b_read b s))" "\<And>prev st s. P s \<Longrightarrow> P (snd (b_write b prev st s))"
    and "\<And>h s. P s \<Longrightarrow> P (snd (b_delete b h s))" "P s"
  shows "P (snd (snd (lease_turn b now op d s)))"
proof (cases op)
  case OpRead
  then show ?thesis using assms(1) [OF assms(4)] by (auto simp: disc_leader_state_def split: prod.splits)
next
  case OpClaim
  then show ?thesis
    using disc_claim_keeps [where P = P, OF assms(1,2,4), of now d] by (auto simp: disc_try_become_leader_def split: prod.splits)
next
  case OpRenew
  then show ?thesis
    using disc_claim_keeps [where P = P, OF assms(1,2,4), of now d] assms(2) [OF assms(4)]
    by (auto simp: disc_renew_lease_def split: prod.splits renew_plan.splits) (metis snd_conv)
next
  case OpRelease
  then show ?thesis
    using assms(3) [OF assms(4)] assms(4) by (auto simp: disc_release_leadership_def take_handle_def split: prod.splits)
qed

text \<open>The handle a turn leaves is the one before, none, or that of a write of the node's own record.\<close>

definition wrote :: "'s backend \<Rightarrow> nat \<Rightarrow> discovery \<Rightarrow> 's \<Rightarrow> discovery \<Rightarrow> 's \<Rightarrow> bool" where
  "wrote b now d s d' s' \<longleftrightarrow> (\<exists>prev g s1 h. (s1 = s \<or> s1 = snd (b_read b s)) \<and>
     b_write b prev (disc_lease_of g now d) s1 = (Inr h, s') \<and> d' = d\<lparr>d_handle := h, d_generation := g\<rparr>)"

lemma on_write_wrote:
  assumes "b_write b prev (disc_lease_of g now d) s1 = (w, s')" "s1 = s \<or> s1 = snd (b_read b s)"
    and "on_write (disc_lease_of g now d) w d = (r, d')"
  shows "d' = d \<or> wrote b now d s d' s'"
  using assms unfolding wrote_def
  by (cases w) (auto simp: on_write_def disc_lease_of_def; blast)+

lemma disc_claim_wrote:
  assumes "disc_claim b now d s = (r, d', s')"
  shows "d' = d \<or> wrote b now d s d' s'"
proof -
  obtain rd s1 where rd: "b_read b s = (rd, s1)" by fastforce
  have plan: "\<exists>g. st = disc_lease_of g now d" if "plan_claim rd now d = PlanWrite prev st" for prev st
    using that by (auto simp: plan_claim_def split: sum.splits if_splits)
  show ?thesis
  proof (cases "plan_claim rd now d")
    case (PlanWrite prev st)
    then obtain g where st: "st = disc_lease_of g now d" using plan by blast
    obtain w s2 where w: "b_write b prev st s1 = (w, s2)" by fastforce
    with assms rd PlanWrite have "s2 = s'" "on_write st w d = (r, d')"
      by (auto simp: disc_claim_def split: prod.splits)
    with w rd st show ?thesis by (intro on_write_wrote [where ?s1.0 = s1]) auto
  next
    case (PlanFail e)
    with assms rd show ?thesis by (simp add: disc_claim_def)
  qed
qed

lemma lease_turn_handle:
  assumes "lease_turn b now op d s = (r, d', s')"
  shows "d' = d \<or> d' = d\<lparr>d_handle := []\<rparr> \<or> wrote b now d s d' s'"
proof (cases op)
  case OpRead
  with assms show ?thesis by (auto split: prod.splits)
next
  case OpClaim
  with assms obtain r1 where "disc_claim b now d s = (r1, d', s')"
    by (auto simp: disc_try_become_leader_def split: prod.splits)
  from disc_claim_wrote [OF this] show ?thesis by blast
next
  case OpRenew
  show ?thesis
  proof (cases "d_handle d = []")
    case True
    with assms OpRenew obtain r1 where "disc_claim b now d s = (r1, d', s')"
      by (auto simp: disc_renew_lease_def renew_op_def split: prod.splits)
    from disc_claim_wrote [OF this] show ?thesis by blast
  next
    case False
    with assms OpRenew obtain w r1 where "b_write b (d_handle d) (disc_lease_of (d_generation d) now d) s = (w, s')"
      "on_write (disc_lease_of (d_generation d) now d) w d = (r1, d')"
      by (auto simp: disc_renew_lease_def renew_op_def split: prod.splits)
    from on_write_wrote [OF this(1) _ this(2)] show ?thesis by blast
  qed
next
  case OpRelease
  with assms show ?thesis by (auto simp: disc_release_leadership_def take_handle_def split: prod.splits)
qed

section \<open>A call on the lock server\<close>

text \<open>A client that has the server's API key and whose URL names the object \<open>k\<close>.\<close>

definition good_client :: "string \<Rightarrow> string \<Rightarrow> hoplock_lease \<Rightarrow> bool" where
  "good_client api k l \<longleftrightarrow> sv_api_key (hl_server l) = api \<and>
     (\<exists>raw. path_of (server_url (hl_server l) (hl_key l)) = CHR ''/'' # raw \<and> raw \<noteq> [] \<and> raw \<noteq> ''health'' \<and>
       key_parse raw = Inr k)"

lemma good_client_error [simp]: "good_client api k (l\<lparr>hl_last_error := e\<rparr>) = good_client api k l"
  by (simp add: good_client_def)

lemma is_authorised_same [simp]: "is_authorised api api"
  by (simp add: is_authorised_def)

definition write_cond :: "string \<Rightarrow> condition" where
  "write_cond prev = (if prev = [] then \<lparr>cn_if_none_match = ''*'', cn_if_match = []\<rparr>
     else \<lparr>cn_if_none_match = [], cn_if_match = prev\<rparr>)"

lemma exchange_get:
  assumes "path = CHR ''/'' # raw" "raw \<noteq> []" "raw \<noteq> ''health''" "key_parse raw = Inr k"
  shows "exchange api answered \<lparr>hd_method = ''GET'', hd_path = path, hd_api_key = api, hd_if_match = m, hd_if_none_match = n\<rparr> body st =
    (respond (DnGet (store_get k st)), st)"
  using assms by (simp add: exchange_def server_begin_def answered_def)

lemma exchange_put:
  assumes "path = CHR ''/'' # raw" "raw \<noteq> []" "raw \<noteq> ''health''" "key_parse raw = Inr k"
  shows "exchange api answered \<lparr>hd_method = ''PUT'', hd_path = path, hd_api_key = api,
      hd_if_match = cn_if_match (write_cond prev), hd_if_none_match = cn_if_none_match (write_cond prev)\<rparr> body st =
    (respond (DnPut (fst (store_put_if k body (write_cond prev) st))), snd (store_put_if k body (write_cond prev) st))"
  using assms by (auto simp: exchange_def server_begin_def with_body_def write_cond_def answered_def split: prod.splits)

lemma exchange_delete:
  assumes "path = CHR ''/'' # raw" "raw \<noteq> []" "raw \<noteq> ''health''" "key_parse raw = Inr k"
  shows "exchange api answered \<lparr>hd_method = ''DELETE'', hd_path = path, hd_api_key = api, hd_if_match = m, hd_if_none_match = n\<rparr> body st =
    (let c = \<lparr>cn_if_none_match = [], cn_if_match = m\<rparr>
     in (respond (DnDelete (fst (store_delete k c st))), snd (store_delete k c st)))"
  using assms by (auto simp: exchange_def server_begin_def answered_def Let_def split: prod.splits)

text \<open>
  What a call leaves on the network: \<open>st\<close> is the store after the exchange; a lost request leaves the store,
  and an answer is the server's or none.
\<close>

definition called :: "lock_net \<Rightarrow> lock_store \<Rightarrow> string list \<Rightarrow> response \<Rightarrow> (disc_error + reply) \<Rightarrow> lock_net \<Rightarrow> bool" where
  "called net st bodies resp r net' \<longleftrightarrow>
     (r = Inl DUnreachable \<and> ln_fate net \<noteq> [] \<and> ln_store net' = ln_store net \<and> ln_log net' = ln_log net) \<or>
     ((r = Inr (reply_of resp) \<or> r = Inl DUnreachable \<and> ln_fate net \<noteq> []) \<and> ln_store net' = st \<and>
       ln_log net' = bodies @ ln_log net)"

lemma hl_call_called:
  assumes "hl_call (lock_http api) meth extra body (l, net) = (r, l', net')"
    and "exchange api answered (head_of \<lparr>hc_method = meth, hc_url = server_url (hl_server l) (hl_key l),
        hc_headers = extra @ (if sv_api_key (hl_server l) \<noteq> [] then [(''X-API-Key'', sv_api_key (hl_server l))] else []),
        hc_body = body, hc_timeout = sv_timeout (hl_server l)\<rparr>) (case body of Some b \<Rightarrow> b | None \<Rightarrow> []) (ln_store net) = (resp, st)"
  shows "called net st (if meth = ''PUT'' then [case body of Some b \<Rightarrow> b | None \<Rightarrow> []] else []) resp r net' \<and>
    (\<exists>e. l' = l\<lparr>hl_last_error := e\<rparr>)"
proof -
  have l: "\<exists>e. l = l\<lparr>hl_last_error := e\<rparr>" by (rule exI [of _ "hl_last_error l"]) simp
  show ?thesis
    using assms l
    by (cases "ln_fate net") (auto simp: hl_call_def server_call_def lock_http_def Let_def called_def hl_fail_def hl_unreachable_def
        split: if_splits)
qed

lemma api_header: "map_of (extra @ (if api \<noteq> [] then [(''X-API-Key'', api)] else [])) ''X-API-Key'' =
    (case map_of extra ''X-API-Key'' of Some v \<Rightarrow> Some v | None \<Rightarrow> if api \<noteq> [] then Some api else None)"
  by (auto simp: map_add_def split: option.splits)

lemma head_of_call:
  assumes "map_of extra ''X-API-Key'' = None"
  shows "head_of \<lparr>hc_method = meth, hc_url = url, hc_headers = extra @ (if api \<noteq> [] then [(''X-API-Key'', api)] else []),
      hc_body = body, hc_timeout = t\<rparr> =
    \<lparr>hd_method = meth, hd_path = path_of url, hd_api_key = api,
     hd_if_match = (case map_of extra ''If-Match'' of Some v \<Rightarrow> v | None \<Rightarrow> []),
     hd_if_none_match = (case map_of extra ''If-None-Match'' of Some v \<Rightarrow> v | None \<Rightarrow> [])\<rparr>"
  using assms by (auto simp: head_of_def header_of_def map_add_def split: option.splits)

lemma hl_call_exchange:
  assumes "hl_call (lock_http api) meth extra body (l, net) = (r, l', net')"
    and "map_of extra ''X-API-Key'' = None" "sv_api_key (hl_server l) = api"
    and "exchange api answered \<lparr>hd_method = meth, hd_path = path_of (server_url (hl_server l) (hl_key l)), hd_api_key = api,
        hd_if_match = (case map_of extra ''If-Match'' of Some v \<Rightarrow> v | None \<Rightarrow> []),
        hd_if_none_match = (case map_of extra ''If-None-Match'' of Some v \<Rightarrow> v | None \<Rightarrow> [])\<rparr>
      (case body of Some b \<Rightarrow> b | None \<Rightarrow> []) (ln_store net) = (resp, st)"
  shows "called net st (if meth = ''PUT'' then [case body of Some b \<Rightarrow> b | None \<Rightarrow> []] else []) resp r net' \<and>
    (\<exists>e. l' = l\<lparr>hl_last_error := e\<rparr>)"
  using assms(1) by (rule hl_call_called) (simp only: head_of_call [OF assms(2)] assms(3,4))

lemma hl_put_called:
  assumes "good_client api k l"
    and "hl_call (lock_http api) ''PUT'' [(''Content-Type'', ''application/json''),
        if prev = [] then (''If-None-Match'', ''*'') else (''If-Match'', prev)] (Some body) (l, net) = (r, l', net')"
  shows "called net (snd (store_put_if k body (write_cond prev) (ln_store net))) [body]
      (respond (DnPut (fst (store_put_if k body (write_cond prev) (ln_store net))))) r net' \<and>
    (\<exists>e. l' = l\<lparr>hl_last_error := e\<rparr>)"
proof -
  let ?extra = "[(''Content-Type'', ''application/json''), if prev = [] then (''If-None-Match'', ''*'') else (''If-Match'', prev)]"
  obtain raw where raw: "path_of (server_url (hl_server l) (hl_key l)) = CHR ''/'' # raw" "raw \<noteq> []" "raw \<noteq> ''health''"
    "key_parse raw = Inr k" and api: "sv_api_key (hl_server l) = api"
    using assms(1) by (auto simp: good_client_def)
  have h: "map_of ?extra ''X-API-Key'' = None"
    "(case map_of ?extra ''If-Match'' of Some v \<Rightarrow> v | None \<Rightarrow> []) = cn_if_match (write_cond prev)"
    "(case map_of ?extra ''If-None-Match'' of Some v \<Rightarrow> v | None \<Rightarrow> []) = cn_if_none_match (write_cond prev)"
    by (auto simp: write_cond_def)
  show ?thesis
    using hl_call_exchange [OF assms(2) h(1) api] exchange_put [OF raw, of api prev body "ln_store net"]
    by (simp only: h(2,3) option.case simp_thms if_True)
qed

lemma hl_get_called:
  assumes "good_client api k l" "hl_call (lock_http api) ''GET'' [] None (l, net) = (r, l', net')"
  shows "called net (ln_store net) [] (respond (DnGet (store_get k (ln_store net)))) r net' \<and> (\<exists>e. l' = l\<lparr>hl_last_error := e\<rparr>)"
proof -
  obtain raw where raw: "path_of (server_url (hl_server l) (hl_key l)) = CHR ''/'' # raw" "raw \<noteq> []" "raw \<noteq> ''health''"
    "key_parse raw = Inr k" and api: "sv_api_key (hl_server l) = api"
    using assms(1) by (auto simp: good_client_def)
  show ?thesis
    using hl_call_exchange [OF assms(2) _ api] exchange_get [OF raw, of api "[]" "[]" "[]" "ln_store net"] by simp
qed

lemma hl_delete_called:
  assumes "good_client api k l" "hl_call (lock_http api) ''DELETE'' [(''If-Match'', handle)] None (l, net) = (r, l', net')"
  shows "called net (snd (store_delete k \<lparr>cn_if_none_match = [], cn_if_match = handle\<rparr> (ln_store net))) []
      (respond (DnDelete (fst (store_delete k \<lparr>cn_if_none_match = [], cn_if_match = handle\<rparr> (ln_store net))))) r net' \<and>
    (\<exists>e. l' = l\<lparr>hl_last_error := e\<rparr>)"
proof -
  obtain raw where raw: "path_of (server_url (hl_server l) (hl_key l)) = CHR ''/'' # raw" "raw \<noteq> []" "raw \<noteq> ''health''"
    "key_parse raw = Inr k" and api: "sv_api_key (hl_server l) = api"
    using assms(1) by (auto simp: good_client_def)
  show ?thesis
    using hl_call_exchange [OF assms(2) _ api] exchange_delete [OF raw, of api handle "[]" "[]" "ln_store net"]
    by (simp add: Let_def)
qed

end
