(* ===== verification/Lock_Cluster.thy ===== *)
theory Lock_Cluster
  imports Hoplock_Properties
begin

text \<open>
  A cluster on one lock server: lease threads (\<open>lease_turn\<close>) whose store is the HTTP client of
  \<open>Hoplock\<close>, over a network that loses requests and replies.
\<close>

section \<open>A text of a lease names its owner\<close>

lemma write_string_inj:
  assumes "utf8_valid s" "utf8_valid t" "write_string s @ r = write_string t @ r'"
  shows "s = t \<and> r = r'"
proof -
  have "ok (s, 0 + length (write_string s), r) = ok (t, 0 + length (write_string t), r')"
    using json_string_write [OF assms(1), of 0 r] json_string_write [OF assms(2), of 0 r'] by (metis assms(3))
  then show ?thesis by simp
qed

lemma nat_text_comma:
  assumes "nat_text m @ CHR '','' # r = nat_text n @ CHR '','' # r'"
  shows "m = n \<and> r = r'"
proof -
  have digit: "c \<noteq> CHR '',''" if "c \<in> set (nat_text k)" for c k
    using nat_text_digits [of k] that by (auto simp: list_all_iff is_digit_def)
  have cut: "takeWhile (\<lambda>c. c \<noteq> CHR '','') (nat_text k @ CHR '','' # q) = nat_text k" for k q
    using digit by (auto simp: takeWhile_append)
  have "nat_text m = nat_text n" using cut [of m r] cut [of n r'] assms by simp
  with assms show ?thesis by simp
qed

lemma lease_encode_at:
  "\<exists>at body. lease_encode l = Inr body \<and> utf8_valid at \<and>
     body = ''{'' @ wire_key ''generation'' @ nat_text (dl_generation l) @ CHR '','' # wire_key ''expires_at'' @ write_string at @
       (if dl_owner l \<noteq> [] then '','' @ wire_key ''owner'' @ write_string (dl_owner l) else []) @ ''}''"
proof -
  let ?t = "sat_mul64 (dl_expires_at l) MILLISECOND"
  have t: "?t \<le> u64_max" by (simp add: sat_mul64_def)
  obtain at where at: "write_rfc3339 ?t [] = Inr at" using rfc3339_read_back [OF t] by blast
  then show ?thesis using write_rfc3339_valid [OF t at] by (simp add: lease_encode_def exI [of _ at])
qed

lemma lease_encode_inj:
  assumes "lease_encode l = Inr body" "lease_encode l' = Inr body" "utf8_valid (dl_owner l)" "utf8_valid (dl_owner l')"
  shows "dl_generation l = dl_generation l' \<and> dl_owner l = dl_owner l'"
proof -
  define rest where "rest w = (if w \<noteq> [] then '','' @ wire_key ''owner'' @ write_string w else []) @ ''}''" for w
  obtain at where at: "utf8_valid at" "body = ''{'' @ wire_key ''generation'' @ nat_text (dl_generation l) @
      CHR '','' # wire_key ''expires_at'' @ write_string at @ rest (dl_owner l)"
    using lease_encode_at [of l] assms(1) by (auto simp: rest_def)
  obtain at' where at': "utf8_valid at'" "body = ''{'' @ wire_key ''generation'' @ nat_text (dl_generation l') @
      CHR '','' # wire_key ''expires_at'' @ write_string at' @ rest (dl_owner l')"
    using lease_encode_at [of l'] assms(2) by (auto simp: rest_def)
  have g: "dl_generation l = dl_generation l'"
    and "wire_key ''expires_at'' @ write_string at @ rest (dl_owner l) = wire_key ''expires_at'' @ write_string at' @ rest (dl_owner l')"
    using at(2) at'(2) nat_text_comma by (metis same_append_eq)+
  then have r: "rest (dl_owner l) = rest (dl_owner l')"
    using write_string_inj [OF at(1) at'(1)] by (metis same_append_eq)
  have "dl_owner l = dl_owner l'"
  proof (cases "dl_owner l = [] \<or> dl_owner l' = []")
    case True
    with r show ?thesis by (auto simp: rest_def split: if_splits)
  next
    case False
    then have "write_string (dl_owner l) @ ''}'' = write_string (dl_owner l') @ ''}''" using r by (simp add: rest_def)
    from write_string_inj [OF assms(3,4) this] show ?thesis by simp
  qed
  with g show ?thesis by simp
qed

section \<open>What a call leaves in the store\<close>

text \<open>The object is a text that was written, under its own hash; the log only grows.\<close>

definition net_ok :: "string \<Rightarrow> string set \<Rightarrow> lock_net \<Rightarrow> bool" where
  "net_ok k bodies net \<longleftrightarrow> bodies \<subseteq> set (ln_log net) \<and>
     (\<forall>obj. bt_get (ln_store net) k = Some obj \<longrightarrow> lo_etag obj = etag_of (lo_body obj) \<and> lo_body obj \<in> set (ln_log net))"

definition world_ok :: "string \<Rightarrow> string \<Rightarrow> string set \<Rightarrow> hoplock_lease \<times> lock_net \<Rightarrow> bool" where
  "world_ok api k bodies w \<longleftrightarrow> good_client api k (fst w) \<and> net_ok k bodies (snd w)"

lemma etag_of_ne [simp]: "etag_of body \<noteq> []"
  by (simp add: etag_of_def etag_from_digest_def)

lemma net_ok_called:
  assumes "called net st bs resp r net'" "net_ok k bodies net"
    and "\<And>obj. bt_get st k = Some obj \<Longrightarrow> bt_get (ln_store net) k = Some obj \<or>
      lo_etag obj = etag_of (lo_body obj) \<and> lo_body obj \<in> set bs"
  shows "net_ok k bodies net'"
proof -
  have "net_ok k bodies net'" if "ln_store net' = ln_store net" "ln_log net' = ln_log net"
    using assms(2) that by (simp add: net_ok_def)
  moreover have "net_ok k bodies net'" if "ln_store net' = st" "ln_log net' = bs @ ln_log net"
    using assms(2) that assms(3) unfolding net_ok_def by auto
  ultimately show ?thesis using assms(1) unfolding called_def by blast
qed

lemma store_put_if_get:
  "bt_get (snd (store_put_if k body c st)) k = Some obj \<Longrightarrow>
     bt_get st k = Some obj \<or> lo_etag obj = etag_of (lo_body obj) \<and> lo_body obj = body"
  by (auto simp: store_put_if_def Let_def split: sum.splits)

lemma store_delete_get: "bt_get (snd (store_delete k c st)) k = Some obj \<Longrightarrow> bt_get st k = Some obj"
  by (auto simp: store_delete_def split: option.splits sum.splits)

lemma good_client_same: "(\<exists>e. l' = l\<lparr>hl_last_error := e\<rparr>) \<Longrightarrow> good_client api k l' = good_client api k l"
  by auto

lemma world_ok_call:
  assumes "world_ok api k bodies (l, net)"
  shows "world_ok api k bodies (snd (hl_call (lock_http api) ''GET'' [] None (l, net)))"
    and "world_ok api k bodies (snd (hl_call (lock_http api) ''DELETE'' [(''If-Match'', handle)] None (l, net)))"
    and "world_ok api k bodies (snd (hl_call (lock_http api) ''PUT'' [(''Content-Type'', ''application/json''),
        if prev = [] then (''If-None-Match'', ''*'') else (''If-Match'', prev)] (Some body) (l, net)))"
proof -
  have good: "good_client api k l" and net: "net_ok k bodies net" using assms by (auto simp: world_ok_def)
  have keep: "world_ok api k bodies (snd x)"
    if "\<And>r l' net'. x = (r, l', net') \<Longrightarrow> called net st bs resp r net' \<and> (\<exists>e. l' = l\<lparr>hl_last_error := e\<rparr>)"
      and "\<And>obj. bt_get st k = Some obj \<Longrightarrow> bt_get (ln_store net) k = Some obj \<or>
        lo_etag obj = etag_of (lo_body obj) \<and> lo_body obj \<in> set bs"
    for x :: "(disc_error + reply) \<times> hoplock_lease \<times> lock_net" and st bs resp
  proof -
    obtain r l' net' where x: "x = (r, l', net')" by (cases x)
    from that(1) [OF x] have "net_ok k bodies net'" "good_client api k l'"
      using net_ok_called [OF _ net that(2)] good by auto
    then show ?thesis by (simp add: world_ok_def x)
  qed
  show "world_ok api k bodies (snd (hl_call (lock_http api) ''GET'' [] None (l, net)))"
    by (rule keep [OF hl_get_called [OF good]]) auto
  show "world_ok api k bodies (snd (hl_call (lock_http api) ''DELETE'' [(''If-Match'', handle)] None (l, net)))"
    by (rule keep [OF hl_delete_called [OF good]]) (auto dest: store_delete_get)
  show "world_ok api k bodies (snd (hl_call (lock_http api) ''PUT'' [(''Content-Type'', ''application/json''),
        if prev = [] then (''If-None-Match'', ''*'') else (''If-Match'', prev)] (Some body) (l, net)))"
    by (rule keep [OF hl_put_called [OF good]]) (auto dest: store_put_if_get)
qed

text \<open>What the client makes of a call changes only the error that it remembers.\<close>

lemma world_ok_error [simp]: "world_ok api k bodies (l\<lparr>hl_last_error := e\<rparr>, net) = world_ok api k bodies (l, net)"
  by (simp add: world_ok_def)

lemma world_ok_fail [simp]:
  "world_ok api k bodies (snd (hl_fail (hl_unreachable e l) net)) = world_ok api k bodies (l, net)"
  "world_ok api k bodies (snd (hl_fail (hl_missing_etag op l) net)) = world_ok api k bodies (l, net)"
  "world_ok api k bodies (snd (hl_fail (hl_bad_status op r l) net)) = world_ok api k bodies (l, net)"
  by (simp_all add: hl_fail_def hl_unreachable_def hl_missing_etag_def hl_bad_status_def)

lemma world_ok_read: "world_ok api k bodies w \<Longrightarrow> world_ok api k bodies (snd (hl_read fl (lock_http api) w))"
  using world_ok_call(1) [of api k bodies "fst w" "snd w"]
  by (cases "hl_call (lock_http api) ''GET'' [] None w") (auto simp: hl_read_def split: sum.splits option.splits)

lemma world_ok_delete: "world_ok api k bodies w \<Longrightarrow> world_ok api k bodies (snd (hl_delete (lock_http api) h w))"
  using world_ok_call(2) [of api k bodies "fst w" "snd w" h]
  by (cases "hl_call (lock_http api) ''DELETE'' [(''If-Match'', h)] None w") (auto simp: hl_delete_def split: sum.splits)

lemma world_ok_write: "world_ok api k bodies w \<Longrightarrow> world_ok api k bodies (snd (hl_write (lock_http api) prev st w))"
proof (cases "lease_encode st")
  case (Inr body)
  assume ok: "world_ok api k bodies w"
  let ?call = "hl_call (lock_http api) ''PUT'' [(''Content-Type'', ''application/json''),
    if prev = [] then (''If-None-Match'', ''*'') else (''If-Match'', prev)] (Some body) w"
  have "world_ok api k bodies (snd ?call)"
    using world_ok_call(3) [of api k bodies "fst w" "snd w" prev body] ok by simp
  then show ?thesis
    by (cases ?call) (auto simp: hl_write_def Inr Let_def split: sum.splits option.splits)
qed (auto simp: hl_write_def split: prod.splits)

lemma world_ok_turn:
  assumes "world_ok api k bodies w" "lease_turn (hoplock_backend fl (lock_http api)) now op d w = (r, d', w')"
  shows "world_ok api k bodies w'"
  using lease_turn_keeps [where P = "world_ok api k bodies" and b = "hoplock_backend fl (lock_http api)", of w now op d] assms
  by (simp add: hoplock_backend_def world_ok_read world_ok_write world_ok_delete)

section \<open>What a write answers\<close>

lemma reply_put [simp]:
  "rp_status (reply_of (respond (DnPut (Inr e)))) = 200"
  "rp_status (reply_of (respond (DnPut (Inl KPrecondition)))) = 412"
  by (simp_all add: reply_of_def resp_status_def resp_error_def)

lemma reply_put_etag [simp]: "e \<noteq> [] \<Longrightarrow> reply_etag (reply_of (respond (DnPut (Inr e)))) = Some e"
  by (simp add: reply_etag_def reply_header_def reply_of_def resp_headers_def resp_status_def)

lemma store_put_if_answer:
  "fst (store_put_if k body c st) = Inr (etag_of body) \<or> fst (store_put_if k body c st) = Inl KPrecondition"
  by (auto simp: store_put_if_def check_put_def Let_def split: option.splits)

lemma hl_write_ok:
  assumes "good_client api k l" "hl_write (lock_http api) prev st (l, net) = (Inr h, l', net')"
  shows "\<exists>body. lease_encode st = Inr body \<and> h = etag_of body \<and> body \<in> set (ln_log net')"
proof (cases "lease_encode st")
  case (Inr body)
  let ?call = "hl_call (lock_http api) ''PUT'' [(''Content-Type'', ''application/json''),
    if prev = [] then (''If-None-Match'', ''*'') else (''If-Match'', prev)] (Some body) (l, net)"
  obtain r l1 net1 where c: "?call = (Inr r, l1, net1)" and r: "rp_status r = 200 \<or> rp_status r = 201" "reply_etag r = Some h"
    and net1: "net1 = net'"
    using assms(2) by (cases ?call) (auto simp: hl_write_def Inr Let_def hl_fail_def split: sum.splits option.splits if_splits)
  have "r = reply_of (respond (DnPut (fst (store_put_if k body (write_cond prev) (ln_store net)))))" "body \<in> set (ln_log net1)"
    using hl_put_called [OF assms(1) c] by (auto simp: called_def)
  with r net1 Inr show ?thesis
    using store_put_if_answer [of k body "write_cond prev" "ln_store net"] by (auto simp del: respond.simps)
qed (use assms(2) in \<open>simp add: hl_write_def hl_fail_def\<close>)

text \<open>A write on a condition that does not hold, when nothing gets lost.\<close>

lemma hl_write_stale:
  assumes "good_client api k l" "ln_fate net = []" "bt_get (ln_store net) k = Some obj" "lo_etag obj \<noteq> prev"
  shows "\<exists>l' net'. hl_write (lock_http api) prev st (l, net) = (Inl DLeaseHeld, l', net') \<and> ln_store net' = ln_store net"
proof -
  obtain body where body: "lease_encode st = Inr body" using lease_encode_at [of st] by blast
  let ?call = "hl_call (lock_http api) ''PUT'' [(''Content-Type'', ''application/json''),
    if prev = [] then (''If-None-Match'', ''*'') else (''If-Match'', prev)] (Some body) (l, net)"
  obtain r l1 net1 where c: "?call = (r, l1, net1)" by (cases ?call)
  have put: "store_put_if k body (write_cond prev) (ln_store net) = (Inl KPrecondition, ln_store net)"
    using assms(3,4) by (simp add: store_put_if_def check_put_def write_cond_def)
  have "r = Inr (reply_of (respond (DnPut (Inl KPrecondition))))" "ln_store net1 = ln_store net"
    using hl_put_called [OF assms(1) c] assms(2) put by (auto simp: called_def)
  with c body show ?thesis by (simp add: hl_write_def Let_def del: respond.simps)
qed

section \<open>The cluster\<close>

text \<open>
  Every node has a lease thread and a client.  A thread serves one order at any time, on any clock; a node
  may start again and then knows nothing of its lease.
\<close>

record lock_cluster =
  lk_node :: "nat \<Rightarrow> discovery"
  lk_client :: "nat \<Rightarrow> hoplock_lease"
  lk_net :: lock_net

inductive lock_reach :: "float_text \<Rightarrow> string \<Rightarrow> string \<Rightarrow> lock_cluster \<Rightarrow> bool"
  for fl :: float_text and api k :: string where
  start: "\<forall>i. d_handle (lk_node c i) = [] \<and> utf8_valid (d_owner (lk_node c i)) \<and> good_client api k (lk_client c i) \<Longrightarrow>
    ln_store (lk_net c) = [] \<Longrightarrow> ln_log (lk_net c) = [] \<Longrightarrow> lock_reach fl api k c"
| turn: "lock_reach fl api k c \<Longrightarrow>
    lease_turn (hoplock_backend fl (lock_http api)) now op (lk_node c i) (lk_client c i, lk_net c) = (r, d, l, net) \<Longrightarrow>
    lock_reach fl api k (c\<lparr>lk_node := (lk_node c)(i := d), lk_client := (lk_client c)(i := l), lk_net := net\<rparr>)"
| restart: "lock_reach fl api k c \<Longrightarrow>
    lock_reach fl api k (c\<lparr>lk_node := (lk_node c)(i := discovery_new (d_owner (lk_node c i)) ttl)\<rparr>)"

text \<open>A handle is the hash of a text that was written and that names the node and its generation.\<close>

definition handle_ok :: "string set \<Rightarrow> discovery \<Rightarrow> bool" where
  "handle_ok bodies d \<longleftrightarrow> utf8_valid (d_owner d) \<and>
     (d_handle d \<noteq> [] \<longrightarrow> (\<exists>st body. lease_encode st = Inr body \<and> body \<in> bodies \<and> d_handle d = etag_of body \<and>
       dl_owner st = d_owner d \<and> dl_generation st = d_generation d))"

lemma handle_ok_mono: "handle_ok bodies d \<Longrightarrow> bodies \<subseteq> bodies' \<Longrightarrow> handle_ok bodies' d"
  unfolding handle_ok_def by blast

lemma handle_ok_turn:
  assumes "world_ok api k bodies (l, net)" "handle_ok bodies d"
    and "lease_turn (hoplock_backend fl (lock_http api)) now op d (l, net) = (r, d', l', net')"
  shows "handle_ok (set (ln_log net')) d'"
proof -
  let ?b = "hoplock_backend fl (lock_http api)"
  have "bodies \<subseteq> set (ln_log net')" using world_ok_turn [OF assms(1,3)] by (simp add: world_ok_def net_ok_def)
  then have old: "handle_ok (set (ln_log net')) d" using handle_ok_mono [OF assms(2)] by blast
  have "handle_ok (set (ln_log net')) d'" if w: "wrote ?b now d (l, net) d' (l', net')"
  proof -
    obtain prev g w1 h where w1: "w1 = (l, net) \<or> w1 = snd (b_read ?b (l, net))"
      and wr: "b_write ?b prev (disc_lease_of g now d) w1 = (Inr h, l', net')" and d': "d' = d\<lparr>d_handle := h, d_generation := g\<rparr>"
      using w unfolding wrote_def by blast
    have "world_ok api k bodies w1" using w1 assms(1) world_ok_read [OF assms(1)] by (auto simp: hoplock_backend_def)
    then obtain body where "lease_encode (disc_lease_of g now d) = Inr body" "h = etag_of body" "body \<in> set (ln_log net')"
      using hl_write_ok [of api k "fst w1" prev "disc_lease_of g now d" "snd w1"] wr by (auto simp: world_ok_def hoplock_backend_def)
    with old d' show ?thesis
      unfolding handle_ok_def by (auto simp: disc_lease_of_def intro!: exI [of _ "disc_lease_of g now d"])
  qed
  then show ?thesis using lease_turn_handle [OF assms(3)] old by (auto simp: handle_ok_def)
qed

lemma lock_reach_inv:
  "lock_reach fl api k c \<Longrightarrow> (\<forall>i. world_ok api k (set (ln_log (lk_net c))) (lk_client c i, lk_net c) \<and>
     handle_ok (set (ln_log (lk_net c))) (lk_node c i))"
proof (induction rule: lock_reach.induct)
  case (start c)
  then show ?case by (simp add: world_ok_def net_ok_def handle_ok_def)
next
  case (turn c now op i r d l net)
  let ?logs = "set (ln_log (lk_net c))"
  have i: "world_ok api k ?logs (lk_client c i, lk_net c)" "handle_ok ?logs (lk_node c i)" using turn.IH by auto
  have w: "world_ok api k ?logs (l, net)" using world_ok_turn [OF i(1) turn.hyps(2)] .
  have "handle_ok (set (ln_log net)) d" using handle_ok_turn [OF i turn.hyps(2)] .
  moreover have "?logs \<subseteq> set (ln_log net)" using w by (simp add: world_ok_def net_ok_def)
  ultimately show ?case using w turn.IH by (auto simp: world_ok_def net_ok_def intro: handle_ok_mono)
next
  case (restart c i ttl)
  then show ?case by (auto simp: handle_ok_def discovery_new_def)
qed

section \<open>Exclusion\<close>

text \<open>A thread whose handle is not the object's leaves the object alone, unless it claims.\<close>

lemma snd_read: "snd (snd (hl_read fl http w)) = snd (snd (hl_call http ''GET'' [] None w))"
  by (auto simp: hl_read_def hl_fail_def split: prod.splits sum.splits option.splits)

lemma snd_delete: "h \<noteq> [] \<Longrightarrow> snd (snd (hl_delete http h w)) = snd (snd (hl_call http ''DELETE'' [(''If-Match'', h)] None w))"
  by (auto simp: hl_delete_def hl_fail_def split: prod.splits sum.splits)

lemma snd_write:
  assumes "lease_encode st = Inr body"
  shows "snd (snd (hl_write http prev st w)) = snd (snd (hl_call http ''PUT'' [(''Content-Type'', ''application/json''),
    if prev = [] then (''If-None-Match'', ''*'') else (''If-Match'', prev)] (Some body) w))"
  by (auto simp: hl_write_def assms Let_def hl_fail_def split: prod.splits sum.splits option.splits)

lemma called_same: "called net (ln_store net) bs resp r net' \<Longrightarrow> ln_store net' = ln_store net"
  by (auto simp: called_def)

lemma stale_keeps_store:
  assumes "good_client api k l" "bt_get (ln_store net) k = Some obj" "lo_etag obj \<noteq> h"
  shows "ln_store (snd (snd (hl_read fl (lock_http api) (l, net)))) = ln_store net"
    and "ln_store (snd (snd (hl_write (lock_http api) h st (l, net)))) = ln_store net"
    and "h \<noteq> [] \<Longrightarrow> ln_store (snd (snd (hl_delete (lock_http api) h (l, net)))) = ln_store net"
proof -
  obtain body where body: "lease_encode st = Inr body" using lease_encode_at [of st] by blast
  have put: "snd (store_put_if k body (write_cond h) (ln_store net)) = ln_store net"
    using assms(2,3) by (simp add: store_put_if_def check_put_def write_cond_def)
  have del: "snd (store_delete k \<lparr>cn_if_none_match = [], cn_if_match = h\<rparr> (ln_store net)) = ln_store net" if "h \<noteq> []"
    using assms(2,3) that by (simp add: store_delete_def check_delete_def)
  show "ln_store (snd (snd (hl_read fl (lock_http api) (l, net)))) = ln_store net"
    unfolding snd_read using hl_get_called [OF assms(1)] called_same by (metis prod.exhaust_sel)
  show "ln_store (snd (snd (hl_write (lock_http api) h st (l, net)))) = ln_store net"
    unfolding snd_write [OF body] using hl_put_called [OF assms(1)] put called_same by (metis prod.exhaust_sel)
  show "ln_store (snd (snd (hl_delete (lock_http api) h (l, net)))) = ln_store net" if "h \<noteq> []"
    unfolding snd_delete [OF that] using hl_delete_called [OF assms(1)] del [OF that] called_same by (metis prod.exhaust_sel)
qed

lemma stale_turn_keeps_store:
  assumes "good_client api k l" "bt_get (ln_store net) k = Some obj" "lo_etag obj \<noteq> d_handle d"
    and "op \<noteq> OpClaim" "op = OpRenew \<Longrightarrow> d_handle d \<noteq> []"
  shows "ln_store (snd (snd (snd (lease_turn (hoplock_backend fl (lock_http api)) now op d (l, net))))) = ln_store net"
  using stale_keeps_store(1) [OF assms(1-3), of fl] stale_keeps_store(3) [OF assms(1-3)]
    stale_keeps_store(2) [OF assms(1-3), of "disc_lease_of (d_generation d) now d"] assms(4,5)
  by (cases op) (auto simp: hoplock_backend_def disc_leader_state_def disc_renew_lease_def renew_op_def
      disc_release_leadership_def take_handle_def split: prod.splits)

lemma stale_renewal:
  assumes "good_client api k l" "bt_get (ln_store net) k = Some obj" "lo_etag obj \<noteq> d_handle d"
    and "ln_fate net = []" "d_handle d \<noteq> []"
  shows "fst (lease_turn (hoplock_backend fl (lock_http api)) now OpRenew d (l, net)) = Some (ReRenewed False True)"
  using hl_write_stale [OF assms(1,4,2,3), of "disc_lease_of (d_generation d) now d"] assms(5)
  by (auto simp: hoplock_backend_def disc_renew_lease_def renew_op_def on_write_def)

text \<open>
  C11. One holder on the lock server: in every state that a cluster of lease threads reaches, with requests
  and replies lost anywhere and nodes started again, if the hashes of the texts written so far differ and
  the stored object carries the handle of node \<open>i\<close>, then the object is a lease of \<open>i\<close> with the generation
  that \<open>i\<close> believes in.  A node of another owner has another handle; its reads, its releases and its
  renewals with a handle leave the store as it is, and such a renewal, when it gets through, is told that
  the node is displaced.
\<close>

theorem lock_excludes:
  assumes "lock_reach fl api k c" "inj_on etag_of (set (ln_log (lk_net c)))"
    and "bt_get (ln_store (lk_net c)) k = Some obj" "lo_etag obj = d_handle (lk_node c i)"
    and "d_owner (lk_node c j) \<noteq> d_owner (lk_node c i)"
  shows "(\<exists>st. lease_encode st = Inr (lo_body obj) \<and> dl_owner st = d_owner (lk_node c i) \<and>
        dl_generation st = d_generation (lk_node c i)) \<and>
    d_handle (lk_node c j) \<noteq> lo_etag obj \<and>
    (\<forall>op now. op = OpRead \<or> op = OpRelease \<or> op = OpRenew \<and> d_handle (lk_node c j) \<noteq> [] \<longrightarrow>
      ln_store (snd (snd (snd (lease_turn (hoplock_backend fl (lock_http api)) now op (lk_node c j) (lk_client c j, lk_net c))))) =
        ln_store (lk_net c)) \<and>
    (\<forall>now. ln_fate (lk_net c) = [] \<and> d_handle (lk_node c j) \<noteq> [] \<longrightarrow>
      fst (lease_turn (hoplock_backend fl (lock_http api)) now OpRenew (lk_node c j) (lk_client c j, lk_net c)) =
        Some (ReRenewed False True))"
proof -
  let ?log = "set (ln_log (lk_net c))"
  have inv: "world_ok api k ?log (lk_client c n, lk_net c)" "handle_ok ?log (lk_node c n)" for n
    using lock_reach_inv [OF assms(1)] by auto
  have obj: "lo_etag obj = etag_of (lo_body obj)" "lo_body obj \<in> ?log"
    using inv(1) assms(3) by (auto simp: world_ok_def net_ok_def)
  have named: "\<exists>st. lease_encode st = Inr (lo_body obj) \<and> dl_owner st = d_owner (lk_node c n) \<and>
      dl_generation st = d_generation (lk_node c n)" if "d_handle (lk_node c n) = lo_etag obj" for n
    using inv(2) [of n] that obj inj_onD [OF assms(2)] unfolding handle_ok_def by (metis etag_of_ne)
  have utf: "utf8_valid (d_owner (lk_node c n))" for n using inv(2) by (simp add: handle_ok_def)
  have other: "d_handle (lk_node c j) \<noteq> lo_etag obj"
    using named [of i] named [of j] assms(4,5) utf lease_encode_inj by metis
  have "good_client api k (lk_client c j)" using inv(1) by (auto simp: world_ok_def)
  with other named [of i] assms(3,4) stale_turn_keeps_store [of api k "lk_client c j"] stale_renewal [of api k "lk_client c j"]
  show ?thesis by (metis lease_op.distinct)
qed

text \<open>Two nodes; the first has claimed the lease.\<close>

definition ex_cluster :: lock_cluster where
  "ex_cluster =
     \<lparr>lk_node = (\<lambda>i. discovery_new (if i = 0 then ''a'' else ''b'') 15000),
      lk_client = (\<lambda>_. hoplock_lease_new ''http://h:7'' [] ''prod'' 5),
      lk_net = \<lparr>ln_store = [], ln_log = [], ln_fate = []\<rparr>\<rparr>"

lemma ex_client: "good_client [] ''prod'' (hoplock_lease_new ''http://h:7'' [] ''prod'' 5)"
proof -
  have "path_of (server_url (hl_server (hoplock_lease_new ''http://h:7'' [] ''prod'' 5)) ''prod'') = ''/prod''" "key_parse ''prod'' = Inr ''prod''"
    by code_simp+
  then show ?thesis by (simp add: good_client_def hoplock_lease_new_def server_new_def)
qed

lemma ex_start: "lock_reach fl [] ''prod'' ex_cluster"
  by (rule lock_reach.start) (auto simp: ex_cluster_def discovery_new_def ex_client ascii_valid)

lemma hl_call_fate: "hl_call (lock_http api) meth extra body (l, net) = (r, l', net') \<Longrightarrow> ln_fate net' = tl (ln_fate net)"
  by (auto simp: hl_call_def server_call_def lock_http_def Let_def hl_fail_def split: prod.splits sum.splits if_splits)

lemma ex_claim:
  "\<exists>body r l net. lease_turn (hoplock_backend fl (lock_http [])) 0 OpClaim (lk_node ex_cluster 0) (lk_client ex_cluster 0, lk_net ex_cluster) =
       (r, (lk_node ex_cluster 0)\<lparr>d_handle := etag_of body, d_generation := 1\<rparr>, l, net) \<and>
     ln_log net = [body] \<and> bt_get (ln_store net) ''prod'' = Some \<lparr>lo_body = body, lo_etag = etag_of body\<rparr>"
proof -
  let ?l = "lk_client ex_cluster 0" and ?net = "lk_net ex_cluster" and ?d = "lk_node ex_cluster 0"
  let ?http = "lock_http [] :: lock_net http" and ?st = "disc_lease_of 1 0 (lk_node ex_cluster 0)"
  have good: "good_client [] ''prod'' ?l" by (simp add: ex_cluster_def ex_client)
  have empty: "ln_store ?net = []" "ln_log ?net = []" "ln_fate ?net = []" by (simp_all add: ex_cluster_def)
  obtain rd l1 net1 where g: "hl_call ?http ''GET'' [] None (?l, ?net) = (rd, l1, net1)"
    by (cases "hl_call ?http ''GET'' [] None (?l, ?net)")
  have rd: "rd = Inr (reply_of (resp_error 404 ''not found''))" and net1: "ln_store net1 = []" "ln_log net1 = []"
    and l1: "good_client [] ''prod'' l1"
    using hl_get_called [OF good g] good by (auto simp: called_def empty store_get_def)
  have fate1: "ln_fate net1 = []" using hl_call_fate [OF g] by (simp add: empty)
  define l2 where "l2 = l1\<lparr>hl_last_error := None\<rparr>"
  have read: "hl_read fl ?http (?l, ?net) = (Inl DNoLease, l2, net1)"
    by (simp add: hl_read_def g rd l2_def reply_of_def resp_error_def)
  obtain body where body: "lease_encode ?st = Inr body" using lease_encode_at by blast
  let ?call = "hl_call ?http ''PUT'' [(''Content-Type'', ''application/json''), (''If-None-Match'', ''*'')] (Some body) (l2, net1)"
  obtain r l3 net3 where p: "?call = (r, l3, net3)" by (cases ?call)
  have put: "store_put_if ''prod'' body (write_cond []) [] = (Inr (etag_of body), [(''prod'', \<lparr>lo_body = body, lo_etag = etag_of body\<rparr>)])"
    by (simp add: store_put_if_def check_put_def write_cond_def Let_def)
  have r: "r = Inr (reply_of (respond (DnPut (Inr (etag_of body)))))" and net3: "ln_log net3 = [body]"
    "ln_store net3 = [(''prod'', \<lparr>lo_body = body, lo_etag = etag_of body\<rparr>)]"
    using hl_put_called [of "[]" "''prod''" l2 "[]" body net1 r l3 net3] l1 p fate1 put net1 by (auto simp: l2_def called_def)
  have "hl_write ?http [] ?st (l2, net1) = (Inr (etag_of body), l3\<lparr>hl_last_error := None\<rparr>, net3)"
    by (simp add: hl_write_def body Let_def p r del: respond.simps One_nat_def)
  then show ?thesis
    using read net3
    by (auto simp: disc_try_become_leader_def disc_claim_def hoplock_backend_def plan_claim_def on_write_def disc_lease_of_def bt_get_def)
qed

theorem lock_excludes_witness:
  "\<exists>c obj. lock_reach plain_floats [] ''prod'' c \<and> inj_on etag_of (set (ln_log (lk_net c))) \<and>
     bt_get (ln_store (lk_net c)) ''prod'' = Some obj \<and> lo_etag obj = d_handle (lk_node c 0) \<and>
     d_owner (lk_node c 0) = ''a'' \<and> d_owner (lk_node c 1) = ''b'' \<and>
     (\<exists>st. lease_encode st = Inr (lo_body obj) \<and> dl_owner st = ''a'' \<and> dl_generation st = 1) \<and>
     d_handle (lk_node c 1) \<noteq> lo_etag obj"
proof -
  obtain body r l net where turn: "lease_turn (hoplock_backend plain_floats (lock_http [])) 0 OpClaim (lk_node ex_cluster 0)
        (lk_client ex_cluster 0, lk_net ex_cluster) =
      (r, (lk_node ex_cluster 0)\<lparr>d_handle := etag_of body, d_generation := 1\<rparr>, l, net)"
    and net: "ln_log net = [body]" "bt_get (ln_store net) ''prod'' = Some \<lparr>lo_body = body, lo_etag = etag_of body\<rparr>"
    using ex_claim [of plain_floats] by blast
  define c where "c = ex_cluster\<lparr>lk_node := (lk_node ex_cluster)(0 := (lk_node ex_cluster 0)\<lparr>d_handle := etag_of body, d_generation := 1\<rparr>),
    lk_client := (lk_client ex_cluster)(0 := l), lk_net := net\<rparr>"
  have reach: "lock_reach plain_floats [] ''prod'' c" unfolding c_def by (rule lock_reach.turn [OF ex_start turn])
  have inj: "inj_on etag_of (set (ln_log (lk_net c)))" by (simp add: c_def net(1))
  have obj: "bt_get (ln_store (lk_net c)) ''prod'' = Some \<lparr>lo_body = body, lo_etag = etag_of body\<rparr>" by (simp add: c_def net(2))
  have nodes: "etag_of body = d_handle (lk_node c 0)" "d_owner (lk_node c 0) = ''a''" "d_owner (lk_node c 1) = ''b''"
    "d_generation (lk_node c 0) = 1"
    by (simp_all add: c_def ex_cluster_def discovery_new_def)
  show ?thesis
    using lock_excludes [OF reach inj obj, of 0 1] reach inj obj nodes
    by (intro exI [of _ c] exI [of _ "\<lparr>lo_body = body, lo_etag = etag_of body\<rparr>"]) simp
qed

end
