(* ===== verification/Lock_Volume.thy ===== *)
theory Lock_Volume
  imports Lockserver
begin

text \<open>
  \<^verbatim>\<open>apps/hoplockserver/src/volume.rs\<close>: the lock server's store on a volume that has file calls only, no rename and no
  flush.  The volume is a record of functions over its world.  A write that fails can leave the front of a
  record; the store takes that for no record, and so refines a store that can lose a key but never answers
  with a body that was not written.
\<close>

section \<open>The volume\<close>

definition MAGIC :: string where "MAGIC = ''HLK1''"
definition HEADER :: nat where "HEADER = 40"
definition LIST_BUF :: nat where "LIST_BUF = 64 * 1024"
definition MAX_DEPTH_VOLUME :: nat where "MAX_DEPTH_VOLUME = 32"
definition MAX_BODY :: nat where "MAX_BODY = 2 ^ 20"

text \<open>
  The calls that fill a slice get its length, and answer with what they count and the bytes they put at its
  front; \<open>fill\<close> writes them, and a slice keeps its length whatever comes.
\<close>

record 'v volume =
  vo_chunk :: nat
  vo_size :: "string \<Rightarrow> 'v \<Rightarrow> (string + nat option) \<times> 'v"
  vo_read_at :: "string \<Rightarrow> nat \<Rightarrow> nat \<Rightarrow> 'v \<Rightarrow> (string + nat) \<times> string \<times> 'v"
  vo_replace :: "string \<Rightarrow> string \<Rightarrow> 'v \<Rightarrow> (string + unit) \<times> 'v"
  vo_remove :: "string \<Rightarrow> 'v \<Rightarrow> (string + bool) \<times> 'v"
  vo_list :: "string \<Rightarrow> nat \<Rightarrow> 'v \<Rightarrow> (string + nat option) \<times> string \<times> 'v"

definition fill :: "string \<Rightarrow> string \<Rightarrow> string" where
  "fill dst bytes = take (length dst) bytes @ drop (length bytes) dst"

lemma length_fill [simp]: "length (fill dst bytes) = length dst"
  by (simp add: fill_def)

section \<open>Records\<close>

definition le32_bytes :: "nat \<Rightarrow> string" where
  "le32_bytes n = [char_of n, char_of (n div 2 ^ 8), char_of (n div 2 ^ 16), char_of (n div 2 ^ 24)]"

definition le32 :: "string \<Rightarrow> nat" where
  "le32 b = byte (b ! 0) + 2 ^ 8 * byte (b ! 1) + 2 ^ 16 * byte (b ! 2) + 2 ^ 24 * byte (b ! 3)"

definition vol_open :: "string \<Rightarrow> lock_object option" where
  "vol_open rec =
     (if length rec < HEADER then None
      else let head = take HEADER rec; body = drop HEADER rec
           in if take 4 head \<noteq> MAGIC then None
              else if le32 (take 4 (drop 4 head)) \<noteq> length body then None
              else let sum = drop 8 head
                   in if the (sha256 body) \<noteq> sum then None
                      else Some \<lparr>lo_body = body, lo_etag = etag_from_digest sum\<rparr>)"

definition vol_seal :: "string \<Rightarrow> lock_error + string \<times> string" where
  "vol_seal body =
     (if length body < 2 ^ 32
      then let sum = the (sha256 body)
           in Inr (MAGIC @ le32_bytes (length body) @ sum @ body, etag_from_digest sum)
      else Inl (KOutOfMemory (length body)))"

section \<open>The store\<close>

record 'v volume_store =
  vs_vol :: 'v
  vs_root :: string
  vs_corrupt :: nat
  vs_last_corrupt :: "string option"

datatype stored_record = SdMissing | SdCorrupt | SdValid lock_object

definition trim_slashes :: "string \<Rightarrow> string" where
  "trim_slashes s = rev (dropWhile (\<lambda>c. c = CHR ''/'') (rev s))"

definition vs_new :: "'v \<Rightarrow> string \<Rightarrow> 'v volume_store" where
  "vs_new vol root = \<lparr>vs_vol = vol, vs_root = trim_slashes root, vs_corrupt = 0, vs_last_corrupt = None\<rparr>"

definition root_dir :: "'v volume_store \<Rightarrow> string" where
  "root_dir s = (if vs_root s = [] then ''/'' else vs_root s)"

definition take_corrupt :: "'v volume_store \<Rightarrow> string option \<times> 'v volume_store" where
  "take_corrupt s = (vs_last_corrupt s, s\<lparr>vs_last_corrupt := None\<rparr>)"

definition vol_path :: "string \<Rightarrow> string \<Rightarrow> string" where
  "vol_path root key = root @ ''/'' @ key"

definition mark_corrupt :: "string \<Rightarrow> 'v volume_store \<Rightarrow> stored_record \<times> 'v volume_store" where
  "mark_corrupt key s = (SdCorrupt, s\<lparr>vs_corrupt := sat_add64 (vs_corrupt s) 1, vs_last_corrupt := Some key\<rparr>)"

text \<open>The loop that reads a record: the buffer, or \<open>None\<close> when the file ends too early.\<close>

function read_all :: "'v volume \<Rightarrow> string \<Rightarrow> nat \<Rightarrow> string \<Rightarrow> 'v \<Rightarrow> (string + string option) \<times> 'v" where
  "read_all V path at buf v =
     (if length buf \<le> at then (Inr (Some buf), v)
      else let fin = min (length buf) (at + vo_chunk V)
           in case vo_read_at V path at (fin - at) v of
                (Inl e, _, v1) \<Rightarrow> (Inl e, v1)
              | (Inr n, bytes, v1) \<Rightarrow>
                  if n = 0 then (Inr None, v1)
                  else read_all V path (at + n)
                         (take at buf @ fill (take (fin - at) (drop at buf)) bytes @ drop fin buf) v1)"
  by pat_completeness auto
termination
  by (relation "measure (\<lambda>(V, path, at, buf, v). length buf - at)") auto

declare read_all.simps [simp del]

definition vol_load :: "'v volume \<Rightarrow> string \<Rightarrow> string \<Rightarrow> 'v volume_store \<Rightarrow> (lock_error + stored_record) \<times> 'v volume_store" where
  "vol_load V key path s =
     (case vo_size V path (vs_vol s) of
        (Inl e, v1) \<Rightarrow> (Inl (KIo ''stat'' key e), s\<lparr>vs_vol := v1\<rparr>)
      | (Inr None, v1) \<Rightarrow> (Inr SdMissing, s\<lparr>vs_vol := v1\<rparr>)
      | (Inr (Some len), v1) \<Rightarrow>
          let s1 = s\<lparr>vs_vol := v1\<rparr>; corrupt = (\<lambda>s. case mark_corrupt key s of (c, s') \<Rightarrow> (Inr c, s'))
          in if len < HEADER \<or> HEADER + MAX_BODY < len then corrupt s1
             else (case read_all V path 0 (replicate len (CHR 0x00)) v1 of
                     (Inl e, v2) \<Rightarrow> (Inl (KIo ''read'' key e), s\<lparr>vs_vol := v2\<rparr>)
                   | (Inr None, v2) \<Rightarrow> corrupt (s\<lparr>vs_vol := v2\<rparr>)
                   | (Inr (Some buf), v2) \<Rightarrow>
                       (case vol_open buf of
                          Some obj \<Rightarrow> (Inr (SdValid obj), s\<lparr>vs_vol := v2\<rparr>)
                        | None \<Rightarrow> corrupt (s\<lparr>vs_vol := v2\<rparr>))))"

definition vol_get :: "'v volume \<Rightarrow> string \<Rightarrow> 'v volume_store \<Rightarrow> (lock_error + lock_object) \<times> 'v volume_store" where
  "vol_get V key s =
     (case vol_load V key (vol_path (vs_root s) key) s of
        (Inl e, s1) \<Rightarrow> (Inl e, s1)
      | (Inr (SdValid obj), s1) \<Rightarrow> (Inr obj, s1)
      | (Inr _, s1) \<Rightarrow> (Inl KNotFound, s1))"

definition vol_put_if ::
  "'v volume \<Rightarrow> string \<Rightarrow> string \<Rightarrow> condition \<Rightarrow> 'v volume_store \<Rightarrow> (lock_error + string) \<times> 'v volume_store" where
  "vol_put_if V key body cond s =
     (let path = vol_path (vs_root s) key
      in case vol_load V key path s of
           (Inl e, s1) \<Rightarrow> (Inl e, s1)
         | (Inr sd, s1) \<Rightarrow>
             (case check_put (case sd of SdValid obj \<Rightarrow> Some (lo_etag obj) | _ \<Rightarrow> None) cond of
                Inl e \<Rightarrow> (Inl e, s1)
              | Inr _ \<Rightarrow>
                  (case vol_seal body of
                     Inl e \<Rightarrow> (Inl e, s1)
                   | Inr (rec, etag) \<Rightarrow>
                       (case vo_replace V path rec (vs_vol s1) of
                          (Inl e, v2) \<Rightarrow> (Inl (KIo ''write'' key e), s1\<lparr>vs_vol := v2\<rparr>)
                        | (Inr _, v2) \<Rightarrow> (Inr etag, s1\<lparr>vs_vol := v2\<rparr>)))))"

definition vol_delete :: "'v volume \<Rightarrow> string \<Rightarrow> condition \<Rightarrow> 'v volume_store \<Rightarrow> (lock_error + unit) \<times> 'v volume_store" where
  "vol_delete V key cond s =
     (let path = vol_path (vs_root s) key;
          remove = (\<lambda>s1. case vo_remove V path (vs_vol s1) of
                      (Inl e, v2) \<Rightarrow> (Inl (KIo ''remove'' key e), s1\<lparr>vs_vol := v2\<rparr>)
                    | (Inr _, v2) \<Rightarrow> (Inr (), s1\<lparr>vs_vol := v2\<rparr>))
      in case vol_load V key path s of
           (Inl e, s1) \<Rightarrow> (Inl e, s1)
         | (Inr SdMissing, s1) \<Rightarrow> (Inl KNotFound, s1)
         | (Inr SdCorrupt, s1) \<Rightarrow> if cn_if_match cond \<noteq> [] then (Inl KPrecondition, s1) else remove s1
         | (Inr (SdValid obj), s1) \<Rightarrow>
             (case check_delete (lo_etag obj) cond of Inl e \<Rightarrow> (Inl e, s1) | Inr _ \<Rightarrow> remove s1))"

fun vol_run :: "'v volume \<Rightarrow> lock_op \<Rightarrow> 'v volume_store \<Rightarrow> lock_done \<times> 'v volume_store" where
  "vol_run V (LoGet key) s = (case vol_get V key s of (r, s1) \<Rightarrow> (DnGet r, s1))"
| "vol_run V (LoPut key body cond) s = (case vol_put_if V key body cond s of (r, s1) \<Rightarrow> (DnPut r, s1))"
| "vol_run V (LoDelete key cond) s = (case vol_delete V key cond s of (r, s1) \<Rightarrow> (DnDelete r, s1))"

text \<open>
  The keys under the root.  The listing is cut at the buffer, and the descent ends at a depth of 32, so the
  count ends whatever the volume lists.
\<close>

definition vol_names :: "string \<Rightarrow> string list" where
  "vol_names b = filter utf8_valid (filter (\<lambda>n. n \<noteq> []) (split_char (CHR 0x0A) b))"

definition count_name :: "string \<Rightarrow> nat \<Rightarrow> (string \<times> nat) list \<times> nat \<Rightarrow> string \<Rightarrow> (string \<times> nat) list \<times> nat" where
  "count_name dir depth acc name =
     (case acc of (dirs, keys) \<Rightarrow>
        if last name = CHR ''/''
        then (if depth + 1 < MAX_DEPTH_VOLUME then (dirs @ [(trim_slashes dir @ ''/'' @ butlast name, depth + 1)], keys)
              else (dirs, keys))
        else (dirs, sat_add64 keys 1))"

definition dirs_weight :: "nat \<Rightarrow> (string \<times> nat) list \<Rightarrow> nat" where
  "dirs_weight L dirs = sum_list (map (\<lambda>d. (L + 2) ^ (Suc MAX_DEPTH_VOLUME - snd d)) dirs)"

lemma dirs_weight_snoc [simp]: "dirs_weight L (dirs @ [d]) = dirs_weight L dirs + (L + 2) ^ (Suc MAX_DEPTH_VOLUME - snd d)"
  by (simp add: dirs_weight_def)

lemma length_split_char: "length (split_char d s) \<le> Suc (length s)"
  by (induction s) (auto split: list.splits)

lemma length_vol_names: "length (vol_names b) \<le> Suc (length b)"
  unfolding vol_names_def by (rule order_trans [OF length_filter_le order_trans [OF length_filter_le length_split_char]])

lemma count_names_weight:
  "dirs_weight L (fst (foldl (count_name dir depth) (dirs, keys) ns)) \<le>
     dirs_weight L dirs + length ns * (if depth < MAX_DEPTH_VOLUME then (L + 2) ^ (MAX_DEPTH_VOLUME - depth) else 0)"
proof (induction ns arbitrary: dirs keys)
  case (Cons n ns)
  have "dirs_weight L (fst (count_name dir depth (dirs, keys) n)) \<le>
      dirs_weight L dirs + (if depth < MAX_DEPTH_VOLUME then (L + 2) ^ (MAX_DEPTH_VOLUME - depth) else 0)"
    by (simp add: count_name_def)
  with Cons.IH [of "fst (count_name dir depth (dirs, keys) n)" "snd (count_name dir depth (dirs, keys) n)"]
  show ?case by (simp add: algebra_simps)
qed simp

lemma count_names_less:
  assumes "length ns \<le> Suc L"
  shows "dirs_weight L (fst (foldl (count_name dir depth) (dirs, keys) ns)) < dirs_weight L (dirs @ [(dir, depth)])"
proof (cases "depth < MAX_DEPTH_VOLUME")
  case True
  have "length ns * (L + 2) ^ (MAX_DEPTH_VOLUME - depth) \<le> Suc L * (L + 2) ^ (MAX_DEPTH_VOLUME - depth)"
    using assms by (rule mult_le_mono1)
  also have "\<dots> < (L + 2) ^ (Suc MAX_DEPTH_VOLUME - depth)" using True by (simp add: Suc_diff_le)
  finally have "length ns * (L + 2) ^ (MAX_DEPTH_VOLUME - depth) < (L + 2) ^ (Suc MAX_DEPTH_VOLUME - depth)" .
  then show ?thesis using count_names_weight [of L dir depth dirs keys ns] True by simp
next
  case False
  moreover have "0 < (L + 2) ^ (Suc MAX_DEPTH_VOLUME - depth)" by simp
  ultimately show ?thesis using count_names_weight [of L dir depth dirs keys ns] by (simp add: le_imp_less_Suc less_add_same_cancel1 order.strict_trans1)
qed

lemma butlast_less: "dirs \<noteq> [] \<Longrightarrow> dirs_weight L (butlast dirs) < dirs_weight L dirs"
  by (cases dirs rule: rev_cases) auto

lemma count_step_less:
  assumes "dirs \<noteq> []" and "(dir, depth) = last dirs" and "length ns \<le> Suc L"
    and "(dirs1, keys1) = foldl (count_name dir depth) (butlast dirs, keys) ns"
  shows "dirs_weight L dirs1 < dirs_weight L dirs"
  using count_names_less [OF assms(3), of dir depth "butlast dirs" keys] assms(1,2)
  by (simp flip: assms(4))

lemma listing_length: "length (vol_names (if n \<le> L then take n b else [])) \<le> Suc L"
  by (rule order_trans [OF length_vol_names]) (simp add: min_le_iff_disj)

function count_loop :: "'v volume \<Rightarrow> string \<Rightarrow> (string \<times> nat) list \<Rightarrow> nat \<Rightarrow> 'v \<Rightarrow> (string + nat) \<times> 'v" where
  "count_loop V buf dirs keys v =
     (if dirs = [] then (Inr keys, v)
      else let (dir, depth) = last dirs
           in case vo_list V dir (length buf) v of
                (Inl e, _, v1) \<Rightarrow> (Inl e, v1)
              | (Inr None, bytes, v1) \<Rightarrow> count_loop V (fill buf bytes) (butlast dirs) keys v1
              | (Inr (Some n), bytes, v1) \<Rightarrow>
                  let buf1 = fill buf bytes; listing = (if n \<le> length buf1 then take n buf1 else []);
                      (dirs1, keys1) = foldl (count_name dir depth) (butlast dirs, keys) (vol_names listing)
                  in count_loop V buf1 dirs1 keys1 v1)"
  by pat_completeness auto
termination
  by (relation "measure (\<lambda>(V, buf, dirs, keys, v). dirs_weight (length buf) dirs)")
    (auto simp: butlast_less intro: count_step_less [OF _ _ listing_length])

declare count_loop.simps [simp del]

definition count_keys :: "'v volume \<Rightarrow> 'v volume_store \<Rightarrow> (string + nat) \<times> 'v volume_store" where
  "count_keys V s =
     (case count_loop V (replicate LIST_BUF (CHR 0x00)) [(root_dir s, 0)] 0 (vs_vol s) of
        (r, v1) \<Rightarrow> (r, s\<lparr>vs_vol := v1\<rparr>))"

section \<open>The volume in memory\<close>

definition mem_is_dir :: "string btree \<Rightarrow> string \<Rightarrow> bool" where
  "mem_is_dir files path = (let prefix = trim_slashes path @ ''/'' in list_ex (\<lambda>k. take (length prefix) k = prefix) (bt_keys files))"

definition mem_size :: "string \<Rightarrow> string btree \<Rightarrow> (string + nat option) \<times> string btree" where
  "mem_size path files =
     (case bt_get files path of
        Some f \<Rightarrow> (Inr (Some (length f)), files)
      | None \<Rightarrow> if mem_is_dir files path then (Inr (Some 0), files) else (Inr None, files))"

definition mem_read_at :: "string \<Rightarrow> nat \<Rightarrow> nat \<Rightarrow> string btree \<Rightarrow> (string + nat) \<times> string \<times> string btree" where
  "mem_read_at path off len files =
     (case bt_get files path of
        None \<Rightarrow> (Inl ''not found'', [], files)
      | Some f \<Rightarrow> let tail = drop off f; n = min (length tail) len in (Inr n, take n tail, files))"

definition mem_replace :: "string \<Rightarrow> string \<Rightarrow> string btree \<Rightarrow> (string + unit) \<times> string btree" where
  "mem_replace path data files =
     (if mem_is_dir files path then (Inl ''is a directory'', files) else (Inr (), bt_insert files path data))"

definition mem_remove :: "string \<Rightarrow> string btree \<Rightarrow> (string + bool) \<times> string btree" where
  "mem_remove path files = (Inr (bt_contains files path), bt_remove files path)"

definition mem_names :: "string \<Rightarrow> string btree \<Rightarrow> string list" where
  "mem_names path files =
     (let prefix = trim_slashes path @ ''/''
      in foldl (\<lambda>out k.
           if take (length prefix) k = prefix
           then let rest = drop (length prefix) k;
                    name = (case split_once (CHR ''/'') rest of Some (d, _) \<Rightarrow> d @ ''/'' | None \<Rightarrow> rest)
                in if name \<in> set out then out else out @ [name]
           else out) [] (bt_keys files))"

definition mem_list :: "string \<Rightarrow> nat \<Rightarrow> string btree \<Rightarrow> (string + nat option) \<times> string \<times> string btree" where
  "mem_list path len files =
     (let out = mem_names path files
      in if out = [] then (Inr None, [], files)
         else let joined = join_char (CHR 0x0A) out; n = min (length joined) len
              in (Inr (Some n), take n joined, files))"

definition mem_volume :: "string btree volume" where
  "mem_volume = \<lparr>vo_chunk = 7, vo_size = mem_size, vo_read_at = mem_read_at, vo_replace = mem_replace,
     vo_remove = mem_remove, vo_list = mem_list\<rparr>"

section \<open>Records are read back, and only whole\<close>

lemma le32_roundtrip: "n < 2 ^ 32 \<Longrightarrow> le32 (le32_bytes n) = n"
proof -
  assume n: "n < 2 ^ 32"
  have d: "n div 65536 = n div 256 div 256" "n div 16777216 = n div 256 div 256 div 256" by (simp_all add: div_mult2_eq [symmetric])
  have "n div 16777216 < 256" using n by simp
  then have m: "n div 16777216 mod 256 = n div 16777216" by simp
  note mult_div_mod_eq [of 256 n] mult_div_mod_eq [of 256 "n div 256"] mult_div_mod_eq [of 256 "n div 256 div 256"]
  then have "n mod 256 + 256 * (n div 256 mod 256) + 65536 * (n div 65536 mod 256) + 16777216 * (n div 16777216) = n"
    unfolding d by linarith
  then show ?thesis using m by (simp add: le32_def le32_bytes_def)
qed

lemma length_le32_bytes [simp]: "length (le32_bytes n) = 4"
  by (simp add: le32_bytes_def)

definition sealed :: "string \<Rightarrow> string" where
  "sealed body = MAGIC @ le32_bytes (length body) @ fips_sha256 body @ body"

lemma length_sealed: "length (sealed body) = HEADER + length body"
  by (simp add: sealed_def MAGIC_def HEADER_def)

lemma vol_seal_eq: "length body < 2 ^ 32 \<Longrightarrow> vol_seal body = Inr (sealed body, etag_of body)"
  by (simp add: vol_seal_def sealed_def sha256_fips etag_of_def Let_def)

lemma take_sealed:
  assumes "HEADER \<le> k"
  shows "take k (sealed body) = MAGIC @ le32_bytes (length body) @ fips_sha256 body @ take (k - HEADER) body"
proof -
  let ?h = "MAGIC @ le32_bytes (length body) @ fips_sha256 body"
  have "length ?h = HEADER" by (simp add: MAGIC_def HEADER_def)
  then have "take k (?h @ body) = ?h @ take (k - HEADER) body" using assms unfolding take_append by simp
  then show ?thesis by (simp add: sealed_def)
qed

lemma vol_open_parts:
  "length dig = 32 \<Longrightarrow> length len = 4 \<Longrightarrow> vol_open (MAGIC @ len @ dig @ body) =
     (if le32 len = length body \<and> fips_sha256 body = dig then Some \<lparr>lo_body = body, lo_etag = etag_from_digest dig\<rparr> else None)"
  by (simp add: vol_open_def MAGIC_def HEADER_def sha256_fips Let_def)

lemma vol_open_sealed:
  "length body < 2 ^ 32 \<Longrightarrow> vol_open (sealed body) = Some \<lparr>lo_body = body, lo_etag = etag_of body\<rparr>"
  unfolding sealed_def by (simp add: vol_open_parts le32_roundtrip etag_of_def sha256_fips)

lemma vol_open_torn:
  assumes "length body < 2 ^ 32" and "k < length (sealed body)"
  shows "vol_open (take k (sealed body)) = None"
proof (cases "HEADER \<le> k")
  case True
  then have "k - HEADER < length body" using assms(2) by (simp add: length_sealed)
  then show ?thesis using assms(1) True by (simp add: take_sealed vol_open_parts le32_roundtrip)
next
  case False
  then have "length (take k (sealed body)) < HEADER" by simp
  then show ?thesis unfolding vol_open_def by simp
qed

section \<open>What a volume promises\<close>

text \<open>
  \<open>files\<close> is what stands on the volume, \<open>dirs\<close> says which paths are directories.  Any call can fail; a write that fails leaves the file as it was or the
  front of what was to be written, a removal that fails may have happened.
\<close>

locale lock_volume =
  fixes V :: "'v volume" and files :: "'v \<Rightarrow> string \<Rightarrow> string option" and dirs :: "'v \<Rightarrow> string \<Rightarrow> bool"
  assumes chunk_pos: "0 < vo_chunk V"
    and size_file: "files v p = Some c \<Longrightarrow> vo_size V p v = (r, v') \<Longrightarrow>
          files v' = files v \<and> (\<forall>n. r = Inr n \<longrightarrow> n = Some (length c))"
    and size_none: "files v p = None \<Longrightarrow> vo_size V p v = (r, v') \<Longrightarrow>
          files v' = files v \<and> (\<forall>n. r = Inr n \<longrightarrow> n = (if dirs v p then Some 0 else None))"
    and read_file: "files v p = Some c \<Longrightarrow> vo_read_at V p off len v = (rd, bytes, v') \<Longrightarrow>
          files v' = files v \<and>
          (\<forall>n. rd = Inr n \<longrightarrow> n \<le> len \<and> length bytes = n \<and> bytes = take n (drop off c) \<and> (n = 0 \<longrightarrow> len = 0 \<or> length c \<le> off))"
    and replace_file: "vo_replace V p d v = (rw, v') \<Longrightarrow>
          (case rw of Inr _ \<Rightarrow> files v' = (files v)(p \<mapsto> d)
           | Inl _ \<Rightarrow> files v' = files v \<or> (\<exists>k. files v' = (files v)(p \<mapsto> take k d)))"
    and remove_file: "vo_remove V p v = (rm, v') \<Longrightarrow>
          (case rm of Inr _ \<Rightarrow> files v' = (files v)(p := None)
           | Inl _ \<Rightarrow> files v' = files v \<or> files v' = (files v)(p := None))"

interpretation mem_vol: lock_volume mem_volume bt_get mem_is_dir
proof unfold_locales
  show "0 < vo_chunk mem_volume" by (simp add: mem_volume_def)
next
  fix v p c r v'
  assume "bt_get v p = Some c" and "vo_size mem_volume p v = (r, v')"
  then show "bt_get v' = bt_get v \<and> (\<forall>n. r = Inr n \<longrightarrow> n = Some (length c))"
    by (auto simp: mem_volume_def mem_size_def)
next
  fix v p r v'
  assume "bt_get v p = None" and "vo_size mem_volume p v = (r, v')"
  then show "bt_get v' = bt_get v \<and> (\<forall>n. r = Inr n \<longrightarrow> n = (if mem_is_dir v p then Some 0 else None))"
    by (auto simp: mem_volume_def mem_size_def split: if_splits)
next
  fix v p c off len r bytes v'
  assume "bt_get v p = Some c" and "vo_read_at mem_volume p off len v = (r, bytes, v')"
  then show "bt_get v' = bt_get v \<and>
      (\<forall>n. r = Inr n \<longrightarrow> n \<le> len \<and> length bytes = n \<and> bytes = take n (drop off c) \<and> (n = 0 \<longrightarrow> len = 0 \<or> length c \<le> off))"
    by (auto simp: mem_volume_def mem_read_at_def Let_def)
next
  fix p d v r v'
  assume "vo_replace mem_volume p d v = (r, v')"
  then show "case r of Inr _ \<Rightarrow> bt_get v' = (bt_get v)(p \<mapsto> d)
      | Inl _ \<Rightarrow> bt_get v' = bt_get v \<or> (\<exists>k. bt_get v' = (bt_get v)(p \<mapsto> take k d))"
    by (auto simp: mem_volume_def mem_replace_def fun_eq_iff split: if_splits)
next
  fix p v r v'
  assume "vo_remove mem_volume p v = (r, v')"
  then show "case r of Inr _ \<Rightarrow> bt_get v' = (bt_get v)(p := None)
      | Inl _ \<Rightarrow> bt_get v' = bt_get v \<or> bt_get v' = (bt_get v)(p := None)"
    by (auto simp: mem_volume_def mem_remove_def fun_eq_iff)
qed

section \<open>The store refines the store in memory\<close>

text \<open>
  What a file stands for, what the store holds under a key, and whether something that is no object stands
  there.  \<open>vol_expected\<close> is the answer of the store in memory, but for the removal of such a thing: it succeeds without a
  condition and fails with one.  \<open>failed_call\<close> is what can happen when a call of the volume fails: the key is as it
  was, or changed as asked, or, after a write, lost.
\<close>

definition file_object :: "string \<Rightarrow> lock_object option" where
  "file_object rec = (if HEADER + MAX_BODY < length rec then None else vol_open rec)"

definition vol_abs :: "('v \<Rightarrow> string \<Rightarrow> string option) \<Rightarrow> 'v volume_store \<Rightarrow> string \<Rightarrow> lock_object option" where
  "vol_abs files s key = Option.bind (files (vs_vol s) (vol_path (vs_root s) key)) file_object"

definition vol_torn ::
  "('v \<Rightarrow> string \<Rightarrow> string option) \<Rightarrow> ('v \<Rightarrow> string \<Rightarrow> bool) \<Rightarrow> 'v volume_store \<Rightarrow> string \<Rightarrow> bool" where
  "vol_torn files dirs s key =
     (let path = vol_path (vs_root s) key
      in case files (vs_vol s) path of Some rec \<Rightarrow> file_object rec = None | None \<Rightarrow> dirs (vs_vol s) path)"

definition is_io :: "lock_error \<Rightarrow> bool" where
  "is_io e = (case e of KIo _ _ _ \<Rightarrow> True | _ \<Rightarrow> False)"

fun op_key :: "lock_op \<Rightarrow> string" where
  "op_key (LoGet k) = k"
| "op_key (LoPut k _ _) = k"
| "op_key (LoDelete k _) = k"

fun vol_expected :: "bool \<Rightarrow> lock_op \<Rightarrow> lock_store \<Rightarrow> lock_done \<times> lock_store" where
  "vol_expected True (LoDelete k cond) st = (DnDelete (if cn_if_match cond \<noteq> [] then Inl KPrecondition else Inr ()), st)"
| "vol_expected _ op st = lock_run op st"

fun failed_call :: "lock_op \<Rightarrow> lock_store \<Rightarrow> lock_done \<Rightarrow> lock_store \<Rightarrow> bool" where
  "failed_call (LoGet k) st (DnGet (Inl e)) st' \<longleftrightarrow> is_io e \<and> st' = st"
| "failed_call (LoPut k body cond) st (DnPut (Inl e)) st' \<longleftrightarrow> is_io e \<and>
     (st' = st \<or>
      check_put (map_option lo_etag (bt_get st k)) cond = Inr () \<and>
      (st' = bt_remove st k \<or> st' = bt_insert st k \<lparr>lo_body = body, lo_etag = etag_of body\<rparr>))"
| "failed_call (LoDelete k cond) st (DnDelete (Inl e)) st' \<longleftrightarrow> is_io e \<and>
     (st' = st \<or> store_delete k cond st = (Inr (), st'))"
| "failed_call _ _ _ _ \<longleftrightarrow> False"

fun op_fits :: "lock_op \<Rightarrow> bool" where
  "op_fits (LoPut k body cond) \<longleftrightarrow> length body \<le> MAX_BODY"
| "op_fits _ \<longleftrightarrow> True"

lemma vol_path_inj [simp]: "vol_path root k = vol_path root k' \<longleftrightarrow> k = k'"
  by (simp add: vol_path_def)

lemma file_object_short: "length rec < HEADER \<Longrightarrow> file_object rec = None"
  by (simp add: file_object_def vol_open_def)

lemma file_object_sealed: "length body \<le> MAX_BODY \<Longrightarrow> file_object (sealed body) = Some \<lparr>lo_body = body, lo_etag = etag_of body\<rparr>"
  by (simp add: file_object_def length_sealed vol_open_sealed MAX_BODY_def)

lemma file_object_front:
  assumes "length body \<le> MAX_BODY"
  shows "file_object (take k (sealed body)) \<in> {None, Some \<lparr>lo_body = body, lo_etag = etag_of body\<rparr>}"
proof (cases "k < length (sealed body)")
  case True
  then show ?thesis using assms vol_open_torn [of body k] by (simp add: file_object_def MAX_BODY_def)
next
  case False
  then show ?thesis using file_object_sealed [OF assms] by simp
qed

context lock_volume
begin

lemma read_step:
  assumes c: "files v p = Some c" and at: "at < length buf" "length buf = length c" "take at buf = take at c"
    and r: "vo_read_at V p at (min (length buf) (at + vo_chunk V) - at) v = (Inr n, bytes, v')" and n: "n \<noteq> 0"
  defines "fin \<equiv> min (length buf) (at + vo_chunk V)"
  defines "buf' \<equiv> take at buf @ fill (take (fin - at) (drop at buf)) bytes @ drop fin buf"
  shows "length buf' = length c \<and> take (at + n) buf' = take (at + n) c"
proof -
  have b: "n \<le> fin - at" "length bytes = n" "bytes = take n (drop at c)"
    using read_file [OF c r] by (auto simp: fin_def)
  have f: "at < fin" "fin \<le> length c" using at chunk_pos by (auto simp: fin_def)
  have len: "length buf' = length c" using f at by (simp add: buf'_def)
  have "take (at + n) buf' = take at c @ bytes"
    using b f at by (simp add: buf'_def fill_def)
  also have "\<dots> = take (at + n) c" using b by (simp add: take_add)
  finally show ?thesis using len by simp
qed

lemma read_all_reads:
  "files v p = Some c \<Longrightarrow> length buf = length c \<Longrightarrow> take at buf = take at c \<Longrightarrow> read_all V p at buf v = (r, v') \<Longrightarrow>
   files v' = files v \<and> (\<forall>o'. r = Inr o' \<longrightarrow> o' = Some c)"
proof (induction "length buf - at" arbitrary: at buf v rule: less_induct)
  case less
  let ?fin = "min (length buf) (at + vo_chunk V)"
  obtain rd bytes v1 where rd: "vo_read_at V p at (?fin - at) v = (rd, bytes, v1)" by (metis prod_cases3)
  note got = read_file [OF less.prems(1) rd]
  show ?case
  proof (cases "length buf \<le> at")
    case True
    then show ?thesis using less.prems by (auto simp: read_all.simps [of V p at])
  next
    case False
    show ?thesis
    proof (cases rd)
      case (Inl e)
      then show ?thesis using less.prems(4) False rd got by (auto simp: read_all.simps [of V p at buf v] Let_def)
    next
      case (Inr n)
      have n: "n \<noteq> 0" using got Inr False chunk_pos less.prems(2) by auto
      let ?buf = "take at buf @ fill (take (?fin - at) (drop at buf)) bytes @ drop ?fin buf"
      have step: "length ?buf = length c" "take (at + n) ?buf = take (at + n) c"
        using read_step [OF less.prems(1) _ less.prems(2,3), of n bytes v1] rd Inr n False by auto
      have "read_all V p (at + n) ?buf v1 = (r, v')"
        using less.prems(4) False rd Inr n by (simp add: read_all.simps [of V p at buf v] Let_def)
      moreover have "length ?buf - (at + n) < length buf - at" using False n step(1) less.prems(2) by simp
      moreover have f: "files v1 = files v" using got by blast
      ultimately have "files v' = files v1 \<and> (\<forall>o'. r = Inr o' \<longrightarrow> o' = Some c)"
        using less.hyps [OF _ _ step] less.prems(1) by metis
      then show ?thesis using f by metis
    qed
  qed
qed

lemma load_finds:
  assumes "vol_load V key (vol_path (vs_root s) key) s = (r, s')"
  shows "vs_root s' = vs_root s" and "files (vs_vol s') = files (vs_vol s)"
    and "case r of Inl e \<Rightarrow> is_io e | Inr (SdValid obj) \<Rightarrow> vol_abs files s key = Some obj
      | Inr SdMissing \<Rightarrow> vol_abs files s key = None \<and> \<not> vol_torn files dirs s key
      | Inr SdCorrupt \<Rightarrow> vol_abs files s key = None \<and> vol_torn files dirs s key"
proof -
  let ?p = "vol_path (vs_root s) key"
  obtain rs v1 where sz: "vo_size V ?p (vs_vol s) = (rs, v1)" by force
  have "vs_root s' = vs_root s \<and> files (vs_vol s') = files (vs_vol s) \<and>
    (case r of Inl e \<Rightarrow> is_io e | Inr (SdValid obj) \<Rightarrow> vol_abs files s key = Some obj
      | Inr SdMissing \<Rightarrow> vol_abs files s key = None \<and> \<not> vol_torn files dirs s key
      | Inr SdCorrupt \<Rightarrow> vol_abs files s key = None \<and> vol_torn files dirs s key)"
  proof (cases "files (vs_vol s) ?p")
    case None
    then show ?thesis using assms sz size_none [OF None sz]
      by (auto simp: vol_load_def vol_abs_def vol_torn_def mark_corrupt_def is_io_def HEADER_def split: sum.splits option.splits if_splits)
  next
    case (Some c)
    note size = size_file [OF Some sz]
    obtain ra v2 where rd: "read_all V ?p 0 (replicate (length c) (CHR 0x00)) v1 = (ra, v2)" by force
    have reads: "files v2 = files v1 \<and> (\<forall>o'. ra = Inr o' \<longrightarrow> o' = Some c)"
      using read_all_reads [OF _ _ _ rd] size Some by simp
    show ?thesis using assms sz size reads Some rd
      by (auto simp: vol_load_def vol_abs_def vol_torn_def mark_corrupt_def is_io_def file_object_def vol_open_def [of c] Let_def
          split: sum.splits option.splits if_splits)
  qed
  then show "vs_root s' = vs_root s" and "files (vs_vol s') = files (vs_vol s)"
    and "case r of Inl e \<Rightarrow> is_io e | Inr (SdValid obj) \<Rightarrow> vol_abs files s key = Some obj
      | Inr SdMissing \<Rightarrow> vol_abs files s key = None \<and> \<not> vol_torn files dirs s key
      | Inr SdCorrupt \<Rightarrow> vol_abs files s key = None \<and> vol_torn files dirs s key"
    by blast+
qed

lemma vol_abs_same: "vs_root s' = vs_root s \<Longrightarrow> files (vs_vol s') = files (vs_vol s) \<Longrightarrow> vol_abs files s' = vol_abs files s"
  by (simp add: vol_abs_def fun_eq_iff)

lemma vol_abs_upd:
  "files v = (files (vs_vol s))(vol_path (vs_root s) key := f) \<Longrightarrow>
   vol_abs files (s\<lparr>vs_vol := v\<rparr>) = (vol_abs files s)(key := Option.bind f file_object)"
  by (auto simp: vol_abs_def fun_eq_iff)

lemma get_refines:
  assumes "vol_get V key s = (r, s')" and "bt_get st = vol_abs files s"
  shows "vol_abs files s' = vol_abs files s \<and> (r = store_get key st \<or> failed_call (LoGet key) st (DnGet r) st)"
proof -
  obtain rl s1 where l: "vol_load V key (vol_path (vs_root s) key) s = (rl, s1)" by force
  note found = load_finds [OF l]
  have "s1 = s'" using assms(1) l by (auto simp: vol_get_def split: sum.splits stored_record.splits)
  then show ?thesis using assms l found vol_abs_same [OF found(1,2)]
    by (auto simp: vol_get_def store_get_def split: sum.splits stored_record.splits)
qed

lemma put_refines:
  assumes "vol_put_if V key body cond s = (r, s')" and st: "bt_get st = vol_abs files s" and body: "length body \<le> MAX_BODY"
  shows "\<exists>st'. bt_get st' = vol_abs files s' \<and> (store_put_if key body cond st = (r, st') \<or> failed_call (LoPut key body cond) st (DnPut r) st')"
proof -
  let ?p = "vol_path (vs_root s) key" and ?new = "\<lparr>lo_body = body, lo_etag = etag_of body\<rparr>"
  obtain rl s1 where l: "vol_load V key ?p s = (rl, s1)" by force
  note found = load_finds [OF l]
  have same: "vol_abs files s1 = vol_abs files s" using vol_abs_same [OF found(1,2)] .
  have seal: "vol_seal body = Inr (sealed body, etag_of body)" using body by (simp add: vol_seal_eq MAX_BODY_def)
  show ?thesis
  proof (cases rl)
    case (Inl e)
    then show ?thesis using assms(1) l found(3) same st by (intro exI [of _ st]) (auto simp: vol_put_if_def)
  next
    case (Inr sd)
    have tag: "(case sd of SdValid obj \<Rightarrow> Some (lo_etag obj) | _ \<Rightarrow> None) = map_option lo_etag (bt_get st key)"
      using found(3) Inr st by (auto split: stored_record.splits)
    show ?thesis
    proof (cases "check_put (map_option lo_etag (bt_get st key)) cond")
      case (Inl e)
      then show ?thesis using assms(1) l Inr tag same st
        by (intro exI [of _ st]) (auto simp: vol_put_if_def store_put_if_def)
    next
      case ok: (Inr u)
      obtain rw v2 where w: "vo_replace V ?p (sealed body) (vs_vol s1) = (rw, v2)" by force
      have s': "s' = s1\<lparr>vs_vol := v2\<rparr>" "r = (case rw of Inl e \<Rightarrow> Inl (KIo ''write'' key e) | Inr _ \<Rightarrow> Inr (etag_of body))"
        using assms(1) l Inr tag ok seal w by (auto simp: vol_put_if_def Let_def split: sum.splits)
      have upd: "files v2 = (files (vs_vol s1))(?p := f) \<Longrightarrow>
          vol_abs files s' = (bt_get st)(key := Option.bind f file_object)" for f
        using vol_abs_upd [of v2 s1 key f] found(1) same st s' by simp
      show ?thesis
      proof (cases rw)
        case (Inr u)
        then have "vol_abs files s' = (bt_get st)(key \<mapsto> ?new)"
          using upd [of "Some (sealed body)"] replace_file [OF w] file_object_sealed [OF body] by simp
        then show ?thesis using s' ok Inr
          by (intro exI [of _ "bt_insert st key ?new"]) (auto simp: store_put_if_def Let_def fun_eq_iff)
      next
        case (Inl e)
        consider "files v2 = files (vs_vol s1)" | k where "files v2 = (files (vs_vol s1))(?p \<mapsto> take k (sealed body))"
          using replace_file [OF w] Inl by auto
        then show ?thesis
        proof cases
          case 1
          then have "vol_abs files s' = bt_get st" using s' st same vol_abs_same [of s' s1] by simp
          then show ?thesis using s' Inl by (intro exI [of _ st]) (simp add: is_io_def)
        next
          case (2 k)
          then have "vol_abs files s' = (bt_get st)(key := file_object (take k (sealed body)))" using upd by simp
          then consider "vol_abs files s' = bt_get (bt_remove st key)" | "vol_abs files s' = bt_get (bt_insert st key ?new)"
            using file_object_front [OF body, of k] by (auto simp: fun_eq_iff)
          then show ?thesis using s' Inl ok by cases (rule exI, rule conjI, erule sym, simp add: is_io_def)+
        qed
      qed
    qed
  qed
qed

lemma remove_abs:
  assumes "vo_remove V (vol_path (vs_root s) key) (vs_vol s) = (rm, v)"
  shows "vol_abs files (s\<lparr>vs_vol := v\<rparr>) = (vol_abs files s)(key := None) \<or>
    (\<exists>e. rm = Inl e) \<and> vol_abs files (s\<lparr>vs_vol := v\<rparr>) = vol_abs files s"
  using remove_file [OF assms] vol_abs_upd [of v s key None] vol_abs_same [of "s\<lparr>vs_vol := v\<rparr>" s]
  by (auto split: sum.splits)

lemma delete_refines:
  assumes "vol_delete V key cond s = (r, s')" and st: "bt_get st = vol_abs files s"
  shows "\<exists>st'. bt_get st' = vol_abs files s' \<and> (vol_expected (vol_torn files dirs s key) (LoDelete key cond) st = (DnDelete r, st') \<or>
      failed_call (LoDelete key cond) st (DnDelete r) st')"
proof -
  let ?p = "vol_path (vs_root s) key"
  obtain rl s1 where l: "vol_load V key ?p s = (rl, s1)" by force
  note found = load_finds [OF l]
  have same: "vol_abs files s1 = bt_get st" using vol_abs_same [OF found(1,2)] st by simp
  obtain rm v2 where m: "vo_remove V ?p (vs_vol s1) = (rm, v2)" by force
  have gone: "vol_abs files (s1\<lparr>vs_vol := v2\<rparr>) = bt_get (bt_remove st key) \<or>
      (\<exists>e. rm = Inl e) \<and> vol_abs files (s1\<lparr>vs_vol := v2\<rparr>) = bt_get st"
    using remove_abs [of s1 key rm v2] m found(1) same by (auto simp: fun_eq_iff)
  have removed: "(case rm of Inl e \<Rightarrow> (Inl (KIo ''remove'' key e), s1\<lparr>vs_vol := v2\<rparr>) | Inr _ \<Rightarrow> (Inr (), s1\<lparr>vs_vol := v2\<rparr>)) = (r, s') \<Longrightarrow>
      s' = s1\<lparr>vs_vol := v2\<rparr> \<and> (case rm of Inl e \<Rightarrow> r = Inl (KIo ''remove'' key e) | Inr _ \<Rightarrow> r = Inr ())"
    by (auto split: sum.splits)
  consider e where "rl = Inl e" | "rl = Inr SdMissing" | "rl = Inr SdCorrupt" | obj where "rl = Inr (SdValid obj)"
    by (cases rl) (use stored_record.exhaust in blast)+
  then show ?thesis
  proof cases
    case (1 e)
    then show ?thesis using assms(1) l found(3) same by (intro exI [of _ st]) (auto simp: vol_delete_def)
  next
    case 2
    then have "bt_get st key = None" "\<not> vol_torn files dirs s key" using found(3) st by simp_all
    then show ?thesis using assms(1) l 2 same
      by (intro exI [of _ st]) (simp add: vol_delete_def store_delete_def)
  next
    case 3
    then have none: "bt_get st key = None" and torn: "vol_torn files dirs s key" using found(3) st by simp_all
    from none have "bt_get (bt_remove st key) = bt_get st" by (auto simp: fun_eq_iff)
    then show ?thesis using assms(1) l m 3 torn same gone
      by (intro exI [of _ st]) (auto simp: vol_delete_def Let_def is_io_def split: sum.splits if_splits)
  next
    case (4 obj)
    then have obj: "bt_get st key = Some obj" and whole: "\<not> vol_torn files dirs s key"
      using found(3) st by (auto simp: vol_abs_def vol_torn_def Let_def split: option.splits)
    show ?thesis
    proof (cases "check_delete (lo_etag obj) cond")
      case (Inl e)
      then have "r = Inl e \<and> s' = s1" using assms(1) l 4 by (simp add: vol_delete_def)
      then show ?thesis using Inl obj same whole by (intro exI [of _ st]) (simp add: store_delete_def)
    next
      case (Inr u)
      then have del: "store_delete key cond st = (Inr (), bt_remove st key)" using obj by (simp add: store_delete_def)
      have s': "s' = s1\<lparr>vs_vol := v2\<rparr>" "r = (case rm of Inl e \<Rightarrow> Inl (KIo ''remove'' key e) | Inr _ \<Rightarrow> Inr ())"
        using assms(1) l m 4 Inr by (auto simp: vol_delete_def Let_def split: sum.splits)
      from gone show ?thesis
      proof (elim disjE conjE exE)
        assume "vol_abs files (s1\<lparr>vs_vol := v2\<rparr>) = bt_get (bt_remove st key)"
        then show ?thesis using s' del whole
          by (intro exI [of _ "bt_remove st key"]) (auto simp: is_io_def split: sum.splits)
      next
        fix e assume "rm = Inl e" and "vol_abs files (s1\<lparr>vs_vol := v2\<rparr>) = bt_get st"
        then show ?thesis using s' by (intro exI [of _ st]) (auto simp: is_io_def)
      qed
    qed
  qed
qed

lemma run_refines:
  assumes "op_fits op" and "vol_run V op s = (dn, s')" and "bt_get st = vol_abs files s"
  shows "\<exists>st'. bt_get st' = vol_abs files s' \<and>
    (vol_expected (vol_torn files dirs s (op_key op)) op st = (dn, st') \<or> failed_call op st dn st')"
proof (cases op)
  case (LoGet key)
  then obtain r where r: "vol_get V key s = (r, s')" "dn = DnGet r" using assms(2) by (auto split: prod.splits)
  then show ?thesis using get_refines [OF r(1) assms(3)] assms(3) LoGet by (intro exI [of _ st]) auto
next
  case (LoPut key body cond)
  then obtain r where r: "vol_put_if V key body cond s = (r, s')" "dn = DnPut r" using assms(2) by (auto split: prod.splits)
  then show ?thesis using put_refines [OF r(1) assms(3)] assms(1) LoPut by (auto split: prod.splits)
next
  case (LoDelete key cond)
  then obtain r where r: "vol_delete V key cond s = (r, s')" "dn = DnDelete r" using assms(2) by (auto split: prod.splits)
  then show ?thesis using delete_refines [OF r(1) assms(3)] LoDelete by simp
qed

end

text \<open>A key that is a directory of other keys counts as torn, and its removal succeeds; in memory it is not found.\<close>

lemma delete_directory:
  "(let op = LoDelete ''lease'' \<lparr>cn_if_none_match = [], cn_if_match = []\<rparr>;
        r = vol_run mem_volume op (vs_new [(''/data/lease/a'', ''x'')] ''/data'')
    in fst r = DnDelete (Inr ()) \<and> vs_corrupt (snd r) = 1 \<and> bt_get (vs_vol (snd r)) ''/data/lease/a'' = Some ''x'' \<and>
       fst (lock_run op [(''lease/a'', \<lparr>lo_body = ''x'', lo_etag = []\<rparr>)]) = DnDelete (Inl KNotFound))"
  by code_simp

text \<open>Counting the keys goes down into the directories.\<close>

lemma count_keys_example:
  "fst (count_loop mem_volume (replicate 16 (CHR 0x00)) [(''/data'', 0)] 0 [(''/data/a'', []), (''/data/b/c'', []), (''/data/b/d'', [])]) = Inr 3"
  by code_simp

text \<open>
  C12. The store on a volume refines the store in memory, whatever calls of the volume fail.  For a request
  whose body is within the bound, its answer and what the store then holds are those of the store in memory;
  only where something stands under the key that is no object (a torn record, or a directory) a removal without a
  condition succeeds and one with a condition fails as a precondition, in place of not found.  Otherwise a call failed, the
  answer says so, and the key of the request is as it was, changed as asked, or lost by the write; every other key is
  untouched.  So a body that was not written whole is never handed out.
\<close>

theorem volume_refines_store:
  assumes "lock_volume V files dirs" and "op_fits op" and "vol_run V op s = (dn, s')" and "bt_get st = vol_abs files s"
  shows "\<exists>st'. bt_get st' = vol_abs files s' \<and>
    (vol_expected (vol_torn files dirs s (op_key op)) op st = (dn, st') \<or> failed_call op st dn st')"
  using assms by (rule lock_volume.run_refines)

text \<open>
  A volume with the first bytes of a record: a conditional removal of the object fails as a precondition, and the
  record is counted as torn.
\<close>

theorem volume_refines_store_witness:
  "\<exists>dn s' st'. vol_run mem_volume (LoDelete ''lease'' \<lparr>cn_if_none_match = [], cn_if_match = ''e''\<rparr>)
       (vs_new [(''/data/lease'', ''HLK1'')] ''/data/'') = (dn, s') \<and>
     dn = DnDelete (Inl KPrecondition) \<and> vs_corrupt s' = 1 \<and> bt_get st' = vol_abs bt_get s' \<and>
     vol_expected True (LoDelete ''lease'' \<lparr>cn_if_none_match = [], cn_if_match = ''e''\<rparr>) [] = (dn, st')"
proof -
  let ?s = "vs_new [(''/data/lease'', ''HLK1'')] ''/data/''"
    and ?op = "LoDelete ''lease'' \<lparr>cn_if_none_match = [], cn_if_match = ''e''\<rparr>"
  obtain dn s' where r: "vol_run mem_volume ?op ?s = (dn, s')" by force
  have "fst (vol_run mem_volume ?op ?s) = DnDelete (Inl KPrecondition) \<and> vs_corrupt (snd (vol_run mem_volume ?op ?s)) = 1"
    by code_simp
  then have run: "dn = DnDelete (Inl KPrecondition)" "vs_corrupt s' = 1" by (simp_all only: r fst_conv snd_conv)
  have abs: "bt_get [] = vol_abs bt_get ?s"
    by (auto simp: fun_eq_iff vol_abs_def bt_get_def vs_new_def trim_slashes_def vol_path_def file_object_short HEADER_def)
  have torn: "vol_torn bt_get mem_is_dir ?s (op_key ?op)" by code_simp
  have "op_fits ?op" by simp
  from volume_refines_store [OF mem_vol.lock_volume_axioms this r abs] obtain st' where
    "bt_get st' = vol_abs bt_get s'" "vol_expected True ?op [] = (dn, st') \<or> failed_call ?op [] dn st'"
    using torn by auto
  then show ?thesis using run r by (auto simp: is_io_def)
qed

end
