(* ===== verification/Dns_Wire.thy ===== *)
theory Dns_Wire
  imports Texts Decimal "HOL-Library.Word"
begin

unbundle bit_operations_syntax

text \<open>
  \<^verbatim>\<open>apps/hopdns/src/wire.rs\<close> and \<^verbatim>\<open>error.rs\<close>: the DNS wire format.  A message is a list of bytes, a buffer
  that is written in place is passed and returned, sixteen-bit fields are \<^typ>\<open>nat\<close>.  The counters of a reply
  are checked on overflow in the source; a reply within its bound never gets there (\<open>reply_is\<close>).
\<close>

section \<open>Constants and errors\<close>

definition HEADER_LEN :: nat where "HEADER_LEN = 12"
definition UDP_MAX :: nat where "UDP_MAX = 512"
definition EDNS_MAX :: nat where "EDNS_MAX = 1232"
definition NAME_MAX :: nat where "NAME_MAX = 255"
definition LABEL_MAX :: nat where "LABEL_MAX = 63"
definition OPT_LEN :: nat where "OPT_LEN = 11"
definition QNAME_PTR :: string where "QNAME_PTR = [CHR 0xC0, CHR 0x0C]"

definition RT_A :: nat where "RT_A = 1"
definition RT_CNAME :: nat where "RT_CNAME = 5"
definition RT_SOA :: nat where "RT_SOA = 6"
definition RT_OPT :: nat where "RT_OPT = 41"
definition RT_ANY :: nat where "RT_ANY = 255"
definition CLASS_IN :: nat where "CLASS_IN = 1"
definition CLASS_ANY :: nat where "CLASS_ANY = 255"

definition FLAG_QR :: nat where "FLAG_QR = 0x8000"
definition FLAG_AA :: nat where "FLAG_AA = 0x0400"
definition FLAG_TC :: nat where "FLAG_TC = 0x0200"
definition FLAG_RD :: nat where "FLAG_RD = 0x0100"
definition FLAG_CD :: nat where "FLAG_CD = 0x0010"

datatype rcode = NoError | FormErr | ServFail | NxDomain | NotImp | Refused

fun rcode_num :: "rcode \<Rightarrow> nat" where
  "rcode_num NoError = 0"
| "rcode_num FormErr = 1"
| "rcode_num ServFail = 2"
| "rcode_num NxDomain = 3"
| "rcode_num NotImp = 4"
| "rcode_num Refused = 5"

definition rcode_from_flags :: "nat \<Rightarrow> nat" where
  "rcode_from_flags flags = flags AND 0x000F"

datatype dns_error =
    DeOutOfMemory | DeHelp | DeUnknownFlag nat | DeMissingValue nat | DeUnexpectedArgument nat
  | DeNoPeer | DeBadListen | DeBadPeer | DeYaml nat | DeNoClusterName | DeBadName | DeNoRoom | DeMalformed

fun dns_error_text :: "dns_error \<Rightarrow> string" where
  "dns_error_text DeOutOfMemory = ''out of memory''"
| "dns_error_text DeHelp = ''help requested''"
| "dns_error_text (DeUnknownFlag at) = ''argument '' @ nat_text at @ '': unknown flag''"
| "dns_error_text (DeMissingValue at) = ''argument '' @ nat_text at @ '': flag needs a value''"
| "dns_error_text (DeUnexpectedArgument at) = ''argument '' @ nat_text at @ '': not a flag''"
| "dns_error_text DeNoPeer = ''at least one -peer required (e.g., -peer http://127.0.0.1:8080)''"
| "dns_error_text DeBadListen = ''listen address is not host:port''"
| "dns_error_text DeBadPeer = ''peer is not an http:// or https:// URL''"
| "dns_error_text (DeYaml line) = ''config: cannot read line '' @ nat_text line"
| "dns_error_text DeNoClusterName = ''remote cluster did not report cluster_name (upgrade hop?)''"
| "dns_error_text DeBadName = ''name does not fit DNS''"
| "dns_error_text DeNoRoom = ''message does not fit the buffer''"
| "dns_error_text DeMalformed = ''malformed DNS message''"

section \<open>Bytes\<close>

text \<open>\<^verbatim>\<open>slice::get\<close> on a range, and a range that is overwritten.\<close>

definition get_range :: "string \<Rightarrow> nat \<Rightarrow> nat \<Rightarrow> string option" where
  "get_range b i j = (if i \<le> j \<and> j \<le> length b then Some (take (j - i) (drop i b)) else None)"

definition put_range :: "string \<Rightarrow> nat \<Rightarrow> string \<Rightarrow> string option" where
  "put_range b i bytes =
     (if i + length bytes \<le> length b then Some (take i b @ bytes @ drop (i + length bytes) b) else None)"

definition be16_bytes :: "nat \<Rightarrow> string" where
  "be16_bytes n = [char_of (n div 256), char_of n]"

definition be32_bytes :: "nat \<Rightarrow> string" where
  "be32_bytes n = be16_bytes (n div 65536) @ be16_bytes n"

definition be16 :: "string \<Rightarrow> nat \<Rightarrow> nat option" where
  "be16 b at = (if at + 1 < length b then Some (byte (b ! at) * 256 + byte (b ! (at + 1))) else None)"

definition be32 :: "string \<Rightarrow> nat \<Rightarrow> nat option" where
  "be32 b at =
     (if at + 3 < length b
      then Some (((byte (b ! at) * 256 + byte (b ! (at + 1))) * 256 + byte (b ! (at + 2))) * 256 + byte (b ! (at + 3)))
      else None)"

datatype ipv4 = Ip char char char char

fun octets :: "ipv4 \<Rightarrow> string" where
  "octets (Ip a b c d) = [a, b, c, d]"

section \<open>Reading a query\<close>

record dns_query =
  dq_id :: nat
  dq_flags :: nat
  dq_question :: string
  dq_qname :: string
  dq_qtype :: nat
  dq_qclass :: nat
  dq_edns :: "nat option"

datatype dns_bad = BadDrop | BadReply nat nat rcode

function skip_plain_loop :: "string \<Rightarrow> nat \<Rightarrow> nat \<Rightarrow> nat option" where
  "skip_plain_loop msg start at =
     (if length msg \<le> at then None
      else let len = byte (msg ! at)
           in if len = 0 then (if at + 1 - start \<le> NAME_MAX then Some (at + 1) else None)
              else if len > LABEL_MAX then None
              else skip_plain_loop msg start (at + 1 + len))"
  by pat_completeness auto
termination
  by (relation "measure (\<lambda>(msg, start, at). length msg - at)") auto

definition skip_plain_name :: "string \<Rightarrow> nat \<Rightarrow> nat option" where
  "skip_plain_name msg at = skip_plain_loop msg at at"

function skip_name :: "string \<Rightarrow> nat \<Rightarrow> nat option" where
  "skip_name msg at =
     (if length msg \<le> at then None
      else let len = byte (msg ! at)
           in if len = 0 then Some (at + 1)
              else if len \<le> 63 then skip_name msg (at + 1 + len)
              else if 0xC0 \<le> len then (if at + 1 < length msg then Some (at + 2) else None)
              else None)"
  by pat_completeness auto
termination
  by (relation "measure (\<lambda>(msg, at). length msg - at)") auto

declare skip_plain_loop.simps [simp del] skip_name.simps [simp del]

fun find_opt :: "string \<Rightarrow> nat \<Rightarrow> nat \<Rightarrow> nat option" where
  "find_opt msg at 0 = None"
| "find_opt msg at (Suc count) =
     (case skip_name msg at of
        None \<Rightarrow> None
      | Some fin \<Rightarrow>
          (case (be16 msg fin, be16 msg (fin + 2), be16 msg (fin + 8)) of
             (Some rtype, Some cls, Some rdlen) \<Rightarrow>
               if rtype = RT_OPT then Some cls else find_opt msg (fin + 10 + rdlen) count
           | _ \<Rightarrow> None))"

definition parse_query :: "string \<Rightarrow> dns_bad + dns_query" where
  "parse_query msg =
     (case (be16 msg 0, be16 msg 2) of
        (Some qid, Some flags) \<Rightarrow>
          if length msg < HEADER_LEN \<or> flags AND FLAG_QR \<noteq> 0 then Inl BadDrop
          else if drop_bit 11 flags AND 0xF \<noteq> 0 then Inl (BadReply qid flags NotImp)
          else (case (be16 msg 4, be16 msg 6, be16 msg 8, be16 msg 10) of
                  (Some qd, Some an, Some ns, Some ar) \<Rightarrow>
                    if qd \<noteq> 1 then Inl (BadReply qid flags FormErr)
                    else (case skip_plain_name msg HEADER_LEN of
                            None \<Rightarrow> Inl (BadReply qid flags FormErr)
                          | Some fin \<Rightarrow>
                              (case (be16 msg fin, be16 msg (fin + 2)) of
                                 (Some qtype, Some qclass) \<Rightarrow>
                                   (case (get_range msg HEADER_LEN (fin + 4), get_range msg HEADER_LEN fin) of
                                      (Some question, Some qname) \<Rightarrow>
                                        Inr \<lparr>dq_id = qid, dq_flags = flags, dq_question = question, dq_qname = qname,
                                             dq_qtype = qtype, dq_qclass = qclass,
                                             dq_edns = find_opt msg (fin + 4) (an + ns + ar)\<rparr>
                                    | _ \<Rightarrow> Inl (BadReply qid flags FormErr))
                               | _ \<Rightarrow> Inl (BadReply qid flags FormErr)))
                | _ \<Rightarrow> Inl (BadReply qid flags FormErr))
      | _ \<Rightarrow> Inl BadDrop)"

section \<open>Names\<close>

text \<open>The bytes of a label are appended to the text in the buffer of \<open>NAME_MAX\<close> bytes, one by one.\<close>

fun label_text :: "string \<Rightarrow> string \<Rightarrow> string option" where
  "label_text [] acc = Some acc"
| "label_text (b # bs) acc =
     (if \<not> between 0x21 0x7E b \<or> b = CHR ''.'' \<or> length acc \<ge> NAME_MAX then None
      else label_text bs (acc @ [ascii_lower b]))"

function name_loop :: "string \<Rightarrow> nat \<Rightarrow> string \<Rightarrow> string option" where
  "name_loop wire at acc =
     (if length wire \<le> at then None
      else let len = byte (wire ! at)
           in if len = 0 then Some acc
              else (case get_range wire (at + 1) (at + 1 + len) of
                      None \<Rightarrow> None
                    | Some label \<Rightarrow>
                        if acc \<noteq> [] \<and> length acc \<ge> NAME_MAX then None
                        else (case label_text label (if acc \<noteq> [] then acc @ ''.'' else acc) of
                                None \<Rightarrow> None
                              | Some acc1 \<Rightarrow> name_loop wire (at + 1 + len) acc1)))"
  by pat_completeness auto
termination
  by (relation "measure (\<lambda>(wire, at, acc). length wire - at)") (auto simp: get_range_def split: if_splits)

declare name_loop.simps [simp del]

definition name_text :: "string \<Rightarrow> string option" where
  "name_text wire =
     (case name_loop wire 0 [] of Some s \<Rightarrow> if utf8_valid s then Some s else None | None \<Rightarrow> None)"

fun put_labels :: "string list \<Rightarrow> string \<Rightarrow> nat \<Rightarrow> (dns_error + nat) \<times> string" where
  "put_labels [] out at = (Inr at, out)"
| "put_labels (label # ls) out at =
     (if length label = 0 \<or> length label > LABEL_MAX then (Inl DeBadName, out)
      else case put_range out at (char_of (length label) # label) of
             None \<Rightarrow> (Inl DeNoRoom, out)
           | Some out1 \<Rightarrow> put_labels ls out1 (at + 1 + length label))"

definition put_name :: "string \<Rightarrow> nat \<Rightarrow> string \<Rightarrow> (dns_error + nat) \<times> string" where
  "put_name out at name =
     (let name = strip_end (CHR ''.'') name
      in case put_labels (if name \<noteq> [] then split_char (CHR ''.'') name else []) out at of
           (Inl e, out1) \<Rightarrow> (Inl e, out1)
         | (Inr at1, out1) \<Rightarrow>
             (case put_range out1 at1 [CHR 0x00] of
                None \<Rightarrow> (Inl DeNoRoom, out1)
              | Some out2 \<Rightarrow> (if at1 + 1 - at > NAME_MAX then Inl DeBadName else Inr (at1 + 1), out2)))"

definition put_soa_name :: "string \<Rightarrow> nat \<Rightarrow> string \<Rightarrow> string \<Rightarrow> (dns_error + nat) \<times> string" where
  "put_soa_name out at prefix zone =
     (let label = strip_end (CHR ''.'') prefix
      in case get_range out at (at + 1 + length label) of
           None \<Rightarrow> (Inl DeNoRoom, out)
         | Some _ \<Rightarrow>
             if length label > 255 then (Inl DeBadName, out)
             else case put_range out at (char_of (length label) # label) of
                    None \<Rightarrow> (Inl DeNoRoom, out)
                  | Some out1 \<Rightarrow> put_name out1 (at + 1 + length label) zone)"

section \<open>Writing a reply\<close>

record dns_reply =
  dr_buf :: string
  dr_len :: nat
  dr_limit :: nat
  dr_an :: nat
  dr_ns :: nat
  dr_ar :: nat
  dr_edns :: "nat option"

definition set_count :: "nat \<Rightarrow> nat \<Rightarrow> dns_reply \<Rightarrow> dns_reply" where
  "set_count at n r =
     (case put_range (dr_buf r) at (be16_bytes n) of Some b \<Rightarrow> r\<lparr>dr_buf := b\<rparr> | None \<Rightarrow> r)"

definition reply_flags :: "dns_reply \<Rightarrow> nat" where
  "reply_flags r = (case be16 (dr_buf r) 2 of Some f \<Rightarrow> f | None \<Rightarrow> 0)"

definition set_flags :: "nat \<Rightarrow> dns_reply \<Rightarrow> dns_reply" where
  "set_flags f r = set_count 2 f r"

definition set_rcode :: "rcode \<Rightarrow> dns_reply \<Rightarrow> dns_reply" where
  "set_rcode rc r = set_flags (reply_flags r AND 0xFFF0 OR rcode_num rc) r"

definition set_truncated :: "dns_reply \<Rightarrow> dns_reply" where
  "set_truncated r = set_flags (reply_flags r OR FLAG_TC) r"

definition reply_bare :: "string \<Rightarrow> nat \<Rightarrow> nat \<Rightarrow> rcode \<Rightarrow> nat \<Rightarrow> dns_error + dns_reply" where
  "reply_bare buf qid flags rc limit =
     (let limit = min limit (length buf);
          out = FLAG_QR OR FLAG_AA OR (flags AND (0x7800 OR FLAG_RD OR FLAG_CD)) OR rcode_num rc
      in if limit < HEADER_LEN then Inl DeNoRoom
         else case put_range buf 0 (be16_bytes qid @ be16_bytes out @ replicate 8 (CHR 0x00)) of
                None \<Rightarrow> Inl DeNoRoom
              | Some b \<Rightarrow> Inr \<lparr>dr_buf = b, dr_len = HEADER_LEN, dr_limit = limit, dr_an = 0, dr_ns = 0, dr_ar = 0,
                             dr_edns = None\<rparr>)"

definition edns_reserve :: "nat option \<Rightarrow> nat" where
  "edns_reserve edns = (if edns \<noteq> None then OPT_LEN else 0)"

definition reply_start :: "string \<Rightarrow> dns_query \<Rightarrow> nat \<Rightarrow> dns_error + dns_reply" where
  "reply_start buf q limit =
     (case reply_bare buf (dq_id q) (dq_flags q) NoError (min limit (length buf)) of
        Inl e \<Rightarrow> Inl e
      | Inr r \<Rightarrow>
          let fin = HEADER_LEN + length (dq_question q)
          in if fin + edns_reserve (dq_edns q) > dr_limit r then Inl DeNoRoom
             else case put_range (dr_buf r) HEADER_LEN (dq_question q) of
                    None \<Rightarrow> Inl DeNoRoom
                  | Some b \<Rightarrow> Inr ((set_count 4 1 (r\<lparr>dr_buf := b, dr_len := fin\<rparr>))\<lparr>dr_edns := dq_edns q\<rparr>))"

definition reply_room :: "dns_reply \<Rightarrow> nat" where
  "reply_room r = dr_limit r - (dr_len r + edns_reserve (dr_edns r))"

definition rr_head :: "nat \<Rightarrow> nat \<Rightarrow> nat \<Rightarrow> dns_reply \<Rightarrow> (dns_error + nat) \<times> dns_reply" where
  "rr_head rtype ttl rdlen r =
     (if 12 + rdlen > reply_room r then (Inl DeNoRoom, r)
      else if dr_len r + 12 > length (dr_buf r) then (Inl DeNoRoom, r)
      else case put_range (dr_buf r) (dr_len r) (QNAME_PTR @ be16_bytes rtype @ be16_bytes CLASS_IN @ be32_bytes ttl) of
             None \<Rightarrow> (Inl DeNoRoom, r)
           | Some b \<Rightarrow>
               if rdlen \<ge> 65536 then (Inl DeNoRoom, r\<lparr>dr_buf := b\<rparr>)
               else case put_range b (dr_len r + 10) (be16_bytes rdlen) of
                      None \<Rightarrow> (Inl DeNoRoom, r\<lparr>dr_buf := b\<rparr>)
                    | Some b1 \<Rightarrow> (Inr (dr_len r + 12), r\<lparr>dr_buf := b1\<rparr>))"

text \<open>The data of an answer, and the counters.\<close>

definition put_answer :: "string \<Rightarrow> (dns_error + nat) \<times> dns_reply \<Rightarrow> (dns_error + unit) \<times> dns_reply" where
  "put_answer rdata p =
     (case p of
        (Inl e, r) \<Rightarrow> (Inl e, r)
      | (Inr at, r) \<Rightarrow>
          (case put_range (dr_buf r) at rdata of
             None \<Rightarrow> (Inl DeNoRoom, r)
           | Some b \<Rightarrow>
               (Inr (), set_count 6 (dr_an r + 1) (r\<lparr>dr_buf := b, dr_len := at + length rdata, dr_an := dr_an r + 1\<rparr>))))"

definition answer_a :: "ipv4 \<Rightarrow> nat \<Rightarrow> dns_reply \<Rightarrow> (dns_error + unit) \<times> dns_reply" where
  "answer_a ip ttl r = put_answer (octets ip) (rr_head RT_A ttl 4 r)"

definition answer_cname :: "string \<Rightarrow> nat \<Rightarrow> dns_reply \<Rightarrow> (dns_error + unit) \<times> dns_reply" where
  "answer_cname target ttl r =
     (case put_name (replicate (NAME_MAX + 1) (CHR 0x00)) 0 target of
        (Inl e, _) \<Rightarrow> (Inl e, r)
      | (Inr n, tmp) \<Rightarrow>
          (case rr_head RT_CNAME ttl n r of
             (Inl e, r1) \<Rightarrow> (Inl e, r1)
           | (Inr at, r1) \<Rightarrow>
               (case get_range tmp 0 n of
                  None \<Rightarrow> (Inl DeNoRoom, r1)
                | Some rdata \<Rightarrow> put_answer rdata (Inr at, r1))))"

fun put_words :: "nat list \<Rightarrow> string \<Rightarrow> nat \<Rightarrow> (dns_error + nat) \<times> string" where
  "put_words [] out at = (Inr at, out)"
| "put_words (v # vs) out at =
     (case put_range out at (be32_bytes v) of
        None \<Rightarrow> (Inl DeNoRoom, out)
      | Some out1 \<Rightarrow> put_words vs out1 (at + 4))"

text \<open>The record of a zone in a scratch buffer: its length, or the error.\<close>

definition soa_record :: "string \<Rightarrow> nat \<Rightarrow> dns_error + string" where
  "soa_record zone ttl =
     (case put_name (replicate (3 * (NAME_MAX + 1) + 20) (CHR 0x00)) 0 zone of
        (Inl e, _) \<Rightarrow> Inl e
      | (Inr n, t0) \<Rightarrow>
          (case put_soa_name t0 (n + 10) ''ns.'' zone of
             (Inl e, _) \<Rightarrow> Inl e
           | (Inr at1, t1) \<Rightarrow>
               (case put_soa_name t1 at1 ''hostmaster.'' zone of
                  (Inl e, _) \<Rightarrow> Inl e
                | (Inr at2, t2) \<Rightarrow>
                    (case put_words [1, ttl, ttl, ttl, ttl] t2 at2 of
                       (Inl e, _) \<Rightarrow> Inl e
                     | (Inr at, t3) \<Rightarrow>
                         if at - (n + 10) \<ge> 65536 then Inl DeNoRoom
                         else (case put_range t3 n (be16_bytes RT_SOA @ be16_bytes CLASS_IN @ be32_bytes ttl @ be16_bytes (at - (n + 10))) of
                                 None \<Rightarrow> Inl DeNoRoom
                               | Some t4 \<Rightarrow> Inr (take at t4))))))"

definition authority_soa :: "string \<Rightarrow> nat \<Rightarrow> dns_reply \<Rightarrow> (dns_error + unit) \<times> dns_reply" where
  "authority_soa zone ttl r =
     (case soa_record zone ttl of
        Inl e \<Rightarrow> (Inl e, r)
      | Inr rec \<Rightarrow>
          if length rec > reply_room r then (Inl DeNoRoom, r)
          else case put_range (dr_buf r) (dr_len r) rec of
                 None \<Rightarrow> (Inl DeNoRoom, r)
               | Some b \<Rightarrow>
                   (Inr (), set_count 8 (dr_ns r + 1) (r\<lparr>dr_buf := b, dr_len := dr_len r + length rec, dr_ns := dr_ns r + 1\<rparr>)))"

text \<open>The length of the message and the buffer that holds it.\<close>

definition opt_record :: "nat \<Rightarrow> string" where
  "opt_record sz = [CHR 0x00] @ be16_bytes RT_OPT @ be16_bytes sz @ replicate 6 (CHR 0x00)"

definition reply_finish :: "dns_reply \<Rightarrow> nat \<times> string" where
  "reply_finish r =
     (if dr_edns r \<noteq> None
      then (case put_range (dr_buf r) (dr_len r) (opt_record EDNS_MAX) of
              Some b \<Rightarrow>
                let r1 = set_count 10 (dr_ar r + 1) (r\<lparr>dr_buf := b, dr_len := dr_len r + OPT_LEN, dr_ar := dr_ar r + 1\<rparr>)
                in (dr_len r1, dr_buf r1)
            | None \<Rightarrow> (dr_len r, dr_buf r))
      else (dr_len r, dr_buf r))"

section \<open>Writing a query\<close>

definition encode_query :: "nat \<Rightarrow> string \<Rightarrow> nat \<Rightarrow> nat option \<Rightarrow> string \<Rightarrow> (dns_error + nat) \<times> string" where
  "encode_query qid name qtype edns out =
     (case put_range out 0 (be16_bytes qid @ be16_bytes FLAG_RD @ be16_bytes 1 @ replicate 6 (CHR 0x00)) of
        None \<Rightarrow> (Inl DeNoRoom, out)
      | Some out1 \<Rightarrow>
          (case put_name out1 HEADER_LEN name of
             (Inl e, out2) \<Rightarrow> (Inl e, out2)
           | (Inr at, out2) \<Rightarrow>
               (case put_range out2 at (be16_bytes qtype @ be16_bytes CLASS_IN) of
                  None \<Rightarrow> (Inl DeNoRoom, out2)
                | Some out3 \<Rightarrow>
                    (case edns of
                       None \<Rightarrow> (Inr (at + 4), out3)
                     | Some sz \<Rightarrow>
                         (case put_range out3 (at + 4) (opt_record sz) of
                            None \<Rightarrow> (Inl DeNoRoom, out3)
                          | Some out4 \<Rightarrow>
                              (Inr (at + 4 + OPT_LEN),
                               case put_range out4 10 (be16_bytes 1) of Some out5 \<Rightarrow> out5 | None \<Rightarrow> out4))))))"

section \<open>Reading a reply\<close>

datatype rdata =
    RdA ipv4
  | RdCname string
  | RdSoa string string nat nat nat nat nat
  | RdOther nat

record dns_record =
  rr_name :: string
  rr_rtype :: nat
  rr_ttl :: nat
  rr_data :: rdata

record dns_message =
  dm_id :: nat
  dm_flags :: nat
  dm_answers :: "dns_record list"
  dm_authority :: "dns_record list"
  dm_additional :: nat

definition dm_rcode :: "dns_message \<Rightarrow> nat" where
  "dm_rcode m = rcode_from_flags (dm_flags m)"

definition is_authoritative :: "dns_message \<Rightarrow> bool" where
  "is_authoritative m \<longleftrightarrow> dm_flags m AND FLAG_AA \<noteq> 0"

definition is_truncated :: "dns_message \<Rightarrow> bool" where
  "is_truncated m \<longleftrightarrow> dm_flags m AND FLAG_TC \<noteq> 0"

definition a_records :: "dns_message \<Rightarrow> ipv4 list" where
  "a_records m = List.map_filter (\<lambda>r. case rr_data r of RdA ip \<Rightarrow> Some ip | _ \<Rightarrow> None) (dm_answers m)"

text \<open>
  A byte becomes the character with that code point.  The loop of \<open>read_name\<close> ends because a pointer goes
  back and a label makes the name longer, and a name has at most \<open>NAME_MAX\<close> bytes.
\<close>

function read_loop :: "string \<Rightarrow> nat \<Rightarrow> string \<Rightarrow> nat option \<Rightarrow> dns_error + string \<times> nat" where
  "read_loop msg pos name fin =
     (if length msg \<le> pos then Inl DeMalformed
      else let len = byte (msg ! pos)
           in if len = 0
              then Inr (if name = [] then ''.'' else name, case fin of Some f \<Rightarrow> f | None \<Rightarrow> pos + 1)
              else if len \<le> 63
              then (case get_range msg (pos + 1) (pos + 1 + len) of
                      None \<Rightarrow> Inl DeMalformed
                    | Some label \<Rightarrow>
                        let name1 = name @ concat (map (\<lambda>b. utf8_encode (byte b)) label) @ ''.''
                        in if length name1 > NAME_MAX then Inl DeMalformed
                           else read_loop msg (pos + 1 + len) name1 fin)
              else if 0xC0 \<le> len
              then (case be16 msg pos of
                      None \<Rightarrow> Inl DeMalformed
                    | Some p \<Rightarrow>
                        let target = p AND 0x3FFF
                        in if target \<ge> pos then Inl DeMalformed
                           else read_loop msg target name (case fin of Some f \<Rightarrow> Some f | None \<Rightarrow> Some (pos + 2)))
              else Inl DeMalformed)"
  by pat_completeness auto
termination
  by (relation "measures [\<lambda>(msg, pos, name, fin). Suc NAME_MAX - length name, \<lambda>(msg, pos, name, fin). pos]")
    (auto simp: get_range_def split: if_splits)

declare read_loop.simps [simp del]

definition read_name :: "string \<Rightarrow> nat \<Rightarrow> dns_error + string \<times> nat" where
  "read_name msg at = read_loop msg at [] None"

definition be32s :: "string \<Rightarrow> nat \<Rightarrow> nat \<Rightarrow> nat list option" where
  "be32s msg p n = those (map (\<lambda>i. be32 msg (p + 4 * i)) [0..<n])"

definition read_rdata :: "string \<Rightarrow> nat \<Rightarrow> nat \<Rightarrow> string \<Rightarrow> dns_error + rdata" where
  "read_rdata msg rtype rd bytes =
     (if rtype = RT_A
      then (case bytes of [a, b, c, d] \<Rightarrow> Inr (RdA (Ip a b c d)) | _ \<Rightarrow> Inl DeMalformed)
      else if rtype = RT_CNAME
      then (case read_name msg rd of Inl e \<Rightarrow> Inl e | Inr (name, _) \<Rightarrow> Inr (RdCname name))
      else if rtype = RT_SOA
      then (case read_name msg rd of
              Inl e \<Rightarrow> Inl e
            | Inr (mname, p) \<Rightarrow>
                (case read_name msg p of
                   Inl e \<Rightarrow> Inl e
                 | Inr (rname, p) \<Rightarrow>
                     (case be32s msg p 5 of
                        Some [serial, refresh, retry, expire, minimum] \<Rightarrow>
                          Inr (RdSoa mname rname serial refresh retry expire minimum)
                      | _ \<Rightarrow> Inl DeMalformed)))
      else Inr (RdOther rtype))"

definition read_record :: "string \<Rightarrow> nat \<Rightarrow> dns_error + dns_record \<times> nat" where
  "read_record msg at =
     (case read_name msg at of
        Inl e \<Rightarrow> Inl e
      | Inr (name, at) \<Rightarrow>
          (case (be16 msg at, be32 msg (at + 4), be16 msg (at + 8)) of
             (Some rtype, Some ttl, Some rdlen) \<Rightarrow>
               (case get_range msg (at + 10) (at + 10 + rdlen) of
                  None \<Rightarrow> Inl DeMalformed
                | Some bytes \<Rightarrow>
                    (case read_rdata msg rtype (at + 10) bytes of
                       Inl e \<Rightarrow> Inl e
                     | Inr data \<Rightarrow>
                         Inr (\<lparr>rr_name = name, rr_rtype = rtype, rr_ttl = ttl, rr_data = data\<rparr>, at + 10 + rdlen)))
           | _ \<Rightarrow> Inl DeMalformed))"

fun read_records :: "string \<Rightarrow> nat \<Rightarrow> nat \<Rightarrow> dns_error + dns_record list \<times> nat" where
  "read_records msg 0 at = Inr ([], at)"
| "read_records msg (Suc n) at =
     (case read_record msg at of
        Inl e \<Rightarrow> Inl e
      | Inr (r, at1) \<Rightarrow>
          (case read_records msg n at1 of Inl e \<Rightarrow> Inl e | Inr (rs, at2) \<Rightarrow> Inr (r # rs, at2)))"

fun skip_questions :: "string \<Rightarrow> nat \<Rightarrow> nat \<Rightarrow> nat option" where
  "skip_questions msg 0 at = Some at"
| "skip_questions msg (Suc n) at =
     (case skip_name msg at of None \<Rightarrow> None | Some fin \<Rightarrow> skip_questions msg n (fin + 4))"

definition dns_decode :: "string \<Rightarrow> dns_error + dns_message" where
  "dns_decode msg =
     (case (be16 msg 0, be16 msg 2, be16 msg 10, be16 msg 4, be16 msg 6, be16 msg 8) of
        (Some mid, Some flags, Some ar, Some qd, Some an, Some ns) \<Rightarrow>
          (case skip_questions msg qd HEADER_LEN of
             None \<Rightarrow> Inl DeMalformed
           | Some at \<Rightarrow>
               (case read_records msg an at of
                  Inl e \<Rightarrow> Inl e
                | Inr (answers, at1) \<Rightarrow>
                    (case read_records msg ns at1 of
                       Inl e \<Rightarrow> Inl e
                     | Inr (authority, _) \<Rightarrow>
                         Inr \<lparr>dm_id = mid, dm_flags = flags, dm_answers = answers, dm_authority = authority,
                              dm_additional = ar\<rparr>)))
      | _ \<Rightarrow> Inl DeMalformed)"

end
