(* ===== verification/Dns_Server.thy ===== *)
theory Dns_Server
  imports Dns_Wire Types_Map
begin

text \<open>
  \<^verbatim>\<open>apps/hopdns/src\<close>: the sorted table (\<^verbatim>\<open>table.rs\<close>), the addresses per cluster and job (\<^verbatim>\<open>cache.rs\<close>), the
  static names (\<^verbatim>\<open>cnames.rs\<close>) and the decision per question (\<^verbatim>\<open>server.rs\<close>).
\<close>

definition TTL :: nat where "TTL = 5"
definition DEFAULT_DOMAIN :: string where "DEFAULT_DOMAIN = ''hop.local''"

section \<open>The table\<close>

type_synonym 'v table = "(string \<times> 'v) list"

definition table_find :: "'v table \<Rightarrow> string \<Rightarrow> nat + nat" where
  "table_find t key = binary_search_by (\<lambda>p. ord_cmp (fst p) key) t"

definition table_get :: "'v table \<Rightarrow> string \<Rightarrow> 'v option" where
  "table_get t key =
     (case table_find t key of
        Inl _ \<Rightarrow> None
      | Inr i \<Rightarrow> if i < length t then Some (snd (t ! i)) else None)"

definition table_get_mut :: "'v table \<Rightarrow> string \<Rightarrow> ('v \<Rightarrow> 'v) \<Rightarrow> 'v table" where
  "table_get_mut t key f =
     (case table_find t key of
        Inl _ \<Rightarrow> t
      | Inr i \<Rightarrow> if i < length t then t[i := (fst (t ! i), f (snd (t ! i)))] else t)"

definition table_contains_key :: "'v table \<Rightarrow> string \<Rightarrow> bool" where
  "table_contains_key t key = (case table_find t key of Inl _ \<Rightarrow> False | Inr _ \<Rightarrow> True)"

definition table_insert :: "'v table \<Rightarrow> string \<Rightarrow> 'v \<Rightarrow> 'v option \<times> 'v table" where
  "table_insert t key v =
     (case table_find t key of
        Inr i \<Rightarrow> if i < length t then (Some (snd (t ! i)), t[i := (fst (t ! i), v)]) else (None, t)
      | Inl i \<Rightarrow> (None, insert_at i (key, v) t))"

definition table_remove :: "'v table \<Rightarrow> string \<Rightarrow> 'v option \<times> 'v table" where
  "table_remove t key =
     (case table_find t key of
        Inl _ \<Rightarrow> (None, t)
      | Inr i \<Rightarrow> (Some (snd (t ! i)), remove_at i t))"

definition table_values :: "'v table \<Rightarrow> 'v list" where
  "table_values t = map snd t"

text \<open>It is the map of the types, line by line; the laws of a keyed map are proved there.\<close>

lemma table_is_map:
  "table_find = hmap_find" "table_get = hmap_get" "table_get_mut = hmap_get_mut"
  "table_contains_key = hmap_contains_key" "table_insert = hmap_insert" "table_remove = hmap_remove"
proof -
  show find: "table_find = hmap_find" by (intro ext) (simp add: table_find_def hmap_find_def)
  show "table_get = hmap_get" by (intro ext) (simp add: table_get_def hmap_get_def find)
  show "table_get_mut = hmap_get_mut" by (intro ext) (simp add: table_get_mut_def hmap_get_mut_def find)
  show "table_contains_key = hmap_contains_key" by (intro ext) (simp add: table_contains_key_def hmap_contains_key_def find)
  show "table_insert = hmap_insert" by (intro ext) (simp add: table_insert_def hmap_insert_def find)
  show "table_remove = hmap_remove" by (intro ext) (simp add: table_remove_def hmap_remove_def find)
qed

section \<open>The cache\<close>

type_synonym jobs_table = "ipv4 list table"

record dns_cache =
  dc_clusters :: "jobs_table table"

definition cache_new :: dns_cache where
  "cache_new = \<lparr>dc_clusters = []\<rparr>"

definition get_cluster :: "dns_cache \<Rightarrow> string \<Rightarrow> string \<Rightarrow> ipv4 list option" where
  "get_cluster c cluster job =
     (case table_get (dc_clusters c) cluster of None \<Rightarrow> None | Some jobs \<Rightarrow> table_get jobs job)"

definition merged :: "dns_cache \<Rightarrow> string \<Rightarrow> ipv4 list list" where
  "merged c job = List.map_filter (\<lambda>jobs. table_get jobs job) (table_values (dc_clusters c))"

definition push_unique :: "ipv4 list \<Rightarrow> ipv4 \<Rightarrow> ipv4 list" where
  "push_unique out ip = (if ip \<in> set out then out else out @ [ip])"

definition get_merged :: "dns_cache \<Rightarrow> string \<Rightarrow> ipv4 list" where
  "get_merged c job = foldl (foldl push_unique) [] (merged c job)"

definition has_job :: "dns_cache \<Rightarrow> string \<Rightarrow> bool" where
  "has_job c job \<longleftrightarrow> merged c job \<noteq> []"

definition has_cluster :: "dns_cache \<Rightarrow> string \<Rightarrow> bool" where
  "has_cluster c cluster = table_contains_key (dc_clusters c) cluster"

definition cache_set :: "dns_cache \<Rightarrow> string \<Rightarrow> string \<Rightarrow> ipv4 list \<Rightarrow> dns_cache" where
  "cache_set c cluster job ips =
     (case table_get (dc_clusters c) cluster of
        Some _ \<Rightarrow> c\<lparr>dc_clusters := table_get_mut (dc_clusters c) cluster (\<lambda>jobs. snd (table_insert jobs job ips))\<rparr>
      | None \<Rightarrow> c\<lparr>dc_clusters := snd (table_insert (dc_clusters c) cluster (snd (table_insert [] job ips)))\<rparr>)"

definition cache_replace :: "dns_cache \<Rightarrow> string \<Rightarrow> jobs_table \<Rightarrow> jobs_table option \<times> dns_cache" where
  "cache_replace c cluster jobs =
     (case table_insert (dc_clusters c) cluster jobs of (old, t) \<Rightarrow> (old, c\<lparr>dc_clusters := t\<rparr>))"

definition cache_update :: "dns_cache \<Rightarrow> string \<Rightarrow> jobs_table \<Rightarrow> dns_cache" where
  "cache_update c cluster jobs = snd (cache_replace c cluster jobs)"

definition cache_clear :: "dns_cache \<Rightarrow> string \<Rightarrow> dns_cache" where
  "cache_clear c cluster = c\<lparr>dc_clusters := snd (table_remove (dc_clusters c) cluster)\<rparr>"

definition cache_jobs :: "dns_cache \<Rightarrow> nat" where
  "cache_jobs c =
     (let ts = table_values (dc_clusters c)
      in sum_list (map (\<lambda>(i, jobs). length (filter (\<lambda>(name, _). \<not> list_ex (\<lambda>earlier. table_contains_key earlier name) (take i ts)) jobs))
           (enumerate 0 ts)))"

section \<open>Static names\<close>

record cnames =
  cn_exact :: "string table"
  cn_wildcard :: "string table"

definition key_of :: "string \<Rightarrow> string" where
  "key_of name = map ascii_lower (strip_end (CHR ''.'') (trim name))"

definition fqdn :: "string \<Rightarrow> string" where
  "fqdn name = (let t = trim name in if t \<noteq> [] \<and> last t = CHR ''.'' then t else t @ ''.'')"

definition cnames_add :: "cnames \<Rightarrow> string \<times> string \<Rightarrow> cnames" where
  "cnames_add c kv =
     (case kv of (k, v) \<Rightarrow>
        let key = key_of k
        in if key = [] \<or> trim v = [] then c
           else if take 2 key = ''*.'' \<and> drop 2 key \<noteq> []
           then c\<lparr>cn_wildcard := snd (table_insert (cn_wildcard c) (drop 2 key) (fqdn v))\<rparr>
           else c\<lparr>cn_exact := snd (table_insert (cn_exact c) key (fqdn v))\<rparr>)"

definition cnames_new :: "(string \<times> string) list \<Rightarrow> cnames" where
  "cnames_new pairs = foldl cnames_add \<lparr>cn_exact = [], cn_wildcard = []\<rparr> pairs"

definition lower_into :: "string \<Rightarrow> string option" where
  "lower_into s =
     (if length s \<le> 256 \<and> utf8_valid (map ascii_lower s) then Some (map ascii_lower s) else None)"

lemma split_once_shorter: "split_once d s = Some (a, b) \<Longrightarrow> length b < length s"
proof -
  assume "split_once d s = Some (a, b)"
  then have d: "d \<in> set s" and b: "b = tl (dropWhile (\<lambda>c. c \<noteq> d) s)" by (auto simp: split_once_def split: if_splits)
  have "dropWhile (\<lambda>c. c \<noteq> d) s \<noteq> []" using d by (auto simp: dropWhile_eq_Nil_conv)
  then have "length b < length (dropWhile (\<lambda>c. c \<noteq> d) s)" using b by simp
  then show ?thesis using length_dropWhile_le [of "\<lambda>c. c \<noteq> d" s] by linarith
qed

function wildcard_loop :: "string table \<Rightarrow> string \<Rightarrow> string option" where
  "wildcard_loop t parent =
     (case split_once (CHR ''.'') parent of
        None \<Rightarrow> None
      | Some (_, rest) \<Rightarrow>
          if rest = [] then None
          else (case table_get t rest of Some v \<Rightarrow> Some v | None \<Rightarrow> wildcard_loop t rest))"
  by pat_completeness auto
termination
  by (relation "measure (\<lambda>(t, parent). length parent)") (auto dest: split_once_shorter)

declare wildcard_loop.simps [simp del]

definition cnames_lookup :: "cnames \<Rightarrow> string \<Rightarrow> string option" where
  "cnames_lookup c name =
     (case lower_into (strip_end (CHR ''.'') name) of
        None \<Rightarrow> None
      | Some lower \<Rightarrow>
          (case table_get (cn_exact c) lower of
             Some v \<Rightarrow> Some v
           | None \<Rightarrow> wildcard_loop (cn_wildcard c) lower))"

definition in_zone :: "string \<Rightarrow> string \<Rightarrow> bool" where
  "in_zone name zone \<longleftrightarrow> name = zone \<or>
     length name > length zone \<and> drop (length name - length zone) name = zone \<and>
     name ! (length name - length zone - 1) = CHR ''.''"

text \<open>Zones of the exact names, then those of the wildcards.\<close>

definition cname_zones :: "cnames \<Rightarrow> string list" where
  "cname_zones c =
     List.map_filter (\<lambda>(k, _). map_option snd (split_once (CHR ''.'') k)) (cn_exact c) @ map fst (cn_wildcard c)"

definition zones :: "cnames \<Rightarrow> string list" where
  "zones c =
     foldl (\<lambda>out z. if z \<in> set out then out else out @ [z]) []
       (filter (\<lambda>z. z \<noteq> []) (List.map_filter (\<lambda>(k, _). map_option snd (split_once (CHR ''.'') k)) (cn_exact c)) @
        map fst (cn_wildcard c))"

definition zone_of :: "cnames \<Rightarrow> string \<Rightarrow> string option" where
  "zone_of c name =
     foldl (\<lambda>best z. case best of Some b \<Rightarrow> if length z \<ge> length b then Some z else best | None \<Rightarrow> Some z) None
       (filter (\<lambda>z. z \<noteq> [] \<and> in_zone name z) (cname_zones c))"

section \<open>The server\<close>

definition MAX_ANSWERS :: nat where
  "MAX_ANSWERS = (EDNS_MAX - HEADER_LEN - 5) div 16"

record dns_server =
  ds_domain :: string
  ds_cnames :: cnames

datatype dns_lookup = LkCluster "ipv4 list option" | LkMerged string | LkApex

definition dns_server_new :: "string \<Rightarrow> dns_server" where
  "dns_server_new domain =
     (let d = strip_end (CHR ''.'') (trim domain);
          d = (if d = [] then DEFAULT_DOMAIN else d)
      in \<lparr>ds_domain = map ascii_lower d, ds_cnames = \<lparr>cn_exact = [], cn_wildcard = []\<rparr>\<rparr>)"

definition set_cnames :: "cnames \<Rightarrow> dns_server \<Rightarrow> dns_server" where
  "set_cnames c s = s\<lparr>ds_cnames := c\<rparr>"

text \<open>Addresses until one does not fit.\<close>

fun write_ips :: "ipv4 list \<Rightarrow> dns_reply \<Rightarrow> dns_reply" where
  "write_ips [] r = r"
| "write_ips (ip # ips) r =
     (case answer_a ip TTL r of (Inl _, r1) \<Rightarrow> r1 | (Inr _, r1) \<Rightarrow> write_ips ips r1)"

text \<open>The same for the lists of all clusters, each address once; a return leaves both loops.\<close>

fun write_unique :: "ipv4 list \<Rightarrow> ipv4 list \<Rightarrow> dns_reply \<Rightarrow> dns_reply" where
  "write_unique [] seen r = r"
| "write_unique (ip # ips) seen r =
     (if ip \<in> set seen then write_unique ips seen r
      else if length seen \<ge> MAX_ANSWERS then r
      else case answer_a ip TTL r of (Inl _, r1) \<Rightarrow> r1 | (Inr _, r1) \<Rightarrow> write_unique ips (seen @ [ip]) r1)"

definition write_merged :: "dns_cache \<Rightarrow> string \<Rightarrow> dns_reply \<Rightarrow> dns_reply" where
  "write_merged c job r = write_unique (concat (merged c job)) [] r"

definition service_lookup :: "dns_server \<Rightarrow> dns_cache \<Rightarrow> string \<Rightarrow> dns_lookup" where
  "service_lookup s c name =
     (if length name < length (ds_domain s) + 1 then LkApex
      else let prefix = take (length name - (length (ds_domain s) + 1)) name
           in case split_once (CHR ''.'') prefix of
                Some (service, cluster) \<Rightarrow> LkCluster (get_cluster c cluster service)
              | None \<Rightarrow> LkMerged prefix)"

definition lookup_exists :: "dns_cache \<Rightarrow> dns_lookup \<Rightarrow> bool" where
  "lookup_exists c lk =
     (case lk of
        LkApex \<Rightarrow> True
      | LkCluster ips \<Rightarrow> ips \<noteq> None
      | LkMerged job \<Rightarrow> has_job c job \<or> has_cluster c job)"

definition dns_service :: "dns_server \<Rightarrow> dns_cache \<Rightarrow> string \<Rightarrow> nat \<Rightarrow> dns_reply \<Rightarrow> (dns_error + unit) \<times> dns_reply" where
  "dns_service s c name qtype r =
     (let lk = service_lookup s c name;
          r1 = (if qtype = RT_A \<or> qtype = RT_ANY
                then (case lk of
                        LkApex \<Rightarrow> r
                      | LkCluster ips \<Rightarrow> write_ips (case ips of Some l \<Rightarrow> l | None \<Rightarrow> []) r
                      | LkMerged job \<Rightarrow> write_merged c job r)
                else r)
      in if dr_an r1 = 0
         then authority_soa (ds_domain s) TTL (if \<not> lookup_exists c lk then set_rcode NxDomain r1 else r1)
         else (Inr (), r1))"

definition dns_answer :: "dns_server \<Rightarrow> dns_cache \<Rightarrow> dns_query \<Rightarrow> dns_reply \<Rightarrow> (dns_error + unit) \<times> dns_reply" where
  "dns_answer s c q r =
     (case name_text (dq_qname q) of
        None \<Rightarrow> (Inr (), set_rcode Refused r)
      | Some name \<Rightarrow>
          if dq_qclass q \<noteq> CLASS_IN \<and> dq_qclass q \<noteq> CLASS_ANY then (Inr (), set_rcode Refused r)
          else (case cnames_lookup (ds_cnames s) name of
                  Some target \<Rightarrow> answer_cname target TTL r
                | None \<Rightarrow>
                    if in_zone name (ds_domain s) then dns_service s c name (dq_qtype q) r
                    else (case zone_of (ds_cnames s) name of
                            Some zone \<Rightarrow> authority_soa zone TTL (set_rcode NxDomain r)
                          | None \<Rightarrow> (Inr (), set_rcode Refused r))))"

definition reply_limit :: "nat option \<Rightarrow> nat" where
  "reply_limit edns = (case edns of None \<Rightarrow> UDP_MAX | Some sz \<Rightarrow> max UDP_MAX (min sz EDNS_MAX))"

definition dns_handle :: "dns_server \<Rightarrow> dns_cache \<Rightarrow> string \<Rightarrow> string \<Rightarrow> (nat \<times> string) option" where
  "dns_handle s c msg out =
     (case parse_query msg of
        Inl BadDrop \<Rightarrow> None
      | Inl (BadReply qid flags rc) \<Rightarrow>
          (case reply_bare out qid flags rc UDP_MAX of Inl _ \<Rightarrow> None | Inr r \<Rightarrow> Some (reply_finish r))
      | Inr q \<Rightarrow>
          (case reply_start out q (reply_limit (dq_edns q)) of
             Inl _ \<Rightarrow> None
           | Inr r \<Rightarrow>
               (case dns_answer s c q r of
                  (Inl _, r1) \<Rightarrow> Some (reply_finish (set_rcode ServFail r1))
                | (Inr _, r1) \<Rightarrow> Some (reply_finish r1))))"

end
