(* ===== verification/Dns_Reply.thy ===== *)
theory Dns_Reply
  imports Dns_Server
begin

text \<open>
  A reply under construction holds a well-formed message: \<open>reply_is\<close> says which one, and every operation of
  \<^verbatim>\<open>Reply\<close> appends its record or leaves the message as it was.
\<close>

section \<open>Bytes\<close>

lemma length_be_bytes [simp]: "length (be16_bytes n) = 2" "length (be32_bytes n) = 4"
  by (simp_all add: be16_bytes_def be32_bytes_def)

lemma be16_value: "byte (char_of (n div 256) :: char) * 256 + byte (char_of n :: char) = n mod 65536" for n :: nat
  using mod_mult2_eq [of n 256 256] by (simp add: of_char_of)

lemma drop_eq_append:
  assumes "drop at b = x @ rest" "x \<noteq> []"
  shows "\<exists>pre. b = pre @ x @ rest \<and> length pre = at"
proof (intro exI conjI)
  show "b = take at b @ x @ rest" using append_take_drop_id [of at b] assms(1) by simp
  have "drop at b \<noteq> []" using assms by simp
  then show "length (take at b) = at" by simp
qed

lemma be16_at: "drop at b = be16_bytes n @ rest \<Longrightarrow> be16 b at = Some (n mod 65536)"
proof -
  assume "drop at b = be16_bytes n @ rest"
  then obtain pre where "b = pre @ be16_bytes n @ rest" "length pre = at"
    using drop_eq_append [of at b "be16_bytes n" rest] by (auto simp: be16_bytes_def)
  then show ?thesis using be16_value [of n] by (auto simp: be16_def be16_bytes_def nth_append)
qed

lemma drop_append_more: "drop at b = x @ rest \<Longrightarrow> drop (at + length x) b = rest"
  by (metis add.commute append_eq_conv_conj drop_drop)

lemma be32_at: "drop at b = be32_bytes n @ rest \<Longrightarrow> n < 2 ^ 32 \<Longrightarrow> be32 b at = Some n"
proof -
  assume "drop at b = be32_bytes n @ rest" and n: "n < 2 ^ 32"
  then obtain pre where b: "b = pre @ be32_bytes n @ rest" and at: "length pre = at"
    using drop_eq_append [of at b "be32_bytes n" rest] by (auto simp: be32_bytes_def be16_bytes_def)
  have "n = (n div 65536 mod 65536) * 65536 + n mod 65536" using n by simp
  also have "\<dots> = ((byte (b ! at) * 256 + byte (b ! (at + 1))) * 256 + byte (b ! (at + 2))) * 256 + byte (b ! (at + 3))"
    unfolding be16_value [symmetric] b using at by (simp add: be32_bytes_def be16_bytes_def nth_append)
  finally show ?thesis using at by (simp add: be32_def b)
qed

lemma put_range_Some:
  assumes "put_range b i bytes = Some b'"
  shows "length b' = length b" "i + length bytes \<le> length b" "n \<le> i \<Longrightarrow> take n b' = take n b"
    "take (i + length bytes) b' = take i b @ bytes" "drop (i + length bytes) b' = drop (i + length bytes) b"
proof -
  have le: "i + length bytes \<le> length b" and b': "b' = take i b @ bytes @ drop (i + length bytes) b"
    using assms by (auto simp: put_range_def split: if_splits)
  have i: "length (take i b) = i" using le by simp
  show "length b' = length b" "i + length bytes \<le> length b" using le b' by auto
  show "take n b' = take n b" if "n \<le> i" using that le by (simp add: b')
  show "take (i + length bytes) b' = take i b @ bytes" "drop (i + length bytes) b' = drop (i + length bytes) b"
    unfolding b' using i by simp_all
qed

lemma put_range_fits: "i + length bytes \<le> length b \<Longrightarrow> \<exists>b'. put_range b i bytes = Some b'"
  by (simp add: put_range_def)

section \<open>The message in the buffer\<close>

definition header_bytes :: "nat \<Rightarrow> nat \<Rightarrow> nat \<Rightarrow> nat \<Rightarrow> nat \<Rightarrow> nat \<Rightarrow> string" where
  "header_bytes mid flags qd an ns ar =
     be16_bytes mid @ be16_bytes flags @ be16_bytes qd @ be16_bytes an @ be16_bytes ns @ be16_bytes ar"

definition message_bytes :: "nat \<Rightarrow> nat \<Rightarrow> string \<Rightarrow> string list \<Rightarrow> string list \<Rightarrow> string" where
  "message_bytes mid flags question ans auth =
     header_bytes mid flags 1 (length ans) (length auth) 0 @ question @ concat ans @ concat auth"

definition reply_is :: "dns_reply \<Rightarrow> nat \<Rightarrow> nat \<Rightarrow> string \<Rightarrow> string list \<Rightarrow> string list \<Rightarrow> bool" where
  "reply_is r mid flags question ans auth \<longleftrightarrow>
     (\<exists>post. dr_buf r = message_bytes mid flags question ans auth @ post) \<and>
     dr_len r = length (message_bytes mid flags question ans auth) \<and>
     dr_len r + edns_reserve (dr_edns r) \<le> dr_limit r \<and> dr_limit r \<le> length (dr_buf r) \<and>
     dr_an r = length ans \<and> dr_ns r = length auth \<and> dr_ar r = 0"

text \<open>What an operation leaves of a reply besides its message.\<close>

definition same_frame :: "dns_reply \<Rightarrow> dns_reply \<Rightarrow> bool" where
  "same_frame r r' \<longleftrightarrow> dr_limit r' = dr_limit r \<and> dr_edns r' = dr_edns r \<and> length (dr_buf r') = length (dr_buf r)"

lemma same_frame_refl [simp]: "same_frame r r"
  by (simp add: same_frame_def)

lemma same_frame_trans: "same_frame r r' \<Longrightarrow> same_frame r' r'' \<Longrightarrow> same_frame r r''"
  by (simp add: same_frame_def)

lemma length_header [simp]: "length (header_bytes mid flags qd an ns ar) = 12"
  by (simp add: header_bytes_def)

lemma put_header:
  "put_range (header_bytes m f q a s x @ rest) 2 (be16_bytes n) = Some (header_bytes m n q a s x @ rest)"
  "put_range (header_bytes m f q a s x @ rest) 4 (be16_bytes n) = Some (header_bytes m f n a s x @ rest)"
  "put_range (header_bytes m f q a s x @ rest) 6 (be16_bytes n) = Some (header_bytes m f q n s x @ rest)"
  "put_range (header_bytes m f q a s x @ rest) 8 (be16_bytes n) = Some (header_bytes m f q a n x @ rest)"
  "put_range (header_bytes m f q a s x @ rest) 10 (be16_bytes n) = Some (header_bytes m f q a s n @ rest)"
  by (simp_all add: put_range_def header_bytes_def be16_bytes_def)

lemma read_header:
  "be16 (header_bytes m f q a s x @ rest) 0 = Some (m mod 65536)"
  "be16 (header_bytes m f q a s x @ rest) 2 = Some (f mod 65536)"
  "be16 (header_bytes m f q a s x @ rest) 4 = Some (q mod 65536)"
  "be16 (header_bytes m f q a s x @ rest) 6 = Some (a mod 65536)"
  "be16 (header_bytes m f q a s x @ rest) 8 = Some (s mod 65536)"
  "be16 (header_bytes m f q a s x @ rest) 10 = Some (x mod 65536)"
  by (rule be16_at, simp add: header_bytes_def be16_bytes_def)+

lemma put_append:
  assumes "length M = at" "length x \<le> length post"
  shows "put_range (M @ post) at x = Some (M @ x @ drop (length x) post)"
  using assms by (simp add: put_range_def)

lemma set_rcode_is:
  assumes "reply_is r mid flags question ans auth" "flags < 65536"
  shows "reply_is (set_rcode rc r) mid (flags AND 0xFFF0 OR rcode_num rc) question ans auth \<and> same_frame r (set_rcode rc r)"
proof -
  obtain post where b: "dr_buf r = header_bytes mid flags 1 (length ans) (length auth) 0 @ question @ concat ans @ concat auth @ post"
    using assms(1) by (auto simp: reply_is_def message_bytes_def)
  have f: "reply_flags r = flags" using assms(2) by (simp add: reply_flags_def b read_header)
  show ?thesis
    using assms(1) b by (auto simp: set_rcode_def set_flags_def set_count_def f put_header reply_is_def message_bytes_def same_frame_def)
qed

lemma replicate_zeros: "replicate 8 (CHR 0x00) = be16_bytes 0 @ be16_bytes 0 @ be16_bytes 0 @ be16_bytes 0"
  by code_simp

definition out_flags :: "nat \<Rightarrow> rcode \<Rightarrow> nat" where
  "out_flags flags rc = (FLAG_QR OR FLAG_AA OR (flags AND (0x7800 OR FLAG_RD OR FLAG_CD)) OR rcode_num rc)"

lemma reply_bare_eq:
  "reply_bare buf qid flags rc limit =
     (if min limit (length buf) < 12 then Inl DeNoRoom
      else Inr \<lparr>dr_buf = header_bytes qid (out_flags flags rc) 0 0 0 0 @ drop 12 buf, dr_len = 12,
        dr_limit = min limit (length buf), dr_an = 0, dr_ns = 0, dr_ar = 0, dr_edns = None\<rparr>)"
proof -
  have h: "be16_bytes qid @ be16_bytes f @ replicate 8 (CHR 0x00) = header_bytes qid f 0 0 0 0" for f
    by (simp add: header_bytes_def replicate_zeros)
  have "put_range buf 0 (header_bytes qid f 0 0 0 0) = Some (header_bytes qid f 0 0 0 0 @ drop 12 buf)"
    if "12 \<le> length buf" for f
    using that by (simp add: put_range_def)
  then show ?thesis by (auto simp: reply_bare_def Let_def HEADER_LEN_def out_flags_def [symmetric] h)
qed

lemma reply_start_is:
  assumes "reply_start out q limit = Inr r"
  shows "reply_is r (dq_id q) (out_flags (dq_flags q) NoError) (dq_question q) [] [] \<and>
    dr_limit r = min limit (length out) \<and> dr_edns r = dq_edns q \<and> length (dr_buf r) = length out"
proof -
  let ?h = "header_bytes (dq_id q) (out_flags (dq_flags q) NoError)" and ?q = "dq_question q"
  have room: "12 + length ?q + edns_reserve (dq_edns q) \<le> min limit (length out)" "12 \<le> min limit (length out)"
    using assms by (auto simp: reply_start_def reply_bare_eq HEADER_LEN_def Let_def split: if_splits)
  have put: "put_range (?h 0 0 0 0 @ drop 12 out) 12 ?q = Some (?h 0 0 0 0 @ ?q @ drop (length ?q) (drop 12 out))"
    using room by (intro put_append) auto
  have "r = \<lparr>dr_buf = ?h 1 0 0 0 @ ?q @ drop (length ?q) (drop 12 out), dr_len = 12 + length ?q,
      dr_limit = min limit (length out), dr_an = 0, dr_ns = 0, dr_ar = 0, dr_edns = dq_edns q\<rparr>"
    using assms room put by (simp add: reply_start_def reply_bare_eq HEADER_LEN_def Let_def put_header set_count_def)
  then show ?thesis using room by (auto simp: reply_is_def message_bytes_def)
qed

lemma reply_start_fits:
  assumes "12 + length (dq_question q) + edns_reserve (dq_edns q) \<le> min limit (length out)"
  shows "\<exists>r. reply_start out q limit = Inr r"
  using assms put_range_fits [of 12 "dq_question q"]
  by (auto simp: reply_start_def reply_bare_eq HEADER_LEN_def Let_def put_range_def)

section \<open>Records\<close>

definition rr_bytes :: "nat \<Rightarrow> nat \<Rightarrow> string \<Rightarrow> string" where
  "rr_bytes rtype ttl rdata =
     QNAME_PTR @ be16_bytes rtype @ be16_bytes CLASS_IN @ be32_bytes ttl @ be16_bytes (length rdata) @ rdata"

lemma length_rr [simp]: "length (rr_bytes rtype ttl rdata) = 12 + length rdata"
  by (simp add: rr_bytes_def QNAME_PTR_def)

lemma put_put:
  assumes "length M = at" "length x + length y \<le> length post"
  shows "put_range (M @ x @ drop (length x) post) (at + length x) y = Some (M @ x @ y @ drop (length x + length y) post)"
  using put_append [of "M @ x" "at + length x" y "drop (length x) post"] assms by (simp add: add.commute)

text \<open>A record goes in when there is room for it; otherwise the reply stays.\<close>

lemma put_answer_is:
  assumes "reply_is r mid flags question ans []" "length rdata < 65536"
  shows "if 12 + length rdata > reply_room r then put_answer rdata (rr_head rtype ttl (length rdata) r) = (Inl DeNoRoom, r)
    else \<exists>r'. put_answer rdata (rr_head rtype ttl (length rdata) r) = (Inr (), r') \<and>
      reply_is r' mid flags question (ans @ [rr_bytes rtype ttl rdata]) [] \<and> same_frame r r'"
proof (cases "12 + length rdata > reply_room r")
  case True
  then show ?thesis by (simp add: rr_head_def put_answer_def)
next
  case False
  let ?M = "message_bytes mid flags question ans []"
  obtain post where b: "dr_buf r = ?M @ post" and len: "dr_len r = length ?M"
    using assms(1) by (auto simp: reply_is_def)
  let ?h = "QNAME_PTR @ be16_bytes rtype @ be16_bytes CLASS_IN @ be32_bytes ttl" and ?n = "be16_bytes (length rdata)"
  have hl: "length ?h = 10" by (simp add: QNAME_PTR_def)
  have room: "12 + length rdata \<le> length post" "dr_len r + edns_reserve (dr_edns r) + 12 + length rdata \<le> dr_limit r"
    using False assms(1) b len by (auto simp: reply_room_def reply_is_def)
  have p1: "put_range (dr_buf r) (dr_len r) ?h = Some (?M @ ?h @ drop 10 post)"
    using put_append [of ?M "dr_len r" ?h post] room len b hl by simp
  have p2: "put_range (?M @ ?h @ drop 10 post) (dr_len r + 10) ?n = Some (?M @ ?h @ ?n @ drop 12 post)"
    using put_put [of ?M "dr_len r" ?h ?n post] room len hl by simp
  have p3: "put_range (?M @ ?h @ ?n @ drop 12 post) (dr_len r + 12) rdata = Some (?M @ rr_bytes rtype ttl rdata @ drop (12 + length rdata) post)"
    using put_put [of ?M "dr_len r" "?h @ ?n" rdata post] room len hl by (simp add: rr_bytes_def)
  have head: "rr_head rtype ttl (length rdata) r = (Inr (dr_len r + 12), r\<lparr>dr_buf := ?M @ ?h @ ?n @ drop 12 post\<rparr>)"
    unfolding rr_head_def p1 using False assms(2) room b len by (simp add: p2 [unfolded len] del: append_assoc)
  have an: "dr_an r = length ans" using assms(1) by (simp add: reply_is_def)
  have cnt: "put_range (?M @ rr_bytes rtype ttl rdata @ drop (12 + length rdata) post) 6 (be16_bytes (length ans + 1)) =
      Some (message_bytes mid flags question (ans @ [rr_bytes rtype ttl rdata]) [] @ drop (12 + length rdata) post)"
    by (simp add: message_bytes_def put_header)
  have put: "put_answer rdata (rr_head rtype ttl (length rdata) r) =
      (Inr (), r\<lparr>dr_buf := message_bytes mid flags question (ans @ [rr_bytes rtype ttl rdata]) [] @ drop (12 + length rdata) post,
        dr_len := dr_len r + 12 + length rdata, dr_an := dr_an r + 1\<rparr>)"
    unfolding head put_answer_def by (simp del: append_assoc add: p3 set_count_def an cnt [simplified])
  then show ?thesis using False room assms(1) b len
    by (auto simp: reply_is_def same_frame_def message_bytes_def)
qed

lemma answer_a_is:
  assumes "reply_is r mid flags question ans []"
  shows "reply_room r < 16 \<Longrightarrow> answer_a ip ttl r = (Inl DeNoRoom, r)"
    and "16 \<le> reply_room r \<Longrightarrow> \<exists>r'. answer_a ip ttl r = (Inr (), r') \<and>
      reply_is r' mid flags question (ans @ [rr_bytes RT_A ttl (octets ip)]) [] \<and> same_frame r r'"
proof -
  have l: "length (octets ip) = 4" by (cases ip) simp
  show "answer_a ip ttl r = (Inl DeNoRoom, r)" if "reply_room r < 16"
    using put_answer_is [OF assms, of "octets ip" RT_A ttl] that by (simp add: answer_a_def l)
  show "\<exists>r'. answer_a ip ttl r = (Inr (), r') \<and>
      reply_is r' mid flags question (ans @ [rr_bytes RT_A ttl (octets ip)]) [] \<and> same_frame r r'" if "16 \<le> reply_room r"
    using put_answer_is [OF assms, of "octets ip" RT_A ttl] that by (simp add: answer_a_def l)
qed

lemma reply_room_step:
  assumes "reply_is r mid flags question ans auth" "reply_is r' mid flags' question (ans @ [x]) auth" "same_frame r r'"
  shows "reply_room r' = reply_room r - length x"
  using assms by (simp add: reply_is_def reply_room_def same_frame_def message_bytes_def)

section \<open>Names on the wire\<close>

definition wire_labels :: "string list \<Rightarrow> string" where
  "wire_labels ls = concat (map (\<lambda>l. char_of (length l) # l) ls)"

definition wire_name :: "string list \<Rightarrow> string" where
  "wire_name ls = wire_labels ls @ [CHR 0x00]"

definition label_ok :: "string \<Rightarrow> bool" where
  "label_ok l \<longleftrightarrow> l \<noteq> [] \<and> length l \<le> LABEL_MAX"

definition name_labels :: "string \<Rightarrow> string list" where
  "name_labels name = (let n = strip_end (CHR ''.'') name in if n \<noteq> [] then split_char (CHR ''.'') n else [])"

lemma wire_labels_simps [simp]: "wire_labels [] = []" "wire_labels (l # ls) = char_of (length l) # l @ wire_labels ls"
  by (simp_all add: wire_labels_def)

lemma put_labels_eq:
  "put_labels ls (pre @ post) (length pre) = (Inr at, out) \<longleftrightarrow>
     list_all label_ok ls \<and> length (wire_labels ls) \<le> length post \<and> at = length pre + length (wire_labels ls) \<and>
     out = pre @ wire_labels ls @ drop (length (wire_labels ls)) post"
proof (induction ls arbitrary: pre post)
  case (Cons l ls)
  let ?x = "char_of (length l) # l"
  show ?case
  proof (cases "length ?x \<le> length post")
    case True
    then have "put_range (pre @ post) (length pre) ?x = Some ((pre @ ?x) @ drop (length ?x) post)"
      using put_append [of pre "length pre" ?x post] by simp
    then show ?thesis using Cons.IH [of "pre @ ?x" "drop (length ?x) post"] True
      by (auto simp: label_ok_def add.commute add.left_commute)
  next
    case False
    then have "put_range (pre @ post) (length pre) ?x = None" by (simp add: put_range_def)
    with False show ?thesis by auto
  qed
qed auto

lemma put_name_eq:
  "put_name (pre @ post) (length pre) name = (Inr at, out) \<longleftrightarrow>
     list_all label_ok (name_labels name) \<and> length (wire_name (name_labels name)) \<le> length post \<and>
     length (wire_name (name_labels name)) \<le> NAME_MAX \<and> at = length pre + length (wire_name (name_labels name)) \<and>
     out = pre @ wire_name (name_labels name) @ drop (length (wire_name (name_labels name))) post"
proof (cases "put_labels (name_labels name) (pre @ post) (length pre)")
  case (Pair res out1)
  let ?W = "wire_labels (name_labels name)"
  have nl: "(if strip_end CHR ''.'' name \<noteq> [] then split_char CHR ''.'' (strip_end CHR ''.'' name) else []) = name_labels name"
    by (simp add: name_labels_def)
  show ?thesis
  proof (cases res)
    case (Inl e)
    have "\<not> (list_all label_ok (name_labels name) \<and> length ?W \<le> length post)"
      using put_labels_eq [of "name_labels name" pre post "length pre + length ?W" "pre @ ?W @ drop (length ?W) post"] Pair Inl by auto
    with Pair Inl show ?thesis by (auto simp: put_name_def Let_def nl wire_name_def)
  next
    case (Inr at1)
    then have w: "list_all label_ok (name_labels name)" "length ?W \<le> length post" "at1 = length pre + length ?W"
      "out1 = pre @ ?W @ drop (length ?W) post"
      using put_labels_eq Pair by metis+
    have put: "put_range out1 at1 [CHR 0x00] =
        (if length ?W + 1 \<le> length post then Some (pre @ wire_name (name_labels name) @ drop (length (wire_name (name_labels name))) post) else None)"
      using put_put [of pre "length pre" ?W "[CHR 0x00]" post] w(2-4) by (auto simp: put_range_def wire_name_def)
    show ?thesis using Pair Inr w put by (auto simp: put_name_def Let_def nl wire_name_def)
  qed
qed

section \<open>The other operations\<close>

text \<open>An operation that succeeds appends a record to its section; one that fails leaves the message.\<close>

lemma answer_cname_is:
  assumes "reply_is r mid flags question ans []" "answer_cname target ttl r = (res, r')"
  shows "same_frame r r' \<and> (case res of
      Inl _ \<Rightarrow> r' = r
    | Inr _ \<Rightarrow> reply_is r' mid flags question (ans @ [rr_bytes RT_CNAME ttl (wire_name (name_labels target))]) [])"
proof (cases "put_name (replicate (NAME_MAX + 1) (CHR 0x00)) 0 target")
  case (Pair res1 tmp)
  show ?thesis
  proof (cases res1)
    case (Inl e)
    with Pair assms(2) show ?thesis by (auto simp: answer_cname_def)
  next
    case (Inr n)
    let ?w = "wire_name (name_labels target)"
    have n: "n = length ?w" "tmp = ?w @ drop (length ?w) (replicate (NAME_MAX + 1) (CHR 0x00))" "length ?w \<le> NAME_MAX"
      using put_name_eq [of "[]" "replicate (NAME_MAX + 1) (CHR 0x00)" target n tmp] Pair Inr by auto
    have range: "get_range tmp 0 n = Some ?w" by (simp add: get_range_def n)
    have len: "length ?w < 65536" using n(3) by (simp add: NAME_MAX_def)
    have "answer_cname target ttl r = put_answer ?w (rr_head RT_CNAME ttl (length ?w) r)"
      using Pair Inr range n(1) by (auto simp: answer_cname_def put_answer_def split: sum.splits prod.splits)
    with put_answer_is [OF assms(1) len, of RT_CNAME ttl] assms(2) show ?thesis
      by (auto split: if_splits)
  qed
qed

lemma authority_soa_is:
  assumes "reply_is r mid flags question ans auth" "authority_soa zone ttl r = (res, r')"
  shows "same_frame r r' \<and> (case res of
      Inl _ \<Rightarrow> r' = r
    | Inr _ \<Rightarrow> \<exists>rec. soa_record zone ttl = Inr rec \<and> reply_is r' mid flags question ans (auth @ [rec]))"
proof (cases "soa_record zone ttl")
  case (Inl e)
  with assms(2) show ?thesis by (auto simp: authority_soa_def)
next
  case (Inr rec)
  let ?M = "message_bytes mid flags question ans auth"
  obtain post where b: "dr_buf r = ?M @ post" and len: "dr_len r = length ?M" and ns: "dr_ns r = length auth"
    using assms(1) by (auto simp: reply_is_def)
  show ?thesis
  proof (cases "length rec > reply_room r")
    case True
    with Inr assms(2) show ?thesis by (auto simp: authority_soa_def)
  next
    case False
    then have room: "length rec \<le> length post" "dr_len r + edns_reserve (dr_edns r) + length rec \<le> dr_limit r"
      using assms(1) b len by (auto simp: reply_room_def reply_is_def)
    have p: "put_range (dr_buf r) (dr_len r) rec = Some (?M @ rec @ drop (length rec) post)"
      using put_append [of ?M "dr_len r" rec post] room len b by simp
    have cnt: "put_range (?M @ rec @ drop (length rec) post) 8 (be16_bytes (length auth + 1)) =
        Some (message_bytes mid flags question ans (auth @ [rec]) @ drop (length rec) post)"
      by (simp add: message_bytes_def put_header)
    have "authority_soa zone ttl r = (Inr (), r\<lparr>dr_buf := message_bytes mid flags question ans (auth @ [rec]) @ drop (length rec) post,
        dr_len := dr_len r + length rec, dr_ns := dr_ns r + 1\<rparr>)"
      using Inr False p by (simp del: append_assoc add: authority_soa_def set_count_def ns cnt [simplified])
    with assms Inr room b len ns show ?thesis by (auto simp: reply_is_def same_frame_def message_bytes_def)
  qed
qed

definition final_bytes :: "nat \<Rightarrow> nat \<Rightarrow> string \<Rightarrow> string list \<Rightarrow> string list \<Rightarrow> nat option \<Rightarrow> string" where
  "final_bytes mid flags question ans auth edns =
     header_bytes mid flags 1 (length ans) (length auth) (if edns \<noteq> None then 1 else 0) @ question @ concat ans @ concat auth @
     (if edns \<noteq> None then opt_record EDNS_MAX else [])"

lemma length_opt [simp]: "length (opt_record sz) = OPT_LEN"
  by (simp add: opt_record_def OPT_LEN_def)

lemma reply_finish_is:
  assumes "reply_is r mid flags question ans auth" "reply_finish r = (len, buf)"
  shows "take len buf = final_bytes mid flags question ans auth (dr_edns r)" "len \<le> dr_limit r" "length buf = length (dr_buf r)"
    "len = length (final_bytes mid flags question ans auth (dr_edns r))"
proof -
  let ?M = "message_bytes mid flags question ans auth"
  obtain post where b: "dr_buf r = ?M @ post" and l: "dr_len r = length ?M" and ar: "dr_ar r = 0"
    and room: "dr_len r + edns_reserve (dr_edns r) \<le> dr_limit r" "dr_limit r \<le> length (dr_buf r)"
    using assms(1) by (auto simp: reply_is_def)
  have "take len buf = final_bytes mid flags question ans auth (dr_edns r) \<and> len \<le> dr_limit r \<and> length buf = length (dr_buf r) \<and>
    len = length (final_bytes mid flags question ans auth (dr_edns r))"
  proof (cases "dr_edns r")
    case None
    have f: "final_bytes mid flags question ans auth (dr_edns r) = ?M" by (simp add: final_bytes_def message_bytes_def None)
    have "take (dr_len r) (dr_buf r) = ?M" by (simp add: b l)
    then show ?thesis unfolding f using assms(2) l room None by (auto simp: reply_finish_def)
  next
    case (Some sz)
    have fits: "OPT_LEN \<le> length post" using room b l Some by (simp add: edns_reserve_def)
    have p: "put_range (dr_buf r) (dr_len r) (opt_record EDNS_MAX) = Some (?M @ opt_record EDNS_MAX @ drop OPT_LEN post)"
      using put_append [of ?M "dr_len r" "opt_record EDNS_MAX" post] fits l b by simp
    have cnt: "put_range (?M @ opt_record EDNS_MAX @ drop OPT_LEN post) 10 (be16_bytes 1) =
        Some (final_bytes mid flags question ans auth (dr_edns r) @ drop OPT_LEN post)"
      by (simp add: message_bytes_def final_bytes_def put_header Some)
    have "reply_finish r = (dr_len r + OPT_LEN, final_bytes mid flags question ans auth (dr_edns r) @ drop OPT_LEN post)"
      using Some p ar by (simp del: append_assoc add: reply_finish_def set_count_def cnt [simplified])
    with assms(2) l b fits room Some show ?thesis
      by (auto simp: final_bytes_def message_bytes_def edns_reserve_def)
  qed
  then show "take len buf = final_bytes mid flags question ans auth (dr_edns r)" "len \<le> dr_limit r" "length buf = length (dr_buf r)"
    "len = length (final_bytes mid flags question ans auth (dr_edns r))" by auto
qed

end
