(* ===== verification/Dns_Properties.thy ===== *)
theory Dns_Properties
  imports Dns_Reply
begin

text \<open>
  The DNS server: every reply is within its bound and is not a question, a written question is read back,
  and a question for a service is answered with the addresses of its tasks, in a message that reads.
\<close>

section \<open>Flags\<close>

text \<open>The flags of a reply: a response that is authoritative and not truncated.\<close>

definition reply_flags_ok :: "nat \<Rightarrow> bool" where
  "reply_flags_ok f \<longleftrightarrow> f < 65536 \<and> bit f 15 \<and> bit f 10 \<and> \<not> bit f 9"

lemma rcode_num_less: "rcode_num rc < 16"
  by (cases rc) simp_all

lemma bit_small: "n < 2 ^ k \<Longrightarrow> k \<le> i \<Longrightarrow> \<not> bit (n::nat) i"
  using less_le_trans [of n "2 ^ k" "2 ^ i"] by (simp add: bit_iff_odd power_increasing)

lemma bit_rcode [simp]: "4 \<le> i \<Longrightarrow> \<not> bit (rcode_num rc) i"
  using bit_small [of "rcode_num rc" 4 i] rcode_num_less [of rc] by simp

lemma nat_or_less: "(a::nat) < 2 ^ n \<Longrightarrow> b < 2 ^ n \<Longrightarrow> a OR b < 2 ^ n"
  by (metis take_bit_nat_eq_self_iff take_bit_or)

lemma nat_and_less: "(b::nat) < 2 ^ n \<Longrightarrow> a AND b < 2 ^ n"
  by (metis take_bit_nat_eq_self take_bit_nat_eq_self_iff take_bit_and and.commute and_nat_def bit_and_iff bit_eq_iff bit_take_bit_iff)

lemma out_flags_ok: "reply_flags_ok (out_flags f rc)"
proof -
  have "out_flags f rc < 2 ^ 16"
    unfolding out_flags_def FLAG_QR_def FLAG_AA_def FLAG_RD_def FLAG_CD_def
    using rcode_num_less [of rc] by (intro nat_or_less nat_and_less) auto
  then show ?thesis
    by (simp add: reply_flags_ok_def out_flags_def FLAG_QR_def FLAG_AA_def FLAG_RD_def FLAG_CD_def bit_or_iff bit_and_iff bit_0)
qed

lemma set_rcode_ok: "reply_flags_ok f \<Longrightarrow> reply_flags_ok (f AND 0xFFF0 OR rcode_num rc)"
proof -
  assume f: "reply_flags_ok f"
  have "f AND 0xFFF0 OR rcode_num rc < 2 ^ 16"
    using rcode_num_less [of rc] by (intro nat_or_less nat_and_less) auto
  with f show ?thesis by (simp add: reply_flags_ok_def bit_or_iff bit_and_iff bit_0)
qed

lemma and_flag: "f AND 0x8000 \<noteq> (0::nat) \<longleftrightarrow> bit f 15" "f AND 0x400 \<noteq> (0::nat) \<longleftrightarrow> bit f 10" "f AND 0x200 \<noteq> (0::nat) \<longleftrightarrow> bit f 9"
  using and_exp_eq_0_iff_not_bit [of f 15] and_exp_eq_0_iff_not_bit [of f 10] and_exp_eq_0_iff_not_bit [of f 9] by auto

section \<open>Every reply\<close>

text \<open>An operation takes a reply to a reply with the same question, whose flags stay those of a reply.\<close>

definition replies :: "dns_reply \<Rightarrow> nat \<Rightarrow> string \<Rightarrow> bool" where
  "replies r mid question \<longleftrightarrow> (\<exists>flags ans auth. reply_flags_ok flags \<and> reply_is r mid flags question ans auth)"

definition asking :: "dns_reply \<Rightarrow> nat \<Rightarrow> string \<Rightarrow> bool" where
  "asking r mid question \<longleftrightarrow> (\<exists>flags ans. reply_flags_ok flags \<and> reply_is r mid flags question ans [])"

lemma asking_replies: "asking r mid question \<Longrightarrow> replies r mid question"
  by (auto simp: asking_def replies_def)

lemma set_rcode_keeps:
  "replies r mid question \<Longrightarrow> replies (set_rcode rc r) mid question \<and> same_frame r (set_rcode rc r)"
  "asking r mid question \<Longrightarrow> asking (set_rcode rc r) mid question \<and> same_frame r (set_rcode rc r)"
  unfolding replies_def asking_def using set_rcode_is set_rcode_ok reply_flags_ok_def by (meson, meson)

lemma answer_a_keeps:
  assumes "asking r mid question" "answer_a ip ttl r = (res, r')"
  shows "asking r' mid question \<and> same_frame r r'"
proof -
  obtain flags ans where f: "reply_flags_ok flags" "reply_is r mid flags question ans []" using assms(1) by (auto simp: asking_def)
  show ?thesis
    using answer_a_is [OF f(2), of ip ttl] assms f unfolding asking_def by (cases "reply_room r < 16") fastforce+
qed

lemma answer_cname_keeps:
  assumes "asking r mid question" "answer_cname target ttl r = (res, r')"
  shows "replies r' mid question \<and> same_frame r r'"
proof -
  obtain flags ans where f: "reply_flags_ok flags" "reply_is r mid flags question ans []" using assms(1) by (auto simp: asking_def)
  show ?thesis
    using answer_cname_is [OF f(2) assms(2)] f unfolding replies_def by (cases res) auto
qed

lemma authority_soa_keeps:
  assumes "replies r mid question" "authority_soa zone ttl r = (res, r')"
  shows "replies r' mid question \<and> same_frame r r'"
proof -
  obtain flags ans auth where f: "reply_flags_ok flags" "reply_is r mid flags question ans auth" using assms(1) by (auto simp: replies_def)
  show ?thesis
    using authority_soa_is [OF f(2) assms(2)] f unfolding replies_def by (cases res) auto
qed

lemma write_ips_keeps: "asking r mid question \<Longrightarrow> asking (write_ips ips r) mid question \<and> same_frame r (write_ips ips r)"
proof (induction ips arbitrary: r)
  case (Cons ip ips)
  obtain res r1 where a: "answer_a ip TTL r = (res, r1)" by fastforce
  with answer_a_keeps [OF Cons.prems a] Cons.IH [of r1] show ?case
    by (cases res) (auto intro: same_frame_trans)
qed simp

lemma write_unique_keeps:
  "asking r mid question \<Longrightarrow> asking (write_unique ips seen r) mid question \<and> same_frame r (write_unique ips seen r)"
proof (induction ips arbitrary: r seen)
  case (Cons ip ips)
  obtain res r1 where a: "answer_a ip TTL r = (res, r1)" by fastforce
  with answer_a_keeps [OF Cons.prems a] Cons.IH [of r1] Cons.IH [of r] Cons.prems show ?case
    by (cases res) (auto intro: same_frame_trans)
qed simp

lemma dns_service_keeps:
  assumes "asking r mid question" "dns_service s c name qtype r = (res, r')"
  shows "replies r' mid question \<and> same_frame r r'"
proof -
  define lk where "lk = service_lookup s c name"
  define r1 where "r1 = (if qtype = RT_A \<or> qtype = RT_ANY
      then (case lk of LkApex \<Rightarrow> r | LkCluster ips \<Rightarrow> write_ips (case ips of Some l \<Rightarrow> l | None \<Rightarrow> []) r
            | LkMerged job \<Rightarrow> write_merged c job r) else r)"
  have r1: "asking r1 mid question \<and> same_frame r r1"
    using assms(1) write_ips_keeps write_unique_keeps
    by (auto simp: r1_def write_merged_def split: dns_lookup.splits)
  define r2 where "r2 = (if \<not> lookup_exists c lk then set_rcode NxDomain r1 else r1)"
  have r2: "replies r2 mid question \<and> same_frame r r2"
    using r1 set_rcode_keeps(2) [of r1 mid question NxDomain] asking_replies by (auto simp: r2_def intro: same_frame_trans)
  have "dns_service s c name qtype r = (if dr_an r1 = 0 then authority_soa (ds_domain s) TTL r2 else (Inr (), r1))"
    by (simp add: dns_service_def Let_def lk_def [symmetric] r1_def [symmetric] r2_def)
  with assms(2) r1 r2 authority_soa_keeps [of r2 mid question "ds_domain s" TTL res r'] show ?thesis
    by (auto split: if_splits intro: same_frame_trans asking_replies)
qed

lemma dns_answer_keeps:
  assumes "asking r mid question" "dns_answer s c q r = (res, r')"
  shows "replies r' mid question \<and> same_frame r r'"
proof (cases "name_text (dq_qname q)")
  case None
  with assms set_rcode_keeps(2) asking_replies show ?thesis by (auto simp: dns_answer_def)
next
  case (Some name)
  have rc: "replies (set_rcode rc r) mid question" "same_frame r (set_rcode rc r)" for rc
    using set_rcode_keeps(2) [OF assms(1), of rc] asking_replies by auto
  have soa: "replies r' mid question \<and> same_frame r r'" if "authority_soa zone ttl (set_rcode rc r) = (res, r')" for zone ttl rc
    using authority_soa_keeps [OF rc(1) that] rc(2) [of rc] by (auto intro: same_frame_trans)
  show ?thesis
    using assms(2) Some rc answer_cname_keeps [OF assms(1)] dns_service_keeps [OF assms(1)] soa
    by (auto simp: dns_answer_def split: if_splits option.splits)
qed

lemma be16_bound: "be16 b at = Some n \<Longrightarrow> n < 65536"
proof -
  assume "be16 b at = Some n"
  then have "n = byte (b ! at) * 256 + byte (b ! (at + 1))" by (auto simp: be16_def split: if_splits)
  moreover have "byte (b ! at) < 256" "byte (b ! (at + 1)) < 256" by simp_all
  ultimately show ?thesis by linarith
qed

lemma parse_query_id:
  "parse_query msg = Inr q \<Longrightarrow> be16 msg 0 = Some (dq_id q)"
  "parse_query msg = Inl (BadReply qid flags rc) \<Longrightarrow> be16 msg 0 = Some qid"
  by (auto simp: parse_query_def split: option.splits if_splits)

lemma response_dropped:
  assumes "msg = header_bytes mid flags qd an ns ar @ rest" "reply_flags_ok flags"
  shows "parse_query msg = Inl BadDrop"
proof -
  have "flags AND FLAG_QR \<noteq> 0" using assms(2) and_flag(1) by (simp add: reply_flags_ok_def FLAG_QR_def)
  then show ?thesis using assms by (simp add: parse_query_def read_header reply_flags_ok_def)
qed

lemma reply_limit_le: "UDP_MAX \<le> reply_limit edns" "reply_limit edns \<le> EDNS_MAX" "reply_limit None = UDP_MAX"
  by (auto simp: reply_limit_def UDP_MAX_def EDNS_MAX_def split: option.splits)

lemma be16_prefix: "at + 1 < length x \<Longrightarrow> be16 (x @ y) at = be16 x at"
  by (simp add: be16_def nth_append)

text \<open>
  C34. No reply is a question: whatever datagram the server answers, the reply is at most as long as the buffer
  and as 1232 bytes (512 when the question spoke no EDNS or was not understood), carries the id of the
  datagram, and any such server drops it, so two servers cannot answer each other for ever.
\<close>

theorem dns_replies_dropped:
  assumes "dns_handle s c msg out = Some (len, buf)"
  shows "len \<le> length out \<and> length buf = length out \<and> be16 (take len buf) 0 = be16 msg 0 \<and>
    (case parse_query msg of Inr q \<Rightarrow> len \<le> reply_limit (dq_edns q) | Inl _ \<Rightarrow> len \<le> UDP_MAX) \<and>
    (\<forall>s' c' out'. dns_handle s' c' (take len buf) out' = None)"
proof (cases "parse_query msg")
  case (Inl bad)
  then obtain qid flags rc r where bad: "bad = BadReply qid flags rc" and r: "reply_bare out qid flags rc UDP_MAX = Inr r"
    and fin: "reply_finish r = (len, buf)"
    using assms by (auto simp: dns_handle_def split: dns_bad.splits sum.splits)
  have lb: "len = 12" "buf = header_bytes qid (out_flags flags rc) 0 0 0 0 @ drop 12 out" "12 \<le> length out"
    using r fin by (auto simp: reply_bare_eq reply_finish_def split: if_splits)
  have t: "take len buf = header_bytes qid (out_flags flags rc) 0 0 0 0 @ []" using lb by simp
  have "parse_query (take len buf) = Inl BadDrop" using response_dropped [OF t out_flags_ok] .
  moreover have "be16 msg 0 = Some qid" using parse_query_id(2) Inl bad by simp
  ultimately show ?thesis
    using be16_bound [of msg 0 qid] read_header(1) [of qid "out_flags flags rc" 0 0 0 0 "[]"] lb Inl
    by (auto simp: t UDP_MAX_def dns_handle_def)
next
  case (Inr q)
  then obtain r res r1 where r: "reply_start out q (reply_limit (dq_edns q)) = Inr r" and a: "dns_answer s c q r = (res, r1)"
    and fin: "reply_finish (case res of Inl _ \<Rightarrow> set_rcode ServFail r1 | Inr _ \<Rightarrow> r1) = (len, buf)"
    using assms by (auto simp: dns_handle_def split: sum.splits prod.splits)
  define r2 where "r2 = (case res of Inl _ \<Rightarrow> set_rcode ServFail r1 | Inr _ \<Rightarrow> r1)"
  note start = reply_start_is [OF r]
  have "asking r (dq_id q) (dq_question q)" using start out_flags_ok by (auto simp: asking_def)
  from dns_answer_keeps [OF this a] have "replies r2 (dq_id q) (dq_question q) \<and> same_frame r r2"
    using set_rcode_keeps(1) [of r1 "dq_id q" "dq_question q" ServFail] by (auto simp: r2_def split: sum.splits intro: same_frame_trans)
  then obtain flags ans auth where ok: "reply_flags_ok flags" and is2: "reply_is r2 (dq_id q) flags (dq_question q) ans auth"
    and frame: "same_frame r r2" by (auto simp: replies_def)
  note f = reply_finish_is [OF is2 fin [folded r2_def]]
  obtain rest where t: "take len buf = header_bytes (dq_id q) flags 1 (length ans) (length auth) (if dr_edns r2 \<noteq> None then 1 else 0) @ rest"
    using f(1) by (auto simp: final_bytes_def)
  have "parse_query (take len buf) = Inl BadDrop" using response_dropped [OF t ok] .
  moreover have "be16 msg 0 = Some (dq_id q)" using parse_query_id(1) [OF Inr] .
  moreover have "be16 (take len buf) 0 = Some (dq_id q mod 65536)" unfolding t by (rule read_header)
  ultimately show ?thesis
    using be16_bound [of msg 0 "dq_id q"] f(2,3) frame start Inr by (auto simp: dns_handle_def same_frame_def)
qed

theorem dns_replies_dropped_witness:
  "\<exists>len buf. dns_handle (dns_server_new []) cache_new (CHR 0x07 # replicate 11 (CHR 0x00)) (replicate 20 (CHR 0x00)) = Some (len, buf) \<and>
     len = 12 \<and> dns_handle (dns_server_new []) cache_new (take len buf) (replicate 20 (CHR 0x00)) = None"
proof -
  define s where "s = dns_server_new []"
  define msg where "msg = CHR 0x07 # replicate 11 (CHR 0x00)"
  have len: "map_option fst (dns_handle s cache_new msg (replicate 20 (CHR 0x00))) = Some 12"
    unfolding s_def msg_def by code_simp
  then obtain buf where h: "dns_handle s cache_new msg (replicate 20 (CHR 0x00)) = Some (12, buf)" by auto
  then show ?thesis using dns_replies_dropped [OF h] by (auto simp: s_def msg_def)
qed

section \<open>Names\<close>

lemma byte_less [simp]: "byte c < 256"
  by simp

lemma nth_drop_hd: "drop at msg = x # rest \<Longrightarrow> at < length msg \<and> msg ! at = x"
  by (metis drop_all hd_drop_conv_nth list.distinct(1) list.sel(1) not_le)

lemma drop_tl: "drop at msg = x @ rest \<Longrightarrow> drop (at + length x) msg = rest"
  by (rule drop_append_more)

text \<open>Reading the labels of a name off the wire, for each of the four readers.\<close>

lemma wire_name_simps [simp]: "wire_name [] = [CHR 0x00]" "wire_name (l # ls) = char_of (length l) # l @ wire_name ls"
  by (simp_all add: wire_name_def)

lemma wire_step:
  assumes "drop at msg = wire_name (l # ls) @ rest" "label_ok l"
  shows "at < length msg" "byte (msg ! at) = length l" "0 < length l" "length l \<le> 63"
    "get_range msg (at + 1) (at + 1 + length l) = Some l" "drop (at + 1 + length l) msg = wire_name ls @ rest"
proof -
  have d: "drop at msg = char_of (length l) # l @ wire_name ls @ rest" using assms(1) by simp
  show "at < length msg" using nth_drop_hd [OF d] by simp
  show "byte (msg ! at) = length l" "0 < length l" "length l \<le> 63"
    using nth_drop_hd [OF d] assms(2) by (auto simp: label_ok_def LABEL_MAX_def)
  have d1: "drop (at + 1) msg = l @ wire_name ls @ rest" using drop_append_more [of at msg "[char_of (length l)]"] d by simp
  then show "drop (at + 1 + length l) msg = wire_name ls @ rest" by (rule drop_append_more)
  have "length (drop (at + 1) msg) \<ge> length l" unfolding d1 by simp
  then show "get_range msg (at + 1) (at + 1 + length l) = Some l" using d1 assms(2)
    by (cases l) (auto simp: get_range_def label_ok_def)
qed

lemma wire_end:
  assumes "drop at msg = wire_name [] @ rest"
  shows "at < length msg" "byte (msg ! at) = 0"
  using nth_drop_hd [of at msg "CHR 0x00" rest] assms by auto

lemma skip_plain_labels:
  assumes "drop at msg = wire_name ls @ rest" "list_all label_ok ls" "start \<le> at" "at + length (wire_name ls) - start \<le> NAME_MAX"
  shows "skip_plain_loop msg start at = Some (at + length (wire_name ls))"
  using assms
proof (induction ls arbitrary: at)
  case Nil
  then show ?case using wire_end [OF Nil.prems(1)] by (simp add: skip_plain_loop.simps [of msg start at])
next
  case (Cons l ls)
  note w = wire_step [OF Cons.prems(1)]
  show ?case
    using Cons.IH [of "at + 1 + length l"] Cons.prems w
    by (simp add: skip_plain_loop.simps [of msg start at] LABEL_MAX_def)
qed

lemma skip_name_labels:
  "drop at msg = wire_name ls @ rest \<Longrightarrow> list_all label_ok ls \<Longrightarrow> skip_name msg at = Some (at + length (wire_name ls))"
proof (induction ls arbitrary: at)
  case Nil
  then show ?case using wire_end [OF Nil.prems(1)] by (simp add: skip_name.simps [of msg at])
next
  case (Cons l ls)
  note w = wire_step [OF Cons.prems(1)]
  show ?case using Cons.IH [of "at + 1 + length l"] Cons.prems w by (simp add: skip_name.simps [of msg at])
qed

lemma skip_plain_inv:
  "skip_plain_loop msg start at = Some fin \<Longrightarrow> \<exists>ls rest. drop at msg = wire_name ls @ rest \<and> list_all label_ok ls \<and>
     fin = at + length (wire_name ls) \<and> fin - start \<le> NAME_MAX"
proof (induction msg start at rule: skip_plain_loop.induct)
  case (1 msg start at)
  define len where "len = byte (msg ! at)"
  have lt: "at < length msg" using 1(2) by (auto simp: skip_plain_loop.simps [of msg start at] split: if_splits)
  have hd: "drop at msg = char_of len # drop (at + 1) msg"
    using Cons_nth_drop_Suc [OF lt] by (simp add: len_def)
  show ?case
  proof (cases "len = 0")
    case True
    with 1(2) lt have "fin = at + 1" "fin - start \<le> NAME_MAX"
      by (auto simp: skip_plain_loop.simps [of msg start at] len_def split: if_splits)
    moreover have "drop at msg = wire_name [] @ drop (at + 1) msg" using hd True by (simp add: char_of_def)
    ultimately show ?thesis by (intro exI [of _ "[]"] exI [of _ "drop (at + 1) msg"]) simp
  next
    case False
    with 1(2) lt have le: "len \<le> LABEL_MAX" and step: "skip_plain_loop msg start (at + 1 + len) = Some fin"
      by (auto simp: skip_plain_loop.simps [of msg start at] len_def [symmetric] Let_def split: if_splits)
    then obtain ls rest where ls: "drop (at + 1 + len) msg = wire_name ls @ rest" "list_all label_ok ls"
      "fin = at + 1 + len + length (wire_name ls)" "fin - start \<le> NAME_MAX"
      using 1(1) [OF _ len_def False] lt by (auto simp: not_le)
    let ?l = "take len (drop (at + 1) msg)"
    have "length (drop (at + 1 + len) msg) > 0" unfolding ls(1) by (cases ls) auto
    then have l: "length ?l = len" by simp
    have "drop (at + 1) msg = ?l @ drop (at + 1 + len) msg" by (metis append_take_drop_id drop_drop add.commute add.left_commute)
    then have "drop at msg = wire_name (?l # ls) @ rest" using hd ls(1) l by simp
    moreover have "label_ok ?l" using l False le by (auto simp: label_ok_def)
    ultimately show ?thesis using ls l by (intro exI [of _ "?l # ls"] exI [of _ rest]) simp
  qed
qed

text \<open>The name as the reader of a reply shows it.\<close>

definition fq_text :: "string list \<Rightarrow> string" where
  "fq_text ls = concat (map (\<lambda>l. concat (map (\<lambda>b. utf8_encode (byte b)) l) @ ''.'') ls)"

lemma fq_text_simps [simp]:
  "fq_text [] = []" "fq_text (l # ls) = concat (map (\<lambda>b. utf8_encode (byte b)) l) @ CHR ''.'' # fq_text ls"
  by (simp_all add: fq_text_def)

lemma read_loop_labels:
  assumes "drop pos msg = wire_name ls @ rest" "list_all label_ok ls" "length (name @ fq_text ls) \<le> NAME_MAX"
  shows "read_loop msg pos name fin =
    Inr (if name @ fq_text ls = [] then ''.'' else name @ fq_text ls, case fin of Some f \<Rightarrow> f | None \<Rightarrow> pos + length (wire_name ls))"
  using assms
proof (induction ls arbitrary: pos name)
  case Nil
  then show ?case using wire_end [OF Nil.prems(1)] by (simp add: read_loop.simps [of msg pos] split: option.split)
next
  case (Cons l ls)
  note w = wire_step [OF Cons.prems(1)]
  let ?name = "name @ concat (map (\<lambda>b. utf8_encode (byte b)) l) @ ''.''"
  have ih: "read_loop msg (pos + 1 + length l) ?name fin =
      Inr (?name @ fq_text ls, case fin of Some f \<Rightarrow> f | None \<Rightarrow> pos + 1 + length l + length (wire_name ls))"
    using Cons.IH [of "pos + 1 + length l" ?name] Cons.prems w by simp
  show ?case
    using ih w Cons.prems by (cases fin) (simp_all add: read_loop.simps [of msg pos] Let_def add.commute add.left_commute)
qed

text \<open>A name behind a pointer to the question.\<close>

lemma pointer_value: "be16 msg pos = Some 0xC00C \<Longrightarrow> byte (msg ! pos) = 0xC0"
proof -
  assume "be16 msg pos = Some 0xC00C"
  then have "byte (msg ! pos) * 256 + byte (msg ! (pos + 1)) = 0xC00C" by (auto simp: be16_def split: if_splits)
  moreover have "byte (msg ! (pos + 1)) < 256" by simp
  ultimately show ?thesis by linarith
qed

lemma read_name_pointer:
  assumes "drop 12 msg = wire_name ls @ rest" "list_all label_ok ls" "length (fq_text ls) \<le> NAME_MAX"
    and "drop pos msg = QNAME_PTR @ tail" "12 < pos"
  shows "read_name msg pos = Inr (if ls = [] then ''.'' else fq_text ls, pos + 2)"
proof -
  have "QNAME_PTR = be16_bytes 0xC00C" by code_simp
  then have p: "drop pos msg = be16_bytes 0xC00C @ tail" using assms(4) by simp
  have b: "be16 msg pos = Some 0xC00C" using be16_at [OF p] by simp
  have lt: "pos < length msg" using nth_drop_hd [of pos msg] assms(4) by (auto simp: QNAME_PTR_def)
  have t: "(0xC00C :: nat) AND 0x3FFF = 12" by code_simp
  have "fq_text ls = [] \<longleftrightarrow> ls = []" by (cases ls) auto
  then show ?thesis
    using read_loop_labels [OF assms(1,2), of "[]" "Some (pos + 2)"] assms(3,5) b lt pointer_value [OF b] t
    by (simp add: read_name_def read_loop.simps [of msg pos])
qed

section \<open>Text of a name\<close>

definition host_byte :: "char \<Rightarrow> bool" where
  "host_byte b \<longleftrightarrow> between 0x21 0x7E b \<and> b \<noteq> CHR ''.''"

definition add_label :: "string \<Rightarrow> string \<Rightarrow> string" where
  "add_label acc l = (if acc \<noteq> [] then acc @ ''.'' else acc) @ map ascii_lower l"

lemma label_text_eq:
  "l \<noteq> [] \<Longrightarrow> label_text l acc = (if list_all host_byte l \<and> length acc + length l \<le> NAME_MAX then Some (acc @ map ascii_lower l) else None)"
proof (induction l arbitrary: acc)
  case (Cons b l)
  then show ?case by (cases "l = []") (auto simp: host_byte_def)
qed simp

lemma length_add_labels: "length acc \<le> length (foldl add_label acc ls)"
proof (induction ls arbitrary: acc)
  case (Cons l ls)
  have "length acc \<le> length (add_label acc l)" by (simp add: add_label_def)
  also have "\<dots> \<le> length (foldl add_label (add_label acc l) ls)" by (rule Cons.IH)
  finally show ?case by simp
qed simp

lemma name_loop_labels:
  assumes "drop at wire = wire_name ls @ rest" "list_all label_ok ls" "length acc \<le> NAME_MAX"
  shows "name_loop wire at acc =
    (if list_all (list_all host_byte) ls \<and> length (foldl add_label acc ls) \<le> NAME_MAX then Some (foldl add_label acc ls) else None)"
  using assms
proof (induction ls arbitrary: at acc)
  case Nil
  then show ?case using wire_end [OF Nil.prems(1)] by (simp add: name_loop.simps [of wire at])
next
  case (Cons l ls)
  note w = wire_step [OF Cons.prems(1)]
  have l: "l \<noteq> []" using Cons.prems(2) by (auto simp: label_ok_def)
  have long: "\<not> length (foldl add_label acc (l # ls)) \<le> NAME_MAX" if "\<not> length (add_label acc l) \<le> NAME_MAX"
    using length_add_labels [of "add_label acc l" ls] that by simp
  have full: "\<not> length (add_label acc l) \<le> NAME_MAX" if "acc \<noteq> []" "NAME_MAX \<le> length acc"
    using that by (simp add: add_label_def)
  show ?case
    using Cons.IH [of "at + 1 + length l" "add_label acc l"] Cons.prems w long full
    by (auto simp: name_loop.simps [of wire at] Let_def label_text_eq [OF l] add_label_def [symmetric])
       (auto simp: add_label_def)
qed

lemma host_text: "list_all (list_all host_byte) ls \<Longrightarrow> length (fq_text ls) + 1 = length (wire_name ls)"
proof (induction ls)
  case (Cons l ls)
  have "concat (map (\<lambda>b. utf8_encode (byte b)) l) = l" if "list_all host_byte l"
    using that by (induction l) (auto simp: host_byte_def between_def utf8_encode_def)
  with Cons show ?case by simp
qed simp

lemma add_labels_more:
  "acc \<noteq> [] \<Longrightarrow> ls \<noteq> [] \<Longrightarrow> foldl add_label acc ls = acc @ CHR ''.'' # join_char (CHR ''.'') (map (map ascii_lower) ls)"
proof (induction ls arbitrary: acc)
  case (Cons l ls)
  have "add_label acc l = acc @ CHR ''.'' # map ascii_lower l" using Cons.prems by (simp add: add_label_def)
  with Cons.IH [of "acc @ CHR ''.'' # map ascii_lower l"] Cons.prems show ?case by (cases ls) simp_all
qed simp

lemma add_labels_join:
  assumes "list_all label_ok ls"
  shows "foldl add_label [] ls = join_char (CHR ''.'') (map (map ascii_lower) ls)"
proof (cases ls)
  case (Cons l ms)
  have "add_label [] l = map ascii_lower l" "map ascii_lower l \<noteq> []" using assms Cons by (auto simp: add_label_def label_ok_def)
  with Cons add_labels_more [of "map ascii_lower l" ms] show ?thesis by (cases ms) simp_all
qed simp

lemma map_join_char: "map f (join_char d ws) = join_char (f d) (map (map f) ws)"
  by (induction d ws rule: join_char.induct) auto

lemma name_text_labels:
  assumes "list_all label_ok ls" "length (wire_name ls) \<le> NAME_MAX"
  shows "name_text (wire_name ls) = (if list_all (list_all host_byte) ls then Some (join_char (CHR ''.'') (map (map ascii_lower) ls)) else None)"
proof -
  let ?t = "join_char (CHR ''.'') (map (map ascii_lower) ls)"
  have "length (join_char d ws) + 1 = length (wire_name ws) - 1" if "ws \<noteq> []" for d ws
    using that by (induction d ws rule: join_char.induct) auto
  from this [of "map (map ascii_lower) ls" "CHR ''.''"] have len: "length ?t \<le> NAME_MAX"
    using assms(2) by (cases "ls = []") (auto simp: wire_name_def wire_labels_def comp_def length_concat)
  have "utf8_valid ?t" if h: "list_all (list_all host_byte) ls"
  proof (rule ascii_valid)
    have low: "byte (ascii_lower c) < 128" if "host_byte c" for c
      using that by (simp add: host_byte_def ascii_lower_def between_def)
    have "byte c < 128" if c: "c \<in> set ?t" for c
    proof (cases "c = CHR ''.''")
      case False
      then obtain l where "l \<in> set ls" "c \<in> ascii_lower ` set l"
        using c set_join_char [of "CHR ''.''" "map (map ascii_lower) ls"] by auto
      then show ?thesis using h low by (auto simp: list_all_iff)
    qed simp
    then show "list_all (\<lambda>c. byte c < 128) ?t" by (simp add: list_all_iff)
  qed
  then show ?thesis
    using name_loop_labels [of 0 "wire_name ls" ls "[]" "[]"] assms(1) len add_labels_join [OF assms(1)]
    by (simp add: name_text_def)
qed

text \<open>What a question that parses is made of.\<close>

lemma parse_query_parts:
  assumes "parse_query msg = Inr q"
  shows "\<exists>ls four. list_all label_ok ls \<and> dq_qname q = wire_name ls \<and> length (wire_name ls) \<le> NAME_MAX \<and>
    dq_question q = wire_name ls @ four \<and> length four = 4"
proof -
  obtain fin where fin: "skip_plain_name msg HEADER_LEN = Some fin" and r: "get_range msg HEADER_LEN (fin + 4) = Some (dq_question q)"
    "get_range msg HEADER_LEN fin = Some (dq_qname q)"
    using assms by (auto simp: parse_query_def split: option.splits if_splits)
  obtain ls rest where ls: "drop HEADER_LEN msg = wire_name ls @ rest" "list_all label_ok ls" "fin = HEADER_LEN + length (wire_name ls)"
    "fin - HEADER_LEN \<le> NAME_MAX"
    using skip_plain_inv fin unfolding skip_plain_name_def by blast
  have "length (wire_name ls @ rest) = length msg - HEADER_LEN" using arg_cong [OF ls(1), of length] by simp
  then have "4 \<le> length rest" using r(1) ls(3) by (auto simp: get_range_def split: if_splits)
  then show ?thesis using r ls by (intro exI [of _ ls] exI [of _ "take 4 rest"]) (auto simp: get_range_def split: if_splits)
qed

section \<open>A question is read back\<close>

lemma encode_query_is:
  assumes "encode_query qid name qtype edns out = (Inr n, out')"
  shows "list_all label_ok (name_labels name) \<and> length (wire_name (name_labels name)) \<le> NAME_MAX \<and>
    take n out' = header_bytes qid FLAG_RD 1 0 0 (if edns = None then 0 else 1) @ wire_name (name_labels name) @
      be16_bytes qtype @ be16_bytes CLASS_IN @ (case edns of Some sz \<Rightarrow> opt_record sz | None \<Rightarrow> [])"
proof -
  let ?h = "header_bytes qid FLAG_RD 1 0 0 0" and ?w = "wire_name (name_labels name)" and ?q = "be16_bytes qtype @ be16_bytes CLASS_IN"
  have h: "be16_bytes qid @ be16_bytes FLAG_RD @ be16_bytes 1 @ replicate 6 (CHR 0x00) = ?h"
  proof -
    have "replicate 6 (CHR 0x00) = be16_bytes 0 @ be16_bytes 0 @ be16_bytes 0" by code_simp
    then show ?thesis by (simp add: header_bytes_def)
  qed
  have p1: "put_range out 0 ?h = Some (?h @ drop 12 out)" "12 \<le> length out"
    using assms by (auto simp: encode_query_def h put_range_def simp del: One_nat_def split: if_splits)
  obtain at out2 where nm: "put_name (?h @ drop 12 out) (length ?h) name = (Inr at, out2)"
    using assms by (cases "put_name (?h @ drop 12 out) (length ?h) name")
      (auto simp: encode_query_def h p1 HEADER_LEN_def simp del: One_nat_def split: sum.splits)
  have w: "list_all label_ok (name_labels name)" "length ?w \<le> NAME_MAX" "at = 12 + length ?w"
    "out2 = (?h @ ?w) @ drop (length ?w) (drop 12 out)"
    using nm put_name_eq [of ?h "drop 12 out" name at out2] by auto
  have len: "length (?h @ ?w) = at" using w(3) by simp
  obtain out3 where p3: "put_range out2 at ?q = Some out3"
    using assms nm by (auto simp: encode_query_def h p1 HEADER_LEN_def simp del: One_nat_def split: option.splits)
  then have o3: "out3 = ((?h @ ?w) @ ?q) @ drop 4 (drop (length ?w) (drop 12 out))"
    using put_append [OF len, of ?q "drop (length ?w) (drop 12 out)"] put_range_Some(2) [OF p3] w(4) len by auto
  have len3: "length ((?h @ ?w) @ ?q) = at + 4" using len by simp
  show ?thesis
  proof (cases edns)
    case None
    with assms nm p3 have "n = at + 4" "out' = out3" by (auto simp: encode_query_def h p1 HEADER_LEN_def simp del: One_nat_def)
    then have "take n out' = (?h @ ?w) @ ?q" using o3 len3 by (metis append_eq_conv_conj)
    with w None show ?thesis by simp
  next
    case (Some sz)
    obtain out4 where p4: "put_range out3 (at + 4) (opt_record sz) = Some out4"
      using assms nm p3 Some by (auto simp: encode_query_def h p1 HEADER_LEN_def simp del: One_nat_def split: option.splits)
    obtain post where o4: "out4 = ?h @ ?w @ ?q @ opt_record sz @ post"
      using put_append [OF len3, of "opt_record sz" "drop 4 (drop (length ?w) (drop 12 out))"] put_range_Some(2) [OF p4] p4 o3 len3 by auto
    have "n = at + 4 + OPT_LEN" "out' = header_bytes qid FLAG_RD 1 0 0 1 @ ?w @ ?q @ opt_record sz @ post"
      using assms nm p3 p4 Some o4 by (auto simp: encode_query_def h p1 HEADER_LEN_def put_header simp del: One_nat_def)
    with w Some show ?thesis by simp
  qed
qed

lemma find_opt_record:
  assumes "drop at msg = opt_record sz @ rest" "sz < 65536"
  shows "find_opt msg at (Suc 0) = Some sz"
proof -
  have d: "drop at msg = [CHR 0x00] @ be16_bytes RT_OPT @ be16_bytes sz @ replicate 6 (CHR 0x00) @ rest"
    using assms(1) by (simp add: opt_record_def)
  have six: "replicate 6 (CHR 0x00) = be16_bytes 0 @ be16_bytes 0 @ be16_bytes 0" by code_simp
  have d1: "drop (at + 1) msg = be16_bytes RT_OPT @ be16_bytes sz @ be16_bytes 0 @ be16_bytes 0 @ be16_bytes 0 @ rest"
    using drop_append_more [OF d] six by simp
  have d3: "drop (at + 3) msg = be16_bytes sz @ be16_bytes 0 @ be16_bytes 0 @ be16_bytes 0 @ rest"
    using drop_append_more [OF d1] by (simp add: numeral_eq_Suc)
  have d9: "drop (at + 9) msg = be16_bytes 0 @ rest"
    using drop_append_more [of "at + 3" msg "be16_bytes sz @ be16_bytes 0 @ be16_bytes 0"] d3 by (simp add: add.commute)
  have n: "skip_name msg at = Some (at + 1)"
    using skip_name_labels [of at msg "[]" "be16_bytes RT_OPT @ be16_bytes sz @ replicate 6 (CHR 0x00) @ rest"] d by simp
  have "be16 msg (at + 1) = Some RT_OPT" "be16 msg (at + 3) = Some sz" "be16 msg (at + 9) = Some 0"
    using be16_at [OF d1] be16_at [OF d3] be16_at [OF d9] assms(2) by (simp_all add: RT_OPT_def)
  moreover have "at + 1 + 2 = at + 3" "at + 1 + 8 = at + 9" by simp_all
  ultimately show ?thesis unfolding find_opt.simps n by (simp only: option.case prod.case simp_thms if_True)
qed

lemma name_labels_join: "join_char (CHR ''.'') (name_labels name) = strip_end (CHR ''.'') name"
  by (simp add: name_labels_def Let_def join_split)

lemma name_labels_bytes: "l \<in> set (name_labels name) \<Longrightarrow> c \<in> set l \<Longrightarrow> c \<in> set name \<and> c \<noteq> CHR ''.''"
proof -
  assume l: "l \<in> set (name_labels name)" and c: "c \<in> set l"
  then have "l \<in> set (split_char (CHR ''.'') (strip_end (CHR ''.'') name))" by (auto simp: name_labels_def Let_def split: if_splits)
  from set_split_char [OF this] split_char_free [OF this] c show ?thesis
    by (auto simp: strip_end_def split: if_splits dest: in_set_butlastD)
qed

lemma name_labels_host: "list_all (list_all host_byte) (name_labels name) \<longleftrightarrow> list_all (between 0x21 0x7E) name"
proof
  assume "list_all (between 0x21 0x7E) name"
  then show "list_all (list_all host_byte) (name_labels name)"
    using name_labels_bytes by (fastforce simp: list_all_iff host_byte_def)
next
  assume h: "list_all (list_all host_byte) (name_labels name)"
  have "between 0x21 0x7E c" if c: "c \<in> set name" for c
  proof (cases "c = CHR ''.''")
    case False
    have "c \<in> set (strip_end (CHR ''.'') name)"
    proof (cases name rule: rev_cases)
      case (snoc xs x)
      then show ?thesis using c False by (auto simp: strip_end_def)
    qed (use c in simp)
    then have "c \<in> set (join_char (CHR ''.'') (name_labels name))" by (simp add: name_labels_join)
    then obtain l where "l \<in> set (name_labels name)" "c \<in> set l" using False set_join_char by fastforce
    then show ?thesis using h by (auto simp: list_all_iff host_byte_def)
  qed (simp add: between_def)
  then show "list_all (between 0x21 0x7E) name" by (simp add: list_all_iff)
qed

text \<open>
  C35. A question is read back: what \<open>encode_query\<close> writes, for any name that it accepts, \<open>parse_query\<close> reads as a question
  with the same id, type and EDNS size, class Internet and the flag for recursion.  When the name has only
  printable ASCII characters and no blank, the name that the server then looks up is the name that was asked, in
  lower case and without a final dot; for any other name there is none to look up.
\<close>

theorem dns_query_roundtrip:
  assumes "encode_query qid name qtype edns out = (Inr n, out')"
    and "qid < 65536" "qtype < 65536" "\<forall>sz. edns = Some sz \<longrightarrow> sz < 65536"
  shows "\<exists>q. parse_query (take n out') = Inr q \<and> dq_id q = qid \<and> dq_flags q = FLAG_RD \<and> dq_qtype q = qtype \<and>
    dq_qclass q = CLASS_IN \<and> dq_edns q = edns \<and>
    name_text (dq_qname q) =
      (if list_all (between 0x21 0x7E) name then Some (map ascii_lower (strip_end (CHR ''.'') name)) else None)"
proof -
  let ?ls = "name_labels name"
  let ?w = "wire_name ?ls" and ?q = "be16_bytes qtype @ be16_bytes CLASS_IN"
  let ?opt = "case edns of Some sz \<Rightarrow> opt_record sz | None \<Rightarrow> []"
  let ?h = "header_bytes qid FLAG_RD 1 0 0 (if edns = None then 0 else 1)"
  define msg where "msg = ?h @ ?w @ ?q @ ?opt"
  have ok: "list_all label_ok ?ls" "length ?w \<le> NAME_MAX" and take: "take n out' = msg"
    using encode_query_is [OF assms(1)] by (auto simp: msg_def)
  have d12: "drop 12 msg = ?w @ ?q @ ?opt" by (simp add: msg_def)
  let ?fin = "12 + length ?w"
  have dq: "drop ?fin msg = be16_bytes qtype @ be16_bytes CLASS_IN @ ?opt" using drop_append_more [OF d12] by simp
  have dc: "drop (?fin + 2) msg = be16_bytes CLASS_IN @ ?opt" using drop_append_more [OF dq] by simp
  have de: "drop (?fin + 4) msg = ?opt" using drop_append_more [OF dc] by (simp add: add.commute)
  have skip: "skip_plain_name msg 12 = Some ?fin"
    using skip_plain_labels [OF d12 ok(1), of 12] ok(2) by (simp add: skip_plain_name_def)
  have heads: "be16 msg 0 = Some qid" "be16 msg 2 = Some FLAG_RD" "be16 msg 4 = Some 1" "be16 msg 6 = Some 0" "be16 msg 8 = Some 0"
    "be16 msg 10 = Some (if edns = None then 0 else 1)"
    unfolding msg_def read_header using assms(2) by (simp_all add: FLAG_RD_def)
  have tail: "be16 msg ?fin = Some qtype" "be16 msg (?fin + 2) = Some CLASS_IN"
    using be16_at [OF dq] be16_at [OF dc] assms(3) by (simp_all add: CLASS_IN_def)
  have edns: "find_opt msg (?fin + 4) (0 + 0 + (if edns = None then 0 else 1)) = edns"
    using find_opt_record [of "?fin + 4" msg _ "[]"] de assms(4) by (cases edns) auto
  have range: "get_range msg 12 (?fin + 4) = Some (?w @ ?q)" "get_range msg 12 ?fin = Some ?w"
    by (simp_all add: get_range_def msg_def)
  have flags: "FLAG_RD AND FLAG_QR = 0" "drop_bit 11 FLAG_RD AND 0xF = 0" by code_simp+
  have len: "\<not> length msg < 12" by (simp add: msg_def)
  have host: "list_all (list_all host_byte) ?ls \<longleftrightarrow> list_all (between 0x21 0x7E) name"
    by (rule name_labels_host)
  have "ascii_lower (CHR ''.'') = CHR ''.''" by code_simp
  then have "join_char (CHR ''.'') (map (map ascii_lower) ?ls) = map ascii_lower (strip_end (CHR ''.'') name)"
    using map_join_char [of ascii_lower "CHR ''.''" ?ls] name_labels_join [of name] by simp
  then have nt: "name_text ?w = (if list_all (between 0x21 0x7E) name
      then Some (map ascii_lower (strip_end (CHR ''.'') name)) else None)"
    using name_text_labels [OF ok] unfolding host by simp
  have "parse_query msg = Inr \<lparr>dq_id = qid, dq_flags = FLAG_RD, dq_question = ?w @ ?q, dq_qname = ?w, dq_qtype = qtype,
      dq_qclass = CLASS_IN, dq_edns = edns\<rparr>"
    unfolding parse_query_def HEADER_LEN_def
    by (simp only: heads skip tail range edns flags len option.case prod.case if_False simp_thms)
  then show ?thesis unfolding take using nt by simp
qed

theorem dns_query_roundtrip_witness:
  "\<exists>n out' q. encode_query 7 ''A.b.'' 1 (Some 4096) (replicate 40 (CHR 0x00)) = (Inr n, out') \<and>
     parse_query (take n out') = Inr q \<and> dq_id q = 7 \<and> dq_edns q = Some 4096 \<and> name_text (dq_qname q) = Some ''a.b''"
proof -
  have "fst (encode_query 7 ''A.b.'' 1 (Some 4096) (replicate 40 (CHR 0x00))) = Inr 32" by code_simp
  then obtain out' where e: "encode_query 7 ''A.b.'' 1 (Some 4096) (replicate 40 (CHR 0x00)) = (Inr 32, out')"
    by (cases "encode_query 7 ''A.b.'' 1 (Some 4096) (replicate 40 (CHR 0x00))") auto
  have "map ascii_lower (strip_end (CHR ''.'') ''A.b.'') = ''a.b''" by code_simp
  with dns_query_roundtrip [OF e] e show ?thesis by (fastforce simp: between_def)
qed

section \<open>Pointers can go round\<close>

text \<open>
  A pointer must point back from where it stands, not from where the name began, so a name can lead to itself:
  here the label at 0 is followed by a pointer to it.  Every round adds the label, and the bound on the
  length of a name ends it.
\<close>

lemma pointer_cycle:
  assumes "length name + 2 \<le> NAME_MAX"
  shows "read_loop [CHR 0x01, CHR ''a'', CHR 0xC0, CHR 0x00] 0 name fin =
    read_loop [CHR 0x01, CHR ''a'', CHR 0xC0, CHR 0x00] 0 (name @ ''a.'') (case fin of Some f \<Rightarrow> Some f | None \<Rightarrow> Some 4)"
proof -
  let ?m = "[CHR 0x01, CHR ''a'', CHR 0xC0, CHR 0x00]"
  have t: "(0xC000 :: nat) AND 0x3FFF = 0" by code_simp
  have g: "get_range ?m (Suc 0) 2 = Some ''a''" and u: "utf8_encode (byte (CHR ''a'')) = ''a''" by code_simp+
  have "read_loop ?m 0 name fin = read_loop ?m 2 (name @ ''a.'') fin"
    using assms g u by (subst read_loop.simps) (simp add: numeral_2_eq_2 [symmetric])
  also have "\<dots> = read_loop ?m 0 (name @ ''a.'') (case fin of Some f \<Rightarrow> Some f | None \<Rightarrow> Some 4)"
    by (subst read_loop.simps) (simp add: be16_def t split: option.splits)
  finally show ?thesis .
qed

end
