(* ===== verification/Dns_Answers.thy ===== *)
theory Dns_Answers
  imports Dns_Properties
begin

text \<open>
  A question for a service, end to end: the addresses that the server writes are those of the cache, as many as
  fit, and the message reads.
\<close>

section \<open>What is written\<close>

abbreviation a_bytes :: "ipv4 \<Rightarrow> string" where
  "a_bytes ip \<equiv> rr_bytes RT_A TTL (octets ip)"

lemma length_octets [simp]: "length (octets ip) = 4"
  by (cases ip) simp

text \<open>The reply holds these addresses and nothing else.\<close>

definition reply_has :: "dns_reply \<Rightarrow> nat \<Rightarrow> nat \<Rightarrow> string \<Rightarrow> ipv4 list \<Rightarrow> bool" where
  "reply_has r mid flags question ips \<longleftrightarrow> reply_is r mid flags question (map a_bytes ips) []"

lemma answer_a_has:
  assumes "reply_has r mid flags question ips"
  shows "reply_room r < 16 \<Longrightarrow> answer_a ip TTL r = (Inl DeNoRoom, r)"
    and "16 \<le> reply_room r \<Longrightarrow> \<exists>r'. answer_a ip TTL r = (Inr (), r') \<and> reply_has r' mid flags question (ips @ [ip]) \<and>
      same_frame r r' \<and> reply_room r' = reply_room r - 16"
proof -
  have is1: "reply_is r mid flags question (map a_bytes ips) []" using assms by (simp add: reply_has_def)
  show "answer_a ip TTL r = (Inl DeNoRoom, r)" if "reply_room r < 16" using answer_a_is(1) [OF is1 that] .
  assume "16 \<le> reply_room r"
  then obtain r' where r': "answer_a ip TTL r = (Inr (), r')" "reply_is r' mid flags question (map a_bytes ips @ [a_bytes ip]) []" "same_frame r r'"
    using answer_a_is(2) [OF is1] by blast
  with reply_room_step [OF is1 r'(2,3)] show "\<exists>r'. answer_a ip TTL r = (Inr (), r') \<and> reply_has r' mid flags question (ips @ [ip]) \<and>
      same_frame r r' \<and> reply_room r' = reply_room r - 16"
    by (intro exI [of _ r']) (simp add: reply_has_def)
qed

lemma write_ips_has:
  "reply_has r mid flags question done \<Longrightarrow>
     reply_has (write_ips ips r) mid flags question (done @ take (reply_room r div 16) ips) \<and> same_frame r (write_ips ips r)"
proof (induction ips arbitrary: r "done")
  case (Cons ip ips)
  show ?case
  proof (cases "reply_room r < 16")
    case True
    with Cons.prems answer_a_has(1) [OF Cons.prems, of ip] show ?thesis by simp
  next
    case False
    then obtain r' where r': "answer_a ip TTL r = (Inr (), r')" "reply_has r' mid flags question (done @ [ip])" "same_frame r r'"
      "reply_room r' = reply_room r - 16"
      using answer_a_has(2) [OF Cons.prems, of ip] by auto
    have "reply_room r div 16 = Suc (reply_room r' div 16)" using False r'(4) by (simp add: div_if)
    with r' Cons.IH [OF r'(2)] show ?thesis by (auto intro: same_frame_trans)
  qed
qed simp

lemma push_unique_prefix: "\<exists>more. foldl push_unique seen ips = seen @ more"
proof (induction ips arbitrary: seen)
  case (Cons ip ips)
  obtain a where a: "foldl push_unique (push_unique seen ip) ips = push_unique seen ip @ a" using Cons by blast
  have "\<exists>b. push_unique seen ip = seen @ b" by (simp add: push_unique_def)
  with a show ?case by auto
qed simp

lemma take_unique: "take (length seen) (foldl push_unique seen ips) = seen"
  using push_unique_prefix [of seen ips] by auto

lemma write_unique_has:
  assumes "reply_has r mid flags question seen" "length seen + reply_room r div 16 \<le> MAX_ANSWERS"
  shows "reply_has (write_unique ips seen r) mid flags question
      (take (length seen + reply_room r div 16) (foldl push_unique seen ips)) \<and> same_frame r (write_unique ips seen r)"
  using assms
proof (induction ips arbitrary: r seen)
  case Nil
  then show ?case by simp
next
  case (Cons ip ips)
  show ?case
  proof (cases "ip \<in> set seen")
    case True
    with Cons.IH [OF Cons.prems] show ?thesis by (simp add: push_unique_def)
  next
    case False
    then have push: "push_unique seen ip = seen @ [ip]" by (simp add: push_unique_def)
    show ?thesis
    proof (cases "reply_room r < 16")
      case True
      then have "take (length seen) (foldl push_unique (seen @ [ip]) ips) = seen"
        using push_unique_prefix [of "seen @ [ip]" ips] by auto
      with True Cons.prems answer_a_has(1) [OF Cons.prems(1), of ip] False push show ?thesis by simp
    next
      case False2: False
      then obtain r' where r': "answer_a ip TTL r = (Inr (), r')" "reply_has r' mid flags question (seen @ [ip])" "same_frame r r'"
        "reply_room r' = reply_room r - 16"
        using answer_a_has(2) [OF Cons.prems(1), of ip] by auto
      have d: "reply_room r div 16 = Suc (reply_room r' div 16)" using False2 r'(4) by (simp add: div_if)
      then have "length seen < MAX_ANSWERS" "length (seen @ [ip]) + reply_room r' div 16 \<le> MAX_ANSWERS" using Cons.prems(2) by auto
      with r' Cons.IH [OF r'(2)] False push d show ?thesis by (auto intro: same_frame_trans)
    qed
  qed
qed

lemma foldl_lists: "foldl (foldl f) a xss = foldl f a (concat xss)"
  by (induction xss arbitrary: a) simp_all

section \<open>What is read\<close>

lemma read_record_a:
  assumes "drop 12 msg = wire_name ls @ rest" "list_all label_ok ls" "length (fq_text ls) \<le> NAME_MAX"
    and "drop at msg = a_bytes ip @ tail" "12 < at"
  shows "read_record msg at =
    Inr (\<lparr>rr_name = if ls = [] then ''.'' else fq_text ls, rr_rtype = RT_A, rr_ttl = TTL, rr_data = RdA ip\<rparr>, at + 16)"
proof -
  have d: "drop at msg = QNAME_PTR @ be16_bytes RT_A @ be16_bytes CLASS_IN @ be32_bytes TTL @ be16_bytes 4 @ octets ip @ tail"
    using assms(4) by (simp add: rr_bytes_def)
  have d2: "drop (at + 2) msg = be16_bytes RT_A @ be16_bytes CLASS_IN @ be32_bytes TTL @ be16_bytes 4 @ octets ip @ tail"
    using drop_append_more [OF d] by (simp add: QNAME_PTR_def)
  have d6: "drop (at + 6) msg = be32_bytes TTL @ be16_bytes 4 @ octets ip @ tail"
    using drop_append_more [of "at + 2" msg "be16_bytes RT_A @ be16_bytes CLASS_IN"] d2 by (simp add: add.commute)
  have d10: "drop (at + 10) msg = be16_bytes 4 @ octets ip @ tail" using drop_append_more [OF d6] by (simp add: add.commute)
  have d12: "drop (at + 12) msg = octets ip @ tail" using drop_append_more [OF d10] by (simp add: add.commute)
  have f: "be16 msg (at + 2) = Some RT_A" "be32 msg (at + 6) = Some TTL" "be16 msg (at + 10) = Some 4"
    using be16_at [OF d2] be32_at [OF d6] be16_at [OF d10] by (simp_all add: RT_A_def TTL_def)
  have "length (octets ip @ tail) = length msg - (at + 12)" using arg_cong [OF d12, of length] by simp
  then have "at + 16 \<le> length msg" by simp
  then have g: "get_range msg (at + 12) (at + 16) = Some (octets ip)" using d12 by (simp add: get_range_def)
  have data: "read_rdata msg RT_A (at + 12) (octets ip) = Inr (RdA ip)" by (cases ip) (simp add: read_rdata_def)
  have n: "read_name msg at = Inr (if ls = [] then ''.'' else fq_text ls, at + 2)"
    using read_name_pointer [OF assms(1-3) d assms(5)] .
  have e: "at + 2 + 4 = at + 6" "at + 2 + 8 = at + 10" "at + 2 + 10 = at + 12" "at + 12 + 4 = at + 16" by simp_all
  show ?thesis unfolding read_record_def n by (simp only: sum.case prod.case e f g data option.case)
qed

lemma read_records_a:
  assumes "drop 12 msg = wire_name ls @ rest" "list_all label_ok ls" "length (fq_text ls) \<le> NAME_MAX"
    and "drop at msg = concat (map a_bytes ips) @ tail" "12 < at"
  shows "read_records msg (length ips) at =
    Inr (map (\<lambda>ip. \<lparr>rr_name = if ls = [] then ''.'' else fq_text ls, rr_rtype = RT_A, rr_ttl = TTL, rr_data = RdA ip\<rparr>) ips, at + 16 * length ips)"
  using assms(4,5)
proof (induction ips arbitrary: at)
  case (Cons ip ips)
  have d: "drop at msg = a_bytes ip @ concat (map a_bytes ips) @ tail" using Cons.prems(1) by simp
  have "drop (at + 16) msg = concat (map a_bytes ips) @ tail" using drop_append_more [OF d] by simp
  from Cons.IH [OF this] read_record_a [OF assms(1-3) d Cons.prems(2)] Cons.prems(2) show ?case by simp
qed simp

lemma decode_addresses:
  assumes "msg = final_bytes mid flags question (map a_bytes ips) [] edns" "question = wire_name ls @ four" "length four = 4"
    and "list_all label_ok ls" "length (fq_text ls) \<le> NAME_MAX" "mid < 65536" "flags < 65536" "length ips < 65536"
  shows "dns_decode msg = Inr \<lparr>dm_id = mid, dm_flags = flags,
    dm_answers = map (\<lambda>ip. \<lparr>rr_name = if ls = [] then ''.'' else fq_text ls, rr_rtype = RT_A, rr_ttl = TTL, rr_data = RdA ip\<rparr>) ips,
    dm_authority = [], dm_additional = (if edns \<noteq> None then 1 else 0)\<rparr>"
proof -
  let ?opt = "if edns \<noteq> None then opt_record EDNS_MAX else []" and ?ar = "if edns \<noteq> None then 1 else (0::nat)"
  have m: "msg = header_bytes mid flags 1 (length ips) 0 ?ar @ wire_name ls @ four @ concat (map a_bytes ips) @ ?opt"
    using assms(1,2) by (simp add: final_bytes_def)
  have d12: "drop 12 msg = wire_name ls @ four @ concat (map a_bytes ips) @ ?opt" by (simp add: m)
  let ?at = "12 + length (wire_name ls) + 4"
  have skip: "skip_name msg 12 = Some (12 + length (wire_name ls))" by (rule skip_name_labels [OF d12 assms(4)])
  have "drop (12 + length (wire_name ls)) msg = four @ concat (map a_bytes ips) @ ?opt" by (rule drop_append_more [OF d12])
  from drop_append_more [OF this] have dat: "drop ?at msg = concat (map a_bytes ips) @ ?opt" by (simp add: assms(3))
  have recs: "read_records msg (length ips) ?at =
      Inr (map (\<lambda>ip. \<lparr>rr_name = if ls = [] then ''.'' else fq_text ls, rr_rtype = RT_A, rr_ttl = TTL, rr_data = RdA ip\<rparr>) ips, ?at + 16 * length ips)"
    by (rule read_records_a [OF d12 assms(4,5) dat]) simp
  have heads: "be16 msg 0 = Some mid" "be16 msg 2 = Some flags" "be16 msg 4 = Some 1" "be16 msg 6 = Some (length ips)"
    "be16 msg 8 = Some 0" "be16 msg 10 = Some ?ar"
    unfolding m read_header using assms(6-8) by simp_all
  have q: "skip_questions msg 1 12 = Some ?at" using skip by (simp add: numeral_eq_Suc)
  show ?thesis unfolding dns_decode_def HEADER_LEN_def heads
    by (simp only: option.case prod.case q recs sum.case read_records.simps)
qed

section \<open>The answer to a question for a service\<close>

lemma room_start:
  assumes "reply_start out q limit = Inr r"
  shows "reply_room r = min limit (length out) - (12 + length (dq_question q) + edns_reserve (dq_edns q))"
  using reply_start_is [OF assms] by (auto simp: reply_is_def reply_room_def message_bytes_def)

text \<open>How many addresses fit.\<close>

definition fitting :: "nat \<Rightarrow> dns_query \<Rightarrow> nat" where
  "fitting buf q = (min (reply_limit (dq_edns q)) buf - (12 + length (dq_question q) + edns_reserve (dq_edns q))) div 16"

lemma fitting_bounds:
  assumes "parse_query msg = Inr q" "UDP_MAX \<le> buf"
  shows "fitting buf q \<le> MAX_ANSWERS" "0 < fitting buf q" "12 + length (dq_question q) + edns_reserve (dq_edns q) \<le> min (reply_limit (dq_edns q)) buf"
proof -
  obtain ls four where p: "length (wire_name ls) \<le> NAME_MAX" "dq_question q = wire_name ls @ four" "length four = 4"
    using parse_query_parts [OF assms(1)] by blast
  have q: "5 \<le> length (dq_question q)" "length (dq_question q) \<le> 259"
    using p by (auto simp: NAME_MAX_def wire_name_def)
  have lim: "512 \<le> min (reply_limit (dq_edns q)) buf" "min (reply_limit (dq_edns q)) buf \<le> 1232"
    using reply_limit_le(1,2) [of "dq_edns q"] assms(2) by (auto simp: UDP_MAX_def EDNS_MAX_def)
  have res: "edns_reserve (dq_edns q) \<le> 11" by (simp add: edns_reserve_def OPT_LEN_def)
  have "fitting buf q \<le> (1232 - 17) div 16" unfolding fitting_def using q lim by (intro div_le_mono) linarith
  then show "fitting buf q \<le> MAX_ANSWERS" by (simp add: MAX_ANSWERS_def EDNS_MAX_def HEADER_LEN_def)
  have "(230::nat) div 16 \<le> fitting buf q" unfolding fitting_def using q lim res by (intro div_le_mono) linarith
  then show "0 < fitting buf q" by simp
  show "12 + length (dq_question q) + edns_reserve (dq_edns q) \<le> min (reply_limit (dq_edns q)) buf" using q lim res by linarith
qed

lemma split_once_prefix: "CHR ''.'' \<notin> set svc \<Longrightarrow> split_once (CHR ''.'') (svc @ CHR ''.'' # rest) = Some (svc, rest)"
  by (induction svc) (auto simp: split_once_def)

lemma service_lookup_name:
  assumes "name = svc @ CHR ''.'' # ds_domain s"
  shows "CHR ''.'' \<notin> set svc \<Longrightarrow> service_lookup s c name = LkMerged svc" "in_zone name (ds_domain s)"
    "svc = job @ CHR ''.'' # cluster \<Longrightarrow> CHR ''.'' \<notin> set job \<Longrightarrow> service_lookup s c name = LkCluster (get_cluster c cluster job)"
  using split_once_prefix [of job cluster] assms
  by (simp_all add: service_lookup_def split_once_def [of _ svc] in_zone_def nth_append Let_def)

text \<open>The addresses a name stands for: of one cluster, or of all of them, each once.\<close>

definition addresses_of :: "dns_server \<Rightarrow> dns_cache \<Rightarrow> string \<Rightarrow> ipv4 list" where
  "addresses_of s c name =
     (case service_lookup s c name of
        LkApex \<Rightarrow> []
      | LkCluster ips \<Rightarrow> (case ips of Some l \<Rightarrow> l | None \<Rightarrow> [])
      | LkMerged job \<Rightarrow> get_merged c job)"

lemma dns_service_has:
  assumes "reply_has r mid flags question []" "reply_room r div 16 \<le> MAX_ANSWERS" "0 < reply_room r div 16"
    and "qtype = RT_A \<or> qtype = RT_ANY" "addresses_of s c name \<noteq> []"
  shows "\<exists>r'. dns_service s c name qtype r = (Inr (), r') \<and>
    reply_has r' mid flags question (take (reply_room r div 16) (addresses_of s c name)) \<and> same_frame r r'"
proof -
  let ?lk = "service_lookup s c name" and ?ips = "take (reply_room r div 16) (addresses_of s c name)"
  define r1 where "r1 = (case ?lk of LkApex \<Rightarrow> r | LkCluster ips \<Rightarrow> write_ips (case ips of Some l \<Rightarrow> l | None \<Rightarrow> []) r
      | LkMerged job \<Rightarrow> write_merged c job r)"
  have r1: "reply_has r1 mid flags question ?ips \<and> same_frame r r1"
    using write_ips_has [OF assms(1)] write_unique_has [OF assms(1)] assms(2,5)
    by (cases ?lk) (auto simp: r1_def addresses_of_def write_merged_def get_merged_def foldl_lists)
  moreover have "dr_an r1 \<noteq> 0" using r1 assms(3,5) by (simp add: reply_has_def reply_is_def)
  ultimately show ?thesis using assms(4) by (auto simp: dns_service_def Let_def r1_def [symmetric])
qed

lemma out_flags_rcode: "rcode_from_flags (out_flags f NoError) = 0"
proof -
  have "\<not> bit (out_flags f NoError) i" if "i < 4" for i
  proof -
    have "i = 0 \<or> i = 1 \<or> i = 2 \<or> i = 3" using that by auto
    then show ?thesis
      by (auto simp: out_flags_def FLAG_QR_def FLAG_AA_def FLAG_RD_def FLAG_CD_def bit_or_iff bit_and_iff bit_0)
  qed
  then have "take_bit 4 (out_flags f NoError) = 0" by (intro bit_eqI) (auto simp: bit_take_bit_iff)
  then show ?thesis by (simp add: rcode_from_flags_def take_bit_eq_mask mask_eq_exp_minus_1)
qed

lemma addresses_of_name:
  assumes "name = svc @ CHR ''.'' # ds_domain s"
  shows "addresses_of s c name = (case split_once (CHR ''.'') svc of
      None \<Rightarrow> get_merged c svc
    | Some (job, cluster) \<Rightarrow> (case get_cluster c cluster job of Some l \<Rightarrow> l | None \<Rightarrow> []))"
  using assms by (auto simp: addresses_of_def service_lookup_def Let_def split: option.splits)

text \<open>
  C33. A question for a service is answered with its addresses: a question that parses, of class Internet, for
  addresses of \<open>svc.domain\<close>, which no static name covers, is answered from the cache: \<open>job.domain\<close> with the
  addresses of that job in all clusters, each once, and \<open>job.cluster.domain\<close> with those of one cluster.  If there are
  any, the reply reads as a message with the id of the question, authoritative, not truncated, without
  error, whose address records are the first ones that fit, each to be kept for five seconds.
\<close>

theorem dns_answers_addresses:
  assumes "parse_query msg = Inr q" "name_text (dq_qname q) = Some (svc @ CHR ''.'' # ds_domain s)"
    and "dq_qclass q = CLASS_IN" "dq_qtype q = RT_A" "UDP_MAX \<le> length out"
    and "cnames_lookup (ds_cnames s) (svc @ CHR ''.'' # ds_domain s) = None"
    and "ips = (case split_once (CHR ''.'') svc of
      None \<Rightarrow> get_merged c svc
    | Some (job, cluster) \<Rightarrow> (case get_cluster c cluster job of Some l \<Rightarrow> l | None \<Rightarrow> []))" "ips \<noteq> []"
  shows "\<exists>len buf m. dns_handle s c msg out = Some (len, buf) \<and> dns_decode (take len buf) = Inr m \<and>
    dm_id m = dq_id q \<and> dm_rcode m = 0 \<and> is_authoritative m \<and> \<not> is_truncated m \<and> dm_authority m = [] \<and>
    a_records m = take (fitting (length out) q) ips \<and> 0 < fitting (length out) q \<and> (\<forall>r\<in>set (dm_answers m). rr_ttl r = 5)"
proof -
  let ?name = "svc @ CHR ''.'' # ds_domain s" and ?flags = "out_flags (dq_flags q) NoError"
  note fit = fitting_bounds [OF assms(1,5)]
  obtain r where r: "reply_start out q (reply_limit (dq_edns q)) = Inr r" using reply_start_fits [OF fit(3)] by blast
  note start = reply_start_is [OF r]
  have has: "reply_has r (dq_id q) ?flags (dq_question q) []" using start by (simp add: reply_has_def)
  have room: "reply_room r div 16 = fitting (length out) q" by (simp add: room_start [OF r] fitting_def)
  have ips: "addresses_of s c ?name = ips" using addresses_of_name [of ?name svc s c] assms(7) by simp
  obtain r1 where r1: "dns_service s c ?name (dq_qtype q) r = (Inr (), r1)"
    and has1: "reply_has r1 (dq_id q) ?flags (dq_question q) (take (fitting (length out) q) ips)" and frame: "same_frame r r1"
    using dns_service_has [OF has _ _ _, of "dq_qtype q" s c ?name] fit(1,2) assms(4,8) unfolding room ips by auto
  have handle: "dns_handle s c msg out = Some (reply_finish r1)"
    using assms(1-6) r r1 service_lookup_name(2) [of ?name svc s] by (simp add: dns_handle_def dns_answer_def)
  obtain len buf where fin: "reply_finish r1 = (len, buf)" by fastforce
  let ?ips = "take (fitting (length out) q) ips"
  have bytes: "take len buf = final_bytes (dq_id q) ?flags (dq_question q) (map a_bytes ?ips) [] (dr_edns r1)"
    using reply_finish_is(1) has1 fin by (auto simp: reply_has_def)
  obtain ls four where p: "list_all label_ok ls" "dq_qname q = wire_name ls" "length (wire_name ls) \<le> NAME_MAX"
    "dq_question q = wire_name ls @ four" "length four = 4"
    using parse_query_parts [OF assms(1)] by blast
  have "list_all (list_all host_byte) ls" using name_text_labels [OF p(1,3)] assms(2) p(2) by (auto split: if_splits)
  then have fq: "length (fq_text ls) \<le> NAME_MAX" using host_text p(3) by fastforce
  have mid: "dq_id q < 65536" using be16_bound parse_query_id(1) [OF assms(1)] by blast
  have fl: "?flags < 65536" "bit ?flags 10" "\<not> bit ?flags 9" using out_flags_ok [of "dq_flags q" NoError] by (auto simp: reply_flags_ok_def)
  have few: "length ?ips < 65536" using fit(1) by (simp add: MAX_ANSWERS_def EDNS_MAX_def HEADER_LEN_def)
  note dec = decode_addresses [OF bytes p(4,5,1) fq mid fl(1) few]
  show ?thesis
    using handle fin dec fit(2) fl and_flag out_flags_rcode [of "dq_flags q"]
    by (intro exI conjI) (auto simp: dm_rcode_def is_authoritative_def is_truncated_def a_records_def List.map_filter_def comp_def
        FLAG_AA_def FLAG_TC_def TTL_def)
qed

text \<open>A server for the domain \<open>l\<close> that knows one job on one node.\<close>

definition ex_msg :: string where
  "ex_msg = [CHR 0x12, CHR 0x34, CHR 0x01, CHR 0x00, CHR 0x00, CHR 0x01] @ replicate 6 (CHR 0x00) @
     [CHR 0x01, CHR ''W'', CHR 0x01, CHR ''l'', CHR 0x00, CHR 0x00, CHR 0x01, CHR 0x00, CHR 0x01]"

definition ex_server :: dns_server where
  "ex_server = \<lparr>ds_domain = ''l'', ds_cnames = \<lparr>cn_exact = [], cn_wildcard = []\<rparr>\<rparr>"

definition ex_cache :: dns_cache where
  "ex_cache = cache_set cache_new ''c'' ''w'' [Ip (CHR 0x0A) (CHR 0x00) (CHR 0x00) (CHR 0x01)]"

definition ex_query :: dns_query where
  "ex_query = \<lparr>dq_id = 0x1234, dq_flags = 0x100, dq_question = drop 12 ex_msg, dq_qname = take 5 (drop 12 ex_msg), dq_qtype = 1,
     dq_qclass = 1, dq_edns = None\<rparr>"

theorem dns_answers_addresses_witness:
  "\<exists>len buf m. dns_handle ex_server ex_cache ex_msg (replicate 512 (CHR 0x00)) = Some (len, buf) \<and>
     dns_decode (take len buf) = Inr m \<and> dm_id m = 0x1234 \<and> a_records m = [Ip (CHR 0x0A) (CHR 0x00) (CHR 0x00) (CHR 0x01)]"
proof -
  have q: "parse_query ex_msg = Inr ex_query" by code_simp
  have name: "name_text (dq_qname ex_query) = Some (''w'' @ CHR ''.'' # ds_domain ex_server)" by code_simp
  have cls: "dq_qclass ex_query = CLASS_IN" "dq_qtype ex_query = RT_A" "dq_id ex_query = 0x1234" by code_simp+
  have big: "UDP_MAX \<le> length (replicate 512 (CHR 0x00))" by (simp add: UDP_MAX_def)
  have cn: "cnames_lookup (ds_cnames ex_server) (''w'' @ CHR ''.'' # ds_domain ex_server) = None" by code_simp
  have ips: "[Ip (CHR 0x0A) (CHR 0x00) (CHR 0x00) (CHR 0x01)] = (case split_once (CHR ''.'') ''w'' of
      None \<Rightarrow> get_merged ex_cache ''w''
    | Some (job, cluster) \<Rightarrow> (case get_cluster ex_cache cluster job of Some l \<Rightarrow> l | None \<Rightarrow> []))" by code_simp
  from dns_answers_addresses [OF q name cls(1,2) big cn ips] obtain len buf m where
    "dns_handle ex_server ex_cache ex_msg (replicate 512 (CHR 0x00)) = Some (len, buf)" "dns_decode (take len buf) = Inr m"
    "dm_id m = dq_id ex_query"
    and a: "a_records m = take (fitting (length (replicate 512 (CHR 0x00))) ex_query) [Ip (CHR 0x0A) (CHR 0x00) (CHR 0x00) (CHR 0x01)]"
    and f: "0 < fitting (length (replicate 512 (CHR 0x00))) ex_query"
    by blast
  moreover have "a_records m = [Ip (CHR 0x0A) (CHR 0x00) (CHR 0x00) (CHR 0x01)]"
    using f unfolding a by (cases "fitting (length (replicate 512 (CHR 0x00))) ex_query") simp_all
  ultimately show ?thesis unfolding cls(3) by (intro exI [of _ len] exI [of _ buf] exI [of _ m]) (simp only: simp_thms)
qed

end
