(* ===== verification/Sse.thy ===== *)
theory Sse
  imports Texts Json_Typing
begin

text \<open>
  \<^verbatim>\<open>hoplib/src/sse.rs\<close>: the reader of the event stream.  Bytes come in pieces; a blank line ends an event.  The
  events do not depend on how the stream is cut.
\<close>

section \<open>Events\<close>

definition MAX_EVENT_BYTES :: nat where
  "MAX_EVENT_BYTES = 65536"

record sse_event =
  ev_kind :: string
  ev_data :: string

datatype topic = TpPing | TpStatus | TpJob string | TpTask string string | TpAgent string | TpOther

definition is_resync :: "sse_event \<Rightarrow> bool" where
  "is_resync e \<longleftrightarrow> ev_kind e = ''ping'' \<or> ev_kind e = ''status''"

definition event_field :: "json \<Rightarrow> string \<Rightarrow> string" where
  "event_field v k =
     (case Option.bind (Option.bind (as_object v) (\<lambda>o1. obj_get o1 k)) as_str of Some s \<Rightarrow> s | None \<Rightarrow> [])"

text \<open>Reading the data always returns (\<open>json_parse_terminates\<close>).\<close>

definition event_topic :: "float_text \<Rightarrow> sse_event \<Rightarrow> types_error + topic" where
  "event_topic fl e =
     (if ev_kind e = ''ping'' then Inr TpPing
      else if ev_kind e = ''status'' then Inr TpStatus
      else if ev_kind e = ''job''
      then map_sum id (\<lambda>v. TpJob (event_field v ''name'')) (the (json_parse fl (ev_data e)))
      else if ev_kind e = ''task''
      then map_sum id (\<lambda>v. TpTask (event_field v ''job'') (event_field v ''event'')) (the (json_parse fl (ev_data e)))
      else if ev_kind e = ''agent''
      then map_sum id (\<lambda>v. TpAgent (event_field v ''id'')) (the (json_parse fl (ev_data e)))
      else Inr TpOther)"

definition event_job :: "float_text \<Rightarrow> sse_event \<Rightarrow> string option" where
  "event_job fl e =
     (case event_topic fl e of
        Inr (TpJob name) \<Rightarrow> if name \<noteq> [] then Some name else None
      | Inr (TpTask job _) \<Rightarrow> if job \<noteq> [] then Some job else None
      | _ \<Rightarrow> None)"

section \<open>The reader\<close>

text \<open>\<^verbatim>\<open>str::lines\<close>: a line loses its line feed and a carriage return before that.\<close>

definition text_lines :: "string \<Rightarrow> string list" where
  "text_lines s =
     (let ws = split_char (CHR 0x0A) s
      in map (strip_end (CHR 0x0D)) (butlast ws) @ (if last ws = [] then [] else [last ws]))"

definition find_blank_line :: "string \<Rightarrow> (nat \<times> nat) option" where
  "find_blank_line b =
     (let lf = map_option (\<lambda>i. (i, i + 2)) (find_text [CHR 0x0A, CHR 0x0A] b);
          crlf = map_option (\<lambda>i. (i, i + 4)) (find_text [CHR 0x0D, CHR 0x0A, CHR 0x0D, CHR 0x0A] b)
      in case (lf, crlf) of
           (Some a, Some c) \<Rightarrow> Some (if fst a \<le> fst c then a else c)
         | (Some a, None) \<Rightarrow> Some a
         | (None, c) \<Rightarrow> c)"

definition parse_line :: "sse_event \<times> bool \<times> nat \<Rightarrow> string \<Rightarrow> sse_event \<times> bool \<times> nat" where
  "parse_line st line =
     (case st of (e, any, lines) \<Rightarrow>
        if take 1 line = '':'' then (e, any, lines)
        else let (field, value) = (case split_once (CHR '':'') line of Some p \<Rightarrow> p | None \<Rightarrow> (line, []));
                 value = (if take 1 value = '' '' then drop 1 value else value)
             in if field = ''event'' then (e\<lparr>ev_kind := value\<rparr>, True, lines)
                else if field = ''data''
                then (e\<lparr>ev_data := ev_data e @ (if lines > 0 then [CHR 0x0A] else []) @ value\<rparr>, True, lines + 1)
                else (e, any, lines))"

definition parse_event :: "string \<Rightarrow> sse_event option" where
  "parse_event txt =
     (case foldl parse_line (\<lparr>ev_kind = [], ev_data = []\<rparr>, False, 0) (text_lines txt) of
        (e, any, _) \<Rightarrow> if any then Some e else None)"

datatype sse_error = SseTooLarge nat nat

text \<open>The rest of the stream that is not read yet is the state.\<close>

definition sse_push :: "string \<Rightarrow> string \<Rightarrow> (sse_error + unit) \<times> string" where
  "sse_push bytes rest =
     (let rest1 = rest @ bytes
      in if length rest1 > MAX_EVENT_BYTES \<and> find_blank_line rest1 = None
         then (Inl (SseTooLarge (length rest1) MAX_EVENT_BYTES), [])
         else (Inr (), rest1))"

lemma blank_line_pos: "find_blank_line b = Some (t, f) \<Longrightarrow> 0 < f \<and> b \<noteq> []"
  by (cases b) (auto simp: find_blank_line_def Let_def split: option.splits if_splits)

function sse_next :: "string \<Rightarrow> sse_event option \<times> string" where
  "sse_next rest =
     (case find_blank_line rest of
        None \<Rightarrow> (None, rest)
      | Some (text_end, frame_end) \<Rightarrow>
          let txt = take text_end rest;
              parsed = (if utf8_valid txt then parse_event txt else None);
              rest1 = drop frame_end rest
          in case parsed of Some e \<Rightarrow> (Some e, rest1) | None \<Rightarrow> sse_next rest1)"
  by pat_completeness auto
termination
  by (relation "measure length") (auto dest: blank_line_pos)

declare sse_next.simps [simp del]

definition sse_reset :: "string \<Rightarrow> string" where
  "sse_reset rest = []"

section \<open>How the stream is cut does not matter\<close>

text \<open>All events that are complete, by calling \<open>sse_next\<close> until it has none.\<close>

lemma sse_next_shorter: "sse_next rest = (Some e, rest1) \<Longrightarrow> length rest1 < length rest"
proof (induction rest rule: sse_next.induct)
  case (1 rest)
  show ?case
  proof (cases "find_blank_line rest")
    case None
    with 1(2) show ?thesis by (simp add: sse_next.simps [of rest])
  next
    case (Some p)
    obtain t f where p: "p = (t, f)" by fastforce
    have "length (drop f rest) < length rest" using blank_line_pos Some p by auto
    with 1 Some p show ?thesis
      by (fastforce simp: sse_next.simps [of rest] Let_def split: option.splits if_splits)
  qed
qed

function sse_drain :: "string \<Rightarrow> sse_event list \<times> string" where
  "sse_drain rest =
     (case sse_next rest of
        (None, rest1) \<Rightarrow> ([], rest1)
      | (Some e, rest1) \<Rightarrow> (case sse_drain rest1 of (es, rest2) \<Rightarrow> (e # es, rest2)))"
  by pat_completeness auto
termination
  by (relation "measure length") (auto dest: sse_next_shorter [OF sym])

declare sse_drain.simps [simp del]

lemma find_text_spot:
  "find_text pat s = Some i \<Longrightarrow> take (length pat) (drop i s) = pat \<and> i + length pat \<le> length s"
proof (induction pat s arbitrary: i rule: find_text.induct)
  case (2 pat c s)
  show ?case
  proof (cases "take (length pat) (c # s) = pat")
    case True
    then have "length pat \<le> length (c # s)" by (metis length_take min.cobounded1)
    with True 2(2) show ?thesis by simp
  next
    case False
    with 2 show ?thesis by auto
  qed
qed (auto split: if_splits)

lemma find_text_append: "find_text pat a = Some i \<Longrightarrow> find_text pat (a @ b) = Some i"
proof (induction pat a arbitrary: i rule: find_text.induct)
  case (1 pat)
  then show ?case by (cases b) (auto split: if_splits)
next
  case (2 pat c s)
  show ?case
  proof (cases "take (length pat) (c # s) = pat")
    case True
    then have "length pat \<le> length (c # s)" by (metis length_take min.cobounded1)
    then have "take (length pat) (c # s @ b) = pat" using True by (metis append_Cons take_append diff_is_0_eq take0 append_Nil2)
    with True 2 show ?thesis by simp
  next
    case False
    have "take (length pat) (c # s @ b) \<noteq> pat \<or> length (c # s) < length pat"
      using False by (metis append_Cons not_le take_append diff_is_0_eq take0 append_Nil2)
    moreover have "length pat \<le> length (c # s)"
      using 2(2) False find_text_spot [of pat s] by (auto split: if_splits)
    ultimately show ?thesis using 2 False by auto
  qed
qed

lemma find_text_None: "find_text pat s = None \<Longrightarrow> j \<le> length s \<Longrightarrow> take (length pat) (drop j s) \<noteq> pat"
proof (induction pat s arbitrary: j rule: find_text.induct)
  case (2 pat c s)
  then show ?case by (cases j) (auto split: if_splits)
qed (auto split: if_splits)

lemma find_text_later:
  assumes "find_text pat a = None" "find_text pat (a @ b) = Some j"
  shows "length a < j + length pat"
proof (rule ccontr)
  assume le: "\<not> length a < j + length pat"
  have "take (length pat) (drop j (a @ b)) = pat" using find_text_spot [OF assms(2)] by simp
  then have "take (length pat) (drop j a) = pat" using le by simp
  with find_text_None [OF assms(1), of j] le show False by simp
qed

lemma find_text_nth: "find_text pat s = Some i \<Longrightarrow> k < length pat \<Longrightarrow> s ! (i + k) = pat ! k"
  by (metis find_text_spot add_leD1 nth_drop nth_take)

lemma blank_line_append:
  assumes "find_blank_line a = Some p"
  shows "find_blank_line (a @ b) = Some p"
proof -
  let ?L = "[CHR 0x0A, CHR 0x0A]" and ?C = "[CHR 0x0D, CHR 0x0A, CHR 0x0D, CHR 0x0A]"
  consider (both) i j where "find_text ?L a = Some i" "find_text ?C a = Some j"
    | (lf) i where "find_text ?L a = Some i" "find_text ?C a = None"
    | (crlf) j where "find_text ?L a = None" "find_text ?C a = Some j"
    using assms by (cases "find_text ?L a"; cases "find_text ?C a") (auto simp: find_blank_line_def)
  then show ?thesis
  proof cases
    case both
    with assms show ?thesis using find_text_append [of ?L a i b] find_text_append [of ?C a j b] by (simp add: find_blank_line_def)
  next
    case lf
    have i: "find_text ?L (a @ b) = Some i" "i + 2 \<le> length a"
      using find_text_append [OF lf(1), of b] find_text_spot [OF lf(1)] by auto
    have "i \<le> j" if j: "find_text ?C (a @ b) = Some j" for j
    proof (rule ccontr)
      assume "\<not> i \<le> j"
      moreover have "length a < j + 4" using find_text_later [OF lf(2) j] by simp
      ultimately have ij: "i = j + 1" using i(2) by linarith
      have "(a @ b) ! (j + 2) = CHR 0x0D" using find_text_nth [OF j, of 2] by simp
      moreover have "(a @ b) ! (i + 1) = CHR 0x0A" using find_text_nth [OF i(1), of 1] by simp
      ultimately show False using ij by (simp add: numeral_2_eq_2)
    qed
    with assms lf i show ?thesis by (cases "find_text ?C (a @ b)") (auto simp: find_blank_line_def)
  next
    case crlf
    have j: "find_text ?C (a @ b) = Some j" "j + 4 \<le> length a"
      using find_text_append [OF crlf(2), of b] find_text_spot [OF crlf(2)] by auto
    have "j < i" if "find_text ?L (a @ b) = Some i" for i
      using find_text_later [OF crlf(1) that] j(2) by simp
    with assms crlf j show ?thesis by (cases "find_text ?L (a @ b)") (fastforce simp: find_blank_line_def)+
  qed
qed

lemma sse_next_append:
  "sse_next (a @ b) = (case sse_next a of (Some e, r) \<Rightarrow> (Some e, r @ b) | (None, r) \<Rightarrow> sse_next (r @ b))"
proof (induction a rule: sse_next.induct)
  case (1 a)
  show ?case
  proof (cases "find_blank_line a")
    case None
    then show ?thesis by (simp add: sse_next.simps [of a])
  next
    case (Some p)
    obtain t f where p: "p = (t, f)" by fastforce
    have le: "t \<le> length a" "f \<le> length a"
      using Some p find_text_spot by (fastforce simp: find_blank_line_def Let_def split: option.splits if_splits)+
    have "find_blank_line (a @ b) = Some (t, f)" using blank_line_append [OF Some] p by simp
    with 1 [OF Some p [symmetric] refl refl refl] Some p le show ?thesis
      by (simp add: sse_next.simps [of a] sse_next.simps [of "a @ b"] Let_def split: option.split)
  qed
qed

lemma sse_next_idle: "sse_next a = (None, r) \<Longrightarrow> sse_next r = (None, r)"
proof (induction a rule: sse_next.induct)
  case (1 a)
  show ?case
  proof (cases "find_blank_line a")
    case None
    with 1(2) show ?thesis by (auto simp: sse_next.simps)
  next
    case (Some p)
    obtain t f where p: "p = (t, f)" by fastforce
    have "(if utf8_valid (take t a) then parse_event (take t a) else None) = None" "sse_next (drop f a) = (None, r)"
      using 1(2) Some p by (auto simp: sse_next.simps [of a] Let_def split: option.splits)
    from 1(1) [OF Some p [symmetric] refl refl refl this] show ?thesis .
  qed
qed

lemma sse_drain_append:
  "sse_drain (a @ b) = (case sse_drain a of (es, r) \<Rightarrow> (case sse_drain (r @ b) of (es', r') \<Rightarrow> (es @ es', r')))"
proof (induction a rule: sse_drain.induct)
  case (1 a)
  show ?case
  proof (cases "sse_next a")
    case (Pair o1 r)
    show ?thesis
    proof (cases o1)
      case None
      then have "sse_drain (a @ b) = sse_drain (r @ b)"
        using Pair sse_next_append [of a b] by (simp add: sse_drain.simps [of "a @ b"] sse_drain.simps [of "r @ b"])
      with Pair None show ?thesis by (simp add: sse_drain.simps [of a] split: prod.split)
    next
      case (Some e)
      with Pair 1 [OF Pair [symmetric, unfolded Some] refl] sse_next_append [of a b] show ?thesis
        by (simp add: sse_drain.simps [of a] sse_drain.simps [of "a @ b"] split: prod.split)
    qed
  qed
qed

lemma sse_drain_idle: "sse_drain a = (es, r) \<Longrightarrow> sse_drain r = ([], r)"
proof (induction a arbitrary: es rule: sse_drain.induct)
  case (1 a)
  show ?case
  proof (cases "sse_next a")
    case (Pair o1 r1)
    show ?thesis
    proof (cases o1)
      case None
      with Pair 1(2) have "r1 = r" by (simp add: sse_drain.simps [of a])
      with sse_next_idle Pair None show ?thesis by (auto simp: sse_drain.simps [of r])
    next
      case (Some e)
      with Pair 1(2) obtain es1 where "sse_drain r1 = (es1, r)" by (auto simp: sse_drain.simps [of a] split: prod.splits)
      from 1(1) [OF Pair [symmetric, unfolded Some] refl this] show ?thesis .
    qed
  qed
qed

text \<open>The driver's loop: push a piece, read all events; an error of a push ends the stream.\<close>

fun sse_feed :: "string list \<Rightarrow> string \<Rightarrow> (sse_error + sse_event list) \<times> string" where
  "sse_feed [] rest = (Inr [], rest)"
| "sse_feed (piece # pieces) rest =
     (case sse_push piece rest of
        (Inl e, rest1) \<Rightarrow> (Inl e, rest1)
      | (Inr _, rest1) \<Rightarrow>
          (case sse_drain rest1 of (es, rest2) \<Rightarrow>
             (case sse_feed pieces rest2 of
                (Inl e, rest3) \<Rightarrow> (Inl e, rest3)
              | (Inr es', rest3) \<Rightarrow> (Inr (es @ es'), rest3))))"

text \<open>
  C36. Events do not depend on the pieces: when a stream arrives in any pieces, each read off at once, and no
  push is refused, the events and the unfinished rest are those of the whole stream read in one go.
\<close>

theorem sse_pieces_same:
  assumes "sse_feed pieces [] = (Inr es, rest)"
  shows "(es, rest) = sse_drain (concat pieces)"
proof -
  have "sse_feed pieces r = (Inr es, rest) \<Longrightarrow> sse_drain r = ([], r) \<Longrightarrow> (es, rest) = sse_drain (r @ concat pieces)" for r
  proof (induction pieces arbitrary: r es)
    case (Cons piece pieces)
    have ok: "sse_push piece r = (Inr (), r @ piece)"
      using Cons.prems(1) by (auto simp: sse_push_def Let_def split: if_splits)
    obtain es1 r1 where d: "sse_drain (r @ piece) = (es1, r1)" by fastforce
    obtain es2 where f: "sse_feed pieces r1 = (Inr es2, rest)" "es = es1 @ es2"
      using Cons.prems(1) ok d by (auto split: sum.splits prod.splits)
    have "sse_drain r1 = ([], r1)"
      using sse_drain_idle [OF d] .
    from Cons.IH [OF f(1) this] f(2) d sse_drain_append [of "r @ piece" "concat pieces"] show ?case
      by (auto split: prod.splits)
  qed simp
  moreover have "sse_drain [] = ([], [])" by code_simp
  ultimately show ?thesis using assms by fastforce
qed

theorem sse_pieces_same_witness:
  "\<exists>es rest. sse_feed [''event: jo'', ''b'', [CHR 0x0A], [CHR 0x0A], '': x''] [] = (Inr es, rest) \<and> length es = 1 \<and>
     (es, rest) = sse_drain (''event: job'' @ [CHR 0x0A, CHR 0x0A] @ '': x'')"
proof -
  let ?pieces = "[''event: jo'', ''b'', [CHR 0x0A], [CHR 0x0A], '': x'']"
  have "map_prod (map_sum id length) id (sse_feed ?pieces []) = (Inr 1, '': x'')" by code_simp
  then obtain es where f: "sse_feed ?pieces [] = (Inr es, '': x'')" "length es = 1"
    by (cases "sse_feed ?pieces []"; cases "fst (sse_feed ?pieces [])") auto
  from sse_pieces_same [OF f(1)] f show ?thesis by auto
qed

end
