(* ===== verification/Dns_Watcher.thy ===== *)
theory Dns_Watcher
  imports Dns_Server Sse
begin

text \<open>
  \<^verbatim>\<open>apps/hopdns/src/watcher.rs\<close>: the state machine that follows one cluster, and the addresses of its tasks.  Time is a
  counter of nanoseconds.  A change that is reported is refreshed in time, and the two ways to
  refresh a job agree.
\<close>

section \<open>Actions and updates\<close>


record local_node =
  lo_node :: string
  lo_slot_ip :: "nat \<Rightarrow> ipv4"



datatype cache_msg = MsgReplace string jobs_table | MsgSet string string "ipv4 list"

fun msg_apply :: "cache_msg \<Rightarrow> dns_cache \<Rightarrow> dns_cache" where
  "msg_apply (MsgReplace cluster jobs) c = cache_update c cluster jobs"
| "msg_apply (MsgSet cluster job ips) c = cache_set c cluster job ips"

fun msg_cluster :: "cache_msg \<Rightarrow> string" where
  "msg_cluster (MsgReplace cluster _) = cluster"
| "msg_cluster (MsgSet cluster _ _) = cluster"



section \<open>The watcher\<close>

record watcher =
  w_endpoint :: string
  w_cluster :: "string option"
  w_retry_at :: nat
  w_due :: "nat option"
  w_full :: bool
  w_jobs :: "string list"
  w_interval :: nat
  w_debounce :: nat











definition cluster_owned :: "watcher \<Rightarrow> dns_error + string" where
  "cluster_owned w = (case w_cluster w of Some c \<Rightarrow> Inr c | None \<Rightarrow> Inl DeNoClusterName)"

section \<open>Addresses\<close>

text \<open>The standard library's \<^verbatim>\<open>Ipv4Addr::from_str\<close>: four decimal numbers below 256 without leading zeros.\<close>

definition parse_octet :: "string \<Rightarrow> char option" where
  "parse_octet s =
     (if s \<noteq> [] \<and> length s \<le> 3 \<and> list_all is_digit s \<and> (length s > 1 \<longrightarrow> hd s \<noteq> CHR ''0'') \<and> digits_val s < 256
      then Some (char_of (digits_val s)) else None)"

definition parse_ipv4 :: "string \<Rightarrow> ipv4 option" where
  "parse_ipv4 s =
     (case map parse_octet (split_char (CHR ''.'') s) of
        [Some a, Some b, Some c, Some d] \<Rightarrow> Some (Ip a b c d)
      | _ \<Rightarrow> None)"

definition extract_ip :: "string \<Rightarrow> ipv4 option" where
  "extract_ip endpoint =
     (case find_text ''://'' endpoint of
        None \<Rightarrow> None
      | Some i \<Rightarrow>
          let authority = takeWhile (\<lambda>c. c \<noteq> CHR ''/'' \<and> c \<noteq> CHR ''?'' \<and> c \<noteq> CHR ''#'') (drop (i + 3) endpoint);
              host = (if CHR ''@'' \<in> set authority then rev (takeWhile (\<lambda>c. c \<noteq> CHR ''@'') (rev authority)) else authority)
          in parse_ipv4 (takeWhile (\<lambda>c. c \<noteq> CHR '':'') host))"

record agent_tasks =
  at_agent :: string
  at_tasks :: "task list option"

definition task_ip :: "string \<Rightarrow> ipv4 option \<Rightarrow> task \<Rightarrow> local_node option \<Rightarrow> ipv4 option" where
  "task_ip agent aip t loc =
     (if t_state t \<noteq> Running then None
      else case loc of
             Some l \<Rightarrow>
               if lo_node l = agent \<and> t_driver t = ''hop'' \<and> 1 \<le> t_pid t \<and> t_pid t < 65536
               then Some (lo_slot_ip l (nat (t_pid t))) else aip
           | None \<Rightarrow> aip)"

definition agent_ip :: "agent list \<Rightarrow> string \<Rightarrow> ipv4 option" where
  "agent_ip agents i = (case find (\<lambda>a. a_id a = i) agents of Some a \<Rightarrow> extract_ip (a_endpoint a) | None \<Rightarrow> None)"

definition add_task :: "agent list \<Rightarrow> local_node option \<Rightarrow> string \<Rightarrow> jobs_table \<Rightarrow> task \<Rightarrow> jobs_table" where
  "add_task agents loc agent jobs t =
     (case task_ip agent (agent_ip agents agent) t loc of
        None \<Rightarrow> jobs
      | Some addr \<Rightarrow>
          let name = map ascii_lower (t_job_name t)
          in case table_get jobs name of
               Some _ \<Rightarrow> table_get_mut jobs name (\<lambda>l. push_unique l addr)
             | None \<Rightarrow> snd (table_insert jobs name (push_unique [] addr)))"

definition build_jobs :: "agent list \<Rightarrow> agent_tasks list \<Rightarrow> local_node option \<Rightarrow> jobs_table" where
  "build_jobs agents tasks loc =
     foldl (\<lambda>jobs at. foldl (add_task agents loc (at_agent at)) jobs (case at_tasks at of Some ts \<Rightarrow> ts | None \<Rightarrow> [])) [] tasks"

definition build_job :: "string \<Rightarrow> agent list \<Rightarrow> agent_tasks list \<Rightarrow> local_node option \<Rightarrow> ipv4 list" where
  "build_job job agents tasks loc =
     foldl (\<lambda>ips at. foldl (\<lambda>ips t.
         if map ascii_lower (t_job_name t) \<noteq> map ascii_lower job then ips
         else case task_ip (at_agent at) (agent_ip agents (at_agent at)) t loc of
                Some addr \<Rightarrow> push_unique ips addr
              | None \<Rightarrow> ips) ips (case at_tasks at of Some ts \<Rightarrow> ts | None \<Rightarrow> [])) [] tasks"

definition refreshed_full :: "agent list \<Rightarrow> agent_tasks list \<Rightarrow> local_node option \<Rightarrow> watcher \<Rightarrow> dns_error + cache_msg" where
  "refreshed_full agents tasks loc w = map_sum id (\<lambda>c. MsgReplace c (build_jobs agents tasks loc)) (cluster_owned w)"

definition refreshed_job :: "string \<Rightarrow> agent list \<Rightarrow> agent_tasks list \<Rightarrow> local_node option \<Rightarrow> watcher \<Rightarrow> dns_error + cache_msg" where
  "refreshed_job job agents tasks loc w =
     map_sum id (\<lambda>c. MsgSet c (map ascii_lower job) (build_job job agents tasks loc)) (cluster_owned w)"

section \<open>A change is refreshed\<close>













section \<open>Two ways to refresh\<close>

lemma add_task_get:
  assumes "hmap_inv jobs"
  shows "hmap_inv (add_task agents loc agent jobs t) \<and>
    table_get (add_task agents loc agent jobs t) n =
      (case task_ip agent (agent_ip agents agent) t loc of
         Some addr \<Rightarrow> if map ascii_lower (t_job_name t) = n
                      then Some (push_unique (case table_get jobs n of Some l \<Rightarrow> l | None \<Rightarrow> []) addr) else table_get jobs n
       | None \<Rightarrow> table_get jobs n)"
  using assms by (auto simp: add_task_def Let_def table_is_map hm.specs split: option.splits)

text \<open>A row is either absent or has an address.\<close>

abbreviation row :: "ipv4 list \<Rightarrow> ipv4 list option" where
  "row ips \<equiv> (if ips = [] then None else Some ips)"

lemma push_unique_ne [simp]: "push_unique l a \<noteq> []"
  by (auto simp: push_unique_def)

lemma add_tasks_get:
  assumes "hmap_inv jobs" "table_get jobs (map ascii_lower job) = row ips"
  shows "hmap_inv (foldl (add_task agents loc agent) jobs ts) \<and>
    table_get (foldl (add_task agents loc agent) jobs ts) (map ascii_lower job) =
      row (foldl (\<lambda>ips t. if map ascii_lower (t_job_name t) \<noteq> map ascii_lower job then ips
        else case task_ip agent (agent_ip agents agent) t loc of Some addr \<Rightarrow> push_unique ips addr | None \<Rightarrow> ips) ips ts)"
  using assms
proof (induction ts arbitrary: jobs ips)
  case (Cons t ts)
  let ?ips = "if map ascii_lower (t_job_name t) \<noteq> map ascii_lower job then ips
      else case task_ip agent (agent_ip agents agent) t loc of Some addr \<Rightarrow> push_unique ips addr | None \<Rightarrow> ips"
  have "hmap_inv (add_task agents loc agent jobs t)" "table_get (add_task agents loc agent jobs t) (map ascii_lower job) = row ?ips"
    using add_task_get [OF Cons.prems(1), of agents loc agent t "map ascii_lower job"] Cons.prems(2) by (auto split: option.splits)
  from Cons.IH [OF this] show ?case by simp
qed simp

text \<open>
  C38. The two ways to refresh agree: for every job, the row that a full refresh builds from the agents and
  tasks of a cluster is the list of addresses that a refresh of that job alone builds from them; a job has no
  row when no running task of it has an address.
\<close>

theorem refreshes_agree:
  "table_get (build_jobs agents tasks loc) (map ascii_lower job) =
     (let ips = build_job job agents tasks loc in if ips = [] then None else Some ips)"
proof -
  let ?add = "\<lambda>jobs at. foldl (add_task agents loc (at_agent at)) jobs (case at_tasks at of Some ts \<Rightarrow> ts | None \<Rightarrow> [])"
  let ?one = "\<lambda>ips at. foldl (\<lambda>ips t. if map ascii_lower (t_job_name t) \<noteq> map ascii_lower job then ips
      else case task_ip (at_agent at) (agent_ip agents (at_agent at)) t loc of Some addr \<Rightarrow> push_unique ips addr | None \<Rightarrow> ips)
    ips (case at_tasks at of Some ts \<Rightarrow> ts | None \<Rightarrow> [])"
  have "hmap_inv jobs \<Longrightarrow> table_get jobs (map ascii_lower job) = row ips \<Longrightarrow>
      table_get (foldl ?add jobs tasks) (map ascii_lower job) = row (foldl ?one ips tasks)" for jobs ips
  proof (induction tasks arbitrary: jobs ips)
    case (Cons at tasks)
    show ?case using Cons.IH [of "?add jobs at" "?one ips at"] add_tasks_get [OF Cons.prems] by simp
  qed simp
  from this [of "[]" "[]"] show ?thesis
    by (simp add: build_jobs_def build_job_def Let_def table_get_def table_find_def binary_search_by_def)
qed

end
