(* ===== verification/Hoplb_Route.thy ===== *)
theory Hoplb_Route
  imports Texts "HOL-Library.Multiset"
begin

text \<open>
  \<^verbatim>\<open>apps/hoplb/src/route.rs\<close>: the route table of the load balancer, sorted lists with binary search, and the
  round-robin choice of a backend.  The counter of a route is an atomic; a call returns the route with its
  counter moved on.
\<close>

section \<open>Routes\<close>

record lb_backend =
  be_address :: string
  be_healthy :: bool

definition backend_new :: "string \<Rightarrow> lb_backend" where
  "backend_new address = \<lparr>be_address = address, be_healthy = True\<rparr>"

record route =
  ro_pattern :: string
  ro_backends :: "lb_backend list"
  ro_next :: nat

definition route_new :: "string \<Rightarrow> lb_backend list \<Rightarrow> route" where
  "route_new pat backends = \<lparr>ro_pattern = pat, ro_backends = backends, ro_next = 0\<rparr>"

text \<open>The first healthy backend of \<open>n\<close> tries from \<open>start + i\<close> on; the sum wraps.\<close>

fun try_backends :: "lb_backend list \<Rightarrow> nat \<Rightarrow> nat list \<Rightarrow> lb_backend option" where
  "try_backends bs start [] = None"
| "try_backends bs start (i # is) =
     (let idx = wrap_add64 start i mod length bs
      in if idx < length bs \<and> be_healthy (bs ! idx) then Some (bs ! idx) else try_backends bs start is)"

definition healthy_backend :: "route \<Rightarrow> lb_backend option \<times> route" where
  "healthy_backend r =
     (let n = length (ro_backends r)
      in if n = 0 then (None, r)
         else let start = wrap_add64 (ro_next r) 1
              in (try_backends (ro_backends r) start [0..<n], r\<lparr>ro_next := start\<rparr>))"

definition route_key :: "route \<Rightarrow> string" where
  "route_key r = (if take 1 (ro_pattern r) = ''*'' then drop 1 (ro_pattern r) else ro_pattern r)"

definition is_wildcard :: "route \<Rightarrow> bool" where
  "is_wildcard r \<longleftrightarrow> take 2 (ro_pattern r) = ''*.''"

datatype pick = NoRoute | NoBackend | PickBackend string

record route_table =
  rt_exact :: "route list"
  rt_wildcards :: "route list"

definition table_new :: route_table where
  "table_new = \<lparr>rt_exact = [], rt_wildcards = []\<rparr>"

definition route_find :: "route list \<Rightarrow> string \<Rightarrow> route option" where
  "route_find rs key =
     (case binary_search_by (\<lambda>r. ord_cmp (route_key r) key) rs of
        Inr i \<Rightarrow> if i < length rs then Some (rs ! i) else None
      | Inl _ \<Rightarrow> None)"

definition route_insert :: "route list \<Rightarrow> route \<Rightarrow> route list" where
  "route_insert rs r =
     (case binary_search_by (\<lambda>x. ord_cmp (route_key x) (route_key r)) rs of
        Inr i \<Rightarrow>
          if i < length rs
          then rs[i := (rs ! i)\<lparr>ro_backends := ro_backends (rs ! i) @ ro_backends r\<rparr>] else rs
      | Inl i \<Rightarrow> insert_at i r rs)"

definition add_route :: "route_table \<Rightarrow> route \<Rightarrow> route_table" where
  "add_route t r =
     (if is_wildcard r then t\<lparr>rt_wildcards := route_insert (rt_wildcards t) r\<rparr>
      else t\<lparr>rt_exact := route_insert (rt_exact t) r\<rparr>)"

definition table_update :: "route list \<Rightarrow> route_table \<Rightarrow> route_table" where
  "table_update routes t = foldl add_route table_new routes"

definition from_routes :: "route list \<Rightarrow> route_table" where
  "from_routes routes = table_update routes table_new"

definition strip_port :: "string \<Rightarrow> string" where
  "strip_port host =
     (if take 1 host = ''[''
      then (if CHR '']'' \<in> set host then takeWhile (\<lambda>c. c \<noteq> CHR '']'') host @ '']'' else host)
      else if CHR '':'' \<in> set host
      then rev (tl (dropWhile (\<lambda>c. c \<noteq> CHR '':'') (rev host)))
      else host)"

definition match_host :: "route_table \<Rightarrow> string \<Rightarrow> route option" where
  "match_host t host =
     (let h = strip_port host
      in case route_find (rt_exact t) h of
           Some r \<Rightarrow> Some r
         | None \<Rightarrow>
             if CHR ''.'' \<in> set h then route_find (rt_wildcards t) (dropWhile (\<lambda>c. c \<noteq> CHR ''.'') h) else None)"

definition lb_pick :: "route_table \<Rightarrow> string \<Rightarrow> pick" where
  "lb_pick t host =
     (case match_host t host of
        None \<Rightarrow> NoRoute
      | Some r \<Rightarrow>
          (case fst (healthy_backend r) of None \<Rightarrow> NoBackend | Some b \<Rightarrow> PickBackend (be_address b)))"

definition table_len :: "route_table \<Rightarrow> nat" where
  "table_len t = length (rt_exact t) + length (rt_wildcards t)"

definition table_routes :: "route_table \<Rightarrow> route list" where
  "table_routes t = rt_exact t @ rt_wildcards t"

definition table_backends :: "route_table \<Rightarrow> nat" where
  "table_backends t = sum_list (map (\<lambda>r. length (ro_backends r)) (table_routes t))"

section \<open>The table\<close>

definition routes_sorted :: "route list \<Rightarrow> bool" where
  "routes_sorted rs \<longleftrightarrow> strictly_sorted (map route_key rs)"

lemma route_search:
  assumes "routes_sorted rs"
  shows "case binary_search_by (\<lambda>r. ord_cmp (route_key r) key) rs of
    Inr i \<Rightarrow> i < length rs \<and> route_key (rs ! i) = key
  | Inl i \<Rightarrow> i \<le> length rs \<and> (\<forall>j<i. route_key (rs ! j) < key) \<and> (\<forall>j<length rs. i \<le> j \<longrightarrow> key < route_key (rs ! j))"
  using binary_search_by_cases [of route_key rs key] assms by (simp add: routes_sorted_def)

lemma route_key_update [simp]: "route_key (r\<lparr>ro_backends := bs\<rparr>) = route_key r"
  by (simp add: route_key_def)

lemma route_find_iff:
  assumes "routes_sorted rs"
  shows "route_find rs k = Some r \<longleftrightarrow> r \<in> set rs \<and> route_key r = k"
proof -
  have d: "distinct (map route_key rs)" using assms by (simp add: routes_sorted_def strictly_sorted_distinct)
  show ?thesis
  proof (cases "binary_search_by (\<lambda>r. ord_cmp (route_key r) k) rs")
    case (Inl i)
    have "route_key x \<noteq> k" if "x \<in> set rs" for x
    proof -
      obtain j where j: "j < length rs" "rs ! j = x" using \<open>x \<in> set rs\<close> by (auto simp: in_set_conv_nth)
      then show ?thesis using route_search [OF assms, of k] Inl by (cases "j < i") auto
    qed
    then show ?thesis by (auto simp: route_find_def Inl)
  next
    case (Inr i)
    then have i: "i < length rs" "route_key (rs ! i) = k" using route_search [OF assms, of k] by auto
    have "x = rs ! i" if "x \<in> set rs" "route_key x = k" for x
      using d i that by (metis distinct_map inj_onD nth_mem)
    with i show ?thesis by (auto simp: route_find_def Inr)
  qed
qed

lemma route_find_None: "routes_sorted rs \<Longrightarrow> route_find rs k = None \<longleftrightarrow> (\<forall>r\<in>set rs. route_key r \<noteq> k)"
  using route_find_iff [of rs k] by (metis not_None_eq)

lemma route_insert_sorted:
  assumes "routes_sorted rs"
  shows "routes_sorted (route_insert rs r)"
proof (cases "binary_search_by (\<lambda>x. ord_cmp (route_key x) (route_key r)) rs")
  case (Inl i)
  then have i: "i \<le> length rs" "\<forall>j<i. route_key (rs ! j) < route_key r" "\<forall>j<length rs. i \<le> j \<longrightarrow> route_key r < route_key (rs ! j)"
    using route_search [OF assms, of "route_key r"] by auto
  have "strictly_sorted (insert_at i (route_key r) (map route_key rs))"
    by (rule strictly_sorted_insert_at) (use assms i in \<open>auto simp: routes_sorted_def\<close>)
  then show ?thesis by (simp add: route_insert_def Inl routes_sorted_def map_insert_at)
next
  case (Inr i)
  let ?x = "(rs ! i)\<lparr>ro_backends := ro_backends (rs ! i) @ ro_backends r\<rparr>"
  have i: "i < length rs" using route_search [OF assms, of "route_key r"] Inr by auto
  have x: "route_key ?x = map route_key rs ! i" using i by simp
  have "map route_key (route_insert rs r) = map route_key rs"
    using i by (simp only: route_insert_def Inr sum.case if_True map_update x list_update_id)
  with assms show ?thesis by (simp add: routes_sorted_def)
qed

lemma route_find_insert:
  assumes "routes_sorted rs"
  shows "route_find (route_insert rs r) k = (if k = route_key r
    then Some (case route_find rs k of Some x \<Rightarrow> x\<lparr>ro_backends := ro_backends x @ ro_backends r\<rparr> | None \<Rightarrow> r) else route_find rs k)"
proof (cases "binary_search_by (\<lambda>x. ord_cmp (route_key x) (route_key r)) rs")
  case (Inl i)
  note sorted = route_insert_sorted [OF assms, of r]
  have none: "route_find rs (route_key r) = None" by (simp add: route_find_def Inl)
  have set: "set (route_insert rs r) = insert r (set rs)"
    using set_append [of "take i rs" "drop i rs"] by (simp add: route_insert_def Inl insert_at_def)
  show ?thesis
  proof (cases "k = route_key r")
    case True
    with none set sorted show ?thesis by (simp add: route_find_iff)
  next
    case False
    then have "route_find (route_insert rs r) k = Some x \<longleftrightarrow> route_find rs k = Some x" for x
      using sorted assms set by (auto simp: route_find_iff)
    with False show ?thesis by (metis not_None_eq)
  qed
next
  case (Inr i)
  note sorted = route_insert_sorted [OF assms, of r]
  have i: "i < length rs" "route_key (rs ! i) = route_key r" using route_search [OF assms, of "route_key r"] Inr by auto
  let ?x = "(rs ! i)\<lparr>ro_backends := ro_backends (rs ! i) @ ro_backends r\<rparr>"
  have ins: "route_insert rs r = rs[i := ?x]" using i by (simp add: route_insert_def Inr)
  have have_i: "route_find rs (route_key r) = Some (rs ! i)" using i assms by (simp add: route_find_iff)
  have kx: "route_key ?x = route_key r" using i by simp
  show ?thesis
  proof (cases "k = route_key r")
    case True
    have "route_find (route_insert rs r) k = Some ?x"
      using route_find_iff [OF sorted, of k ?x] i kx True by (simp add: ins set_update_memI)
    with True have_i show ?thesis by simp
  next
    case False
    have "route_find (route_insert rs r) k = Some x \<longleftrightarrow> route_find rs k = Some x" for x
    proof -
      have "x \<in> set (rs[i := ?x]) \<and> route_key x = k \<longleftrightarrow> x \<in> set rs \<and> route_key x = k"
        using i kx False by (auto simp: in_set_conv_nth nth_list_update split: if_splits)
      then show ?thesis using route_find_iff [OF sorted] route_find_iff [OF assms] ins by simp
    qed
    with False show ?thesis by (metis not_None_eq)
  qed
qed

section \<open>Matching a host\<close>

text \<open>The routes of a list for one key become one route with all their backends.\<close>

definition merge_routes :: "route list \<Rightarrow> route option" where
  "merge_routes rs = (case rs of [] \<Rightarrow> None | r # _ \<Rightarrow> Some (r\<lparr>ro_backends := concat (map ro_backends rs)\<rparr>))"

lemma merge_routes_snoc:
  "merge_routes (rs @ [r]) = Some (case merge_routes rs of Some x \<Rightarrow> x\<lparr>ro_backends := ro_backends x @ ro_backends r\<rparr> | None \<Rightarrow> r)"
  by (cases rs) (simp_all add: merge_routes_def)

lemma from_routes_find:
  "routes_sorted (rt_exact (from_routes rs)) \<and> routes_sorted (rt_wildcards (from_routes rs)) \<and>
   route_find (rt_exact (from_routes rs)) k = merge_routes (filter (\<lambda>r. \<not> is_wildcard r \<and> route_key r = k) rs) \<and>
   route_find (rt_wildcards (from_routes rs)) k = merge_routes (filter (\<lambda>r. is_wildcard r \<and> route_key r = k) rs)"
proof (induction rs rule: rev_induct)
  case Nil
  then show ?case
    by (simp add: from_routes_def table_update_def table_new_def routes_sorted_def route_find_def binary_search_by_def merge_routes_def)
next
  case (snoc r rs)
  have "from_routes (rs @ [r]) = add_route (from_routes rs) r" by (simp add: from_routes_def table_update_def)
  with snoc show ?case
    by (auto simp: add_route_def route_insert_sorted route_find_insert merge_routes_snoc)
qed

text \<open>
  C39. The route of a host: for routes whose patterns begin with a star only as \<open>*.domain\<close>, a host (without its
  port) gets the route whose pattern is the host; otherwise the route whose pattern is a star and the rest
  of the host from its first dot; otherwise none.  The route has the backends of all routes with that pattern,
  in their order.
\<close>

theorem route_match:
  assumes "\<forall>r\<in>set rs. take 1 (ro_pattern r) = ''*'' \<longrightarrow> take 2 (ro_pattern r) = ''*.''"
  shows "map_option (\<lambda>r. (ro_pattern r, ro_backends r)) (match_host (from_routes rs) host) =
    (let h = strip_port host; star = CHR ''*'' # dropWhile (\<lambda>c. c \<noteq> CHR ''.'') h;
         all = (\<lambda>p. concat (map ro_backends (filter (\<lambda>r. ro_pattern r = p) rs)))
     in if h \<in> ro_pattern ` set rs \<and> take 1 h \<noteq> ''*'' then Some (h, all h)
        else if CHR ''.'' \<in> set h \<and> star \<in> ro_pattern ` set rs then Some (star, all star)
        else None)"
proof -
  define h where "h = strip_port host"
  define tail where "tail = dropWhile (\<lambda>c. c \<noteq> CHR ''.'') h"
  have dot: "take 1 tail = ''.''" if "CHR ''.'' \<in> set h"
    using that hd_dropWhile [of "\<lambda>c. c \<noteq> CHR ''.''" h] unfolding tail_def
    by (cases "dropWhile (\<lambda>c. c \<noteq> CHR ''.'') h") (auto simp: dropWhile_eq_Nil_conv)
  have wild: "is_wildcard r \<longleftrightarrow> take 1 (ro_pattern r) = ''*''" if "r \<in> set rs" for r
    using assms that by (cases "ro_pattern r") (auto simp: is_wildcard_def)
  have exact: "filter (\<lambda>r. \<not> is_wildcard r \<and> route_key r = h) rs = (if take 1 h \<noteq> ''*'' then filter (\<lambda>r. ro_pattern r = h) rs else [])"
    using wild by (auto simp: route_key_def filter_empty_conv intro!: filter_cong)
  have star: "filter (\<lambda>r. is_wildcard r \<and> route_key r = tail) rs = filter (\<lambda>r. ro_pattern r = CHR ''*'' # tail) rs"
    using wild by (intro filter_cong refl) (auto simp: route_key_def take_Suc_Cons split: list.splits, (metis append_Cons append_Nil append_take_drop_id))
  have merged: "map_option (\<lambda>r. (ro_pattern r, ro_backends r)) (merge_routes (filter (\<lambda>r. ro_pattern r = p) rs)) =
      (if p \<in> ro_pattern ` set rs then Some (p, concat (map ro_backends (filter (\<lambda>r. ro_pattern r = p) rs))) else None)" for p
  proof (cases "filter (\<lambda>r. ro_pattern r = p) rs")
    case Nil
    then show ?thesis by (auto simp: merge_routes_def filter_empty_conv)
  next
    case (Cons r more)
    then have "r \<in> set (filter (\<lambda>r. ro_pattern r = p) rs)" by simp
    then have "r \<in> set rs \<and> ro_pattern r = p" by simp
    with Cons show ?thesis by (auto simp: merge_routes_def)
  qed
  note find = from_routes_find [of rs]
  show ?thesis
    using merged [of h] merged [of "CHR ''*'' # tail"] dot
    by (auto simp: match_host_def Let_def h_def [symmetric] tail_def [symmetric] find exact star merge_routes_def split: option.splits if_splits list.splits)
qed

theorem route_match_witness:
  "map_option (\<lambda>r. (ro_pattern r, ro_backends r)) (match_host (from_routes [route_new ''*.a.b'' [backend_new ''1'']]) ''x.a.b:443'') =
     Some (''*.a.b'', [backend_new ''1''])"
proof -
  have p: "\<forall>r\<in>set [route_new ''*.a.b'' [backend_new ''1'']]. take 1 (ro_pattern r) = ''*'' \<longrightarrow> take 2 (ro_pattern r) = ''*.''"
    by (simp add: route_new_def)
  have h: "strip_port ''x.a.b:443'' = ''x.a.b''" by code_simp
  show ?thesis using route_match [OF p, of "''x.a.b:443''"] unfolding h Let_def by (simp add: route_new_def)
qed

text \<open>A star that no dot follows is not a wildcard, but the table strips it from the key all the same.\<close>

lemma star_without_dot:
  "map_option ro_pattern (match_host (from_routes [route_new ''*web'' [b]]) ''web'') = Some ''*web''"
proof -
  have f: "filter (\<lambda>r. \<not> is_wildcard r \<and> route_key r = ''web'') [route_new ''*web'' [b]] = [route_new ''*web'' [b]]"
    by (simp add: is_wildcard_def route_key_def route_new_def)
  have h: "strip_port ''web'' = ''web''" by code_simp
  show ?thesis using from_routes_find [of "[route_new ''*web'' [b]]" "''web''"] f
    by (simp add: match_host_def h merge_routes_def route_new_def)
qed

section \<open>Round robin\<close>

lemma try_backends_find:
  assumes "bs \<noteq> []"
  shows "try_backends bs start is = map_option (\<lambda>i. bs ! (wrap_add64 start i mod length bs))
    (find (\<lambda>i. be_healthy (bs ! (wrap_add64 start i mod length bs))) is)"
  using assms by (induction "is") (auto simp: Let_def)

text \<open>Where the counter does not wrap, the tries go round all backends.\<close>

lemma tries_reach_all:
  assumes "i < n" "start + n \<le> 2 ^ 64" "0 < n"
  shows "\<exists>k<n. wrap_add64 start k mod n = i"
proof -
  define k where "k = (i + n - start mod n) mod n"
  have "start mod n < n" using assms by simp
  then have "start mod n + (i + n - start mod n) = i + n" by linarith
  then have "(start mod n + (i + n - start mod n)) mod n = i" using assms(1) by simp
  then have "(start + k) mod n = i" unfolding k_def by (metis mod_add_left_eq mod_add_right_eq)
  moreover have "k < n" using assms by (simp add: k_def)
  ultimately show ?thesis using assms(2) by (intro exI [of _ k]) (simp add: wrap_add64_def)
qed

lemma healthy_found:
  assumes "b \<in> set (ro_backends r)" "be_healthy b" "ro_next r + length (ro_backends r) < 2 ^ 64"
  shows "\<exists>b'. fst (healthy_backend r) = Some b' \<and> b' \<in> set (ro_backends r) \<and> be_healthy b'"
proof -
  let ?bs = "ro_backends r" and ?n = "length (ro_backends r)"
  have ne: "?bs \<noteq> []" "0 < ?n" using assms(1) by (auto simp: length_greater_0_conv)
  obtain i where i: "i < ?n" "?bs ! i = b" using assms(1) by (auto simp: in_set_conv_nth)
  have "ro_next r + 1 < 2 ^ 64" using assms(3) ne(2) by linarith
  then have start: "wrap_add64 (ro_next r) 1 = ro_next r + 1" by (simp add: wrap_add64_def)
  obtain k where k: "k < ?n" "wrap_add64 (ro_next r + 1) k mod ?n = i"
    using tries_reach_all [OF i(1), of "ro_next r + 1"] assms(3) ne(2) by auto
  have "find (\<lambda>i. be_healthy (?bs ! (wrap_add64 (ro_next r + 1) i mod ?n))) [0..<?n] \<noteq> None"
    using k i assms(2) by (auto simp: find_None_iff)
  then obtain j where j: "find (\<lambda>i. be_healthy (?bs ! (wrap_add64 (ro_next r + 1) i mod ?n))) [0..<?n] = Some j" by auto
  then have "be_healthy (?bs ! (wrap_add64 (ro_next r + 1) j mod ?n))" by (auto simp: find_Some_iff)
  moreover have "fst (healthy_backend r) = Some (?bs ! (wrap_add64 (ro_next r + 1) j mod ?n))"
    using j try_backends_find [OF ne(1)] ne by (simp add: healthy_backend_def start Let_def del: One_nat_def)
  ultimately show ?thesis using ne by auto
qed

lemma mset_rotate: "mset (rotate k xs) = mset xs"
proof (induction k)
  case (Suc k)
  have "mset (rotate1 ys) = mset ys" for ys :: "'a list" by (cases ys) auto
  with Suc show ?case by simp
qed simp

text \<open>The calls of \<open>k\<close> requests in a row.\<close>

fun picks :: "nat \<Rightarrow> route \<Rightarrow> lb_backend option list" where
  "picks 0 r = []"
| "picks (Suc k) r = (case healthy_backend r of (b, r1) \<Rightarrow> b # picks k r1)"

lemma picks_healthy:
  assumes "list_all be_healthy (ro_backends r)" "ro_backends r \<noteq> []" "ro_next r + k < 2 ^ 64"
  shows "picks k r = map (\<lambda>i. Some (ro_backends r ! ((ro_next r + 1 + i) mod length (ro_backends r)))) [0..<k]"
  using assms
proof (induction k arbitrary: r)
  case (Suc k)
  let ?bs = "ro_backends r"
  have start: "wrap_add64 (ro_next r) 1 = ro_next r + 1" using Suc.prems(3) by (simp add: wrap_add64_def)
  have "\<exists>m. [0..<length ?bs] = 0 # m" using Suc.prems(2) by (cases "length ?bs") (auto simp: upt_rec)
  then have first: "healthy_backend r = (Some (?bs ! ((ro_next r + 1) mod length ?bs)), r\<lparr>ro_next := ro_next r + 1\<rparr>)"
    using Suc.prems by (auto simp: healthy_backend_def start Let_def wrap_add64_def list_all_length)
  have rest: "picks k (r\<lparr>ro_next := ro_next r + 1\<rparr>) =
      map (\<lambda>i. Some (?bs ! ((ro_next r + 1 + Suc i) mod length ?bs))) [0..<k]"
    using Suc.IH [of "r\<lparr>ro_next := ro_next r + 1\<rparr>"] Suc.prems by simp
  show ?case unfolding picks.simps first prod.case rest
    by (simp only: upt_conv_Cons [OF zero_less_Suc] list.map map_Suc_upt [symmetric] map_map comp_def add_0_right)
qed simp

text \<open>
  C40. Round robin is fair: as long as the counter of a route does not wrap, as many requests in a row as there
  are backends, all healthy, go to every backend exactly once; and when some backend is healthy, a request
  gets a healthy one.
\<close>

theorem round_robin_fair:
  assumes "ro_backends r \<noteq> []" "ro_next r + length (ro_backends r) < 2 ^ 64"
  shows "(list_all be_healthy (ro_backends r) \<longrightarrow>
      mset (picks (length (ro_backends r)) r) = mset (map Some (ro_backends r))) \<and>
    (list_ex be_healthy (ro_backends r) \<longrightarrow>
      (\<exists>b. fst (healthy_backend r) = Some b \<and> b \<in> set (ro_backends r) \<and> be_healthy b))"
proof -
  let ?bs = "ro_backends r" and ?n = "length (ro_backends r)"
  have "picks ?n r = map Some (rotate (Suc (ro_next r)) ?bs)" if "list_all be_healthy ?bs"
    using picks_healthy [OF that assms] by (intro nth_equalityI) (simp_all add: nth_rotate add.commute del: rotate_Suc)
  then have "mset (picks ?n r) = mset (map Some ?bs)" if "list_all be_healthy ?bs"
    using that by (simp add: mset_rotate del: rotate_Suc)
  then show ?thesis using healthy_found assms(2) by (auto simp: list_ex_iff)
qed

theorem round_robin_fair_witness:
  "mset (picks 2 (route_new ''a'' [backend_new ''1'', backend_new ''2''])) = mset [Some (backend_new ''1''), Some (backend_new ''2'')]"
proof -
  let ?r = "route_new ''a'' [backend_new ''1'', backend_new ''2'']"
  have "ro_backends ?r \<noteq> []" "ro_next ?r + length (ro_backends ?r) < 2 ^ 64" "list_all be_healthy (ro_backends ?r)"
    "length (ro_backends ?r) = 2" "map Some (ro_backends ?r) = [Some (backend_new ''1''), Some (backend_new ''2'')]"
    by (simp_all add: route_new_def backend_new_def)
  with round_robin_fair [of ?r] show ?thesis by (simp only: simp_thms)
qed

text \<open>
  At the wrap of the counter the tries do not go round: with three backends two of them fall on the first one,
  and the only healthy one is not tried.
\<close>

lemma wrap_misses_backend:
  "fst (healthy_backend \<lparr>ro_pattern = ''a'', ro_backends = [\<lparr>be_address = ''1'', be_healthy = False\<rparr>,
       \<lparr>be_address = ''2'', be_healthy = False\<rparr>, \<lparr>be_address = ''3'', be_healthy = True\<rparr>], ro_next = 2 ^ 64 - 2\<rparr>) = None"
  by code_simp

end
