(* ===== verification/Spec2Isabelle.thy ===== *)
theory Spec2Isabelle
  imports Leader_Properties Lease Agent_Properties Election_Properties Discovery_Properties Lock_Cluster Lock_Volume
    Dns_Answers Dns_Watcher Hoplb_Route
begin

text \<open>
  Hop is an orchestrator for small clusters.  An agent on every node runs the tasks of jobs; one
  agent at a time also leads the cluster: it holds a lease in a shared store, keeps the jobs, decides
  which node runs what and asks the agents to start and stop tasks.  The sources are Rust, under
  \<^verbatim>\<open>src/\<close>; file names below are relative to it.

  \<^bold>\<open>Parts and how they interact.\<close>  The crate \<^verbatim>\<open>types\<close> has the data all parts share: jobs,
  tasks, agents, instants and durations, and their JSON.  \<^verbatim>\<open>leader\<close> is the leader half: it calls
  agents through a transport, receives registrations and heartbeats, and commits its jobs as a
  snapshot.  \<^verbatim>\<open>agent\<close> is the node half: it admits tasks, watches them, restarts them, and runs the
  election loop, which asks an elector who leads.  The elector sends orders to a lease thread
  (\<^verbatim>\<open>agentd\<close>), which owns the lease of the node (\<^verbatim>\<open>discovery\<close>) over a store; one such store is the lock
  server (\<^verbatim>\<open>apps/hoplockserver\<close>), reached over HTTP (\<^verbatim>\<open>store\<close>).  \<^verbatim>\<open>auth\<close> signs and checks requests.  Beside
  the orchestrator stand apps that follow its event stream (\<^verbatim>\<open>hoplib\<close>): a DNS server (\<^verbatim>\<open>apps/hopdns\<close>), which
  answers with the addresses of a job's tasks, and a load balancer (\<^verbatim>\<open>apps/hoplb\<close>), which routes to them.

  \<^bold>\<open>How the model reads.\<close>  A struct is a record, an enum a datatype, a method a function that takes
  and returns the state it borrows.  Unsigned integers are \<^typ>\<open>nat\<close> with saturation and wrap-around
  written out (\<open>sat_add64\<close>, \<open>wrap_add64\<close>), signed ones \<^typ>\<open>int\<close>, bit manipulation is on words.  Texts
  are lists of bytes.  \<^verbatim>\<open>Result\<close> is a sum with the error on the left.  \<open>None\<close> in a \<open>run\<close> is a call that
  gives no result (a loop that goes on, or checked arithmetic that stops the program); where this can
  happen there is a theorem that it does not, or exactly when.  A clock reading is an argument.  What
  is outside the sources is a parameter: the transport to the agents with its world, the queue to
  the lease thread, the store of a lease, the executor's answers, and the standard library's reading
  and showing of floating-point numbers.  Memory allocation does not fail.

  \<^bold>\<open>Shared theories.\<close>  \<open>Prelude\<close>: widths and saturation, sorted lists, the collections of simplification
  rules.  \<open>Types_Map\<close>: \<^verbatim>\<open>types/src/map.rs\<close>, a sorted vector, with the locale \<open>key_map\<close> of a keyed map.
  \<open>Btree_Map\<close>: what is used of the standard ordered map, another instance of \<open>key_map\<close>.  \<open>Outcome\<close>, \<open>Utf8\<close>,
  \<open>Decimal\<close>, \<open>Texts\<close>: results, UTF-8, decimal numerals and operations on texts as the standard library has them.

  \<^bold>\<open>Types.\<close>  \<open>Types_Job\<close>: \<^verbatim>\<open>job.rs\<close>, \<^verbatim>\<open>task.rs\<close>, \<^verbatim>\<open>error.rs\<close>: records, enums and rules.  \<open>Types_Time\<close>:
  \<^verbatim>\<open>time.rs\<close>; every 64-bit instant and duration is read back from its text, and the duration parser
  returns on short texts but can stop on an overflow.  \<open>Json\<close>, \<open>Json_Typing\<close>, \<open>Json_Roundtrip\<close>:
  \<^verbatim>\<open>json.rs\<close>; the parser returns on every input, what it accepts is well formed and within the bounds on
  depth and size, and what is written is read back.  \<open>Types_De\<close>, \<open>Types_Json\<close>: \<^verbatim>\<open>de.rs\<close> and the JSON
  form of a job; every accepted job is well formed, and is read back from what is written.

  \<^bold>\<open>Leader.\<close>  \<open>Leader_Parts\<close> (\<^verbatim>\<open>lib.rs\<close>, \<^verbatim>\<open>transport.rs\<close>, \<^verbatim>\<open>events.rs\<close>, \<^verbatim>\<open>store.rs\<close>), \<open>Leader_State\<close>
  (\<^verbatim>\<open>state.rs\<close>), \<open>Leader_Priority\<close> and \<open>Leader_Dispatch\<close> (\<^verbatim>\<open>dispatch.rs\<close>, \<^verbatim>\<open>health.rs\<close>), \<open>Leader_Update\<close>
  (\<^verbatim>\<open>update.rs\<close>) and \<open>Leader_Persist\<close> (\<^verbatim>\<open>persist.rs\<close>, \<^verbatim>\<open>init.rs\<close>) have the state and every operation;
  \<open>Leader_Reconcile\<close> and \<open>Leader_Requests\<close> the lemmas about a reconcile and about what agents send.
  \<open>Leader_System\<close> is the leader as a step relation: an invariant
  of all reachable states; a reconcile places what is missing and no more, evicts only by priority and
  is silent when nothing is missing.  \<open>Leader_Properties\<close>: registration, liveness, updates and priorities,
  operation by operation.  A snapshot restores the jobs, and loading one is all or nothing.

  \<^bold>\<open>Node.\<close>  \<open>Agent_Parts\<close> (\<^verbatim>\<open>action.rs\<close>, \<^verbatim>\<open>settings.rs\<close>, \<^verbatim>\<open>ids.rs\<close>, \<^verbatim>\<open>health.rs\<close>), \<open>Agent_Node\<close> (\<^verbatim>\<open>node.rs\<close>),
  \<open>Agent_Inv\<close>, \<open>Agent_System\<close>, \<open>Agent_Properties\<close>: an invariant of all reachable states (the executor
  reports the outcome of a start once), what admission
  promises, that crashes and restarts keep the placements the node reports while it knows the jobs, and that ids differ.

  \<^bold>\<open>Who leads.\<close>  \<open>Lease\<close>: \<^verbatim>\<open>leader/src/lease.rs\<close>; the locale \<open>cas_record\<close> states what a store promises, and
  in it any number of claims exclude each other.  \<open>Discovery\<close>, \<open>Discovery_Properties\<close>, \<open>Discovery_Wire\<close>:
  \<^verbatim>\<open>discovery/src\<close> and the lease thread; the second implementation of the lease refines the first on
  every store, so its threads exclude each other too; the lease survives the wire.  \<open>Elector\<close>,
  \<open>Election\<close>, \<open>Election_Properties\<close>: \<^verbatim>\<open>agent/src/elector.rs\<close> and \<^verbatim>\<open>election.rs\<close>; at most one order of a kind is
  out, when a leader steps down, when tasks are stopped and when a node takes over, and how far the
  elector's timer reaches beyond the record in the store.

  \<^bold>\<open>Requests and locks.\<close>  \<open>Sha256\<close>, \<open>Auth\<close>: \<^verbatim>\<open>auth/src\<close>; the streaming hash and MAC (both instances of the
  locale \<open>stream_hash\<close>) equal their standards, and the check of a signature accepts exactly the
  right one.  \<open>Lockserver\<close>: \<^verbatim>\<open>apps/hoplockserver/src\<close>; an accepted key cannot leave the root and is its own clean form.
  \<open>Lock_Volume\<close>: its \<^verbatim>\<open>volume.rs\<close>, the store on a volume with file calls only; it refines the store in memory
  (locale \<open>lock_volume\<close> states the volume's promises) but for calls that fail and for the removal of a torn record, which is no object.  \<open>Hoplock\<close>,
  \<open>Hoplock_Properties\<close>: \<^verbatim>\<open>store/src/hoplock.rs\<close>, the client; \<open>Lock_Cluster\<close> puts lease threads, client and server together:
  any number of them over one server exclude each other, although a handle is here the hash of the lease's text
  and can be seen again.

  \<^bold>\<open>Names and routes.\<close>  \<open>Dns_Wire\<close>, \<open>Dns_Server\<close>, \<open>Dns_Reply\<close>, \<open>Dns_Properties\<close>, \<open>Dns_Answers\<close>: \<^verbatim>\<open>apps/hopdns/src\<close>; replies are
  within their bound and are never answered, a written question is read back,
  and a question for a service is answered with the addresses of the cache, as many as fit, in a message
  that reads.  \<open>Sse\<close>: \<^verbatim>\<open>hoplib/src/sse.rs\<close>; the events of a stream do not depend on how it comes in pieces.
  \<open>Dns_Watcher\<close>: the watcher of a cluster, and that it reads the tasks again within a bound after every event and every failure.
  \<open>Hoplb_Route\<close>: \<^verbatim>\<open>apps/hoplb/src/route.rs\<close>; a lookup finds the route of the host or its one-level wildcard, and backends
  take turns.

  \<^bold>\<open>Loops and bounds.\<close>  Loops are structural or have a measure, except the JSON loops and the hash's
  padding, which are \<^theory_text>\<open>partial_function\<close>s proved to return on every input that can reach them.  No fuel is used.

  \<^bold>\<open>Not modelled, and why.\<close>  The daemons \<^verbatim>\<open>agentd\<close> (but for the lease thread) and \<^verbatim>\<open>agentd-hopos\<close>, \<^verbatim>\<open>runner\<close>,
  \<^verbatim>\<open>hopos-runner\<close>, \<^verbatim>\<open>hostnet\<close>, \<^verbatim>\<open>hop-http\<close>, \<^verbatim>\<open>cli\<close>, the client and the kernel bindings of \<^verbatim>\<open>hoplib\<close>, and the S3 and file stores are
  sockets, processes, threads and kernel calls around the parts above; \<^verbatim>\<open>api\<close> maps HTTP requests to them;
  \<^verbatim>\<open>config\<close> reads a file into settings.  Of the DNS server the flags, the YAML and the sockets, and of the load
  balancer the proxy, its HTTP, its watcher and its metrics are left out; the exporter, the user interface and the
  tunnel stand beside the orchestrator.  The JSON form of a task, and with it the document that an agent hands over
  when it starts again, holds floating-point numbers, whose texts belong to the standard library.
\<close>

end
